(* ===== verification/Prelude.thy ===== *)
theory Prelude
  imports Main "HOL-Library.Word" "HOL-Library.Multiset"
begin

text \<open>
  Prelude: the types, the lemma collections and the generic facts that the component theories
  share. It models no file of the repository by itself; it fixes how the C++ and POSIX notions
  used all over the code are represented.

  \<^item> A \<open>std::uint8_t\<close> is an 8-bit word, a port a 16-bit word, a file descriptor an \<open>int\<close> (the code
    uses \<open>-1\<close> for "no socket"); \<open>std::size_t\<close> counts of things in memory are \<open>nat\<close>, and the code's
    \<open>std::numeric_limits<std::size_t>::max()\<close> is \<open>size_max\<close>. Where a product of sizes can
    wrap (the curl callbacks), the 64-bit word is kept.
  \<^item> A C++ exception is a value of \<open>cpp_exn\<close>: the code distinguishes \<open>catch (const std::exception &)\<close>
    with its \<open>what()\<close> text from \<open>catch (...)\<close>.
  \<^item> The \<open><cctype>\<close> functions are those of the "C" locale, on the bytes of a \<open>std::string\<close>.
\<close>

named_theorems op_defs \<open>definitions of the operations of a component\<close>
named_theorems inv_intros \<open>every operation keeps the invariant of its component\<close>

type_synonym byte = "8 word"
type_synonym u16 = "16 word"
type_synonym u64 = "64 word"
type_synonym fd = int

definition size_max :: nat where
  "size_max = 2 ^ 64 - 1"

datatype cpp_exn = StdException string | OtherException

section \<open>The C locale's character classes\<close>

definition c_isspace :: "char \<Rightarrow> bool" where
  "c_isspace c \<longleftrightarrow> (of_char c :: nat) = 32 \<or> 9 \<le> (of_char c :: nat) \<and> (of_char c :: nat) \<le> 13"

definition c_tolower :: "char \<Rightarrow> char" where
  "c_tolower c =
     (if 65 \<le> (of_char c :: nat) \<and> (of_char c :: nat) \<le> 90 then char_of ((of_char c :: nat) + 32) else c)"

definition c_toupper :: "char \<Rightarrow> char" where
  "c_toupper c =
     (if 97 \<le> (of_char c :: nat) \<and> (of_char c :: nat) \<le> 122 then char_of ((of_char c :: nat) - 32) else c)"

lemma of_char_toupper:
  "(of_char (c_toupper c) :: nat) =
     (if 97 \<le> (of_char c :: nat) \<and> (of_char c :: nat) \<le> 122 then of_char c - 32 else of_char c)"
proof -
  have "((of_char c :: nat) - 32) mod 256 = of_char c - 32"
    by (rule mod_less, use nat_of_char_less_256 [of c] in linarith)
  then show ?thesis
    by (simp add: c_toupper_def)
qed

lemma of_char_tolower:
  "(of_char (c_tolower c) :: nat) =
     (if 65 \<le> (of_char c :: nat) \<and> (of_char c :: nat) \<le> 90 then of_char c + 32 else of_char c)"
  by (auto simp: c_tolower_def)

lemma char_eq_by_code: "(of_char c :: nat) = of_char d \<Longrightarrow> c = d"
  by (metis char_of_char)

lemma c_toupper_idem [simp]: "c_toupper (c_toupper c) = c_toupper c"
  by (rule char_eq_by_code) (simp add: of_char_toupper, linarith)

lemma c_tolower_idem [simp]: "c_tolower (c_tolower c) = c_tolower c"
  by (rule char_eq_by_code) (simp add: of_char_tolower)

lemma c_tolower_toupper [simp]: "c_tolower (c_toupper c) = c_tolower c"
  by (rule char_eq_by_code) (simp add: of_char_tolower of_char_toupper, linarith)

lemma c_isspace_toupper [simp]: "c_isspace (c_toupper c) = c_isspace c"
  by (simp add: c_isspace_def of_char_toupper, linarith)

section \<open>Lists\<close>

lemma append_take_drop_nth_split:
  "i < length xs \<Longrightarrow> xs = take i xs @ xs ! i # drop (Suc i) xs"
  by (simp add: id_take_nth_drop)

lemma mset_filter_partition: "mset (filter P xs) + mset (filter (\<lambda>x. \<not> P x) xs) = mset xs"
  by (induction xs) auto

lemma dropWhile_idem [simp]: "dropWhile P (dropWhile P xs) = dropWhile P xs"
  by (induction xs) auto

lemma dropWhile_map_same:
  "(\<And>x. P (f x) = P x) \<Longrightarrow> dropWhile P (map f xs) = map f (dropWhile P xs)"
  by (induction xs) auto

lemma take_drop_min_length [simp]:
  "take (min n (length xs)) xs = take n xs" "take (min (length xs) n) xs = take n xs"
  "drop (min n (length xs)) xs = drop n xs" "drop (min (length xs) n) xs = drop n xs"
  by (simp_all add: min_def)

text \<open>Replace the first element that satisfies a predicate, or append: the update of a
  \<open>std::find_if\<close> hit, or a \<open>push_back\<close>.\<close>

fun upsert :: "('a \<Rightarrow> bool) \<Rightarrow> ('a \<Rightarrow> 'a) \<Rightarrow> 'a \<Rightarrow> 'a list \<Rightarrow> 'a list" where
  "upsert P f new [] = [new]"
| "upsert P f new (x # xs) = (if P x then f x # xs else x # upsert P f new xs)"

lemma upsert_not_found: "\<forall>x \<in> set xs. \<not> P x \<Longrightarrow> upsert P f new xs = xs @ [new]"
  by (induction xs) auto

lemma find_upsert_same:
  "P new \<Longrightarrow> (\<And>x. P x \<Longrightarrow> P (f x)) \<Longrightarrow>
   find P (upsert P f new xs) = Some (case find P xs of Some x \<Rightarrow> f x | None \<Rightarrow> new)"
  by (induction xs) auto

lemma find_upsert_other:
  "\<not> Q new \<Longrightarrow> (\<And>x. P x \<Longrightarrow> \<not> Q x) \<Longrightarrow> (\<And>x. P x \<Longrightarrow> \<not> Q (f x)) \<Longrightarrow>
   find Q (upsert P f new xs) = find Q xs"
  by (induction xs) auto

lemma map_upsert:
  "(\<And>x. P x \<Longrightarrow> g (f x) = g x) \<Longrightarrow>
   map g (upsert P f new xs) = (if \<exists>x \<in> set xs. P x then map g xs else map g xs @ [g new])"
  by (induction xs) auto

section \<open>Decimal text\<close>

text \<open>\<open>std::to_string\<close> of an unsigned integer, and the value of a digit string.\<close>

fun to_string :: "nat \<Rightarrow> string" where
  "to_string n =
     (if n < 10 then [char_of (48 + n)] else to_string (n div 10) @ [char_of (48 + n mod 10)])"

declare to_string.simps [simp del]

definition dec_value :: "string \<Rightarrow> nat" where
  "dec_value s = foldl (\<lambda>acc c. acc * 10 + (of_char c - 48)) 0 s"

lemma dec_value_snoc: "dec_value (s @ [c]) = dec_value s * 10 + (of_char c - 48)"
  by (simp add: dec_value_def)

lemma dec_value_to_string [simp]: "dec_value (to_string n) = n"
proof (induction n rule: to_string.induct)
  case (1 n)
  have d: "(of_char (char_of (48 + n mod 10) :: char) :: nat) - 48 = n mod 10" for n :: nat
    by simp
  show ?case
  proof (cases "n < 10")
    case True
    then show ?thesis
      using d [of n] by (subst to_string.simps) (simp add: dec_value_def)
  next
    case False
    then show ?thesis
      using 1 d [of n] by (subst to_string.simps) (simp add: dec_value_snoc)
  qed
qed

lemma to_string_inject: "to_string m = to_string n \<Longrightarrow> m = n"
  by (metis dec_value_to_string)

lemma to_string_nonempty [simp]: "to_string n \<noteq> []"
  by (subst to_string.simps) simp

lemma to_string_digits: "c \<in> set (to_string n) \<Longrightarrow> 48 \<le> (of_char c :: nat) \<and> (of_char c :: nat) \<le> 57"
proof (induction n rule: to_string.induct)
  case (1 n)
  have d: "48 \<le> (of_char (char_of (48 + d) :: char) :: nat) \<and> (of_char (char_of (48 + d) :: char) :: nat) \<le> 57"
    if "d < 10" for d :: nat
    using that by simp
  show ?case
  proof (cases "n < 10")
    case True
    then have "c = char_of (48 + n)"
      using "1.prems" by (simp add: to_string.simps [of n])
    then show ?thesis
      using d [OF True] by simp
  next
    case False
    then have "c \<in> set (to_string (n div 10)) \<or> c = char_of (48 + n mod 10)"
      using "1.prems" by (auto simp: to_string.simps [of n])
    then show ?thesis
      using "1.IH" [OF False] d [of "n mod 10"] by auto
  qed
qed

end
