(* ===== verification/Contracts.thy ===== *)
theory Contracts
  imports Prelude
begin

text \<open>
  The interfaces that several components of the code share, as locales: the operations a user calls
  and the laws it relies on. Each is interpreted, in the theory of the component that provides it, on
  the model's own definitions.
\<close>

section \<open>The first-in first-out contract\<close>

text \<open>What a user of a queue relies on, stated once for every queue of the development: the
  thread-safe queue here, and the outbound \<open>std::queue\<close> of the TCP client.\<close>

fun deq_upto :: "('q \<Rightarrow> 'a option \<times> 'q) \<Rightarrow> nat \<Rightarrow> 'q \<Rightarrow> 'a list \<times> 'q" where
  "deq_upto deq 0 q = ([], q)"
| "deq_upto deq (Suc n) q =
     (case deq q of
        (None, q') \<Rightarrow> ([], q')
      | (Some x, q') \<Rightarrow> (case deq_upto deq n q' of (xs, q'') \<Rightarrow> (x # xs, q'')))"

locale fifo =
  fixes enq :: "'a \<Rightarrow> 'q \<Rightarrow> 'q"
    and deq :: "'q \<Rightarrow> 'a option \<times> 'q"
    and contents :: "'q \<Rightarrow> 'a list"
    and invar :: "'q \<Rightarrow> bool"
  assumes contents_enq: "invar q \<Longrightarrow> contents (enq x q) = contents q @ [x]"
    and deq_nothing: "invar q \<Longrightarrow> contents q = [] \<Longrightarrow> deq q = (None, q)"
    and deq_front:
      "invar q \<Longrightarrow> contents q = x # xs \<Longrightarrow> fst (deq q) = Some x \<and> contents (snd (deq q)) = xs"
    and invar_enq: "invar q \<Longrightarrow> invar (enq x q)"
    and invar_deq: "invar q \<Longrightarrow> invar (snd (deq q))"
begin

lemma fold_enq:
  "invar q \<Longrightarrow> contents (fold enq xs q) = contents q @ xs \<and> invar (fold enq xs q)"
  by (induction xs arbitrary: q) (auto simp: contents_enq invar_enq)

lemma deq_upto_contents:
  assumes "invar q"
  shows "fst (deq_upto deq n q) = take n (contents q)
    \<and> contents (snd (deq_upto deq n q)) = drop n (contents q) \<and> invar (snd (deq_upto deq n q))"
  using assms
proof (induction n arbitrary: q)
  case 0
  then show ?case by simp
next
  case (Suc n)
  show ?case
  proof (cases "contents q")
    case Nil
    with Suc.prems show ?thesis by (simp add: deq_nothing)
  next
    case (Cons x xs)
    then obtain q' where q': "deq q = (Some x, q')" "contents q' = xs"
      using deq_front [OF Suc.prems, of x xs] by (metis prod.collapse)
    moreover have "invar q'"
      using invar_deq [OF Suc.prems] q'(1) by simp
    ultimately show ?thesis
      using Suc.IH [of q'] Cons by (auto split: prod.splits)
  qed
qed

lemma fifo_roundtrip:
  "invar q \<Longrightarrow> contents q = [] \<Longrightarrow>
   deq_upto deq (length xs) (fold enq xs q) = (xs, snd (deq_upto deq (length xs) (fold enq xs q)))"
  using deq_upto_contents [of "fold enq xs q" "length xs"] fold_enq [of q xs]
  by (metis append_Nil prod.collapse take_all order_refl)

end

section \<open>The start latch\<close>

text \<open>Every HTTP server reports the outcome of a start to the thread that waits for it through the same
  latch: \<open>resetStartState\<close> arms it, the first \<open>resolveStartIfPending\<close> decides it, later ones only
  update the error text.\<close>

locale start_latch =
  fixes reset :: "'s \<Rightarrow> 's"
    and resolve :: "bool \<Rightarrow> u16 \<Rightarrow> string \<Rightarrow> 's \<Rightarrow> 's"
    and resolved :: "'s \<Rightarrow> bool"
    and succeeded :: "'s \<Rightarrow> bool"
    and port :: "'s \<Rightarrow> u16"
    and error_text :: "'s \<Rightarrow> string"
  assumes reset_pending: "\<not> resolved (reset s) \<and> port (reset s) = 0 \<and> error_text (reset s) = []"
    and resolve_pending: "\<not> resolved s \<Longrightarrow>
      resolved (resolve b p e s) \<and> succeeded (resolve b p e s) = b
      \<and> port (resolve b p e s) = (if b then p else 0) \<and> error_text (resolve b p e s) = e"
    and resolve_again: "resolved s \<Longrightarrow>
      resolved (resolve b p e s) \<and> succeeded (resolve b p e s) = succeeded s
      \<and> port (resolve b p e s) = port s
      \<and> error_text (resolve b p e s) = (if e \<noteq> [] then e else error_text s)"
begin

definition reports :: "(bool \<times> u16 \<times> string) list \<Rightarrow> 's \<Rightarrow> 's" where
  "reports rs s = fold (\<lambda>(b, p, e). resolve b p e) rs s"

lemma reports_Nil [simp]: "reports [] s = s"
  and reports_Cons [simp]: "reports ((b, p, e) # rs) s = reports rs (resolve b p e s)"
  by (simp_all add: reports_def)

lemma reports_resolved:
  "resolved s \<Longrightarrow> resolved (reports rs s) \<and> succeeded (reports rs s) = succeeded s \<and> port (reports rs s) = port s"
  by (induction rs arbitrary: s) (use resolve_again in auto)

lemma first_report_decides:
  "resolved (reports ((b, p, e) # rs) (reset s))
   \<and> succeeded (reports ((b, p, e) # rs) (reset s)) = b
   \<and> port (reports ((b, p, e) # rs) (reset s)) = (if b then p else 0)"
  using reports_resolved [of "resolve b p e (reset s)" rs] resolve_pending [of "reset s" b p e]
    reset_pending [of s] by simp

lemma reports_error_text:
  "resolved s \<Longrightarrow> error_text (reports rs s) =
    (let texts = filter (\<lambda>e. e \<noteq> []) (map (\<lambda>(b, p, e). e) rs)
     in if texts = [] then error_text s else last texts)"
  by (induction rs arbitrary: s) (use resolve_again in \<open>auto simp: Let_def\<close>)

end

end
