(* ===== verification/ThreadQueue.thy ===== *)
theory ThreadQueue
  imports Contracts
begin

text \<open>
  \<open>cThreadQueue_V2<Type>\<close> (\<open>cThreadQueue_V2.h\<close>): a mutex-protected \<open>std::queue\<close> with a cached
  size in an atomic that can be read without the lock. The record has the class's two data members,
  the queue as the list of its elements from front to back. Every method runs its body under
  \<open>m_mutex\<close>, so one definition per method is one atomic step; the last section runs these methods on any
  number of threads, with the store of the size apart and under the rules of C++ for a relaxed atomic, to
  state what a lock-free reader of the cached size can see.
\<close>

section \<open>State and operations\<close>

record 'a cThreadQueue =
  m_queue :: "'a list"
  m_queueSize :: nat

definition tq_new :: "'a cThreadQueue" where
  "tq_new = \<lparr>m_queue = [], m_queueSize = 0\<rparr>"

definition syncCachedSizeLocked :: "'a cThreadQueue \<Rightarrow> 'a cThreadQueue" where
  "syncCachedSizeLocked q = q\<lparr>m_queueSize := length (m_queue q)\<rparr>"

definition tq_clear :: "'a cThreadQueue \<Rightarrow> 'a cThreadQueue" where
  "tq_clear q = q\<lparr>m_queue := [], m_queueSize := 0\<rparr>"

definition tq_push :: "'a \<Rightarrow> 'a cThreadQueue \<Rightarrow> 'a cThreadQueue" where
  "tq_push element q = syncCachedSizeLocked (q\<lparr>m_queue := m_queue q @ [element]\<rparr>)"

text \<open>The loop of the overload that takes a whole \<open>std::queue\<close>: front to back, one at a time.\<close>

fun tq_push_loop :: "'a list \<Rightarrow> 'a list \<Rightarrow> 'a list" where
  "tq_push_loop [] queue = queue"
| "tq_push_loop (x # elements) queue = tq_push_loop elements (queue @ [x])"

definition tq_push_many :: "'a list \<Rightarrow> 'a cThreadQueue \<Rightarrow> 'a cThreadQueue" where
  "tq_push_many elements q =
     (if elements = [] then q
      else syncCachedSizeLocked (q\<lparr>m_queue := tq_push_loop elements (m_queue q)\<rparr>))"

definition tq_emplace :: "('args \<Rightarrow> 'a) \<Rightarrow> 'args \<Rightarrow> 'a cThreadQueue \<Rightarrow> 'a cThreadQueue" where
  "tq_emplace construct args q =
     syncCachedSizeLocked (q\<lparr>m_queue := m_queue q @ [construct args]\<rparr>)"

definition tq_tryGetFront :: "'a cThreadQueue \<Rightarrow> 'a option \<times> 'a cThreadQueue" where
  "tq_tryGetFront q =
     (case m_queue q of
        [] \<Rightarrow> (None, q)
      | x # rest \<Rightarrow> (Some x, syncCachedSizeLocked (q\<lparr>m_queue := rest\<rparr>)))"

text \<open>The overload \<open>bool tryGetFront(Type &element)\<close>: the result, the new value of the
  referenced variable, and the queue.\<close>

definition tq_tryGetFront_into :: "'a \<Rightarrow> 'a cThreadQueue \<Rightarrow> bool \<times> 'a \<times> 'a cThreadQueue" where
  "tq_tryGetFront_into element q =
     (case tq_tryGetFront q of
        (None, q') \<Rightarrow> (False, element, q')
      | (Some x, q') \<Rightarrow> (True, x, q'))"

definition tq_getFront :: "'a cThreadQueue \<Rightarrow> (cpp_exn + 'a) \<times> 'a cThreadQueue" where
  "tq_getFront q =
     (case tq_tryGetFront q of
        (None, q') \<Rightarrow>
          (Inl (StdException ''cThreadQueue_V2::getFront called on an empty queue''), q')
      | (Some x, q') \<Rightarrow> (Inr x, q'))"

text \<open>The loop of \<open>getFront(elementCount)\<close>: remaining count, queue, elements taken so far.\<close>

fun tq_take_loop :: "nat \<Rightarrow> 'a list \<Rightarrow> 'a list \<Rightarrow> 'a list \<times> 'a list" where
  "tq_take_loop (Suc n) (x # queue) elements = tq_take_loop n queue (elements @ [x])"
| "tq_take_loop n queue elements = (elements, queue)"

definition tq_getFrontN :: "nat \<Rightarrow> 'a cThreadQueue \<Rightarrow> 'a list \<times> 'a cThreadQueue" where
  "tq_getFrontN elementCount q =
     (if elementCount = 0 then ([], q)
      else (case tq_take_loop elementCount (m_queue q) [] of
              (elements, rest) \<Rightarrow> (elements, syncCachedSizeLocked (q\<lparr>m_queue := rest\<rparr>))))"

definition tq_getAll :: "'a cThreadQueue \<Rightarrow> 'a list \<times> 'a cThreadQueue" where
  "tq_getAll q = (m_queue q, q\<lparr>m_queue := [], m_queueSize := 0\<rparr>)"

definition tq_size :: "bool \<Rightarrow> 'a cThreadQueue \<Rightarrow> nat" where
  "tq_size useCached q = (if useCached then m_queueSize q else length (m_queue q))"

definition tq_empty :: "bool \<Rightarrow> 'a cThreadQueue \<Rightarrow> bool" where
  "tq_empty useCached q \<longleftrightarrow> tq_size useCached q = 0"

text \<open>\<open>moveFrom\<close> changes both objects: the result is (this, other).\<close>

definition tq_moveFrom ::
  "'a cThreadQueue \<Rightarrow> 'a cThreadQueue \<Rightarrow> 'a cThreadQueue \<times> 'a cThreadQueue" where
  "tq_moveFrom this other =
     (syncCachedSizeLocked (this\<lparr>m_queue := m_queue other\<rparr>),
      other\<lparr>m_queue := [], m_queueSize := 0\<rparr>)"

text \<open>Move construction starts from the default member initialisers; move assignment compares the
  addresses first, so the objects live in a store.\<close>

definition tq_move_construct :: "'a cThreadQueue \<Rightarrow> 'a cThreadQueue \<times> 'a cThreadQueue" where
  "tq_move_construct other = tq_moveFrom tq_new other"

definition tq_move_assign ::
  "nat \<Rightarrow> nat \<Rightarrow> (nat \<Rightarrow> 'a cThreadQueue) \<Rightarrow> (nat \<Rightarrow> 'a cThreadQueue)" where
  "tq_move_assign this other store =
     (if this \<noteq> other
      then (case tq_moveFrom (store this) (store other) of
              (t, o') \<Rightarrow> store(this := t, other := o'))
      else store)"

definition tq_assign_queue :: "'a list \<Rightarrow> 'a cThreadQueue \<Rightarrow> 'a cThreadQueue" where
  "tq_assign_queue queue q = syncCachedSizeLocked (q\<lparr>m_queue := queue\<rparr>)"

lemmas tq_defs [op_defs] =
  tq_new_def syncCachedSizeLocked_def tq_clear_def tq_push_def tq_push_many_def tq_emplace_def
  tq_tryGetFront_def tq_tryGetFront_into_def tq_getFront_def tq_getFrontN_def tq_getAll_def
  tq_size_def tq_empty_def tq_moveFrom_def tq_move_construct_def tq_move_assign_def
  tq_assign_queue_def

section \<open>The loops\<close>

lemma tq_push_loop_append [simp]: "tq_push_loop elements queue = queue @ elements"
  by (induction elements queue rule: tq_push_loop.induct) auto

lemma tq_take_loop_split [simp]:
  "tq_take_loop n queue elements = (elements @ take n queue, drop n queue)"
  by (induction n queue elements rule: tq_take_loop.induct) auto

section \<open>The cached size\<close>

definition tq_inv :: "'a cThreadQueue \<Rightarrow> bool" where
  "tq_inv q \<longleftrightarrow> m_queueSize q = length (m_queue q)"

lemma tq_inv_new [inv_intros]: "tq_inv tq_new"
  and tq_inv_clear [inv_intros]: "tq_inv (tq_clear q)"
  and tq_inv_push [inv_intros]: "tq_inv (tq_push x q)"
  and tq_inv_push_many [inv_intros]: "tq_inv q \<Longrightarrow> tq_inv (tq_push_many xs q)"
  and tq_inv_emplace [inv_intros]: "tq_inv (tq_emplace f a q)"
  and tq_inv_tryGetFront [inv_intros]: "tq_inv q \<Longrightarrow> tq_inv (snd (tq_tryGetFront q))"
  and tq_inv_getFront [inv_intros]: "tq_inv q \<Longrightarrow> tq_inv (snd (tq_getFront q))"
  and tq_inv_getFrontN [inv_intros]: "tq_inv q \<Longrightarrow> tq_inv (snd (tq_getFrontN n q))"
  and tq_inv_getAll [inv_intros]: "tq_inv (snd (tq_getAll q))"
  and tq_inv_assign [inv_intros]: "tq_inv (tq_assign_queue xs q)"
  and tq_inv_moveFrom1 [inv_intros]: "tq_inv (fst (tq_moveFrom q r))"
  and tq_inv_moveFrom2 [inv_intros]: "tq_inv (snd (tq_moveFrom q r))"
  by (auto simp: tq_inv_def tq_defs split: list.splits)

lemma tq_inv_move_assign [inv_intros]:
  "(\<And>a. tq_inv (store a)) \<Longrightarrow> tq_inv (tq_move_assign this other store b)"
  by (auto simp: tq_inv_def tq_defs)

section \<open>The queue keeps the first-in first-out contract\<close>

interpretation tqf: fifo tq_push tq_tryGetFront m_queue tq_inv
  by unfold_locales (auto simp: tq_defs tq_inv_def split: list.splits)

section \<open>Sequences of operations\<close>

text \<open>The operations that move elements, what each brings in, and what leaves the queue: what is
  handed to the caller, and what \<open>clear\<close> and queue assignment destroy.\<close>

datatype 'a tq_op =
    OpPush 'a
  | OpPushMany "'a list"
  | OpEmplace 'a
  | OpTryGetFront
  | OpGetFront
  | OpGetFrontN nat
  | OpGetAll
  | OpClear
  | OpAssign "'a list"

fun tq_entering :: "'a tq_op \<Rightarrow> 'a list" where
  "tq_entering (OpPush x) = [x]"
| "tq_entering (OpPushMany xs) = xs"
| "tq_entering (OpEmplace x) = [x]"
| "tq_entering (OpAssign xs) = xs"
| "tq_entering _ = []"

fun tq_exec :: "'a tq_op \<Rightarrow> 'a cThreadQueue \<Rightarrow> 'a list \<times> 'a cThreadQueue" where
  "tq_exec (OpPush x) q = ([], tq_push x q)"
| "tq_exec (OpPushMany xs) q = ([], tq_push_many xs q)"
| "tq_exec (OpEmplace x) q = ([], tq_emplace id x q)"
| "tq_exec OpTryGetFront q =
     (case tq_tryGetFront q of (None, q') \<Rightarrow> ([], q') | (Some x, q') \<Rightarrow> ([x], q'))"
| "tq_exec OpGetFront q =
     (case tq_getFront q of (Inl e, q') \<Rightarrow> ([], q') | (Inr x, q') \<Rightarrow> ([x], q'))"
| "tq_exec (OpGetFrontN n) q = tq_getFrontN n q"
| "tq_exec OpGetAll q = tq_getAll q"
| "tq_exec OpClear q = (m_queue q, tq_clear q)"
| "tq_exec (OpAssign xs) q = (m_queue q, tq_assign_queue xs q)"

fun tq_run :: "'a tq_op list \<Rightarrow> 'a cThreadQueue \<Rightarrow> 'a list \<times> 'a cThreadQueue" where
  "tq_run [] q = ([], q)"
| "tq_run (op # ops) q =
     (case tq_exec op q of (out, q') \<Rightarrow>
        (case tq_run ops q' of (outs, q'') \<Rightarrow> (out @ outs, q'')))"

lemma tq_exec_conserves:
  "fst (tq_exec op q) @ m_queue (snd (tq_exec op q)) = m_queue q @ tq_entering op"
  by (cases op) (auto simp: tq_defs split: list.splits)

lemma tq_exec_inv [inv_intros]: "tq_inv q \<Longrightarrow> tq_inv (snd (tq_exec op q))"
  by (cases op) (auto simp: tq_defs tq_inv_def split: list.splits)

lemma tq_run_inv [inv_intros]: "tq_inv q \<Longrightarrow> tq_inv (snd (tq_run ops q))"
proof (induction ops arbitrary: q)
  case (Cons op ops)
  then show ?case
    using tq_exec_inv [of q op] by (auto split: prod.splits) (metis snd_conv)
qed simp

lemma tq_run_conserves:
  "fst (tq_run ops q) @ m_queue (snd (tq_run ops q)) = m_queue q @ concat (map tq_entering ops)"
proof (induction ops arbitrary: q)
  case (Cons op ops)
  obtain out q' where e: "tq_exec op q = (out, q')" by fastforce
  obtain outs q'' where r: "tq_run ops q' = (outs, q'')" by fastforce
  have "outs @ m_queue q'' = m_queue q' @ concat (map tq_entering ops)"
    using Cons.IH [of q'] r by simp
  moreover have "out @ m_queue q' = m_queue q @ tq_entering op"
    using tq_exec_conserves [of op q] e by simp
  ultimately show ?case
    using e r by (simp flip: append_assoc) (simp add: append_assoc)
qed simp

section \<open>Critical sections and the lock-free reader\<close>

text \<open>
  \<open>size(true)\<close> and \<open>empty(true)\<close> read \<open>m_queueSize\<close> without the mutex, with a relaxed load. Any number of
  threads (numbered) run the methods of the previous section; a critical section is three steps: take the
  mutex; change \<open>m_queue\<close>; store the size and release. What is changed and stored is what the method itself
  makes of the object. \<open>tq_stores\<close> is the modification order of \<open>m_queueSize\<close>: by the rules of C++ a relaxed
  load answers any value of it that is not older than what the thread has last read or stored
  (\<open>tq_view\<close>), and taking the mutex makes everything stored under it visible. A store of the value already
  there cannot be told from no store and is kept too. \<open>tq_in\<close>, \<open>tq_out\<close> (the elements that entered and
  left), \<open>tq_lengths\<close> (of the queue at the end of each section) and \<open>tq_ended\<close> (the thread's last section)
  are ghosts.
\<close>

record 'a tq_sys =
  tq_obj :: "'a cThreadQueue"
  tq_owner :: "(nat \<times> 'a tq_op \<times> 'a cThreadQueue option) option"
  tq_stores :: "nat list"
  tq_view :: "nat \<Rightarrow> nat"
  tq_answers :: "(nat \<times> nat) list"
  tq_in :: "'a list"
  tq_out :: "'a list"
  tq_lengths :: "nat list"
  tq_ended :: "nat \<Rightarrow> nat"

text \<open>The calls that return before they take the mutex.\<close>

fun tq_locks :: "'a tq_op \<Rightarrow> bool" where
  "tq_locks (OpPushMany xs) \<longleftrightarrow> xs \<noteq> []"
| "tq_locks (OpGetFrontN n) \<longleftrightarrow> n \<noteq> 0"
| "tq_locks _ \<longleftrightarrow> True"

inductive tq_step :: "'a tq_sys \<Rightarrow> 'a tq_sys \<Rightarrow> bool" where
  tq_lock: "tq_owner s = None \<Longrightarrow> tq_locks op \<Longrightarrow>
     tq_step s (s\<lparr>tq_owner := Some (t, op, None), tq_view := (tq_view s)(t := length (tq_stores s) - 1)\<rparr>)"
| tq_change: "tq_owner s = Some (t, op, None) \<Longrightarrow> tq_exec op (tq_obj s) = (out, q) \<Longrightarrow>
     tq_step s (s\<lparr>tq_obj := (tq_obj s)\<lparr>m_queue := m_queue q\<rparr>, tq_owner := Some (t, op, Some q),
                  tq_in := tq_in s @ tq_entering op, tq_out := tq_out s @ out\<rparr>)"
| tq_publish: "tq_owner s = Some (t, op, Some q) \<Longrightarrow>
     tq_step s (s\<lparr>tq_obj := q, tq_owner := None, tq_stores := tq_stores s @ [m_queueSize q],
                  tq_view := (tq_view s)(t := length (tq_stores s)),
                  tq_lengths := tq_lengths s @ [length (m_queue q)],
                  tq_ended := (tq_ended s)(t := length (tq_stores s))\<rparr>)"
| tq_load: "tq_view s t \<le> i \<Longrightarrow> i < length (tq_stores s) \<Longrightarrow>
     tq_step s (s\<lparr>tq_answers := tq_answers s @ [(t, tq_size True ((tq_obj s)\<lparr>m_queueSize := tq_stores s ! i\<rparr>))],
                  tq_view := (tq_view s)(t := i)\<rparr>)"
| tq_locked_size: "tq_owner s = None \<Longrightarrow>
     tq_step s (s\<lparr>tq_answers := tq_answers s @ [(t, tq_size False (tq_obj s))],
                  tq_view := (tq_view s)(t := length (tq_stores s) - 1)\<rparr>)"

definition tq_sys_init :: "'a tq_sys" where
  "tq_sys_init =
     \<lparr>tq_obj = tq_new, tq_owner = None, tq_stores = [m_queueSize (tq_new :: 'a cThreadQueue)], tq_view = (\<lambda>t. 0),
      tq_answers = [], tq_in = [], tq_out = [], tq_lengths = [length (m_queue (tq_new :: 'a cThreadQueue))],
      tq_ended = (\<lambda>t. 0)\<rparr>"

inductive tq_reachable :: "'a tq_sys \<Rightarrow> bool" where
  tq_start: "tq_reachable tq_sys_init"
| tq_next: "tq_reachable s \<Longrightarrow> tq_step s t \<Longrightarrow> tq_reachable t"

definition tq_sys_inv :: "'a tq_sys \<Rightarrow> bool" where
  "tq_sys_inv s \<longleftrightarrow>
     tq_in s = tq_out s @ m_queue (tq_obj s)
     \<and> tq_stores s \<noteq> [] \<and> tq_stores s = tq_lengths s
     \<and> (\<forall>t. tq_ended s t \<le> tq_view s t \<and> tq_view s t < length (tq_stores s))
     \<and> (case tq_owner s of
          Some (t, op, Some q) \<Rightarrow> tq_inv q \<and> m_queue (tq_obj s) = m_queue q
        | _ \<Rightarrow> tq_inv (tq_obj s) \<and> length (m_queue (tq_obj s)) = last (tq_lengths s))
     \<and> (\<forall>(t, n) \<in> set (tq_answers s). n \<in> set (tq_lengths s))"

lemma tq_step_sys_inv [inv_intros]: "tq_step s t \<Longrightarrow> tq_sys_inv s \<Longrightarrow> tq_sys_inv t"
proof (induction rule: tq_step.induct)
  case (tq_change s t op out q)
  have "tq_inv q" using tq_exec_inv [of "tq_obj s" op] tq_change by (simp add: tq_sys_inv_def)
  moreover have "out @ m_queue q = m_queue (tq_obj s) @ tq_entering op"
    using tq_exec_conserves [of op "tq_obj s"] tq_change(2) by simp
  ultimately show ?case using tq_change by (auto simp: tq_sys_inv_def)
next
  case (tq_publish s t op q)
  then show ?case by (auto simp: tq_sys_inv_def tq_inv_def less_Suc_eq dest: less_imp_le)
next
  case (tq_load s t i)
  then have "tq_stores s ! i \<in> set (tq_lengths s)" by (simp add: tq_sys_inv_def)
  moreover have "tq_ended s t \<le> i" using tq_load(1,3) unfolding tq_sys_inv_def by (meson le_trans)
  ultimately show ?case using tq_load by (auto simp: tq_sys_inv_def tq_size_def tq_inv_def split: option.splits)
next
  case (tq_locked_size s t)
  moreover have "tq_ended s t < length (tq_stores s)"
    using tq_locked_size(2) unfolding tq_sys_inv_def by (meson le_less_trans)
  ultimately show ?case by (auto simp: tq_sys_inv_def tq_size_def)
next
  case (tq_lock s op t)
  moreover have "tq_ended s t < length (tq_stores s)"
    using tq_lock(3) unfolding tq_sys_inv_def by (meson le_less_trans)
  ultimately show ?case by (auto simp: tq_sys_inv_def)
qed

lemma tq_reachable_inv: "tq_reachable s \<Longrightarrow> tq_sys_inv s"
proof (induction rule: tq_reachable.induct)
  case tq_start
  show ?case by (simp add: tq_sys_inv_def tq_sys_init_def tq_new_def tq_inv_def)
next
  case (tq_next s t)
  then show ?case by (blast intro: inv_intros)
qed

section \<open>Properties\<close>

text \<open>C12: The queue is first-in first-out over its whole life: whatever sequence of pushes, batch
  pushes, single and counted pops, drains, clears and assignments is run on a new queue, the elements
  that left it followed by those still in it are exactly the elements that entered it, in order; and
  at the end the cached size, the locked size and the number of elements agree.\<close>

theorem tq_history_fifo:
  "(case tq_run ops tq_new of (out, q) \<Rightarrow>
      out @ m_queue q = concat (map tq_entering ops)
      \<and> tq_size True q = length (m_queue q) \<and> tq_size False q = length (m_queue q)
      \<and> (tq_empty True q \<longleftrightarrow> out = concat (map tq_entering ops)))"
proof -
  obtain out q where r: "tq_run ops tq_new = (out, q)" by fastforce
  have c: "out @ m_queue q = concat (map tq_entering ops)"
    using tq_run_conserves [of ops tq_new] r by (simp add: tq_new_def)
  have "tq_inv q"
    using tq_run_inv [OF tq_inv_new, of ops] r by simp
  then show ?thesis
    using r c [symmetric] by (simp add: tq_size_def tq_empty_def tq_inv_def)
qed


text \<open>A thread that has pushed two elements; one that has not yet read may still answer 0.\<close>

lemma tq_two_pushed:
  "\<exists>s :: nat tq_sys. tq_reachable s \<and> tq_owner s = None \<and> tq_in s = [7, 8] \<and> tq_stores s = [0, 2]
     \<and> tq_ended s 3 = 1 \<and> tq_view s 3 = 1 \<and> tq_view s 4 = 0 \<and> m_queue (tq_obj s) = [7, 8]"
proof -
  let ?s0 = "tq_sys_init :: nat tq_sys"
  let ?s1 = "?s0\<lparr>tq_owner := Some (3, OpPushMany [7, 8], None), tq_view := (\<lambda>t. 0)(3 := 0)\<rparr>"
  let ?q = "\<lparr>m_queue = [7, 8], m_queueSize = 2\<rparr> :: nat cThreadQueue"
  let ?s2 = "?s1\<lparr>tq_obj := (tq_obj ?s1)\<lparr>m_queue := [7, 8]\<rparr>,
                 tq_owner := Some (3, OpPushMany [7, 8], Some ?q), tq_in := [7, 8], tq_out := []\<rparr>"
  let ?s3 = "?s2\<lparr>tq_obj := ?q, tq_owner := None, tq_stores := [0, 2], tq_view := (tq_view ?s2)(3 := 1),
                 tq_lengths := [0, 2], tq_ended := (tq_ended ?s2)(3 := 1)\<rparr>"
  have "tq_step ?s0 ?s1"
    using tq_lock [of ?s0 "OpPushMany [7, 8]" 3] by (simp add: tq_sys_init_def tq_new_def)
  moreover have "tq_step ?s1 ?s2"
    using tq_change [of ?s1 3 "OpPushMany [7, 8]" "[]" ?q] by (simp add: tq_sys_init_def tq_defs)
  moreover have "tq_step ?s2 ?s3"
    using tq_publish [of ?s2 3 "OpPushMany [7, 8]" ?q] by (simp add: tq_sys_init_def tq_new_def numeral_2_eq_2)
  ultimately have "tq_reachable ?s3" by (blast intro: tq_reachable.intros)
  then show ?thesis by (intro exI [of _ ?s3]) (simp add: tq_sys_init_def)
qed


text \<open>C40: Counted extraction is repeated single extraction: on a queue whose cached size is in step,
  \<open>getFront(n)\<close> returns the same elements and leaves the same queue (cached size included) as calling
  \<open>tryGetFront()\<close> until it fails or \<open>n\<close> elements were taken.\<close>

theorem tq_getFrontN_is_iterated_tryGetFront:
  assumes "tq_inv q"
  shows "tq_getFrontN n q = deq_upto tq_tryGetFront n q"
proof -
  have d: "fst (deq_upto tq_tryGetFront n q) = take n (m_queue q)"
    "m_queue (snd (deq_upto tq_tryGetFront n q)) = drop n (m_queue q)"
    "tq_inv (snd (deq_upto tq_tryGetFront n q))"
    using tqf.deq_upto_contents [OF assms, of n] by simp_all
  have g: "fst (tq_getFrontN n q) = take n (m_queue q)"
    "m_queue (snd (tq_getFrontN n q)) = drop n (m_queue q)"
    by (simp_all add: tq_defs)
  have "snd (tq_getFrontN n q) = snd (deq_upto tq_tryGetFront n q)"
    using d g tq_inv_getFrontN [OF assms, of n] by (simp add: tq_inv_def)
  then show ?thesis
    using d(1) g(1) by (simp add: prod_eq_iff)
qed

theorem tq_getFrontN_is_iterated_tryGetFront_witness:
  "tq_getFrontN 2 \<lparr>m_queue = [5, 6, 7 :: nat], m_queueSize = 3\<rparr>
     = ([5, 6], \<lparr>m_queue = [7], m_queueSize = 1\<rparr>)"
  using tq_getFrontN_is_iterated_tryGetFront [of "\<lparr>m_queue = [5, 6, 7 :: nat], m_queueSize = 3\<rparr>" 2]
  by (simp add: tq_inv_def tq_defs numeral_2_eq_2)

text \<open>Moving a queue object transfers everything: after move assignment between two different
  objects the target holds the source's elements in order with the matching size and the source is a
  new queue; assigning an object to itself changes nothing; no other object is touched.\<close>

theorem tq_move_assign_transfers:
  "tq_move_assign this other store =
     (if this = other then store
      else store(this := \<lparr>m_queue = m_queue (store other), m_queueSize = length (m_queue (store other))\<rparr>,
                 other := tq_new))"
  by (cases "store this"; cases "store other") (simp add: tq_defs)

end
