(* ===== verification/CondVar.thy ===== *)
theory CondVar
  imports Prelude
begin

text \<open>
  Waiting on a \<open>std::condition_variable\<close>. The calls \<open>wait_for(lock, timeout, pred)\<close> and
  \<open>wait(lock, pred)\<close> of the standard library release the lock, sleep, take the lock again and test
  the predicate. What the other threads do to the protected state while the lock is released is an
  argument: a list of wake-ups, each carrying the change made meanwhile. A wake-up is a
  notification (or a spurious one), or the end of the timeout, after which the predicate is tested
  one last time and the call returns. \<open>None\<close> is a caller still asleep when the list ends.
\<close>

datatype 's wake = Notified "'s \<Rightarrow> 's" | TimedOut "'s \<Rightarrow> 's"

fun cv_wait_for :: "('s \<Rightarrow> bool) \<Rightarrow> 's \<Rightarrow> 's wake list \<Rightarrow> (bool \<times> 's) option" where
  "cv_wait_for P s [] = (if P s then Some (True, s) else None)"
| "cv_wait_for P s (Notified f # ws) = (if P s then Some (True, s) else cv_wait_for P (f s) ws)"
| "cv_wait_for P s (TimedOut f # ws) = (if P s then Some (True, s) else Some (P (f s), f s))"

fun is_timeout :: "'s wake \<Rightarrow> bool" where
  "is_timeout (Notified f) = False"
| "is_timeout (TimedOut f) = True"

fun wake_effect :: "'s wake \<Rightarrow> 's \<Rightarrow> 's" where
  "wake_effect (Notified f) = f"
| "wake_effect (TimedOut f) = f"

lemma cv_wait_for_ready [simp]: "P s \<Longrightarrow> cv_wait_for P s ws = Some (True, s)"
  by (cases ws; cases "hd ws") auto

lemma cv_wait_for_result: "cv_wait_for P s ws = Some (b, t) \<Longrightarrow> b = P t"
  by (induction P s ws rule: cv_wait_for.induct) (auto split: if_splits)

lemma cv_wait_for_returns:
  "\<exists>w \<in> set ws. is_timeout w \<Longrightarrow> \<exists>r. cv_wait_for P s ws = Some r"
  by (induction P s ws rule: cv_wait_for.induct) auto

lemma cv_wait_for_untimed:
  "cv_wait_for P s ws = Some (b, t) \<Longrightarrow> \<forall>w \<in> set ws. \<not> is_timeout w \<Longrightarrow> b \<and> P t"
  by (induction P s ws rule: cv_wait_for.induct) (auto split: if_splits)

text \<open>What every interfering change keeps, the wait keeps.\<close>

lemma cv_wait_for_invariant:
  assumes "cv_wait_for P s ws = Some (b, t)" and "I s"
    and "\<forall>w \<in> set ws. \<forall>u. I u \<longrightarrow> I (wake_effect w u)"
  shows "I t"
  using assms by (induction P s ws rule: cv_wait_for.induct) (auto split: if_splits)

end
