(* ===== verification/SimpleContainer.thy ===== *)
theory SimpleContainer
  imports CondVar Contracts
begin

text \<open>
  \<open>simple_container_V2<T, Container>\<close> (\<open>simple_container_V2.h\<close>): a sequence container behind a
  mutex and a condition variable. The record holds the class's \<open>m_items\<close>, front to back, whatever
  the STL container is (\<open>reserve\<close> and the capacity of a vector have no observable effect and are left
  out). A method that notifies returns which notification it sends beside the new state. The
  selection function is a \<open>std::function\<close>: it may be null (\<open>None\<close>), may keep state of its own, and
  may throw; it is run under the container's lock, so it cannot interleave with another method.
\<close>

section \<open>State and operations\<close>

text \<open>The parameter the code calls \<open>count\<close> is \<open>limit\<close> here (\<open>count\<close> is a constant of multisets).\<close>

record 'a simple_container =
  m_items :: "'a list"

datatype enm_Select = Sel_skip | Sel_grab | Sel_stop | Sel_stop_and_requeue

datatype sc_notify = NotifyNothing | NotifyOne | NotifyAll

type_synonym ('a, 's) fd_SelectionFn = "'a \<Rightarrow> 's \<Rightarrow> (cpp_exn + enm_Select) \<times> 's"

definition sc_new :: "'a simple_container" where
  "sc_new = \<lparr>m_items = []\<rparr>"

definition sc_clear :: "'a simple_container \<Rightarrow> 'a simple_container" where
  "sc_clear c = c\<lparr>m_items := []\<rparr>"

definition insertItemUnlocked :: "'a \<Rightarrow> bool \<Rightarrow> 'a simple_container \<Rightarrow> 'a simple_container" where
  "insertItemUnlocked item insert_back c =
     c\<lparr>m_items := (if insert_back then m_items c @ [item] else item # m_items c)\<rparr>"

definition insertManyUnlocked ::
  "'a list \<Rightarrow> bool \<Rightarrow> 'a simple_container \<Rightarrow> 'a simple_container" where
  "insertManyUnlocked items insert_back c =
     c\<lparr>m_items := (if insert_back then m_items c @ items else items @ m_items c)\<rparr>"

text \<open>The overload for an rvalue container goes through \<open>std::make_move_iterator\<close>: the elements are
  moved one by one and the caller's container keeps its length, holding what the element type leaves
  behind (\<open>moved_from\<close>).\<close>

definition insertManyUnlocked_move ::
  "('a \<Rightarrow> 'a) \<Rightarrow> 'a list \<Rightarrow> bool \<Rightarrow> 'a simple_container \<Rightarrow> 'a list \<times> 'a simple_container" where
  "insertManyUnlocked_move moved_from items insert_back c =
     (map moved_from items,
      c\<lparr>m_items := (if insert_back then m_items c @ items else items @ m_items c)\<rparr>)"

definition sc_insert ::
  "'a \<Rightarrow> bool \<Rightarrow> 'a simple_container \<Rightarrow> sc_notify \<times> 'a simple_container" where
  "sc_insert item insert_back c = (NotifyOne, insertItemUnlocked item insert_back c)"

definition sc_insert_move ::
  "('a \<Rightarrow> 'a) \<Rightarrow> 'a list \<Rightarrow> bool \<Rightarrow> 'a simple_container
     \<Rightarrow> sc_notify \<times> 'a list \<times> 'a simple_container" where
  "sc_insert_move moved_from items insert_back c =
     (if items = [] then (NotifyNothing, items, c)
      else (NotifyOne, insertManyUnlocked_move moved_from items insert_back c))"

definition sc_insert_copy ::
  "'a list \<Rightarrow> bool \<Rightarrow> 'a simple_container \<Rightarrow> sc_notify \<times> 'a simple_container" where
  "sc_insert_copy items insert_back c =
     (if items = [] then (NotifyNothing, c)
      else (NotifyOne, insertManyUnlocked items insert_back c))"

definition requeueUnlocked ::
  "'a list \<Rightarrow> bool \<Rightarrow> 'a simple_container \<Rightarrow> 'a simple_container" where
  "requeueUnlocked items insert_back c =
     (if items = [] then c else insertManyUnlocked items insert_back c)"

definition grabItemsUnlocked :: "nat \<Rightarrow> 'a simple_container \<Rightarrow> 'a list \<times> 'a simple_container" where
  "grabItemsUnlocked limit c =
     (let actualCount = min limit (length (m_items c)) in
      (take actualCount (m_items c), c\<lparr>m_items := drop actualCount (m_items c)\<rparr>))"

definition sc_grab :: "nat \<Rightarrow> 'a simple_container \<Rightarrow> 'a list \<times> 'a simple_container" where
  "sc_grab limit c = grabItemsUnlocked limit c"

definition sc_grab_timed ::
  "nat \<Rightarrow> 'a simple_container \<Rightarrow> 'a simple_container wake list
     \<Rightarrow> ('a list \<times> 'a simple_container) option" where
  "sc_grab_timed limit c wakes =
     (case cv_wait_for (\<lambda>c. m_items c \<noteq> []) c wakes of
        None \<Rightarrow> None
      | Some (_, c') \<Rightarrow> Some (if m_items c' = [] then ([], c') else grabItemsUnlocked limit c'))"

text \<open>\<open>std::advance(begin, min(offset, size))\<close>: the items before the iterator and those from it.\<close>

definition advanceIteratorUnlocked :: "nat \<Rightarrow> 'a simple_container \<Rightarrow> 'a list \<times> 'a list" where
  "advanceIteratorUnlocked offset c =
     (let i = min offset (length (m_items c)) in (take i (m_items c), drop i (m_items c)))"

text \<open>
  The loop of the selecting \<open>grab\<close>: \<open>kept\<close> are the items before \<open>current\<close>, the list argument those
  from \<open>current\<close> on, \<open>ret\<close> is \<open>returnContainer\<close>. The result is what the call returns or throws, the
  container, and the selection function's state. A throwing selection function unwinds through
  \<open>returnContainer\<close>, whose elements are destroyed.
\<close>

fun sc_select_loop ::
  "('a, 's) fd_SelectionFn \<Rightarrow> nat \<Rightarrow> 'a list \<Rightarrow> 'a list \<Rightarrow> 'a list \<Rightarrow> 's
     \<Rightarrow> (cpp_exn + 'a list) \<times> 'a simple_container \<times> 's" where
  "sc_select_loop fn limit ret kept [] st = (Inr ret, \<lparr>m_items = kept\<rparr>, st)"
| "sc_select_loop fn limit ret kept (x # xs) st =
     (case fn x st of
        (Inl e, st') \<Rightarrow> (Inl e, \<lparr>m_items = kept @ x # xs\<rparr>, st')
      | (Inr Sel_stop_and_requeue, st') \<Rightarrow>
          (Inr [], requeueUnlocked ret True \<lparr>m_items = kept @ x # xs\<rparr>, st')
      | (Inr Sel_stop, st') \<Rightarrow> (Inr ret, \<lparr>m_items = kept @ x # xs\<rparr>, st')
      | (Inr Sel_grab, st') \<Rightarrow>
          (if limit \<le> length (ret @ [x]) then (Inr (ret @ [x]), \<lparr>m_items = kept @ xs\<rparr>, st')
           else sc_select_loop fn limit (ret @ [x]) kept xs st')
      | (Inr Sel_skip, st') \<Rightarrow> sc_select_loop fn limit ret (kept @ [x]) xs st')"

definition sc_grab_select ::
  "nat \<Rightarrow> ('a, 's) fd_SelectionFn option \<Rightarrow> nat \<Rightarrow> 'a simple_container \<Rightarrow> 's
     \<Rightarrow> (cpp_exn + 'a list) \<times> 'a simple_container \<times> 's" where
  "sc_grab_select limit fn offset c st =
     (case fn of
        None \<Rightarrow> (Inr [], c, st)
      | Some f \<Rightarrow>
          (if limit = 0 then (Inr [], c, st)
           else (case advanceIteratorUnlocked offset c of
                   (before, from) \<Rightarrow> sc_select_loop f limit [] before from st)))"

definition sc_grab_fn ::
  "('a, 's) fd_SelectionFn option \<Rightarrow> 'a simple_container \<Rightarrow> 's
     \<Rightarrow> (cpp_exn + 'a list) \<times> 'a simple_container \<times> 's" where
  "sc_grab_fn fn c st = sc_grab_select size_max fn 0 c st"

definition sc_grab_count_fn ::
  "nat \<Rightarrow> ('a, 's) fd_SelectionFn option \<Rightarrow> 'a simple_container \<Rightarrow> 's
     \<Rightarrow> (cpp_exn + 'a list) \<times> 'a simple_container \<times> 's" where
  "sc_grab_count_fn limit fn c st = sc_grab_select limit fn 0 c st"

definition sc_grab_fn_offset ::
  "('a, 's) fd_SelectionFn option \<Rightarrow> nat \<Rightarrow> 'a simple_container \<Rightarrow> 's
     \<Rightarrow> (cpp_exn + 'a list) \<times> 'a simple_container \<times> 's" where
  "sc_grab_fn_offset fn offset c st = sc_grab_select size_max fn offset c st"

fun sc_snapshot_loop :: "nat \<Rightarrow> 'a list \<Rightarrow> 'a list \<Rightarrow> 'a list" where
  "sc_snapshot_loop limit result [] = result"
| "sc_snapshot_loop limit result (x # xs) =
     (if length result < limit then sc_snapshot_loop limit (result @ [x]) xs else result)"

definition sc_snapshot :: "nat \<Rightarrow> nat \<Rightarrow> 'a simple_container \<Rightarrow> 'a list" where
  "sc_snapshot limit offset c = sc_snapshot_loop limit [] (snd (advanceIteratorUnlocked offset c))"

definition sc_empty :: "'a simple_container \<Rightarrow> bool" where
  "sc_empty c \<longleftrightarrow> m_items c = []"

definition sc_size :: "'a simple_container \<Rightarrow> nat" where
  "sc_size c = length (m_items c)"

lemmas sc_defs [op_defs] =
  sc_new_def sc_clear_def insertItemUnlocked_def insertManyUnlocked_def insertManyUnlocked_move_def
  sc_insert_def sc_insert_move_def sc_insert_copy_def requeueUnlocked_def grabItemsUnlocked_def
  sc_grab_def sc_grab_timed_def advanceIteratorUnlocked_def sc_grab_select_def sc_grab_fn_def
  sc_grab_count_fn_def sc_grab_fn_offset_def sc_snapshot_def sc_empty_def sc_size_def

section \<open>The loops\<close>

lemma sc_snapshot_loop_take:
  "length result \<le> limit \<Longrightarrow>
   sc_snapshot_loop limit result xs = result @ take (limit - length result) xs"
proof (induction limit result xs rule: sc_snapshot_loop.induct)
  case (2 limit result x xs)
  show ?case
  proof (cases "length result < limit")
    case True
    then have "limit - length result = Suc (limit - Suc (length result))" by simp
    with 2 True show ?thesis by simp
  qed (use 2 in simp)
qed simp

text \<open>Nothing is lost unless the selection function throws; nothing is ever made up.\<close>

definition sc_conserved :: "'a multiset \<Rightarrow> (cpp_exn + 'a list) \<times> 'a simple_container \<times> 's \<Rightarrow> bool" where
  "sc_conserved M r =
     (case r of
        (Inr ret, c, _) \<Rightarrow> mset ret + mset (m_items c) = M
      | (Inl _, c, _) \<Rightarrow> mset (m_items c) \<subseteq># M)"

lemma sc_select_loop_conserves:
  "sc_conserved (mset ret + mset kept + mset xs) (sc_select_loop fn limit ret kept xs st)"
proof (induction fn limit ret kept xs st rule: sc_select_loop.induct)
  case (2 fn limit ret kept x xs st)
  obtain r st' where f: "fn x st = (r, st')" by fastforce
  show ?case
  proof (cases r)
    case (Inl e)
    then show ?thesis by (simp add: f sc_conserved_def)
  next
    case (Inr sel)
    then show ?thesis
      using 2 f by (cases sel) (auto simp: sc_conserved_def requeueUnlocked_def insertManyUnlocked_def)
  qed
qed (simp add: sc_conserved_def)

text \<open>At most \<open>limit\<close> (the source's \<open>count\<close>) items are returned.\<close>

lemma sc_select_loop_bound:
  "length ret < limit \<Longrightarrow>
   (case fst (sc_select_loop fn limit ret kept xs st) of Inr r \<Rightarrow> length r \<le> limit | Inl _ \<Rightarrow> True)"
proof (induction fn limit ret kept xs st rule: sc_select_loop.induct)
  case (2 fn limit ret kept x xs st)
  obtain r st' where f: "fn x st = (r, st')" by fastforce
  then show ?case
    using 2 by (cases r) (auto split: enm_Select.splits)
qed simp

text \<open>A stateless selection function, as in the test-suite and the examples.\<close>

definition sc_pure :: "('a \<Rightarrow> enm_Select) \<Rightarrow> ('a, unit) fd_SelectionFn" where
  "sc_pure f = (\<lambda>x st. (Inr (f x), st))"

text \<open>The first \<open>n\<close> items that satisfy a predicate, and what remains without them.\<close>

fun remove_first :: "nat \<Rightarrow> ('a \<Rightarrow> bool) \<Rightarrow> 'a list \<Rightarrow> 'a list" where
  "remove_first 0 P xs = xs"
| "remove_first n P [] = []"
| "remove_first (Suc n) P (x # xs) =
     (if P x then remove_first n P xs else x # remove_first (Suc n) P xs)"

lemma sc_select_loop_filter:
  assumes "length ret < limit"
  shows "sc_select_loop (sc_pure (\<lambda>x. if P x then Sel_grab else Sel_skip)) limit ret kept xs () =
     (Inr (ret @ take (limit - length ret) (filter P xs)),
      \<lparr>m_items = kept @ remove_first (limit - length ret) P xs\<rparr>, ())"
  using assms
proof (induction xs arbitrary: ret kept)
  case Nil
  then show ?case by (cases "limit - length ret") auto
next
  case (Cons x xs)
  have m: "limit - length ret = Suc (limit - Suc (length ret))"
    using Cons.prems by simp
  show ?case
  proof (cases "P x \<and> length ret + 1 < limit")
    case True
    then show ?thesis
      using Cons.IH [of "ret @ [x]" kept] m by (auto simp: sc_pure_def)
  next
    case False
    then show ?thesis
      using Cons.IH [of ret "kept @ [x]"] Cons.prems m by (auto simp: sc_pure_def)
  qed
qed

lemma sc_select_loop_requeue:
  assumes "length ret + length (filter (\<lambda>x. f x = Sel_grab) pre) < limit"
    and "\<forall>x \<in> set pre. f x = Sel_grab \<or> f x = Sel_skip" and "f y = Sel_stop_and_requeue"
  shows "sc_select_loop (sc_pure f) limit ret kept (pre @ y # post) () =
     (Inr [], \<lparr>m_items = kept @ filter (\<lambda>x. f x = Sel_skip) pre @ y # post
                      @ ret @ filter (\<lambda>x. f x = Sel_grab) pre\<rparr>, ())"
  using assms
proof (induction pre arbitrary: ret kept)
  case Nil
  then show ?case by (simp add: sc_pure_def requeueUnlocked_def insertManyUnlocked_def)
next
  case (Cons x pre)
  show ?case
  proof (cases "f x")
    case Sel_grab
    then show ?thesis
      using Cons.IH [of "ret @ [x]" kept] Cons.prems by (auto simp: sc_pure_def)
  next
    case Sel_skip
    then show ?thesis
      using Cons.IH [of ret "kept @ [x]"] Cons.prems by (auto simp: sc_pure_def)
  qed (use Cons.prems in auto)
qed

text \<open>What lies before the offset is never looked at.\<close>

lemma sc_select_loop_kept:
  "\<exists>ys. m_items (fst (snd (sc_select_loop fn limit ret kept xs st))) = kept @ ys"
proof (induction fn limit ret kept xs st rule: sc_select_loop.induct)
  case (2 fn limit ret kept x xs st)
  obtain r st' where f: "fn x st = (r, st')" by fastforce
  show ?case
  proof (cases r)
    case (Inr sel)
    then show ?thesis
      using 2 f by (cases sel) (fastforce simp: requeueUnlocked_def insertManyUnlocked_def)+
  qed (simp add: f)
qed simp

section \<open>The container used as a queue\<close>

definition sc_pop :: "'a simple_container \<Rightarrow> 'a option \<times> 'a simple_container" where
  "sc_pop c = (case sc_grab 1 c of (xs, c') \<Rightarrow> (case xs of [] \<Rightarrow> None | x # _ \<Rightarrow> Some x, c'))"

interpretation scf: fifo "\<lambda>x c. snd (sc_insert x True c)" sc_pop m_items "\<lambda>_. True"
  by unfold_locales (auto simp: sc_pop_def sc_defs Let_def split: list.splits)

section \<open>Properties\<close>

text \<open>C33: Selective extraction conserves the items: whatever the selection function answers, and
  whether it keeps state or throws, the items returned together with those left are exactly those
  that were there (none duplicated, none invented; after a throw none invented), at most the requested
  number is returned, and the items before the offset stay where they were.\<close>

theorem sc_grab_select_conserves:
  "sc_conserved (mset (m_items c)) (sc_grab_select limit fn offset c st)
   \<and> (case fst (sc_grab_select limit fn offset c st) of Inr r \<Rightarrow> length r \<le> limit | Inl _ \<Rightarrow> True)
   \<and> take offset (m_items (fst (snd (sc_grab_select limit fn offset c st)))) = take offset (m_items c)"
proof (cases "fn = None \<or> limit = 0")
  case True
  then show ?thesis
    by (auto simp: sc_grab_select_def sc_conserved_def split: option.splits)
next
  case False
  then obtain f where fn: "fn = Some f" and l: "0 < limit" by auto
  let ?b = "take offset (m_items c)" and ?a = "drop offset (m_items c)"
  have g: "sc_grab_select limit fn offset c st = sc_select_loop f limit [] ?b ?a st"
    using l by (simp add: fn sc_grab_select_def advanceIteratorUnlocked_def Let_def)
  have m: "mset (m_items c) = mset [] + mset ?b + mset ?a"
    by (simp flip: mset_append)
  obtain ys where ys: "m_items (fst (snd (sc_select_loop f limit [] ?b ?a st))) = ?b @ ys"
    using sc_select_loop_kept [of f limit "[]" ?b ?a st] by (rule exE)
  have ys': "length (m_items c) < offset \<Longrightarrow> ys = []"
    using ys by simp
  have "take offset (?b @ ys) = ?b"
    using ys' by (cases "offset \<le> length (m_items c)") auto
  then show ?thesis
    using sc_select_loop_conserves [of "[]" ?b ?a f limit st]
      sc_select_loop_bound [of "[]" limit f ?b ?a st] l
    unfolding g m ys by simp
qed

text \<open>A stateless predicate used as selection function extracts, in order, the first \<open>limit\<close>
  matching items at or after the offset, and leaves every other item in its place.\<close>

theorem sc_grab_select_filter:
  "sc_grab_select limit (Some (sc_pure (\<lambda>x. if P x then Sel_grab else Sel_skip))) offset c () =
     (Inr (take limit (filter P (drop offset (m_items c)))),
      c\<lparr>m_items := take offset (m_items c) @ remove_first limit P (drop offset (m_items c))\<rparr>, ())"
  by (cases c) (simp add: sc_grab_select_def advanceIteratorUnlocked_def Let_def sc_select_loop_filter)

text \<open>\<open>stop_and_requeue\<close> returns nothing and loses nothing, but it does not put the items grabbed
  so far back in their places: they go to the end of the container, after the item that stopped the
  scan and everything behind it.\<close>

theorem sc_stop_and_requeue_moves_to_back:
  assumes "m_items c = pre @ y # post"
    and "length (filter (\<lambda>x. f x = Sel_grab) pre) < limit"
    and "\<forall>x \<in> set pre. f x = Sel_grab \<or> f x = Sel_skip" and "f y = Sel_stop_and_requeue"
  shows "sc_grab_select limit (Some (sc_pure f)) 0 c () =
     (Inr [], \<lparr>m_items = filter (\<lambda>x. f x = Sel_skip) pre @ y # post
                      @ filter (\<lambda>x. f x = Sel_grab) pre\<rparr>, ())"
  using sc_select_loop_requeue [of "[]" f pre limit y "[]" post] assms
  by (simp add: sc_grab_select_def advanceIteratorUnlocked_def)

theorem sc_stop_and_requeue_moves_to_back_witness:
  "sc_grab_select 10 (Some (sc_pure (\<lambda>v :: int. if v \<le> 2 then Sel_grab
       else if v = 3 then Sel_stop_and_requeue else Sel_skip))) 0 \<lparr>m_items = [1, 2, 3, 4]\<rparr> ()
   = (Inr [], \<lparr>m_items = [3, 4, 1, 2]\<rparr>, ())"
  using sc_stop_and_requeue_moves_to_back [of "\<lparr>m_items = [1, 2, 3, 4 :: int]\<rparr>" "[1, 2]" 3 "[4]"
      "\<lambda>v. if v \<le> 2 then Sel_grab else if v = 3 then Sel_stop_and_requeue else Sel_skip" 10]
  by simp

text \<open>A timed \<open>grab\<close> that returns took, in order, the front of the container as it stood when the
  wait ended, and left the rest; it comes back empty-handed only if the container was empty at that
  moment or no item was asked for. It always returns once its timeout fires.\<close>

theorem sc_grab_timed_takes_front:
  "(\<forall>r c'. sc_grab_timed limit c wakes = Some (r, c') \<longrightarrow>
      (\<exists>t. cv_wait_for (\<lambda>c. m_items c \<noteq> []) c wakes = Some (m_items t \<noteq> [], t)
         \<and> r = take limit (m_items t) \<and> m_items c' = drop limit (m_items t)
         \<and> (r = [] \<longleftrightarrow> sc_empty t \<or> limit = 0)))
   \<and> ((\<exists>w \<in> set wakes. is_timeout w) \<longrightarrow> (\<exists>r. sc_grab_timed limit c wakes = Some r))"
proof (intro conjI allI impI)
  fix r c'
  assume g: "sc_grab_timed limit c wakes = Some (r, c')"
  then obtain b t where t: "cv_wait_for (\<lambda>c. m_items c \<noteq> []) c wakes = Some (b, t)"
    by (auto simp: sc_grab_timed_def split: option.splits)
  have t': "cv_wait_for (\<lambda>c. m_items c \<noteq> []) c wakes = Some (m_items t \<noteq> [], t)"
    using t cv_wait_for_result [OF t] by simp
  have r1: "r = take limit (m_items t)" and r2: "m_items c' = drop limit (m_items t)"
    using g unfolding sc_grab_timed_def t
    by (auto simp: grabItemsUnlocked_def Let_def split: if_splits)
  have r3: "r = [] \<longleftrightarrow> sc_empty t \<or> limit = 0"
    unfolding r1 by (auto simp: sc_empty_def)
  show "\<exists>t. cv_wait_for (\<lambda>c. m_items c \<noteq> []) c wakes = Some (m_items t \<noteq> [], t)
         \<and> r = take limit (m_items t) \<and> m_items c' = drop limit (m_items t)
         \<and> (r = [] \<longleftrightarrow> sc_empty t \<or> limit = 0)"
    by (intro exI [of _ t] conjI t' r1 r2 r3)
next
  assume "\<exists>w \<in> set wakes. is_timeout w"
  from cv_wait_for_returns [OF this, of "\<lambda>c. m_items c \<noteq> []" c]
  obtain x where "cv_wait_for (\<lambda>c. m_items c \<noteq> []) c wakes = Some x" by (rule exE)
  then show "\<exists>r. sc_grab_timed limit c wakes = Some r"
    by (cases x) (simp add: sc_grab_timed_def)
qed

theorem sc_grab_timed_takes_front_witness:
  "sc_grab_timed 1 sc_new [Notified (\<lambda>c. snd (sc_insert (99 :: nat) True c)), TimedOut id]
     = Some ([99], sc_new)
   \<and> (\<exists>t. cv_wait_for (\<lambda>c. m_items c \<noteq> []) sc_new
          [Notified (\<lambda>c. snd (sc_insert (99 :: nat) True c)), TimedOut id] = Some (m_items t \<noteq> [], t)
       \<and> [99] = take 1 (m_items t))"
proof -
  let ?w = "[Notified (\<lambda>c. snd (sc_insert (99 :: nat) True c)), TimedOut id]"
  have g: "sc_grab_timed 1 sc_new ?w = Some ([99], sc_new)"
    by (simp add: sc_defs Let_def)
  then show ?thesis
    using sc_grab_timed_takes_front [of 1 sc_new ?w] by blast
qed

text \<open>Batch insertion keeps the batch together and in order at either end: grabbing as many items
  back from the end they were put at the front returns the batch and restores the container, and a
  snapshot of what was appended is the batch.\<close>

theorem sc_insert_copy_roundtrip:
  "sc_grab (length items) (snd (sc_insert_copy items False c)) = (items, c)
   \<and> sc_snapshot (length items) (sc_size c) (snd (sc_insert_copy items True c)) = items
   \<and> sc_snapshot limit offset c = take limit (drop offset (m_items c))"
proof (intro conjI)
  show "sc_grab (length items) (snd (sc_insert_copy items False c)) = (items, c)"
    by (cases c)
      (simp add: sc_grab_def grabItemsUnlocked_def sc_insert_copy_def insertManyUnlocked_def Let_def)
  have snap: "sc_snapshot n i d = take n (drop i (m_items d))" for n i and d :: "'a simple_container"
    by (simp add: sc_snapshot_def advanceIteratorUnlocked_def Let_def sc_snapshot_loop_take)
  show "sc_snapshot (length items) (sc_size c) (snd (sc_insert_copy items True c)) = items"
    by (simp add: snap sc_size_def sc_insert_copy_def insertManyUnlocked_def)
  show "sc_snapshot limit offset c = take limit (drop offset (m_items c))"
    by (rule snap)
qed

text \<open>A selection function that throws destroys what was grabbed before it: the items already
  moved to the result are in neither the container nor the caller's hands afterwards.\<close>

theorem sc_throw_drops_grabbed:
  assumes "m_items c = pre @ y # post" and "length pre < limit"
    and "\<forall>x \<in> set pre. fn x st = (Inr Sel_grab, st)" and "fn y st = (Inl e, st)"
  shows "sc_grab_select limit (Some fn) 0 c st = (Inl e, \<lparr>m_items = y # post\<rparr>, st)"
proof -
  have "sc_select_loop fn limit ret [] (pre @ y # post) st = (Inl e, \<lparr>m_items = y # post\<rparr>, st)"
    if "length ret + length pre < limit" for ret
    using that assms(3) by (induction pre arbitrary: ret) (auto simp: assms(4))
  from this [of "[]"] show ?thesis
    using assms(1,2) by (simp add: sc_grab_select_def advanceIteratorUnlocked_def)
qed

theorem sc_throw_drops_grabbed_witness:
  "sc_grab_select 10 (Some (\<lambda>v :: nat. \<lambda>st. (if v = 3 then Inl OtherException else Inr Sel_grab, st))) 0
     \<lparr>m_items = [1, 2, 3]\<rparr> () = (Inl OtherException, \<lparr>m_items = [3]\<rparr>, ())"
  using sc_throw_drops_grabbed [of "\<lparr>m_items = [1, 2, 3 :: nat]\<rparr>" "[1, 2]" 3 "[]" 10
      "\<lambda>v st. (if v = 3 then Inl OtherException else Inr Sel_grab, st)" "()" OtherException]
  by simp

end
