(* ===== verification/BaseWorker.thy ===== *)
theory BaseWorker
  imports CondVar
begin

text \<open>
  \<open>cBaseWorker_V2\<close> (\<open>cBaseWorker_V2.h\<close>), the base class of every background worker: a thread with a
  lifecycle state, a cooperative stop flag, the last unhandled exception, and a heartbeat.

  The first part has one definition per method, each critical section under \<open>m_stateMutex\<close> (or
  \<open>m_heartBeatMutex\<close>) being one function on the object; calls that wait take the wake-ups of
  \<open>CondVar\<close>. The virtual hooks \<open>preRun\<close>, \<open>run\<close> and \<open>stopTriggered\<close> belong to the derived classes:
  what they return or throw is an argument. \<open>BaseWorkerThreads\<close> puts the critical sections of any
  number of controlling threads and of the worker thread into one step relation.
\<close>

section \<open>State\<close>

datatype enm_State = St_Unknown | St_Starting | St_Running | St_Stopping | St_Stopped

fun state_code :: "enm_State \<Rightarrow> nat" where
  "state_code St_Unknown = 0"
| "state_code St_Starting = 1"
| "state_code St_Running = 2"
| "state_code St_Stopping = 3"
| "state_code St_Stopped = 4"

lemma state_code_inject: "state_code a = state_code b \<Longrightarrow> a = b"
  by (cases a; cases b) auto

text \<open>The enumerators are ordered by their underlying \<open>std::uint8_t\<close> values.\<close>

instantiation enm_State :: linorder
begin

definition less_eq_enm_State :: "enm_State \<Rightarrow> enm_State \<Rightarrow> bool" where
  "less_eq_enm_State a b \<longleftrightarrow> state_code a \<le> state_code b"

definition less_enm_State :: "enm_State \<Rightarrow> enm_State \<Rightarrow> bool" where
  "less_enm_State a b \<longleftrightarrow> state_code a < state_code b"

instance
  by standard (auto simp: less_eq_enm_State_def less_enm_State_def intro: state_code_inject)

end

text \<open>Time points are ticks of the steady clock, durations milliseconds, both signed. \<open>m_thread\<close> is the
  joinable thread the object owns, by number. \<open>m_lastUnhandledException\<close> is a \<open>std::exception_ptr\<close>.\<close>

record base_worker =
  m_thread :: "nat option"
  m_stopRequested :: bool
  m_state :: enm_State
  m_lastUnhandledException :: "cpp_exn option"
  m_name :: string
  m_heartBeat :: int
  m_heartBeatPeriod :: int

definition kDefaultWaitTimeout :: int where
  "kDefaultWaitTimeout = 5000"

definition bw_new :: "string \<Rightarrow> int \<Rightarrow> base_worker" where
  "bw_new name now =
     \<lparr>m_thread = None, m_stopRequested = False, m_state = St_Stopped, m_lastUnhandledException = None,
      m_name = name, m_heartBeat = now, m_heartBeatPeriod = 0\<rparr>"

section \<open>Critical sections\<close>

definition setState :: "enm_State \<Rightarrow> base_worker \<Rightarrow> base_worker" where
  "setState st w = w\<lparr>m_state := st\<rparr>"

text \<open>The locked block of \<open>startThread\<close>: refused, thread created, or \<open>std::thread\<close>'s constructor threw.\<close>

datatype start_outcome = Refused | Created base_worker | Threw base_worker

definition startThread_locked :: "nat option \<Rightarrow> base_worker \<Rightarrow> start_outcome" where
  "startThread_locked created w =
     (if m_state w \<noteq> St_Stopped \<or> m_thread w \<noteq> None then Refused
      else
        let w' = w\<lparr>m_stopRequested := False, m_lastUnhandledException := None, m_state := St_Starting\<rparr>
        in (case created of
              Some tid \<Rightarrow> Created (w'\<lparr>m_thread := Some tid\<rparr>)
            | None \<Rightarrow> Threw w'))"

definition resetHeartbeat :: "int \<Rightarrow> base_worker \<Rightarrow> base_worker" where
  "resetHeartbeat now w = w\<lparr>m_heartBeat := now, m_heartBeatPeriod := 0\<rparr>"

text \<open>\<open>requestStop\<close>: whether the hook \<open>stopTriggered()\<close> is then called, and the object. What the hook
  throws is swallowed.\<close>

definition requestStop :: "base_worker \<Rightarrow> bool \<times> base_worker" where
  "requestStop w =
     (let w' = w\<lparr>m_stopRequested := True\<rparr> in
      if m_state w' = St_Starting \<or> m_state w' = St_Running then (True, w'\<lparr>m_state := St_Stopping\<rparr>)
      else if m_state w' = St_Stopping then (True, w')
      else (False, w'))"

text \<open>The locked blocks of \<open>joinFinishedThread\<close> and \<open>joinThread\<close>: the thread moved out to be joined.\<close>

definition takeFinishedThread :: "base_worker \<Rightarrow> nat option \<times> base_worker" where
  "takeFinishedThread w =
     (if m_state w = St_Stopped \<and> m_thread w \<noteq> None then (m_thread w, w\<lparr>m_thread := None\<rparr>)
      else (None, w))"

definition takeThread :: "base_worker \<Rightarrow> nat option \<times> base_worker" where
  "takeThread w = (if m_thread w \<noteq> None then (m_thread w, w\<lparr>m_thread := None\<rparr>) else (None, w))"

section \<open>Observers\<close>

definition getState :: "base_worker \<Rightarrow> enm_State" where
  "getState w = m_state w"

definition isRunning :: "base_worker \<Rightarrow> bool" where
  "isRunning w \<longleftrightarrow> (let st = getState w in st = St_Starting \<or> st = St_Running)"

definition stopped :: "base_worker \<Rightarrow> bool" where
  "stopped w \<longleftrightarrow> getState w = St_Stopped"

definition stopRequested :: "base_worker \<Rightarrow> bool" where
  "stopRequested w = m_stopRequested w"

definition continueRunning :: "base_worker \<Rightarrow> bool" where
  "continueRunning w \<longleftrightarrow> \<not> stopRequested w"

definition retire :: "base_worker \<Rightarrow> bool \<times> base_worker" where
  "retire w = requestStop w"

section \<open>Heartbeat\<close>

text \<open>\<open>std::chrono::duration_cast\<close> to milliseconds truncates toward zero; \<open>tpm\<close> is the number of
  clock ticks in a millisecond. The compatibility wrapper converts the signed count to
  \<open>std::uint64_t\<close>, which wraps.\<close>

definition duration_cast_ms :: "int \<Rightarrow> int \<Rightarrow> int" where
  "duration_cast_ms tpm d = sgn d * (\<bar>d\<bar> div tpm)"

definition updateHeartbeat :: "int \<Rightarrow> int \<Rightarrow> base_worker \<Rightarrow> base_worker" where
  "updateHeartbeat tpm heartBeat w =
     w\<lparr>m_heartBeatPeriod := duration_cast_ms tpm (heartBeat - m_heartBeat w), m_heartBeat := heartBeat\<rparr>"

definition lastHeartbeat :: "base_worker \<Rightarrow> int" where
  "lastHeartbeat w = m_heartBeat w"

definition heartBeatPeriod :: "base_worker \<Rightarrow> int" where
  "heartBeatPeriod w = m_heartBeatPeriod w"

definition HeartBeatPeriod :: "base_worker \<Rightarrow> u64" where
  "HeartBeatPeriod w = word_of_int (heartBeatPeriod w)"

definition UpdateHeartBeat :: "int \<Rightarrow> int \<Rightarrow> base_worker \<Rightarrow> base_worker" where
  "UpdateHeartBeat tpm heartBeat w = updateHeartbeat tpm heartBeat w"

definition LastHeartBeat :: "base_worker \<Rightarrow> int" where
  "LastHeartBeat w = lastHeartbeat w"

definition bw_name :: "base_worker \<Rightarrow> string" where
  "bw_name w = m_name w"

definition lastUnhandledException :: "base_worker \<Rightarrow> cpp_exn option" where
  "lastUnhandledException w = m_lastUnhandledException w"

section \<open>Calls that wait\<close>

definition waitForStart :: "base_worker wake list \<Rightarrow> base_worker \<Rightarrow> (bool \<times> base_worker) option" where
  "waitForStart wakes w =
     map_option (\<lambda>(ready, w'). (ready \<and> m_state w' = St_Running, w'))
       (cv_wait_for (\<lambda>w. m_state w = St_Running \<or> m_state w = St_Stopped) w wakes)"

definition waitForStopped :: "base_worker wake list \<Rightarrow> base_worker \<Rightarrow> (bool \<times> base_worker) option" where
  "waitForStopped wakes w = cv_wait_for (\<lambda>w. m_state w = St_Stopped) w wakes"

text \<open>Joining a thread that reached \<open>Stopped\<close> waits for its last few instructions only, which no longer
  touch the object; the object itself changes by the move of \<open>m_thread\<close>.\<close>

definition joinFinishedThread :: "base_worker \<Rightarrow> base_worker" where
  "joinFinishedThread w = snd (takeFinishedThread w)"

definition startThread ::
  "nat option \<Rightarrow> int \<Rightarrow> int \<Rightarrow> base_worker wake list \<Rightarrow> base_worker \<Rightarrow> (bool \<times> base_worker) option" where
  "startThread created now waitForStartTimeout wakes w =
     (let w1 = joinFinishedThread w in
      case startThread_locked created w1 of
        Refused \<Rightarrow> Some (False, w1)
      | Threw w2 \<Rightarrow> Some (False, setState St_Stopped w2)
      | Created w2 \<Rightarrow>
          (let w3 = resetHeartbeat now w2 in
           if waitForStartTimeout = 0 then Some (True, w3) else waitForStart wakes w3))"

definition startThread_ms ::
  "nat option \<Rightarrow> int \<Rightarrow> u16 \<Rightarrow> base_worker wake list \<Rightarrow> base_worker \<Rightarrow> (bool \<times> base_worker) option" where
  "startThread_ms created now ms wakes w = startThread created now (uint ms) wakes w"

definition stopThread ::
  "int \<Rightarrow> base_worker wake list \<Rightarrow> base_worker \<Rightarrow> (bool \<times> base_worker) option" where
  "stopThread waitForStopTimeout wakes w =
     (let w1 = snd (requestStop w) in
      if waitForStopTimeout = 0 then Some (True, joinFinishedThread w1)
      else (case waitForStopped wakes w1 of
              None \<Rightarrow> None
            | Some (False, w2) \<Rightarrow> Some (False, w2)
            | Some (True, w2) \<Rightarrow> Some (True, joinFinishedThread w2)))"

definition stopThread_ms ::
  "u16 \<Rightarrow> base_worker wake list \<Rightarrow> base_worker \<Rightarrow> (bool \<times> base_worker) option" where
  "stopThread_ms ms wakes w = stopThread (uint ms) wakes w"

text \<open>The thread's function is over once it has published \<open>Stopped\<close>: a join sleeps until then, and knows no
  timeout. The wake-ups are what the other threads, the worker's own among them, do meanwhile.\<close>

definition joinThread :: "base_worker wake list \<Rightarrow> base_worker \<Rightarrow> base_worker option" where
  "joinThread wakes w =
     (case takeThread w of
        (None, w1) \<Rightarrow> Some w1
      | (Some t, w1) \<Rightarrow> map_option snd (cv_wait_for (\<lambda>u. m_state u = St_Stopped) w1 wakes))"

definition stopThreadAndJoin ::
  "int \<Rightarrow> base_worker wake list \<Rightarrow> base_worker wake list \<Rightarrow> base_worker \<Rightarrow> base_worker option" where
  "stopThreadAndJoin waitForStopTimeout wakes joinWakes w =
     (case stopThread waitForStopTimeout wakes w of
        None \<Rightarrow> None
      | Some (True, w1) \<Rightarrow> Some w1
      | Some (False, w1) \<Rightarrow> joinThread joinWakes w1)"

definition bw_destroy :: "base_worker wake list \<Rightarrow> base_worker \<Rightarrow> base_worker option" where
  "bw_destroy wakes w = joinThread wakes (snd (requestStop w))"

section \<open>The worker thread\<close>

text \<open>\<open>threadRunner\<close> when no other thread interferes between its steps, from what the hooks do:
  \<open>preRun\<close> returns a bool or throws, \<open>run\<close> returns or throws; the hooks' own effect on the base
  object (a \<open>retire()\<close>, heartbeats) are the functions beside their results. The second component tells
  whether \<open>run()\<close> was entered.\<close>

definition threadRunner ::
  "(cpp_exn + bool) \<Rightarrow> (base_worker \<Rightarrow> base_worker) \<Rightarrow> (cpp_exn + unit) \<Rightarrow> (base_worker \<Rightarrow> base_worker)
     \<Rightarrow> base_worker \<Rightarrow> base_worker \<times> bool" where
  "threadRunner preRun pre_effect run run_effect w =
     (let w1 = pre_effect w in
      case preRun of
        Inl e \<Rightarrow> (setState St_Stopped (w1\<lparr>m_lastUnhandledException := Some e\<rparr>), False)
      | Inr False \<Rightarrow> (setState St_Stopped w1, False)
      | Inr True \<Rightarrow>
          (if stopRequested w1 then (setState St_Stopped w1, False)
           else
             let w2 = run_effect (setState St_Running w1) in
             case run of
               Inl e \<Rightarrow> (setState St_Stopped (w2\<lparr>m_lastUnhandledException := Some e\<rparr>), True)
             | Inr () \<Rightarrow> (setState St_Stopped w2, True)))"

lemmas bw_defs [op_defs] =
  setState_def startThread_locked_def resetHeartbeat_def requestStop_def takeFinishedThread_def
  takeThread_def getState_def isRunning_def stopped_def stopRequested_def continueRunning_def
  retire_def updateHeartbeat_def waitForStart_def waitForStopped_def joinFinishedThread_def
  startThread_def startThread_ms_def stopThread_def stopThread_ms_def threadRunner_def Let_def

section \<open>Properties of the calls\<close>

lemma waitForStopped_result: "waitForStopped wakes w = Some (b, w') \<Longrightarrow> b = (m_state w' = St_Stopped)"
  unfolding waitForStopped_def by (drule cv_wait_for_result)

lemma waitForStart_result: "waitForStart wakes w = Some (b, w') \<Longrightarrow> b = (m_state w' = St_Running)"
  by (auto simp: waitForStart_def dest!: cv_wait_for_result)

text \<open>A join has no timeout and no notification of its own that would bring the thread back.\<close>

definition join_wakes :: "base_worker wake list \<Rightarrow> bool" where
  "join_wakes wakes \<longleftrightarrow>
     (\<forall>w \<in> set wakes. \<not> is_timeout w \<and> (\<forall>u. m_thread u = None \<longrightarrow> m_thread (wake_effect w u) = None))"

lemma joinThread_joins:
  assumes "joinThread wakes w = Some w'" and "join_wakes wakes" and "m_thread w = None \<longrightarrow> m_state w = St_Stopped"
  shows "m_state w' = St_Stopped \<and> m_thread w' = None"
proof (cases "m_thread w")
  case None
  then show ?thesis using assms(1,3) by (simp add: joinThread_def takeThread_def)
next
  case (Some t)
  then obtain b where r: "cv_wait_for (\<lambda>u. m_state u = St_Stopped) (w\<lparr>m_thread := None\<rparr>) wakes = Some (b, w')"
    using assms(1) by (auto simp: joinThread_def takeThread_def)
  have "m_thread w' = None"
    by (rule cv_wait_for_invariant [OF r, of "\<lambda>u. m_thread u = None"])
      (use assms(2) in \<open>auto simp: join_wakes_def\<close>)
  moreover have "m_state w' = St_Stopped"
    using cv_wait_for_untimed [OF r] assms(2) by (simp add: join_wakes_def)
  ultimately show ?thesis by blast
qed

text \<open>Destroying a worker ends with its thread finished and joined; so does \<open>stopThreadAndJoin\<close>, even when
  its timeout fires first. The caller is the one that owns the thread: as long as nobody else has taken
  it, a worker that is not stopped has one.\<close>

definition owns_thread :: "base_worker \<Rightarrow> bool" where
  "owns_thread w \<longleftrightarrow> (m_thread w = None \<longrightarrow> m_state w = St_Stopped)"

lemma bw_destroy_joins:
  assumes "owns_thread w" and "join_wakes joins" and "bw_destroy joins w = Some w'"
  shows "m_state w' = St_Stopped \<and> m_thread w' = None"
proof -
  have "m_thread (snd (requestStop w)) = None \<longrightarrow> m_state (snd (requestStop w)) = St_Stopped"
    using assms(1) by (auto simp: owns_thread_def requestStop_def Let_def)
  then show ?thesis
    by (rule joinThread_joins [OF assms(3) [unfolded bw_destroy_def] assms(2)])
qed

lemma bw_stopThreadAndJoin_joins:
  assumes "owns_thread w" and "\<forall>x \<in> set wakes. \<forall>u. owns_thread u \<longrightarrow> owns_thread (wake_effect x u)"
    and "join_wakes joins" and "t \<noteq> 0" and "stopThreadAndJoin t wakes joins w = Some w'"
  shows "m_state w' = St_Stopped \<and> m_thread w' = None"
proof -
  let ?w1 = "snd (requestStop w)"
  have o1: "owns_thread ?w1" using assms(1) by (auto simp: owns_thread_def requestStop_def Let_def)
  obtain b w2 where r: "waitForStopped wakes ?w1 = Some (b, w2)"
    using assms(4,5) by (auto simp: stopThreadAndJoin_def stopThread_def split: option.splits)
  have o2: "owns_thread w2"
    by (rule cv_wait_for_invariant [OF r [unfolded waitForStopped_def], of owns_thread, OF o1 assms(2)])
  note b = waitForStopped_result [OF r]
  show ?thesis
  proof (cases b)
    case True
    then have "w' = joinFinishedThread w2"
      using assms(4,5) r by (simp add: stopThreadAndJoin_def stopThread_def)
    then show ?thesis using True b by (simp add: joinFinishedThread_def takeFinishedThread_def)
  next
    case False
    then have "joinThread joins w2 = Some w'"
      using assms(4,5) r by (simp add: stopThreadAndJoin_def stopThread_def)
    from joinThread_joins [OF this assms(3)] o2 show ?thesis by (simp add: owns_thread_def)
  qed
qed

text \<open>The answers of the waiting calls mean what they say. A \<open>startThread\<close> that waits and returns
  true leaves the worker in state Running; refused or failed, it returns false, and a failed thread
  creation leaves the worker Stopped with nothing to join. A \<open>stopThread\<close> that waits and returns true
  leaves it Stopped, with its thread joined. Both return as soon as their timeout fires.\<close>

theorem bw_start_stop_answers:
  "(case startThread created now timeout wakes w of
      None \<Rightarrow> True
    | Some (ok, w') \<Rightarrow>
        (if ok \<and> timeout \<noteq> 0 then m_state w' = St_Running
         else if created = None then \<not> ok \<and> (m_state w = St_Stopped \<longrightarrow> stopped w' \<and> m_thread w' = None)
         else True))
   \<and> (case stopThread timeout wakes w of
        None \<Rightarrow> True
      | Some (ok, w') \<Rightarrow> (if ok \<and> timeout \<noteq> 0 then stopped w' \<and> m_thread w' = None else True))
   \<and> ((\<exists>x \<in> set wakes. is_timeout x) \<longrightarrow>
        startThread created now timeout wakes w \<noteq> None \<and> stopThread timeout wakes w \<noteq> None)"
proof (intro conjI impI)
  show "case startThread created now timeout wakes w of
      None \<Rightarrow> True
    | Some (ok, w') \<Rightarrow>
        (if ok \<and> timeout \<noteq> 0 then m_state w' = St_Running
         else if created = None then \<not> ok \<and> (m_state w = St_Stopped \<longrightarrow> stopped w' \<and> m_thread w' = None)
         else True)"
    by (auto simp: startThread_def Let_def joinFinishedThread_def takeFinishedThread_def
        startThread_locked_def setState_def stopped_def getState_def dest!: waitForStart_result
        split: option.splits start_outcome.splits if_splits)
  show "case stopThread timeout wakes w of
        None \<Rightarrow> True
      | Some (ok, w') \<Rightarrow> (if ok \<and> timeout \<noteq> 0 then stopped w' \<and> m_thread w' = None else True)"
    by (auto simp: stopThread_def Let_def joinFinishedThread_def takeFinishedThread_def stopped_def
        getState_def dest!: waitForStopped_result split: option.splits bool.splits)
next
  assume t: "\<exists>x \<in> set wakes. is_timeout x"
  have "waitForStart wakes u \<noteq> None" for u
    using cv_wait_for_returns [OF t] by (simp add: waitForStart_def)
  then show "startThread created now timeout wakes w \<noteq> None"
    by (auto simp: startThread_def Let_def split: start_outcome.splits)
  have "waitForStopped wakes u \<noteq> None" for u
    using cv_wait_for_returns [OF t] by (simp add: waitForStopped_def)
  then obtain b u where "waitForStopped wakes (snd (requestStop w)) = Some (b, u)"
    by (metis not_None_eq surj_pair)
  then show "stopThread timeout wakes w \<noteq> None"
    by (cases b) (auto simp: stopThread_def Let_def)
qed

theorem bw_start_stop_answers_witness:
  "\<exists>w. startThread (Some 0) 7 5000 [Notified (setState St_Running), TimedOut id] (bw_new ''w'' 0)
          = Some (True, w)
     \<and> m_state w = St_Running \<and> stopThread 5000 [TimedOut (setState St_Stopped)] w \<noteq> None"
proof -
  let ?wk = "[Notified (setState St_Running), TimedOut id]"
  obtain w where w: "startThread (Some 0) 7 5000 ?wk (bw_new ''w'' 0) = Some (True, w)"
    by (simp add: bw_defs bw_new_def)
  have "m_state w = St_Running"
    using bw_start_stop_answers [where created = "Some 0" and now = 7 and timeout = 5000
        and wakes = ?wk and w = "bw_new ''w'' 0"] w by simp
  moreover have "stopThread 5000 [TimedOut (setState St_Stopped)] w \<noteq> None"
    using bw_start_stop_answers [where timeout = 5000 and wakes = "[TimedOut (setState St_Stopped)]"
        and w = w] by simp
  ultimately show ?thesis
    using w by blast
qed

text \<open>Without interference a worker thread always ends in state Stopped, whatever its hooks do:
  \<open>run()\<close> is entered exactly if \<open>preRun()\<close> returned true and no stop was requested by then, and an
  exception of either hook is kept for \<open>lastUnhandledException()\<close> instead of leaving the thread.\<close>

theorem bw_threadRunner_outcome:
  "(let (w', ran) = threadRunner pre pre_effect run run_effect w;
        w1 = pre_effect w; w2 = run_effect (setState St_Running w1) in
      stopped w'
      \<and> (ran \<longleftrightarrow> pre = Inr True \<and> \<not> stopRequested w1)
      \<and> m_lastUnhandledException w' =
          (case pre of
             Inl e \<Rightarrow> Some e
           | Inr b \<Rightarrow>
               (if ran then (case run of Inl e \<Rightarrow> Some e | Inr _ \<Rightarrow> m_lastUnhandledException w2)
                else m_lastUnhandledException w1)))"
  by (auto simp: bw_defs split: sum.splits bool.splits unit.splits)

text \<open>The heartbeat period is the truncated number of milliseconds between the last two heartbeats.
  As long as time points do not run backwards by a millisecond or more the compatibility wrapper
  \<open>HeartBeatPeriod()\<close> reports that number; a time point a millisecond or more in the past makes the
  conversion to \<open>std::uint64_t\<close> wrap to a value of at least \<open>2^63\<close>.\<close>

theorem bw_HeartBeatPeriod_value:
  assumes "0 < tpm" and "\<bar>hb - lastHeartbeat w\<bar> div tpm < 2 ^ 63"
  shows "uint (HeartBeatPeriod (updateHeartbeat tpm hb w)) =
      (if lastHeartbeat w - hb < tpm then max 0 (hb - lastHeartbeat w) div tpm
       else 2 ^ 64 - (lastHeartbeat w - hb) div tpm)
    \<and> lastHeartbeat (updateHeartbeat tpm hb w) = hb"
proof -
  let ?d = "hb - lastHeartbeat w"
  define q where "q = sgn ?d * (\<bar>?d\<bar> div tpm)"
  have "heartBeatPeriod (updateHeartbeat tpm hb w) = q"
    by (simp add: q_def heartBeatPeriod_def updateHeartbeat_def duration_cast_ms_def lastHeartbeat_def)
  then have v: "uint (HeartBeatPeriod (updateHeartbeat tpm hb w)) = q mod 2 ^ 64"
    by (simp add: HeartBeatPeriod_def uint_word_of_int)
  have l: "lastHeartbeat (updateHeartbeat tpm hb w) = hb"
    by (simp add: updateHeartbeat_def lastHeartbeat_def)
  consider "0 \<le> ?d" | "0 < - ?d" "- ?d < tpm" | "0 < - ?d" "tpm \<le> - ?d" by linarith
  then show ?thesis
  proof cases
    case 1
    then have "q = ?d div tpm" "max 0 ?d = ?d" "\<bar>?d\<bar> = ?d"
      by (auto simp: q_def sgn_if)
    moreover have "0 \<le> ?d div tpm"
      using 1 assms(1) by (simp add: pos_imp_zdiv_nonneg_iff)
    ultimately show ?thesis
      using assms 1 unfolding v l by simp
  next
    case 2
    then have "(- ?d) div tpm = 0" "max 0 ?d = 0" by simp_all
    then have "q = 0" using 2 by (simp add: q_def)
    then show ?thesis
      using 2 \<open>max 0 ?d = 0\<close> unfolding v l by simp
  next
    case 3
    have p: "1 \<le> (- ?d) div tpm"
      using 3 assms(1) zdiv_mono1 [of tpm "- ?d" tpm] by simp
    have "q = - ((- ?d) div tpm)"
      using 3 by (simp add: q_def)
    moreover have "(- ?d) div tpm < 2 ^ 64"
      using assms(2) 3 by simp
    ultimately have "q mod 2 ^ 64 = 2 ^ 64 - (- ?d) div tpm"
      using p by (simp add: zmod_zminus1_eq_if)
    then show ?thesis
      using 3 unfolding v l by simp
  qed
qed

theorem bw_HeartBeatPeriod_value_witness:
  "uint (HeartBeatPeriod (updateHeartbeat 1000000 500000000 (bw_new ''w'' 300000000))) = 200
   \<and> uint (HeartBeatPeriod (updateHeartbeat 1000000 300000000 (bw_new ''w'' 500000000))) = 2 ^ 64 - 200"
  using bw_HeartBeatPeriod_value [of 1000000 500000000 "bw_new ''w'' 300000000"]
    bw_HeartBeatPeriod_value [of 1000000 300000000 "bw_new ''w'' 500000000"]
  by (simp add: bw_new_def lastHeartbeat_def)

end
