(* ===== verification/BaseWorkerThreads.thy ===== *)
theory BaseWorkerThreads
  imports BaseWorker
begin

text \<open>
  All interleavings of a \<open>cBaseWorker_V2\<close>: any number of controlling threads call \<open>startThread\<close>,
  \<open>requestStop\<close>, \<open>joinFinishedThread\<close>, \<open>joinThread\<close> in any order, while the worker threads they
  create run \<open>threadRunner\<close>. A step is one critical section of one thread, or one step of a worker
  between two critical sections. Worker threads are numbered in the order of creation; \<open>bt_pc\<close> says
  where each is in \<open>threadRunner\<close>, \<open>bt_joining\<close> holds the threads moved out of \<open>m_thread\<close> by a caller
  that is about to join them, \<open>bt_joined\<close> those already joined, and \<open>bt_throwing\<close> marks a \<open>startThread\<close>
  whose thread creation threw and whose \<open>catch\<close> block has not run yet (the lock is free in between).
\<close>

section \<open>The system and its steps\<close>

datatype bt_pc =
    W_none
  | W_preRun
  | W_check
  | W_setRunning
  | W_run
  | W_catch cpp_exn
  | W_setStopped
  | W_exited

record bt_sys =
  bt_obj :: base_worker
  bt_pc :: "nat \<Rightarrow> bt_pc"
  bt_next :: nat
  bt_joining :: "nat set"
  bt_joined :: "nat set"
  bt_throwing :: bool

definition bt_init :: "string \<Rightarrow> int \<Rightarrow> bt_sys" where
  "bt_init name now =
     \<lparr>bt_obj = bw_new name now, bt_pc = (\<lambda>_. W_none), bt_next = 0, bt_joining = {}, bt_joined = {},
      bt_throwing = False\<rparr>"

text \<open>A step of the worker thread \<open>t\<close> in \<open>threadRunner\<close>.\<close>

inductive bt_works :: "nat \<Rightarrow> bt_sys \<Rightarrow> bt_sys \<Rightarrow> bool" for t where
  wk_preRun_true: "bt_pc s t = W_preRun \<Longrightarrow> bt_works t s (s\<lparr>bt_pc := (bt_pc s)(t := W_check)\<rparr>)"
| wk_preRun_false: "bt_pc s t = W_preRun \<Longrightarrow> bt_works t s (s\<lparr>bt_pc := (bt_pc s)(t := W_setStopped)\<rparr>)"
| wk_preRun_throws: "bt_pc s t = W_preRun \<Longrightarrow> bt_works t s (s\<lparr>bt_pc := (bt_pc s)(t := W_catch e)\<rparr>)"
| wk_check_stop: "bt_pc s t = W_check \<Longrightarrow> stopRequested (bt_obj s) \<Longrightarrow>
     bt_works t s (s\<lparr>bt_pc := (bt_pc s)(t := W_setStopped)\<rparr>)"
| wk_check_go: "bt_pc s t = W_check \<Longrightarrow> \<not> stopRequested (bt_obj s) \<Longrightarrow>
     bt_works t s (s\<lparr>bt_pc := (bt_pc s)(t := W_setRunning)\<rparr>)"
| wk_set_running: "bt_pc s t = W_setRunning \<Longrightarrow>
     bt_works t s (s\<lparr>bt_obj := setState St_Running (bt_obj s), bt_pc := (bt_pc s)(t := W_run)\<rparr>)"
| wk_run_returns: "bt_pc s t = W_run \<Longrightarrow> bt_works t s (s\<lparr>bt_pc := (bt_pc s)(t := W_setStopped)\<rparr>)"
| wk_run_throws: "bt_pc s t = W_run \<Longrightarrow> bt_works t s (s\<lparr>bt_pc := (bt_pc s)(t := W_catch e)\<rparr>)"
| wk_catch: "bt_pc s t = W_catch e \<Longrightarrow>
     bt_works t s (s\<lparr>bt_obj := (bt_obj s)\<lparr>m_lastUnhandledException := Some e\<rparr>,
                  bt_pc := (bt_pc s)(t := W_setStopped)\<rparr>)"
| wk_set_stopped: "bt_pc s t = W_setStopped \<Longrightarrow>
     bt_works t s (s\<lparr>bt_obj := setState St_Stopped (bt_obj s), bt_pc := (bt_pc s)(t := W_exited)\<rparr>)"

text \<open>A step of anybody: of a controlling thread, or of a worker.\<close>

inductive bt_step :: "bt_sys \<Rightarrow> bt_sys \<Rightarrow> bool" where
  bt_start: "startThread_locked (Some (bt_next s)) (bt_obj s) = Created w \<Longrightarrow>
     bt_step s (s\<lparr>bt_obj := w, bt_pc := (bt_pc s)(bt_next s := W_preRun), bt_next := Suc (bt_next s)\<rparr>)"
| bt_start_throws: "startThread_locked None (bt_obj s) = Threw w \<Longrightarrow>
     bt_step s (s\<lparr>bt_obj := w, bt_throwing := True\<rparr>)"
| bt_start_catch: "bt_throwing s \<Longrightarrow>
     bt_step s (s\<lparr>bt_obj := setState St_Stopped (bt_obj s), bt_throwing := False\<rparr>)"
| bt_reset_heartbeat: "bt_step s (s\<lparr>bt_obj := resetHeartbeat now (bt_obj s)\<rparr>)"
| bt_heartbeat: "bt_step s (s\<lparr>bt_obj := updateHeartbeat tpm now (bt_obj s)\<rparr>)"
| bt_request_stop: "bt_step s (s\<lparr>bt_obj := snd (requestStop (bt_obj s))\<rparr>)"
| bt_take_finished: "takeFinishedThread (bt_obj s) = (Some t, w) \<Longrightarrow>
     bt_step s (s\<lparr>bt_obj := w, bt_joining := insert t (bt_joining s)\<rparr>)"
| bt_take: "takeThread (bt_obj s) = (Some t, w) \<Longrightarrow>
     bt_step s (s\<lparr>bt_obj := w, bt_joining := insert t (bt_joining s)\<rparr>)"
| bt_join: "t \<in> bt_joining s \<Longrightarrow> bt_pc s t = W_exited \<Longrightarrow>
     bt_step s (s\<lparr>bt_joining := bt_joining s - {t}, bt_joined := insert t (bt_joined s)\<rparr>)"
| bt_by_worker: "bt_works t s s' \<Longrightarrow> bt_step s s'"

text \<open>The worker's rules as rules of the system, and induction over both at once.\<close>

lemmas bt_preRun_true = bt_by_worker [OF wk_preRun_true]
lemmas bt_preRun_false = bt_by_worker [OF wk_preRun_false]
lemmas bt_preRun_throws = bt_by_worker [OF wk_preRun_throws]
lemmas bt_check_stop = bt_by_worker [OF wk_check_stop]
lemmas bt_check_go = bt_by_worker [OF wk_check_go]
lemmas bt_set_running = bt_by_worker [OF wk_set_running]
lemmas bt_run_returns = bt_by_worker [OF wk_run_returns]
lemmas bt_run_throws = bt_by_worker [OF wk_run_throws]
lemmas bt_catch = bt_by_worker [OF wk_catch]
lemmas bt_set_stopped = bt_by_worker [OF wk_set_stopped]

lemma bt_step_induct [consumes 1, case_names bt_start bt_start_throws bt_start_catch bt_reset_heartbeat bt_heartbeat
      bt_request_stop bt_take_finished bt_take bt_join bt_preRun_true bt_preRun_false bt_preRun_throws bt_check_stop
      bt_check_go bt_set_running bt_run_returns bt_run_throws bt_catch bt_set_stopped]:
  assumes step: "bt_step s s'"
    and bt_start: "\<And>s w. startThread_locked (Some (bt_next s)) (bt_obj s) = Created w \<Longrightarrow> P s
      (s\<lparr>bt_obj := w, bt_pc := (bt_pc s)(bt_next s := W_preRun), bt_next := Suc (bt_next s)\<rparr>)"
    and bt_start_throws: "\<And>s w. startThread_locked None (bt_obj s) = Threw w \<Longrightarrow> P s
      (s\<lparr>bt_obj := w, bt_throwing := True\<rparr>)"
    and bt_start_catch: "\<And>s. bt_throwing s \<Longrightarrow> P s (s\<lparr>bt_obj := setState St_Stopped (bt_obj
      s), bt_throwing := False\<rparr>)"
    and bt_reset_heartbeat: "\<And>s now. P s (s\<lparr>bt_obj := resetHeartbeat now (bt_obj s)\<rparr>)"
    and bt_heartbeat: "\<And>s tpm now. P s (s\<lparr>bt_obj := updateHeartbeat tpm now (bt_obj s)\<rparr>)"
    and bt_request_stop: "\<And>s. P s (s\<lparr>bt_obj := snd (requestStop (bt_obj s))\<rparr>)"
    and bt_take_finished: "\<And>s t w. takeFinishedThread (bt_obj s) = (Some t, w) \<Longrightarrow> P s
      (s\<lparr>bt_obj := w, bt_joining := insert t (bt_joining s)\<rparr>)"
    and bt_take: "\<And>s t w. takeThread (bt_obj s) = (Some t, w) \<Longrightarrow> P s (s\<lparr>bt_obj := w,
      bt_joining := insert t (bt_joining s)\<rparr>)"
    and bt_join: "\<And>t s. t \<in> bt_joining s \<Longrightarrow> bt_pc s t = W_exited \<Longrightarrow> P s
      (s\<lparr>bt_joining := bt_joining s - {t}, bt_joined := insert t (bt_joined s)\<rparr>)"
    and bt_preRun_true: "\<And>s t. bt_pc s t = W_preRun \<Longrightarrow> P s (s\<lparr>bt_pc := (bt_pc s)(t :=
      W_check)\<rparr>)"
    and bt_preRun_false: "\<And>s t. bt_pc s t = W_preRun \<Longrightarrow> P s (s\<lparr>bt_pc := (bt_pc s)(t :=
      W_setStopped)\<rparr>)"
    and bt_preRun_throws: "\<And>s t e. bt_pc s t = W_preRun \<Longrightarrow> P s (s\<lparr>bt_pc := (bt_pc s)(t :=
      W_catch e)\<rparr>)"
    and bt_check_stop: "\<And>s t. bt_pc s t = W_check \<Longrightarrow> stopRequested (bt_obj s) \<Longrightarrow> P
      s (s\<lparr>bt_pc := (bt_pc s)(t := W_setStopped)\<rparr>)"
    and bt_check_go: "\<And>s t. bt_pc s t = W_check \<Longrightarrow> \<not> stopRequested (bt_obj s)
      \<Longrightarrow> P s (s\<lparr>bt_pc := (bt_pc s)(t := W_setRunning)\<rparr>)"
    and bt_set_running: "\<And>s t. bt_pc s t = W_setRunning \<Longrightarrow> P s (s\<lparr>bt_obj := setState
      St_Running (bt_obj s), bt_pc := (bt_pc s)(t := W_run)\<rparr>)"
    and bt_run_returns: "\<And>s t. bt_pc s t = W_run \<Longrightarrow> P s (s\<lparr>bt_pc := (bt_pc s)(t :=
      W_setStopped)\<rparr>)"
    and bt_run_throws: "\<And>s t e. bt_pc s t = W_run \<Longrightarrow> P s (s\<lparr>bt_pc := (bt_pc s)(t :=
      W_catch e)\<rparr>)"
    and bt_catch: "\<And>s t e. bt_pc s t = W_catch e \<Longrightarrow> P s (s\<lparr>bt_obj := (bt_obj
      s)\<lparr>m_lastUnhandledException := Some e\<rparr>, bt_pc := (bt_pc s)(t := W_setStopped)\<rparr>)"
    and bt_set_stopped: "\<And>s t. bt_pc s t = W_setStopped \<Longrightarrow> P s (s\<lparr>bt_obj := setState
      St_Stopped (bt_obj s), bt_pc := (bt_pc s)(t := W_exited)\<rparr>)"
  shows "P s s'"
  using step
proof cases
  case (bt_by_worker t)
  then show ?thesis
    by cases (auto intro: bt_preRun_true bt_preRun_false bt_preRun_throws bt_check_stop bt_check_go bt_set_running bt_run_returns bt_run_throws bt_catch bt_set_stopped)
qed (auto intro: bt_start bt_start_throws bt_start_catch bt_reset_heartbeat bt_heartbeat bt_request_stop bt_take_finished bt_take bt_join)

inductive bt_reachable :: "bt_sys \<Rightarrow> bool" where
  bt_reach_init: "bt_reachable (bt_init name now)"
| bt_reach_step: "bt_reachable s \<Longrightarrow> bt_step s t \<Longrightarrow> bt_reachable t"

section \<open>The invariant\<close>

definition bt_active :: "bt_sys \<Rightarrow> nat \<Rightarrow> bool" where
  "bt_active s t \<longleftrightarrow> bt_pc s t \<noteq> W_none \<and> bt_pc s t \<noteq> W_exited"

text \<open>At most one thread is between its creation and its final \<open>setState(Stopped)\<close>, and none while a
  failed start is being undone; the state is Stopped exactly when there is neither. Every created
  thread is owned: by the object, by a joining caller, or it was joined.\<close>

definition bt_past_run :: "bt_pc \<Rightarrow> bool" where
  "bt_past_run p \<longleftrightarrow> (case p of W_run \<Rightarrow> True | W_catch e \<Rightarrow> True | W_setStopped \<Rightarrow> True | _ \<Rightarrow> False)"

definition bt_inv :: "bt_sys \<Rightarrow> bool" where
  "bt_inv s \<longleftrightarrow>
     (\<forall>t u. bt_active s t \<longrightarrow> bt_active s u \<longrightarrow> t = u) \<and>
     (m_state (bt_obj s) = St_Stopped \<longleftrightarrow> (\<forall>t. \<not> bt_active s t) \<and> \<not> bt_throwing s) \<and>
     (bt_throwing s \<longrightarrow> (\<forall>t. \<not> bt_active s t)) \<and>
     (\<forall>t \<ge> bt_next s. bt_pc s t = W_none) \<and>
     (\<forall>t < bt_next s. bt_pc s t \<noteq> W_none) \<and>
     (\<forall>t < bt_next s. m_thread (bt_obj s) = Some t \<or> t \<in> bt_joining s \<or> t \<in> bt_joined s) \<and>
     (\<forall>t. m_thread (bt_obj s) = Some t \<longrightarrow> t < bt_next s) \<and>
     (\<forall>t \<in> bt_joining s. t < bt_next s) \<and>
     (\<forall>t \<in> bt_joined s. t < bt_next s \<and> bt_pc s t = W_exited) \<and>
     (\<forall>t. bt_active s t \<longrightarrow> m_state (bt_obj s) = St_Running \<longrightarrow> bt_past_run (bt_pc s t))"

lemma bt_inv_init: "bt_inv (bt_init name now)"
  by (simp add: bt_inv_def bt_init_def bt_active_def bw_new_def)

lemma bt_inv_active:
  assumes "bt_inv s" and "bt_active s t"
  shows "m_state (bt_obj s) \<noteq> St_Stopped" and "\<not> bt_throwing s" and "t < bt_next s"
    and "t \<notin> bt_joined s" and "bt_active s u \<Longrightarrow> u = t"
    and "m_state (bt_obj s) = St_Running \<Longrightarrow> bt_past_run (bt_pc s t)"
proof -
  show "m_state (bt_obj s) \<noteq> St_Stopped" "\<not> bt_throwing s" "bt_active s u \<Longrightarrow> u = t"
    "m_state (bt_obj s) = St_Running \<Longrightarrow> bt_past_run (bt_pc s t)"
    using assms unfolding bt_inv_def by blast+
  have "\<forall>t \<ge> bt_next s. bt_pc s t = W_none" "\<forall>t \<in> bt_joined s. bt_pc s t = W_exited"
    using assms(1) unfolding bt_inv_def by blast+
  then show "t < bt_next s" "t \<notin> bt_joined s"
    using assms(2) by (auto simp: bt_active_def not_less [symmetric])
qed

section \<open>Every step keeps it\<close>

text \<open>Changes of the object that touch neither the state nor the owned thread.\<close>

lemma bt_inv_frame:
  assumes "m_state w = m_state (bt_obj s)" and "m_thread w = m_thread (bt_obj s)"
  shows "bt_inv (s\<lparr>bt_obj := w\<rparr>) = bt_inv s"
  by (simp add: bt_inv_def bt_active_def assms)

text \<open>A worker thread moves on inside \<open>threadRunner\<close>, short of its last step.\<close>

lemma bt_inv_worker:
  assumes inv: "bt_inv s" and act: "bt_active s t" and p: "p \<noteq> W_none" "p \<noteq> W_exited"
    and w: "m_thread w = m_thread (bt_obj s)" "m_state w \<noteq> St_Stopped"
    and run: "m_state w = St_Running \<Longrightarrow> bt_past_run p"
  shows "bt_inv (s\<lparr>bt_obj := w, bt_pc := (bt_pc s)(t := p)\<rparr>)"
proof -
  let ?s = "s\<lparr>bt_obj := w, bt_pc := (bt_pc s)(t := p)\<rparr>"
  have same: "bt_active ?s u \<longleftrightarrow> bt_active s u" for u
    using act p by (simp add: bt_active_def)
  note a = bt_inv_active [OF inv act]
  have "\<forall>u. bt_active s u \<longrightarrow> m_state w = St_Running \<longrightarrow> bt_past_run (((bt_pc s)(t := p)) u)"
    using a(5) run by auto
  moreover have "\<forall>u \<in> bt_joined s. u < bt_next s \<and> ((bt_pc s)(t := p)) u = W_exited"
    using inv a(4) unfolding bt_inv_def by auto
  moreover have "\<forall>u \<ge> bt_next s. ((bt_pc s)(t := p)) u = W_none"
    "\<forall>u < bt_next s. ((bt_pc s)(t := p)) u \<noteq> W_none"
    using inv a(3) p(1) unfolding bt_inv_def by auto
  moreover have "\<exists>u. bt_active s u"
    using act by blast
  ultimately show ?thesis
    using inv a(2) w unfolding bt_inv_def same by simp
qed

lemma bt_inv_worker_pc:
  assumes "bt_inv s" and "bt_active s t" and "p \<noteq> W_none" and "p \<noteq> W_exited"
    and "m_state (bt_obj s) = St_Running \<Longrightarrow> bt_past_run p"
  shows "bt_inv (s\<lparr>bt_pc := (bt_pc s)(t := p)\<rparr>)"
  using bt_inv_worker [of s t p "bt_obj s"] bt_inv_active(1) [OF assms(1,2)] assms by simp

lemma bt_inv_set_stopped:
  assumes inv: "bt_inv s" and act: "bt_active s t"
  shows "bt_inv (s\<lparr>bt_obj := setState St_Stopped (bt_obj s), bt_pc := (bt_pc s)(t := W_exited)\<rparr>)"
proof -
  let ?s = "s\<lparr>bt_obj := setState St_Stopped (bt_obj s), bt_pc := (bt_pc s)(t := W_exited)\<rparr>"
  note a = bt_inv_active [OF inv act]
  have none: "\<not> bt_active ?s u" for u
    using a(5) [of u] by (auto simp: bt_active_def)
  show ?thesis
    using inv a(2,3) none unfolding bt_inv_def by (auto simp: setState_def)
qed

lemma bt_step_inv [inv_intros]: "bt_step s s' \<Longrightarrow> bt_inv s \<Longrightarrow> bt_inv s'"
proof (induction rule: bt_step_induct)
  case (bt_start s w)
  then have w: "w = (bt_obj s)\<lparr>m_stopRequested := False, m_lastUnhandledException := None,
      m_state := St_Starting, m_thread := Some (bt_next s)\<rparr>"
    and g: "m_state (bt_obj s) = St_Stopped" "m_thread (bt_obj s) = None"
    by (auto simp: startThread_locked_def Let_def split: if_splits)
  then have "\<forall>t. \<not> bt_active s t" "\<not> bt_throwing s"
    using bt_start.prems unfolding bt_inv_def by blast+
  then show ?case
    using bt_start.prems g unfolding bt_inv_def w
    by (auto simp: bt_active_def less_Suc_eq)
next
  case (bt_start_throws s w)
  then have w: "w = (bt_obj s)\<lparr>m_stopRequested := False, m_lastUnhandledException := None,
      m_state := St_Starting\<rparr>" and g: "m_state (bt_obj s) = St_Stopped"
    by (auto simp: startThread_locked_def Let_def split: if_splits)
  then have none: "\<forall>t. \<not> bt_active s t" "\<not> bt_throwing s"
    using bt_start_throws.prems unfolding bt_inv_def by blast+
  have same: "bt_active (s\<lparr>bt_obj := w, bt_throwing := True\<rparr>) t = bt_active s t" for t
    by (simp add: bt_active_def)
  show ?case
    using bt_start_throws.prems none unfolding bt_inv_def same by (simp add: w)
next
  case (bt_start_catch s)
  have same: "bt_active (s\<lparr>bt_obj := setState St_Stopped (bt_obj s), bt_throwing := False\<rparr>) t
      = bt_active s t" for t
    by (simp add: bt_active_def)
  show ?case
    using bt_start_catch unfolding bt_inv_def same by (auto simp: setState_def)
next
  case (bt_reset_heartbeat s now)
  then show ?case by (simp add: bt_inv_frame resetHeartbeat_def)
next
  case (bt_heartbeat s tpm now)
  then show ?case by (simp add: bt_inv_frame updateHeartbeat_def)
next
  case (bt_request_stop s)
  have same: "bt_active (s\<lparr>bt_obj := snd (requestStop (bt_obj s))\<rparr>) t = bt_active s t" for t
    by (simp add: bt_active_def)
  show ?case
    using bt_request_stop unfolding bt_inv_def same by (auto simp: requestStop_def Let_def)
next
  case (bt_take_finished s t w)
  then have w: "w = (bt_obj s)\<lparr>m_thread := None\<rparr>" "m_thread (bt_obj s) = Some t"
    by (auto simp: takeFinishedThread_def split: if_splits)
  have same: "bt_active (s\<lparr>bt_obj := w, bt_joining := insert t (bt_joining s)\<rparr>) u = bt_active s u" for u
    by (simp add: bt_active_def)
  show ?case
    using bt_take_finished w(2) unfolding bt_inv_def same by (auto simp: w(1))
next
  case (bt_take s t w)
  then have w: "w = (bt_obj s)\<lparr>m_thread := None\<rparr>" "m_thread (bt_obj s) = Some t"
    by (auto simp: takeThread_def split: if_splits)
  have same: "bt_active (s\<lparr>bt_obj := w, bt_joining := insert t (bt_joining s)\<rparr>) u = bt_active s u" for u
    by (simp add: bt_active_def)
  show ?case
    using bt_take w(2) unfolding bt_inv_def same by (auto simp: w(1))
next
  case (bt_join t s)
  have same: "bt_active (s\<lparr>bt_joining := bt_joining s - {t}, bt_joined := insert t (bt_joined s)\<rparr>) u
      = bt_active s u" for u
    by (simp add: bt_active_def)
  show ?case
    using bt_join unfolding bt_inv_def same by auto
next
  case (bt_set_running s t)
  then show ?case
    by (intro bt_inv_worker) (auto simp: bt_active_def bt_past_run_def setState_def)
next
  case (bt_set_stopped s t)
  then show ?case
    by (intro bt_inv_set_stopped) (auto simp: bt_active_def)
next
  case (bt_catch s t e)
  then show ?case
    using bt_inv_active(1) [of s t]
    by (intro bt_inv_worker) (auto simp: bt_active_def bt_past_run_def)
next
  case (bt_preRun_true s t)
  then show ?case
    using bt_inv_active(6) [of s t]
    by (intro bt_inv_worker_pc) (auto simp: bt_active_def bt_past_run_def)
next
  case (bt_check_go s t)
  then show ?case
    using bt_inv_active(6) [of s t]
    by (intro bt_inv_worker_pc) (auto simp: bt_active_def bt_past_run_def)
qed (intro bt_inv_worker_pc; simp add: bt_active_def bt_past_run_def)+

lemma bt_reachable_inv: "bt_reachable s \<Longrightarrow> bt_inv s"
  by (induction rule: bt_reachable.induct) (auto intro: bt_inv_init inv_intros)

section \<open>The stop flag\<close>

text \<open>State Stopping is only ever entered together with the stop flag.\<close>

lemma bt_step_stopping:
  "bt_step s s' \<Longrightarrow> (m_state (bt_obj s) = St_Stopping \<longrightarrow> m_stopRequested (bt_obj s)) \<Longrightarrow>
   m_state (bt_obj s') = St_Stopping \<longrightarrow> m_stopRequested (bt_obj s')"
  by (induction rule: bt_step_induct)
    (auto simp: startThread_locked_def setState_def resetHeartbeat_def updateHeartbeat_def
      requestStop_def takeFinishedThread_def takeThread_def Let_def split: if_splits)

lemma bt_reachable_stopping:
  "bt_reachable s \<Longrightarrow> m_state (bt_obj s) = St_Stopping \<longrightarrow> m_stopRequested (bt_obj s)"
proof (induction rule: bt_reachable.induct)
  case (bt_reach_init name now)
  then show ?case by (simp add: bt_init_def bw_new_def)
next
  case (bt_reach_step s t)
  then show ?case using bt_step_stopping [of s t] by blast
qed

text \<open>Only a new start clears the flag, and a start needs state Stopped.\<close>

lemma bt_step_clears_flag:
  "bt_step s s' \<Longrightarrow> stopRequested (bt_obj s) \<Longrightarrow> \<not> stopRequested (bt_obj s') \<Longrightarrow>
   m_state (bt_obj s) = St_Stopped"
  by (induction rule: bt_step_induct)
    (auto simp: startThread_locked_def setState_def resetHeartbeat_def updateHeartbeat_def
      requestStop_def takeFinishedThread_def takeThread_def stopRequested_def Let_def split: if_splits)

text \<open>The step that clears it is the locked block of \<open>startThread\<close>, whether the thread is then made or not.\<close>

lemma bt_step_clearing:
  "bt_step s s' \<Longrightarrow> stopRequested (bt_obj s) \<Longrightarrow> \<not> stopRequested (bt_obj s') \<Longrightarrow>
   startThread_locked (Some (bt_next s)) (bt_obj s) = Created (bt_obj s')
   \<or> startThread_locked None (bt_obj s) = Threw (bt_obj s')"
  by (induction rule: bt_step_induct)
    (auto simp: setState_def resetHeartbeat_def updateHeartbeat_def requestStop_def takeFinishedThread_def
      takeThread_def stopRequested_def Let_def split: if_splits)

text \<open>How far a thread is from the end of \<open>threadRunner\<close>, in its own steps.\<close>

fun bt_rank :: "bt_pc \<Rightarrow> nat" where
  "bt_rank W_preRun = 6"
| "bt_rank W_check = 5"
| "bt_rank W_setRunning = 4"
| "bt_rank W_run = 3"
| "bt_rank (W_catch e) = 2"
| "bt_rank W_setStopped = 1"
| "bt_rank _ = 0"

lemma bt_step_rank:
  "bt_step s s' \<Longrightarrow> bt_active s t \<Longrightarrow> bt_inv s \<Longrightarrow> bt_rank (bt_pc s' t) \<le> bt_rank (bt_pc s t)"
proof (induction rule: bt_step_induct)
  case (bt_start s w)
  then show ?case
    using bt_inv_active(1) [of s t] by (simp add: startThread_locked_def split: if_splits)
qed (auto simp: bt_active_def)

lemma bt_works_rank: "bt_works t s s' \<Longrightarrow> bt_rank (bt_pc s' t) < bt_rank (bt_pc s t)"
  by (induction rule: bt_works.induct) auto

lemma bt_worker_can_step:
  assumes "bt_active s t"
  shows "\<exists>s'. bt_works t s s'"
proof (cases "bt_pc s t")
  case W_check
  then show ?thesis using wk_check_stop wk_check_go by (cases "stopRequested (bt_obj s)") blast+
qed (use assms in \<open>auto simp: bt_active_def intro: bt_works.intros\<close>)

section \<open>Properties\<close>

text \<open>C3: In every interleaving of starts, stops and joins at most one worker thread is ever inside
  \<open>threadRunner\<close>; the state reads Stopped exactly when no thread is and no failed start is being
  undone; and no thread is detached: each one created is held by the object, is being joined, or was
  joined after it had left \<open>threadRunner\<close>.\<close>

theorem bt_single_worker:
  assumes "bt_reachable s"
  shows "(\<forall>t u. bt_active s t \<and> bt_active s u \<longrightarrow> t = u)
    \<and> (stopped (bt_obj s) \<longleftrightarrow> (\<forall>t. \<not> bt_active s t) \<and> \<not> bt_throwing s)
    \<and> (\<forall>t < bt_next s. m_thread (bt_obj s) = Some t \<or> t \<in> bt_joining s
          \<or> t \<in> bt_joined s \<and> bt_pc s t = W_exited)"
  using bt_reachable_inv [OF assms] unfolding bt_inv_def stopped_def getState_def by blast

definition bt_started :: bt_sys where
  "bt_started =
     (bt_init ''w'' 0)\<lparr>bt_obj := (bw_new ''w'' 0)\<lparr>m_thread := Some 0, m_state := St_Starting\<rparr>,
                       bt_pc := (\<lambda>_. W_none)(0 := W_preRun), bt_next := 1\<rparr>"

lemma bt_reachable_started: "bt_reachable bt_started"
proof -
  have "bt_step (bt_init ''w'' 0) bt_started"
    using bt_start [of "bt_init ''w'' 0"
        "(bw_new ''w'' 0)\<lparr>m_thread := Some 0, m_state := St_Starting\<rparr>"]
    by (simp add: bt_started_def bt_init_def bw_new_def startThread_locked_def)
  then show ?thesis by (blast intro: bt_reachable.intros)
qed

theorem bt_single_worker_witness:
  "bt_reachable bt_started \<and> bt_active bt_started 0 \<and> \<not> stopped (bt_obj bt_started)"
proof -
  have "bt_active bt_started 0"
    by (simp add: bt_active_def bt_started_def)
  then show ?thesis
    using bt_single_worker [OF bt_reachable_started] bt_reachable_started by blast
qed

text \<open>C4: A stop request is never lost. Once the flag is set, every step of every thread leaves it set, but for
  the locked block of \<open>startThread\<close>, which the object accepts only in state Stopped; so as long as a worker
  thread is inside \<open>threadRunner\<close> no step at all clears it, and \<open>continueRunning()\<close> answers false from then
  on.\<close>

theorem bt_stop_request_sticky:
  assumes "bt_reachable s" and "stopRequested (bt_obj s)" and "bt_step s s'"
  shows "(stopRequested (bt_obj s') \<or> stopped (bt_obj s) \<and>
        (startThread_locked (Some (bt_next s)) (bt_obj s) = Created (bt_obj s')
         \<or> startThread_locked None (bt_obj s) = Threw (bt_obj s')))
    \<and> ((\<exists>t. bt_active s t) \<longrightarrow> \<not> continueRunning (bt_obj s'))"
  using bt_step_clears_flag [OF assms(3,2)] bt_step_clearing [OF assms(3,2)]
    bt_inv_active(1) [OF bt_reachable_inv [OF assms(1)]]
  by (auto simp: continueRunning_def stopped_def getState_def)

definition bt_stopping :: bt_sys where
  "bt_stopping = bt_started\<lparr>bt_obj := snd (requestStop (bt_obj bt_started))\<rparr>"

lemma bt_reachable_stopping_state: "bt_reachable bt_stopping"
  using bt_reach_step [OF bt_reachable_started bt_request_stop] by (simp add: bt_stopping_def)

theorem bt_stop_request_sticky_witness:
  "\<not> continueRunning (bt_obj (bt_stopping\<lparr>bt_pc := (bt_pc bt_stopping)(0 := W_check)\<rparr>))"
proof -
  have "bt_active bt_stopping 0" by (simp add: bt_active_def bt_stopping_def bt_started_def)
  moreover have "stopRequested (bt_obj bt_stopping)"
    by (simp add: bt_stopping_def requestStop_def stopRequested_def Let_def)
  moreover have "bt_step bt_stopping (bt_stopping\<lparr>bt_pc := (bt_pc bt_stopping)(0 := W_check)\<rparr>)"
    by (rule bt_preRun_true) (simp add: bt_stopping_def bt_started_def)
  ultimately show ?thesis using bt_stop_request_sticky [OF bt_reachable_stopping_state] by blast
qed

text \<open>The state moves up its enumeration, Starting, Running, Stopping, Stopped, except in two
  places: a new start from Stopped, and a worker thread that read the stop flag before it was set and
  publishes Running over Stopping. In that second case the flag is set in the state reached.\<close>

theorem bt_state_order:
  assumes "bt_reachable s" and "bt_step s s'" and "m_state (bt_obj s') < m_state (bt_obj s)"
  shows "stopped (bt_obj s) \<and> m_state (bt_obj s') = St_Starting
    \<or> m_state (bt_obj s) = St_Stopping \<and> m_state (bt_obj s') = St_Running \<and> stopRequested (bt_obj s')
        \<and> (\<exists>t. bt_pc s t = W_setRunning)"
proof -
  have flag: "m_state (bt_obj s) = St_Stopping \<longrightarrow> m_stopRequested (bt_obj s)"
    by (rule bt_reachable_stopping [OF assms(1)])
  have le4: "\<not> 4 < state_code st" for st by (cases st) auto
  have live: "m_state (bt_obj s) \<noteq> St_Stopped" if "bt_pc s t = W_setRunning" for t
    using bt_inv_active(1) [OF bt_reachable_inv [OF assms(1)], of t] that by (simp add: bt_active_def)
  show ?thesis
    using assms(2,3) flag live
  proof (induction rule: bt_step_induct)
    case (bt_set_running s t)
    then show ?case
      by (cases "m_state (bt_obj s)")
        (auto simp: setState_def less_enm_State_def stopRequested_def)
  qed (auto simp: le4 startThread_locked_def setState_def resetHeartbeat_def updateHeartbeat_def
      requestStop_def takeFinishedThread_def takeThread_def stopped_def getState_def Let_def
      less_enm_State_def split: if_splits)
qed

definition bt_late :: bt_sys where
  "bt_late =
     bt_started\<lparr>bt_pc := (bt_pc bt_started)(0 := W_setRunning),
                bt_obj := snd (requestStop (bt_obj bt_started))\<rparr>"

lemma bt_reachable_late: "bt_reachable bt_late"
proof -
  let ?s1 = "bt_started\<lparr>bt_pc := (bt_pc bt_started)(0 := W_check)\<rparr>"
  let ?s2 = "?s1\<lparr>bt_pc := (bt_pc ?s1)(0 := W_setRunning)\<rparr>"
  have "bt_step bt_started ?s1"
    by (rule bt_preRun_true) (simp add: bt_started_def)
  moreover have "bt_step ?s1 ?s2"
    by (rule bt_check_go) (simp_all add: bt_started_def bw_new_def stopRequested_def)
  ultimately have "bt_reachable ?s2"
    by (meson bt_reachable_started bt_reach_step)
  then have "bt_reachable (?s2\<lparr>bt_obj := snd (requestStop (bt_obj ?s2))\<rparr>)"
    by (rule bt_reach_step [OF _ bt_request_stop])
  moreover have "bt_late = ?s2\<lparr>bt_obj := snd (requestStop (bt_obj ?s2))\<rparr>"
    by (rule bt_sys.equality) (simp_all add: bt_late_def bt_started_def)
  ultimately show ?thesis by (simp only:)
qed

theorem bt_state_order_witness:
  "\<exists>s'. bt_step bt_late s' \<and> m_state (bt_obj s') = St_Running \<and> stopRequested (bt_obj s')"
proof -
  let ?s = "bt_late\<lparr>bt_obj := setState St_Running (bt_obj bt_late), bt_pc := (bt_pc bt_late)(0 := W_run)\<rparr>"
  have st: "bt_step bt_late ?s"
    by (rule bt_set_running) (simp add: bt_late_def)
  have m: "m_state (bt_obj bt_late) = St_Stopping" "m_state (bt_obj ?s) = St_Running"
    by (simp_all add: bt_late_def bt_started_def requestStop_def setState_def Let_def)
  then have "m_state (bt_obj ?s) < m_state (bt_obj bt_late)" by (simp add: less_enm_State_def)
  from bt_state_order [OF bt_reachable_late st this] show ?thesis
    using st m by auto
qed

text \<open>That second case happens: there is an interleaving in which a worker whose stop has been
  requested, and whose \<open>stopTriggered()\<close> hook has run, is afterwards in state Running, so that
  \<open>isRunning()\<close> answers true, while its stop flag is set.\<close>

theorem bt_stop_can_be_masked:
  "\<exists>s s'. bt_reachable s \<and> m_state (bt_obj s) = St_Stopping \<and> bt_step s s'
     \<and> isRunning (bt_obj s') \<and> stopRequested (bt_obj s')"
proof -
  let ?s = "bt_late\<lparr>bt_obj := setState St_Running (bt_obj bt_late), bt_pc := (bt_pc bt_late)(0 := W_run)\<rparr>"
  have "bt_step bt_late ?s"
    by (rule bt_set_running) (simp add: bt_late_def)
  moreover have "m_state (bt_obj bt_late) = St_Stopping" "isRunning (bt_obj ?s)" "stopRequested (bt_obj ?s)"
    by (simp_all add: bt_late_def bt_started_def requestStop_def isRunning_def getState_def setState_def
        stopRequested_def Let_def)
  ultimately show ?thesis using bt_reachable_late by blast
qed

text \<open>C34: A worker thread is never stuck in \<open>threadRunner\<close>: as long as its hooks return or throw it can
  always take its next step, every step of its own brings it nearer to the end, at most six of them
  remain, no step of another thread sets it back, and the step that ends it publishes Stopped.\<close>

theorem bt_worker_finishes:
  assumes "bt_reachable s" and "bt_active s t"
  shows "(\<exists>s'. bt_works t s s')
    \<and> (\<forall>s'. bt_works t s s' \<longrightarrow> bt_step s s' \<and> bt_rank (bt_pc s' t) < bt_rank (bt_pc s t))
    \<and> (\<forall>s'. bt_step s s' \<longrightarrow> bt_rank (bt_pc s' t) \<le> bt_rank (bt_pc s t)
          \<and> (bt_rank (bt_pc s' t) = 0 \<longrightarrow> stopped (bt_obj s')))
    \<and> bt_rank (bt_pc s t) \<le> 6"
proof (intro conjI allI impI)
  note inv = bt_reachable_inv [OF assms(1)]
  show "\<exists>s'. bt_works t s s'" by (rule bt_worker_can_step [OF assms(2)])
  show "bt_step s s'" "bt_rank (bt_pc s' t) < bt_rank (bt_pc s t)" if "bt_works t s s'" for s'
    using that by (rule bt_by_worker, rule bt_works_rank)
  show "bt_rank (bt_pc s t) \<le> 6"
    by (cases "bt_pc s t") auto
  fix s'
  assume st: "bt_step s s'"
  show "bt_rank (bt_pc s' t) \<le> bt_rank (bt_pc s t)"
    by (rule bt_step_rank [OF st assms(2) inv])
  assume r: "bt_rank (bt_pc s' t) = 0"
  have z: "bt_rank p = 0 \<Longrightarrow> p = W_none \<or> p = W_exited" for p
    by (cases p) auto
  have "\<not> bt_active s' u" for u
  proof
    assume u: "bt_active s' u"
    have "u \<noteq> t" using u z [OF r] by (auto simp: bt_active_def)
    have "bt_active s u"
      using st u assms(2) \<open>u \<noteq> t\<close> bt_inv_active(1) [OF inv assms(2)]
      by (induction rule: bt_step_induct)
        (auto simp: bt_active_def startThread_locked_def split: if_splits)
    then show False
      using bt_inv_active(5) [OF inv assms(2)] \<open>u \<noteq> t\<close> by blast
  qed
  moreover have "\<not> bt_throwing s'"
    using st bt_inv_active(1,2) [OF inv assms(2)]
    by (induction rule: bt_step_induct) (auto simp: startThread_locked_def split: if_splits)
  ultimately show "stopped (bt_obj s')"
    using bt_step_inv [OF st inv] unfolding bt_inv_def stopped_def getState_def by blast
qed

theorem bt_worker_finishes_witness:
  "\<exists>s'. bt_works 0 bt_started s' \<and> bt_rank (bt_pc s' 0) < 6"
proof -
  have a: "bt_active bt_started 0"
    by (simp add: bt_active_def bt_started_def)
  have "bt_rank (bt_pc bt_started 0) = 6"
    by (simp add: bt_started_def)
  then show ?thesis
    using bt_worker_finishes [OF bt_reachable_started a] by auto
qed

end
