(* ===== verification/Posix.thy ===== *)
theory Posix
  imports Prelude
begin

text \<open>
  The operating system's socket calls. They are not code of the repository, so they are a parameter:
  a record of functions on an arbitrary world type \<open>'w\<close>, threaded through every definition that
  calls the system. A call returns what the C function returns; \<open>errno\<close> is read from the world where
  the code reads it. Constants have their Linux values (the README names Linux and macOS; on Linux
  \<open>SO_NOSIGPIPE\<close> is not defined and \<open>MSG_NOSIGNAL\<close> is).

  What the code relies on is stated as predicates on that parameter, from the documentation of the
  calls: \<open>send_law\<close>, \<open>recv_law\<close>, \<open>socket_law\<close> and \<open>eintr_law\<close>. The last section is a kernel that has
  them all: a scripted one, on which the witnesses run.
\<close>

section \<open>The parameter\<close>

record addrinfo =
  ai_family :: int
  ai_socktype :: int
  ai_protocol :: int
  ai_addr :: "byte list"

record timeval =
  tv_sec :: int
  tv_usec :: int

record 'w kernel =
  k_errno :: "'w \<Rightarrow> int"
  k_getaddrinfo :: "string \<Rightarrow> string \<Rightarrow> addrinfo \<Rightarrow> 'w \<Rightarrow> int \<times> addrinfo list \<times> 'w"
  k_socket :: "int \<Rightarrow> int \<Rightarrow> int \<Rightarrow> 'w \<Rightarrow> fd \<times> 'w"
  k_setsockopt :: "fd \<Rightarrow> int \<Rightarrow> timeval \<Rightarrow> 'w \<Rightarrow> int \<times> 'w"
  k_connect :: "fd \<Rightarrow> byte list \<Rightarrow> 'w \<Rightarrow> int \<times> 'w"
  k_send :: "fd \<Rightarrow> byte list \<Rightarrow> int \<Rightarrow> 'w \<Rightarrow> int \<times> 'w"
  k_recv :: "fd \<Rightarrow> nat \<Rightarrow> 'w \<Rightarrow> byte list option \<times> 'w"
  k_shutdown :: "fd \<Rightarrow> int \<Rightarrow> 'w \<Rightarrow> int \<times> 'w"
  k_close :: "fd \<Rightarrow> 'w \<Rightarrow> int \<times> 'w"

text \<open>\<open>recv\<close> returns \<open>Some\<close> of the bytes it stored, the empty list when the peer has closed, or \<open>None\<close>
  for \<open>-1\<close>.\<close>

definition EINTR :: int where "EINTR = 4"
definition EAGAIN :: int where "EAGAIN = 11"
definition EWOULDBLOCK :: int where "EWOULDBLOCK = 11"
definition EMSGSIZE :: int where "EMSGSIZE = 90"
definition ETIMEDOUT :: int where "ETIMEDOUT = 110"
definition AF_UNSPEC :: int where "AF_UNSPEC = 0"
definition AF_INET :: int where "AF_INET = 2"
definition SOCK_STREAM :: int where "SOCK_STREAM = 1"
definition IPPROTO_TCP :: int where "IPPROTO_TCP = 6"
definition SO_REUSEADDR :: int where "SO_REUSEADDR = 2"
definition SO_RCVTIMEO :: int where "SO_RCVTIMEO = 20"
definition SO_SNDTIMEO :: int where "SO_SNDTIMEO = 21"
definition MSG_NOSIGNAL :: int where "MSG_NOSIGNAL = 16384"
definition SHUT_WR :: int where "SHUT_WR = 1"
definition SHUT_RDWR :: int where "SHUT_RDWR = 2"

lemmas posix_consts =
  EINTR_def EAGAIN_def EWOULDBLOCK_def EMSGSIZE_def ETIMEDOUT_def AF_UNSPEC_def AF_INET_def
  SOCK_STREAM_def IPPROTO_TCP_def SO_REUSEADDR_def SO_RCVTIMEO_def SO_SNDTIMEO_def MSG_NOSIGNAL_def
  SHUT_WR_def SHUT_RDWR_def

section \<open>What the code relies on\<close>

text \<open>\<open>wire w fd\<close> are the bytes the kernel has accepted on \<open>fd\<close> so far: \<open>send\<close> accepts a prefix of what it
  is given, as long as its result says, and nothing when it fails.\<close>

definition send_law :: "'w kernel \<Rightarrow> ('w \<Rightarrow> fd \<Rightarrow> byte list) \<Rightarrow> bool" where
  "send_law K wire \<longleftrightarrow>
     (\<forall>s bs fl w r w'. k_send K s bs fl w = (r, w') \<longrightarrow>
        r \<le> int (length bs) \<and> wire w' s = wire w s @ take (nat r) bs)"

text \<open>\<open>inbox w fd\<close> are the bytes still to come on \<open>fd\<close>, in order: \<open>recv\<close> takes at most as many as asked
  for from its front, and none when it fails.\<close>

definition recv_law :: "'w kernel \<Rightarrow> ('w \<Rightarrow> fd \<Rightarrow> byte list) \<Rightarrow> bool" where
  "recv_law K inbox \<longleftrightarrow>
     (\<forall>s n w r w'. k_recv K s n w = (r, w') \<longrightarrow>
        (case r of
           None \<Rightarrow> inbox w' s = inbox w s
         | Some bs \<Rightarrow> length bs \<le> n \<and> inbox w s = bs @ inbox w' s))"

text \<open>A call can fail with \<open>EINTR\<close> only when a signal arrives, and finitely many do: \<open>eintr w\<close> bounds
  how many more.\<close>

definition eintr_law :: "'w kernel \<Rightarrow> ('w \<Rightarrow> nat) \<Rightarrow> bool" where
  "eintr_law K eintr \<longleftrightarrow>
     (\<forall>s bs fl w r w'. k_send K s bs fl w = (r, w') \<longrightarrow>
        eintr w' \<le> eintr w \<and> (r < 0 \<and> k_errno K w' = EINTR \<longrightarrow> eintr w' < eintr w)) \<and>
     (\<forall>s n w r w'. k_recv K s n w = (r, w') \<longrightarrow>
        eintr w' \<le> eintr w \<and> (r = None \<and> k_errno K w' = EINTR \<longrightarrow> eintr w' < eintr w)) \<and>
     (\<forall>a b c w. eintr (snd (k_socket K a b c w)) \<le> eintr w) \<and>
     (\<forall>s o' v w. eintr (snd (k_setsockopt K s o' v w)) \<le> eintr w) \<and>
     (\<forall>s a w. eintr (snd (k_connect K s a w)) \<le> eintr w) \<and>
     (\<forall>s h w. eintr (snd (k_shutdown K s h w)) \<le> eintr w) \<and>
     (\<forall>s w. eintr (snd (k_close K s w)) \<le> eintr w) \<and>
     (\<forall>n p h w. eintr (snd (snd (k_getaddrinfo K n p h w))) \<le> eintr w)"

text \<open>\<open>opened w\<close> are the descriptors that are open: \<open>socket\<close> opens one that was not, \<open>close\<close> closes its
  argument, nothing else does either.\<close>

definition socket_law :: "'w kernel \<Rightarrow> ('w \<Rightarrow> fd set) \<Rightarrow> bool" where
  "socket_law K opened \<longleftrightarrow>
     (\<forall>a b c w. (case k_socket K a b c w of (s, w') \<Rightarrow>
        (if 0 \<le> s then s \<notin> opened w \<and> opened w' = insert s (opened w) else opened w' = opened w))) \<and>
     (\<forall>s w. opened (snd (k_close K s w)) = opened w - {s}) \<and>
     (\<forall>s h w. opened (snd (k_shutdown K s h w)) = opened w) \<and>
     (\<forall>s o' v w. opened (snd (k_setsockopt K s o' v w)) = opened w) \<and>
     (\<forall>s a w. opened (snd (k_connect K s a w)) = opened w) \<and>
     (\<forall>s bs f w. opened (snd (k_send K s bs f w)) = opened w) \<and>
     (\<forall>s n w. opened (snd (k_recv K s n w)) = opened w) \<and>
     (\<forall>n p h w. opened (snd (snd (k_getaddrinfo K n p h w))) = opened w)"

text \<open>\<open>stray w\<close> counts the calls of \<open>close\<close> on a descriptor that was not open: closing one twice would be one.\<close>

definition stray_law :: "'w kernel \<Rightarrow> ('w \<Rightarrow> fd set) \<Rightarrow> ('w \<Rightarrow> nat) \<Rightarrow> bool" where
  "stray_law K opened stray \<longleftrightarrow>
     (\<forall>s w. stray (snd (k_close K s w)) = stray w + (if s \<in> opened w then 0 else 1)) \<and>
     (\<forall>a b c w. stray (snd (k_socket K a b c w)) = stray w) \<and>
     (\<forall>s h w. stray (snd (k_shutdown K s h w)) = stray w) \<and>
     (\<forall>s o' v w. stray (snd (k_setsockopt K s o' v w)) = stray w) \<and>
     (\<forall>s a w. stray (snd (k_connect K s a w)) = stray w) \<and>
     (\<forall>s bs f w. stray (snd (k_send K s bs f w)) = stray w) \<and>
     (\<forall>s n w. stray (snd (k_recv K s n w)) = stray w) \<and>
     (\<forall>n p h w. stray (snd (snd (k_getaddrinfo K n p h w))) = stray w)"

text \<open>The laws, one call at a time, as the proofs use them.\<close>

lemma send_lawD:
  assumes "send_law K wire" and "k_send K s bs fl w = (r, w')"
  shows "r \<le> int (length bs)" and "wire w' s = wire w s @ take (nat r) bs"
  using assms unfolding send_law_def by blast+

lemma recv_lawD:
  assumes "recv_law K inbox" and "k_recv K s n w = (r, w')"
  shows "case r of None \<Rightarrow> inbox w' s = inbox w s
    | Some bs \<Rightarrow> length bs \<le> n \<and> inbox w s = bs @ inbox w' s"
  using assms unfolding recv_law_def by blast

lemma eintr_law_send:
  assumes "eintr_law K eintr" and "k_send K s bs fl w = (r, w')"
  shows "eintr w' \<le> eintr w" and "r < 0 \<Longrightarrow> k_errno K w' = EINTR \<Longrightarrow> eintr w' < eintr w"
proof -
  have "\<forall>s bs fl w r w'. k_send K s bs fl w = (r, w') \<longrightarrow>
      eintr w' \<le> eintr w \<and> (r < 0 \<and> k_errno K w' = EINTR \<longrightarrow> eintr w' < eintr w)"
    using assms(1) unfolding eintr_law_def by (elim conjE) assumption
  then show "eintr w' \<le> eintr w" and "r < 0 \<Longrightarrow> k_errno K w' = EINTR \<Longrightarrow> eintr w' < eintr w"
    using assms(2) by blast+
qed

lemma eintr_law_recv:
  assumes "eintr_law K eintr" and "k_recv K s n w = (r, w')"
  shows "eintr w' \<le> eintr w" and "r = None \<Longrightarrow> k_errno K w' = EINTR \<Longrightarrow> eintr w' < eintr w"
proof -
  have "\<forall>s n w r w'. k_recv K s n w = (r, w') \<longrightarrow>
      eintr w' \<le> eintr w \<and> (r = None \<and> k_errno K w' = EINTR \<longrightarrow> eintr w' < eintr w)"
    using assms(1) unfolding eintr_law_def by (elim conjE) assumption
  then show "eintr w' \<le> eintr w" and "r = None \<Longrightarrow> k_errno K w' = EINTR \<Longrightarrow> eintr w' < eintr w"
    using assms(2) by blast+
qed

lemma eintr_law_snd:
  assumes "eintr_law K eintr"
  shows "eintr (snd (k_socket K a b c w)) \<le> eintr w"
    and "eintr (snd (k_setsockopt K s i v w)) \<le> eintr w"
    and "eintr (snd (k_connect K s addr w)) \<le> eintr w"
    and "eintr (snd (k_shutdown K s h w)) \<le> eintr w"
    and "eintr (snd (k_close K s w)) \<le> eintr w"
    and "eintr (snd (snd (k_getaddrinfo K n p hints w))) \<le> eintr w"
proof -
  note e2 = assms [unfolded eintr_law_def, THEN conjunct2, THEN conjunct2, THEN conjunct1, rule_format]
  note e3 = assms [unfolded eintr_law_def, THEN conjunct2, THEN conjunct2, THEN conjunct2, THEN conjunct1, rule_format]
  note e4 = assms [unfolded eintr_law_def, THEN conjunct2, THEN conjunct2, THEN conjunct2, THEN conjunct2, THEN conjunct1, rule_format]
  note e5 = assms [unfolded eintr_law_def, THEN conjunct2, THEN conjunct2, THEN conjunct2, THEN conjunct2, THEN conjunct2, THEN conjunct1, rule_format]
  note e6 = assms [unfolded eintr_law_def, THEN conjunct2, THEN conjunct2, THEN conjunct2, THEN conjunct2, THEN conjunct2, THEN conjunct2, THEN conjunct1, rule_format]
  note e7 = assms [unfolded eintr_law_def, THEN conjunct2, THEN conjunct2, THEN conjunct2, THEN conjunct2, THEN conjunct2, THEN conjunct2, THEN conjunct2, rule_format]
  show "eintr (snd (k_socket K a b c w)) \<le> eintr w" by (rule e2)
  show "eintr (snd (k_setsockopt K s i v w)) \<le> eintr w" by (rule e3)
  show "eintr (snd (k_connect K s addr w)) \<le> eintr w" by (rule e4)
  show "eintr (snd (k_shutdown K s h w)) \<le> eintr w" by (rule e5)
  show "eintr (snd (k_close K s w)) \<le> eintr w" by (rule e6)
  show "eintr (snd (snd (k_getaddrinfo K n p hints w))) \<le> eintr w" by (rule e7)
qed

lemma eintr_law_other:
  assumes "eintr_law K eintr"
  shows "k_socket K a b c w = (s', w') \<Longrightarrow> eintr w' \<le> eintr w"
    and "k_setsockopt K s i v w = (r, w') \<Longrightarrow> eintr w' \<le> eintr w"
    and "k_connect K s addr w = (r, w') \<Longrightarrow> eintr w' \<le> eintr w"
    and "k_shutdown K s h w = (r, w') \<Longrightarrow> eintr w' \<le> eintr w"
    and "k_close K s w = (r, w') \<Longrightarrow> eintr w' \<le> eintr w"
    and "k_getaddrinfo K n p hints w = (r, res, w') \<Longrightarrow> eintr w' \<le> eintr w"
  using eintr_law_snd(1) [OF assms, of a b c w] eintr_law_snd(2) [OF assms, of s i v w]
    eintr_law_snd(3) [OF assms, of s addr w] eintr_law_snd(4) [OF assms, of s h w]
    eintr_law_snd(5) [OF assms, of s w] eintr_law_snd(6) [OF assms, of n p hints w]
  by simp_all

lemma socket_law_socket:
  assumes "socket_law K opened" and "k_socket K a b c w = (s, w')"
  shows "0 \<le> s \<Longrightarrow> s \<notin> opened w" and "0 \<le> s \<Longrightarrow> opened w' = insert s (opened w)"
    and "s < 0 \<Longrightarrow> opened w' = opened w"
proof -
  have "case k_socket K a b c w of (s, w') \<Rightarrow>
      (if 0 \<le> s then s \<notin> opened w \<and> opened w' = insert s (opened w) else opened w' = opened w)"
    by (rule assms(1) [unfolded socket_law_def, THEN conjunct1, rule_format])
  then show "0 \<le> s \<Longrightarrow> s \<notin> opened w" and "0 \<le> s \<Longrightarrow> opened w' = insert s (opened w)"
    and "s < 0 \<Longrightarrow> opened w' = opened w"
    unfolding assms(2) by simp_all
qed

lemma socket_law_snd:
  assumes "socket_law K opened"
  shows "opened (snd (k_close K s w)) = opened w - {s}"
    and "opened (snd (k_shutdown K s h w)) = opened w"
    and "opened (snd (k_setsockopt K s i v w)) = opened w"
    and "opened (snd (k_connect K s addr w)) = opened w"
    and "opened (snd (k_send K s bs fl w)) = opened w"
    and "opened (snd (k_recv K s n w)) = opened w"
    and "opened (snd (snd (k_getaddrinfo K nm p hints w))) = opened w"
proof -
  note o1 = assms [unfolded socket_law_def, THEN conjunct2, THEN conjunct1, rule_format]
  note o2 = assms [unfolded socket_law_def, THEN conjunct2, THEN conjunct2, THEN conjunct1, rule_format]
  note o3 = assms [unfolded socket_law_def, THEN conjunct2, THEN conjunct2, THEN conjunct2, THEN conjunct1, rule_format]
  note o4 = assms [unfolded socket_law_def, THEN conjunct2, THEN conjunct2, THEN conjunct2, THEN conjunct2, THEN conjunct1, rule_format]
  note o5 = assms [unfolded socket_law_def, THEN conjunct2, THEN conjunct2, THEN conjunct2, THEN conjunct2, THEN conjunct2, THEN conjunct1, rule_format]
  note o6 = assms [unfolded socket_law_def, THEN conjunct2, THEN conjunct2, THEN conjunct2, THEN conjunct2, THEN conjunct2, THEN conjunct2, THEN conjunct1, rule_format]
  note o7 = assms [unfolded socket_law_def, THEN conjunct2, THEN conjunct2, THEN conjunct2, THEN conjunct2, THEN conjunct2, THEN conjunct2, THEN conjunct2, rule_format]
  show "opened (snd (k_close K s w)) = opened w - {s}" by (rule o1)
  show "opened (snd (k_shutdown K s h w)) = opened w" by (rule o2)
  show "opened (snd (k_setsockopt K s i v w)) = opened w" by (rule o3)
  show "opened (snd (k_connect K s addr w)) = opened w" by (rule o4)
  show "opened (snd (k_send K s bs fl w)) = opened w" by (rule o5)
  show "opened (snd (k_recv K s n w)) = opened w" by (rule o6)
  show "opened (snd (snd (k_getaddrinfo K nm p hints w))) = opened w" by (rule o7)
qed

lemma socket_law_same:
  assumes "socket_law K opened"
  shows "k_shutdown K s h w = (r, w') \<Longrightarrow> opened w' = opened w"
    and "k_setsockopt K s i v w = (r, w') \<Longrightarrow> opened w' = opened w"
    and "k_connect K s addr w = (r, w') \<Longrightarrow> opened w' = opened w"
    and "k_send K s bs fl w = (r, w') \<Longrightarrow> opened w' = opened w"
    and "k_recv K s n w = (br, w') \<Longrightarrow> opened w' = opened w"
    and "k_getaddrinfo K nm p hints w = (r, res, w') \<Longrightarrow> opened w' = opened w"
  using socket_law_snd(2) [OF assms, of s h w] socket_law_snd(3) [OF assms, of s i v w]
    socket_law_snd(4) [OF assms, of s addr w] socket_law_snd(5) [OF assms, of s bs fl w]
    socket_law_snd(6) [OF assms, of s n w] socket_law_snd(7) [OF assms, of nm p hints w]
  by simp_all

lemma stray_lawD:
  assumes "stray_law K opened stray"
  shows "stray (snd (k_close K s w)) = stray w + (if s \<in> opened w then 0 else 1)"
    and "stray (snd (k_socket K a b c w)) = stray w"
    and "stray (snd (k_shutdown K s h w)) = stray w"
    and "stray (snd (k_setsockopt K s i v w)) = stray w"
    and "stray (snd (k_connect K s addr w)) = stray w"
    and "stray (snd (k_send K s bs fl w)) = stray w"
    and "stray (snd (k_recv K s n w)) = stray w"
    and "stray (snd (snd (k_getaddrinfo K nm p hints w))) = stray w"
  using assms by (simp_all add: stray_law_def)

section \<open>A scripted kernel\<close>

text \<open>Each call to \<open>send\<close> or \<open>recv\<close> consumes one entry of a script: transfer up to so many bytes, fail
  with an error number, or (for \<open>recv\<close>) report the peer's close. An empty script transfers all it can.
  Descriptors are handed out in increasing order.\<close>

datatype lb_reply = LbUpTo nat | LbFail int | LbEof

record lb =
  lb_errno :: int
  lb_script :: "lb_reply list"
  lb_sent :: "(fd \<times> byte list) list"
  lb_inbox :: "byte list"
  lb_open :: "fd set"
  lb_next :: nat
  lb_connects :: "int list"
  lb_stray :: nat

definition lb_pop :: "lb \<Rightarrow> lb_reply \<times> lb" where
  "lb_pop w = (case lb_script w of [] \<Rightarrow> (LbUpTo size_max, w) | r # rs \<Rightarrow> (r, w\<lparr>lb_script := rs\<rparr>))"

definition lb_wire :: "lb \<Rightarrow> fd \<Rightarrow> byte list" where
  "lb_wire w s = concat (map snd (filter (\<lambda>e. fst e = s) (lb_sent w)))"

fun lb_is_eintr :: "lb_reply \<Rightarrow> bool" where
  "lb_is_eintr (LbFail e) = (e = EINTR)"
| "lb_is_eintr _ = False"

definition lb_eintr :: "lb \<Rightarrow> nat" where
  "lb_eintr w = length (filter lb_is_eintr (lb_script w))"

definition lb_send :: "fd \<Rightarrow> byte list \<Rightarrow> int \<Rightarrow> lb \<Rightarrow> int \<times> lb" where
  "lb_send s bs fl w =
     (case lb_pop w of
        (LbUpTo n, w') \<Rightarrow> (int (length (take n bs)), w'\<lparr>lb_sent := lb_sent w' @ [(s, take n bs)]\<rparr>)
      | (LbFail e, w') \<Rightarrow> (-1, w'\<lparr>lb_errno := e\<rparr>)
      | (LbEof, w') \<Rightarrow> (0, w'))"

definition lb_recv :: "fd \<Rightarrow> nat \<Rightarrow> lb \<Rightarrow> byte list option \<times> lb" where
  "lb_recv s n w =
     (case lb_pop w of
        (LbUpTo m, w') \<Rightarrow>
          (Some (take (min m n) (lb_inbox w')), w'\<lparr>lb_inbox := drop (min m n) (lb_inbox w')\<rparr>)
      | (LbFail e, w') \<Rightarrow> (None, w'\<lparr>lb_errno := e\<rparr>)
      | (LbEof, w') \<Rightarrow> (Some [], w'))"

definition lb_socket :: "int \<Rightarrow> int \<Rightarrow> int \<Rightarrow> lb \<Rightarrow> fd \<times> lb" where
  "lb_socket a b c w =
     (let s = int (lb_next w) in
      if s \<in> lb_open w then (-1, w\<lparr>lb_errno := 24\<rparr>)
      else (s, w\<lparr>lb_next := Suc (lb_next w), lb_open := insert s (lb_open w)\<rparr>))"

definition lb_connect :: "fd \<Rightarrow> byte list \<Rightarrow> lb \<Rightarrow> int \<times> lb" where
  "lb_connect s a w =
     (case lb_connects w of
        [] \<Rightarrow> (0, w)
      | e # es \<Rightarrow> (if e = 0 then 0 else -1, w\<lparr>lb_connects := es, lb_errno := e\<rparr>))"

definition lb_close :: "fd \<Rightarrow> lb \<Rightarrow> int \<times> lb" where
  "lb_close s w =
     (if s \<in> lb_open w then (0, w\<lparr>lb_open := lb_open w - {s}\<rparr>)
      else (-1, w\<lparr>lb_errno := 9, lb_stray := Suc (lb_stray w)\<rparr>))"

definition lb_kernel :: "lb kernel" where
  "lb_kernel =
     \<lparr>k_errno = lb_errno,
      k_getaddrinfo = (\<lambda>n p h w. (0, [h, h], w)),
      k_socket = lb_socket,
      k_setsockopt = (\<lambda>s o' v w. (0, w)),
      k_connect = lb_connect,
      k_send = lb_send,
      k_recv = lb_recv,
      k_shutdown = (\<lambda>s h w. (0, w)),
      k_close = lb_close\<rparr>"

definition lb_start :: "lb_reply list \<Rightarrow> byte list \<Rightarrow> lb" where
  "lb_start script inbox =
     \<lparr>lb_errno = 0, lb_script = script, lb_sent = [], lb_inbox = inbox, lb_open = {}, lb_next = 3,
      lb_connects = [], lb_stray = 0\<rparr>"

lemmas lb_defs =
  lb_pop_def lb_send_def lb_recv_def lb_socket_def lb_connect_def lb_close_def lb_kernel_def lb_start_def

lemma lb_send_law: "send_law lb_kernel lb_wire"
  by (auto simp: send_law_def lb_defs lb_wire_def split: list.splits lb_reply.splits)

lemma lb_recv_law: "recv_law lb_kernel (\<lambda>w s. lb_inbox w)"
  by (auto simp: recv_law_def lb_defs split: list.splits lb_reply.splits option.splits)

lemma lb_eintr_law: "eintr_law lb_kernel lb_eintr"
  by (auto simp: eintr_law_def lb_defs lb_eintr_def Let_def split: list.splits lb_reply.splits)

lemma lb_socket_law: "socket_law lb_kernel lb_open"
  by (auto simp: socket_law_def lb_defs Let_def split: list.splits lb_reply.splits)

lemma lb_stray_law: "stray_law lb_kernel lb_open lb_stray"
  by (auto simp: stray_law_def lb_defs Let_def split: list.splits lb_reply.splits)

end
