(* ===== verification/TcpSyncClient.thy ===== *)
theory TcpSyncClient
  imports Posix "HOL-Library.Sublist"
begin

text \<open>
  \<open>cTCPSyncClient_V2\<close> (\<open>cTCPSyncClient_V2.h\<close>): a synchronous TCP client. The class is not thread
  safe by its own account, so a method is a function of the object and of the world behind the
  \<open>kernel\<close> parameter. Loops that retry on \<open>EINTR\<close> have no bound in the code: they take fuel, one unit
  per call to the kernel, and return \<open>None\<close> when it runs out. The theorems say how much is enough:
  more than the bytes wanted plus the signals still to come (\<open>eintr_law\<close>).
\<close>

section \<open>State\<close>

datatype enm_IOResult = IO_Success | IO_Closed | IO_Timeout | IO_NotConnected | IO_InvalidArgument | IO_Failed

definition kDefaultReceiveChunkSize :: nat where
  "kDefaultReceiveChunkSize = 4096"

definition kDefaultMaxPayloadSize :: nat where
  "kDefaultMaxPayloadSize = 64 * 1024"

record sync_client =
  sy_serverAddress :: string
  sy_port :: u16
  sy_socket :: fd
  sy_sendTimeout :: int
  sy_receiveTimeout :: int
  sy_lastPlatformError :: int
  sy_lastAddressInfoError :: int

definition sy_new :: "string \<Rightarrow> u16 \<Rightarrow> sync_client" where
  "sy_new serverAddress port =
     \<lparr>sy_serverAddress = serverAddress, sy_port = port, sy_socket = -1, sy_sendTimeout = 0,
      sy_receiveTimeout = 0, sy_lastPlatformError = 0, sy_lastAddressInfoError = 0\<rparr>"

definition sy_isConnected :: "sync_client \<Rightarrow> bool" where
  "sy_isConnected c \<longleftrightarrow> 0 \<le> sy_socket c"

section \<open>Errors\<close>

definition isTimeoutError :: "int \<Rightarrow> bool" where
  "isTimeoutError errorCode \<longleftrightarrow>
     errorCode = EAGAIN \<or> errorCode = EWOULDBLOCK \<or> errorCode = ETIMEDOUT"

definition clearLastError :: "sync_client \<Rightarrow> sync_client" where
  "clearLastError c = c\<lparr>sy_lastPlatformError := 0, sy_lastAddressInfoError := 0\<rparr>"

definition setLastPlatformError :: "int \<Rightarrow> sync_client \<Rightarrow> sync_client" where
  "setLastPlatformError errorCode c =
     c\<lparr>sy_lastPlatformError := errorCode, sy_lastAddressInfoError := 0\<rparr>"

definition setLastAddressInfoError :: "int \<Rightarrow> sync_client \<Rightarrow> sync_client" where
  "setLastAddressInfoError errorCode c =
     c\<lparr>sy_lastPlatformError := 0, sy_lastAddressInfoError := errorCode\<rparr>"

definition classifySocketError :: "int \<Rightarrow> sync_client \<Rightarrow> enm_IOResult \<times> sync_client" where
  "classifySocketError errorCode c =
     (if isTimeoutError errorCode then IO_Timeout else IO_Failed, setLastPlatformError errorCode c)"

text \<open>\<open>lastErrorMessage\<close>, from the library's two message tables.\<close>

definition sy_lastErrorMessage :: "(int \<Rightarrow> string) \<Rightarrow> (int \<Rightarrow> string) \<Rightarrow> sync_client \<Rightarrow> string" where
  "sy_lastErrorMessage gai_strerror strerror c =
     (if sy_lastAddressInfoError c \<noteq> 0 then gai_strerror (sy_lastAddressInfoError c)
      else if sy_lastPlatformError c \<noteq> 0 then strerror (sy_lastPlatformError c)
      else '''')"

section \<open>Timeouts\<close>

definition sanitizeTimeout :: "int \<Rightarrow> int" where
  "sanitizeTimeout timeout = (if timeout < 0 then 0 else timeout)"

definition toTimeval :: "int \<Rightarrow> timeval" where
  "toTimeval timeout =
     (let clamped = sanitizeTimeout timeout in
      \<lparr>tv_sec = clamped div 1000, tv_usec = clamped mod 1000 * 1000\<rparr>)"

definition applyConfiguredTimeout ::
  "'w kernel \<Rightarrow> int \<Rightarrow> int \<Rightarrow> sync_client \<Rightarrow> 'w \<Rightarrow> bool \<times> sync_client \<times> 'w" where
  "applyConfiguredTimeout K timeout optionName c w =
     (let c1 = clearLastError c in
      if \<not> sy_isConnected c1 then (True, c1, w)
      else (case k_setsockopt K (sy_socket c1) optionName (toTimeval timeout) w of
              (r, w') \<Rightarrow>
                if r < 0 then (False, setLastPlatformError (k_errno K w') c1, w') else (True, c1, w')))"

definition setSendTimeout ::
  "'w kernel \<Rightarrow> int \<Rightarrow> sync_client \<Rightarrow> 'w \<Rightarrow> bool \<times> sync_client \<times> 'w" where
  "setSendTimeout K timeout c w =
     (let c1 = c\<lparr>sy_sendTimeout := sanitizeTimeout timeout\<rparr> in
      applyConfiguredTimeout K (sy_sendTimeout c1) SO_SNDTIMEO c1 w)"

definition setReceiveTimeout ::
  "'w kernel \<Rightarrow> int \<Rightarrow> sync_client \<Rightarrow> 'w \<Rightarrow> bool \<times> sync_client \<times> 'w" where
  "setReceiveTimeout K timeout c w =
     (let c1 = c\<lparr>sy_receiveTimeout := sanitizeTimeout timeout\<rparr> in
      applyConfiguredTimeout K (sy_receiveTimeout c1) SO_RCVTIMEO c1 w)"

definition configureSocket ::
  "'w kernel \<Rightarrow> fd \<Rightarrow> sync_client \<Rightarrow> 'w \<Rightarrow> bool \<times> sync_client \<times> 'w" where
  "configureSocket K socketFd c w =
     (case k_setsockopt K socketFd SO_SNDTIMEO (toTimeval (sy_sendTimeout c)) w of
        (r, w1) \<Rightarrow>
          if r < 0 then (False, setLastPlatformError (k_errno K w1) c, w1)
          else (case k_setsockopt K socketFd SO_RCVTIMEO (toTimeval (sy_receiveTimeout c)) w1 of
                  (r', w2) \<Rightarrow>
                    if r' < 0 then (False, setLastPlatformError (k_errno K w2) c, w2)
                    else (True, c, w2)))"

section \<open>Opening and closing\<close>

definition closeSocketValue :: "'w kernel \<Rightarrow> fd \<Rightarrow> 'w \<Rightarrow> 'w" where
  "closeSocketValue K socketFd w =
     (if 0 \<le> socketFd
      then snd (k_close K socketFd (snd (k_shutdown K socketFd SHUT_RDWR w)))
      else w)"

definition sy_close :: "'w kernel \<Rightarrow> sync_client \<Rightarrow> 'w \<Rightarrow> sync_client \<times> 'w" where
  "sy_close K c w =
     (if 0 \<le> sy_socket c then (c\<lparr>sy_socket := -1\<rparr>, closeSocketValue K (sy_socket c) w) else (c, w))"

fun sy_connect_loop ::
  "'w kernel \<Rightarrow> addrinfo list \<Rightarrow> sync_client \<Rightarrow> 'w \<Rightarrow> bool \<times> sync_client \<times> 'w" where
  "sy_connect_loop K [] c w = (False, c, w)"
| "sy_connect_loop K (current # rest) c w =
     (case k_socket K (ai_family current) (ai_socktype current) (ai_protocol current) w of
        (socketFd, w1) \<Rightarrow>
          if socketFd < 0 then
            sy_connect_loop K rest (setLastPlatformError (k_errno K w1) c) w1
          else
            (case configureSocket K socketFd c w1 of
               (False, c2, w2) \<Rightarrow> sy_connect_loop K rest c2 (closeSocketValue K socketFd w2)
             | (True, c2, w2) \<Rightarrow>
                 (case k_connect K socketFd (ai_addr current) w2 of
                    (r, w3) \<Rightarrow>
                      if r = 0 then (True, clearLastError (c2\<lparr>sy_socket := socketFd\<rparr>), w3)
                      else
                        sy_connect_loop K rest (setLastPlatformError (k_errno K w3) c2)
                          (closeSocketValue K socketFd w3))))"

definition sy_connect :: "'w kernel \<Rightarrow> sync_client \<Rightarrow> 'w \<Rightarrow> bool \<times> sync_client \<times> 'w" where
  "sy_connect K c w =
     (case sy_close K c w of
        (c0, w0) \<Rightarrow>
          let c1 = clearLastError c0;
              hints = \<lparr>ai_family = AF_UNSPEC, ai_socktype = SOCK_STREAM, ai_protocol = IPPROTO_TCP,
                       ai_addr = []\<rparr>
          in (case k_getaddrinfo K (sy_serverAddress c1) (to_string (unat (sy_port c1))) hints w0 of
                (addressInfoResult, addressResults, w1) \<Rightarrow>
                  if addressInfoResult \<noteq> 0 then (False, setLastAddressInfoError addressInfoResult c1, w1)
                  else sy_connect_loop K addressResults c1 w1))"

definition sy_reconnect :: "'w kernel \<Rightarrow> sync_client \<Rightarrow> 'w \<Rightarrow> bool \<times> sync_client \<times> 'w" where
  "sy_reconnect K c w = (case sy_close K c w of (c', w') \<Rightarrow> sy_connect K c' w')"

definition shutdownWrite :: "'w kernel \<Rightarrow> sync_client \<Rightarrow> 'w \<Rightarrow> bool \<times> sync_client \<times> 'w" where
  "shutdownWrite K c w =
     (if \<not> sy_isConnected c then (False, c, w)
      else
        let c1 = clearLastError c in
        (case k_shutdown K (sy_socket c1) SHUT_WR w of
           (r, w1) \<Rightarrow>
             if r < 0 then (False, setLastPlatformError (k_errno K w1) c1, w1) else (True, c1, w1)))"

section \<open>Sending\<close>

definition platformSendFlags :: int where
  "platformSendFlags = MSG_NOSIGNAL"

fun sy_send_loop ::
  "nat \<Rightarrow> 'w kernel \<Rightarrow> byte list \<Rightarrow> nat \<Rightarrow> sync_client \<Rightarrow> 'w
     \<Rightarrow> (enm_IOResult \<times> sync_client \<times> 'w) option" where
  "sy_send_loop 0 K bytes totalSent c w = None"
| "sy_send_loop (Suc n) K bytes totalSent c w =
     (if totalSent < length bytes then
        (case k_send K (sy_socket c) (drop totalSent bytes) platformSendFlags w of
           (bytesSent, w1) \<Rightarrow>
             if 0 < bytesSent then sy_send_loop n K bytes (totalSent + nat bytesSent) c w1
             else if bytesSent < 0 \<and> k_errno K w1 = EINTR then sy_send_loop n K bytes totalSent c w1
             else (case classifySocketError (k_errno K w1) c of (r, c1) \<Rightarrow> Some (r, c1, w1)))
      else Some (IO_Success, c, w))"

text \<open>\<open>data\<close> is a pointer: \<open>None\<close> when null, otherwise the bytes it points to, of which
  \<open>nbytes\<close> (the source's \<open>size\<close>) are sent.\<close>

definition sy_sendAll ::
  "nat \<Rightarrow> 'w kernel \<Rightarrow> byte list option \<Rightarrow> nat \<Rightarrow> sync_client \<Rightarrow> 'w
     \<Rightarrow> (enm_IOResult \<times> sync_client \<times> 'w) option" where
  "sy_sendAll fuel K data nbytes c w =
     (if nbytes = 0 then Some (IO_Success, clearLastError c, w)
      else (case data of
              None \<Rightarrow> Some (IO_InvalidArgument, clearLastError c, w)
            | Some bytes \<Rightarrow>
                (if \<not> sy_isConnected c then Some (IO_NotConnected, clearLastError c, w)
                 else sy_send_loop fuel K (take nbytes bytes) 0 (clearLastError c) w)))"

definition sy_sendAll_buffer ::
  "nat \<Rightarrow> 'w kernel \<Rightarrow> byte list \<Rightarrow> sync_client \<Rightarrow> 'w \<Rightarrow> (enm_IOResult \<times> sync_client \<times> 'w) option" where
  "sy_sendAll_buffer fuel K payload c w = sy_sendAll fuel K (Some payload) (length payload) c w"

section \<open>Receiving\<close>

fun sy_receiveSome_loop ::
  "nat \<Rightarrow> 'w kernel \<Rightarrow> nat \<Rightarrow> sync_client \<Rightarrow> 'w \<Rightarrow> (enm_IOResult \<times> byte list \<times> sync_client \<times> 'w) option" where
  "sy_receiveSome_loop 0 K maxBytes c w = None"
| "sy_receiveSome_loop (Suc n) K maxBytes c w =
     (case k_recv K (sy_socket c) maxBytes w of
        (Some (b # bs), w1) \<Rightarrow> Some (IO_Success, b # bs, c, w1)
      | (Some [], w1) \<Rightarrow> Some (IO_Closed, [], c, w1)
      | (None, w1) \<Rightarrow>
          if k_errno K w1 = EINTR then sy_receiveSome_loop n K maxBytes c w1
          else (case classifySocketError (k_errno K w1) c of (r, c1) \<Rightarrow> Some (r, [], c1, w1)))"

definition sy_receiveSome ::
  "nat \<Rightarrow> 'w kernel \<Rightarrow> nat \<Rightarrow> sync_client \<Rightarrow> 'w \<Rightarrow> (enm_IOResult \<times> byte list \<times> sync_client \<times> 'w) option" where
  "sy_receiveSome fuel K maxBytes c w =
     (if maxBytes = 0 then Some (IO_InvalidArgument, [], clearLastError c, w)
      else if \<not> sy_isConnected c then Some (IO_NotConnected, [], clearLastError c, w)
      else sy_receiveSome_loop fuel K maxBytes (clearLastError c) w)"

text \<open>\<open>got\<close> is \<open>out\<close> up to \<open>totalRead\<close>; on every exit the code cuts or has filled \<open>out\<close> to that length.\<close>

fun sy_receiveExact_loop ::
  "nat \<Rightarrow> 'w kernel \<Rightarrow> nat \<Rightarrow> byte list \<Rightarrow> sync_client \<Rightarrow> 'w
     \<Rightarrow> (enm_IOResult \<times> byte list \<times> sync_client \<times> 'w) option" where
  "sy_receiveExact_loop 0 K bytesToRead got c w = None"
| "sy_receiveExact_loop (Suc n) K bytesToRead got c w =
     (if length got < bytesToRead then
        (case k_recv K (sy_socket c) (bytesToRead - length got) w of
           (Some (b # bs), w1) \<Rightarrow> sy_receiveExact_loop n K bytesToRead (got @ b # bs) c w1
         | (Some [], w1) \<Rightarrow> Some (IO_Closed, got, c, w1)
         | (None, w1) \<Rightarrow>
             if k_errno K w1 = EINTR then sy_receiveExact_loop n K bytesToRead got c w1
             else (case classifySocketError (k_errno K w1) c of (r, c1) \<Rightarrow> Some (r, got, c1, w1)))
      else Some (IO_Success, got, c, w))"

definition sy_receiveExact ::
  "nat \<Rightarrow> 'w kernel \<Rightarrow> nat \<Rightarrow> sync_client \<Rightarrow> 'w \<Rightarrow> (enm_IOResult \<times> byte list \<times> sync_client \<times> 'w) option" where
  "sy_receiveExact fuel K bytesToRead c w =
     (if bytesToRead = 0 then Some (IO_Success, [], clearLastError c, w)
      else if \<not> sy_isConnected c then Some (IO_NotConnected, [], clearLastError c, w)
      else sy_receiveExact_loop fuel K bytesToRead [] (clearLastError c) w)"

text \<open>\<open>std::search(out, delimiter) != out.end()\<close> for a non-empty delimiter: some position of \<open>out\<close> where
  the delimiter starts.\<close>

fun search_found :: "'a list \<Rightarrow> 'a list \<Rightarrow> bool" where
  "search_found [] needle \<longleftrightarrow> False"
| "search_found (x # xs) needle \<longleftrightarrow> take (length needle) (x # xs) = needle \<or> search_found xs needle"

fun sy_untilDelimiter_loop ::
  "nat \<Rightarrow> 'w kernel \<Rightarrow> byte list \<Rightarrow> nat \<Rightarrow> byte list \<Rightarrow> sync_client \<Rightarrow> 'w
     \<Rightarrow> (enm_IOResult \<times> byte list \<times> sync_client \<times> 'w) option" where
  "sy_untilDelimiter_loop 0 K delimiter maxBytes out c w = None"
| "sy_untilDelimiter_loop (Suc n) K delimiter maxBytes out c w =
     (if length out < maxBytes then
        (case sy_receiveSome n K (min kDefaultReceiveChunkSize (maxBytes - length out)) c w of
           None \<Rightarrow> None
         | Some (readResult, chunk, c1, w1) \<Rightarrow>
             if readResult = IO_Success then
               if search_found (out @ chunk) delimiter then Some (IO_Success, out @ chunk, c1, w1)
               else sy_untilDelimiter_loop n K delimiter maxBytes (out @ chunk) c1 w1
             else Some (readResult, out, c1, w1))
      else Some (IO_Failed, out, setLastPlatformError EMSGSIZE c, w))"

definition sy_receiveUntilDelimiter ::
  "nat \<Rightarrow> 'w kernel \<Rightarrow> byte list \<Rightarrow> nat \<Rightarrow> sync_client \<Rightarrow> 'w
     \<Rightarrow> (enm_IOResult \<times> byte list \<times> sync_client \<times> 'w) option" where
  "sy_receiveUntilDelimiter fuel K delimiter maxBytes c w =
     (if delimiter = [] \<or> maxBytes = 0 then Some (IO_InvalidArgument, [], clearLastError c, w)
      else if \<not> sy_isConnected c then Some (IO_NotConnected, [], clearLastError c, w)
      else sy_untilDelimiter_loop fuel K delimiter maxBytes [] (clearLastError c) w)"

fun sy_untilClosed_loop ::
  "nat \<Rightarrow> 'w kernel \<Rightarrow> nat \<Rightarrow> byte list \<Rightarrow> sync_client \<Rightarrow> 'w
     \<Rightarrow> (enm_IOResult \<times> byte list \<times> sync_client \<times> 'w) option" where
  "sy_untilClosed_loop 0 K maxBytes out c w = None"
| "sy_untilClosed_loop (Suc n) K maxBytes out c w =
     (if length out < maxBytes then
        (case sy_receiveSome n K (min kDefaultReceiveChunkSize (maxBytes - length out)) c w of
           None \<Rightarrow> None
         | Some (readResult, chunk, c1, w1) \<Rightarrow>
             if readResult = IO_Success then sy_untilClosed_loop n K maxBytes (out @ chunk) c1 w1
             else if readResult = IO_Closed then Some (IO_Success, out, clearLastError c1, w1)
             else Some (readResult, out, c1, w1))
      else Some (IO_Failed, out, setLastPlatformError EMSGSIZE c, w))"

definition sy_receiveUntilClosed ::
  "nat \<Rightarrow> 'w kernel \<Rightarrow> nat \<Rightarrow> sync_client \<Rightarrow> 'w \<Rightarrow> (enm_IOResult \<times> byte list \<times> sync_client \<times> 'w) option" where
  "sy_receiveUntilClosed fuel K maxBytes c w =
     (if maxBytes = 0 then Some (IO_InvalidArgument, [], clearLastError c, w)
      else if \<not> sy_isConnected c then Some (IO_NotConnected, [], clearLastError c, w)
      else sy_untilClosed_loop fuel K maxBytes [] (clearLastError c) w)"

section \<open>Whole exchanges\<close>

text \<open>\<open>ScopeExit\<close> (\<open>scope_exit.h\<close>) runs its function once when the scope is left, after the result has been
  computed: \<open>MakeScopeExit\<close> returns the object by value, so no copy of it is made and destroyed. Here
  it closes the socket on every path past \<open>connect\<close>.\<close>

definition MakeScopeExit :: "('s \<Rightarrow> 's) \<Rightarrow> 'r \<times> 's \<Rightarrow> 'r \<times> 's" where
  "MakeScopeExit f scope = (case scope of (result, s) \<Rightarrow> (result, f s))"

definition closeOnExit ::
  "'w kernel \<Rightarrow> enm_IOResult \<times> byte list \<times> sync_client \<times> 'w \<Rightarrow> enm_IOResult \<times> byte list \<times> sync_client \<times> 'w" where
  "closeOnExit K r =
     (case r of (res, out, c, w) \<Rightarrow>
        (case MakeScopeExit (\<lambda>(c, w). sy_close K c w) ((res, out), c, w) of
           ((res', out'), c', w') \<Rightarrow> (res', out', c', w')))"

lemma closeOnExit_result:
  "closeOnExit K (res, out, c, w) = (case sy_close K c w of (c', w') \<Rightarrow> (res, out, c', w'))"
  by (simp add: closeOnExit_def MakeScopeExit_def)

definition sy_exchangeOnce ::
  "nat \<Rightarrow> 'w kernel \<Rightarrow> byte list option \<Rightarrow> nat \<Rightarrow> nat \<Rightarrow> sync_client \<Rightarrow> 'w
     \<Rightarrow> (enm_IOResult \<times> byte list \<times> sync_client \<times> 'w) option" where
  "sy_exchangeOnce fuel K requestData requestSize maxResponseBytes c w =
     (case sy_connect K c w of
        (False, c1, w1) \<Rightarrow> Some (IO_Failed, [], c1, w1)
      | (True, c1, w1) \<Rightarrow>
          map_option (closeOnExit K)
            (case sy_sendAll fuel K requestData requestSize c1 w1 of
               None \<Rightarrow> None
             | Some (sendResult, c2, w2) \<Rightarrow>
                 if sendResult \<noteq> IO_Success then Some (sendResult, [], c2, w2)
                 else sy_receiveSome fuel K maxResponseBytes c2 w2))"

definition sy_exchangeOnceUntilClosed ::
  "nat \<Rightarrow> 'w kernel \<Rightarrow> byte list option \<Rightarrow> nat \<Rightarrow> nat \<Rightarrow> sync_client \<Rightarrow> 'w
     \<Rightarrow> (enm_IOResult \<times> byte list \<times> sync_client \<times> 'w) option" where
  "sy_exchangeOnceUntilClosed fuel K requestData requestSize maxResponseBytes c w =
     (case sy_connect K c w of
        (False, c1, w1) \<Rightarrow> Some (IO_Failed, [], c1, w1)
      | (True, c1, w1) \<Rightarrow>
          map_option (closeOnExit K)
            (case sy_sendAll fuel K requestData requestSize c1 w1 of
               None \<Rightarrow> None
             | Some (sendResult, c2, w2) \<Rightarrow>
                 if sendResult \<noteq> IO_Success then Some (sendResult, [], c2, w2)
                 else (case shutdownWrite K c2 w2 of
                         (False, c3, w3) \<Rightarrow> Some (IO_Failed, [], c3, w3)
                       | (True, c3, w3) \<Rightarrow> sy_receiveUntilClosed fuel K maxResponseBytes c3 w3)))"

lemmas sy_error_defs [op_defs] =
  clearLastError_def setLastPlatformError_def setLastAddressInfoError_def classifySocketError_def

end
