(* ===== verification/TcpSyncClientProofs.thy ===== *)
theory TcpSyncClientProofs
  imports TcpSyncClient
begin

text \<open>
  What \<open>cTCPSyncClient_V2\<close> promises, over any kernel with the documented behaviour: the loops move
  exactly the bytes they report, they end, no descriptor leaks, and timeouts reach the kernel intact.
\<close>

section \<open>Error bookkeeping does not touch the connection\<close>

lemma sy_socket_clear [simp]: "sy_socket (clearLastError c) = sy_socket c"
  and sy_socket_platform [simp]: "sy_socket (setLastPlatformError e c) = sy_socket c"
  and sy_socket_addrinfo [simp]: "sy_socket (setLastAddressInfoError e c) = sy_socket c"
  and sy_socket_classify [simp]: "sy_socket (snd (classifySocketError e c)) = sy_socket c"
  by (simp_all add: sy_error_defs)

lemma classify_not_success [simp]:
  "fst (classifySocketError e c) \<noteq> IO_Success" "fst (classifySocketError e c) \<noteq> IO_Closed"
  by (simp_all add: sy_error_defs)

lemma classify_error [simp]: "sy_lastPlatformError (snd (classifySocketError e c)) = e"
  by (simp add: sy_error_defs)

lemma classify_eq:
  "classifySocketError e c = (r, c') \<Longrightarrow>
   r \<noteq> IO_Success \<and> r \<noteq> IO_Closed \<and> sy_socket c' = sy_socket c \<and> sy_lastPlatformError c' = e"
  using classify_not_success [of e c] classify_error [of e c] sy_socket_classify [of e c] by simp

lemma sy_isConnected_clear [simp]: "sy_isConnected (clearLastError c) = sy_isConnected c"
  by (simp add: sy_isConnected_def)

section \<open>The send loop\<close>

lemma sy_send_loop_wire:
  assumes law: "send_law K wire"
  shows "sy_send_loop n K bytes totalSent c w = Some (r, c', w') \<Longrightarrow> totalSent \<le> length bytes \<Longrightarrow>
    sy_socket c' = sy_socket c \<and>
    (\<exists>k \<le> length bytes - totalSent.
       wire w' (sy_socket c) = wire w (sy_socket c) @ take k (drop totalSent bytes)
       \<and> (r = IO_Success \<longleftrightarrow> k = length bytes - totalSent)
       \<and> (r \<noteq> IO_Success \<longrightarrow> sy_lastPlatformError c' = k_errno K w'))"
proof (induction n arbitrary: totalSent w)
  case (Suc n)
  show ?case
  proof (cases "totalSent < length bytes")
    case False
    with Suc.prems show ?thesis by auto
  next
    case True
    obtain b w1 where s: "k_send K (sy_socket c) (drop totalSent bytes) platformSendFlags w = (b, w1)"
      by fastforce
    have b: "b \<le> int (length bytes - totalSent)"
      "wire w1 (sy_socket c) = wire w (sy_socket c) @ take (nat b) (drop totalSent bytes)"
      using send_lawD [OF law s] by simp_all
    consider "0 < b" | "b < 0" "k_errno K w1 = EINTR" | "b \<le> 0" "\<not> (b < 0 \<and> k_errno K w1 = EINTR)"
      by linarith
    then show ?thesis
    proof cases
      case 1
      then have "sy_send_loop n K bytes (totalSent + nat b) c w1 = Some (r, c', w')"
        using Suc.prems(1) True s by simp
      moreover have t: "totalSent + nat b \<le> length bytes" using b(1) True by linarith
      ultimately obtain k where k: "sy_socket c' = sy_socket c" "k \<le> length bytes - (totalSent + nat b)"
        "wire w' (sy_socket c) = wire w1 (sy_socket c) @ take k (drop (totalSent + nat b) bytes)"
        "r = IO_Success \<longleftrightarrow> k = length bytes - (totalSent + nat b)"
        "r \<noteq> IO_Success \<longrightarrow> sy_lastPlatformError c' = k_errno K w'"
        using Suc.IH by blast
      have "take (nat b) (drop totalSent bytes) @ take k (drop (totalSent + nat b) bytes)
          = take (nat b + k) (drop totalSent bytes)"
        by (simp add: take_add add.commute [of totalSent])
      then have "wire w' (sy_socket c) = wire w (sy_socket c) @ take (nat b + k) (drop totalSent bytes)"
        using k(3) b(2) by simp
      then show ?thesis
        using k t by (intro conjI exI [of _ "nat b + k"]) auto
    next
      case 2
      then have "sy_send_loop n K bytes totalSent c w1 = Some (r, c', w')"
        using Suc.prems(1) True s by simp
      from Suc.IH [OF this] True b(2) 2 show ?thesis by simp
    next
      case 3
      then have "Some (fst (classifySocketError (k_errno K w1) c),
          snd (classifySocketError (k_errno K w1) c), w1) = Some (r, c', w')"
        using Suc.prems(1) True s by (auto split: prod.splits)
      then have c: "r = fst (classifySocketError (k_errno K w1) c)" "w' = w1"
          "c' = snd (classifySocketError (k_errno K w1) c)"
        by auto
      show ?thesis
        using b(2) 3(1) True unfolding c by (intro conjI exI [of _ 0]) auto
    qed
  qed
qed simp

lemma sy_send_loop_returns:
  assumes law: "send_law K wire" and eintr: "eintr_law K eintr"
  shows "length bytes - totalSent + eintr w < n \<Longrightarrow>
    \<exists>r c' w'. sy_send_loop n K bytes totalSent c w = Some (r, c', w') \<and> eintr w' \<le> eintr w"
proof (induction n arbitrary: totalSent w)
  case (Suc n)
  show ?case
  proof (cases "totalSent < length bytes")
    case True
    obtain b w1 where s: "k_send K (sy_socket c) (drop totalSent bytes) platformSendFlags w = (b, w1)"
      by fastforce
    note e = eintr_law_send [OF eintr s]
    consider "0 < b" | "b < 0" "k_errno K w1 = EINTR" | "b \<le> 0" "\<not> (b < 0 \<and> k_errno K w1 = EINTR)"
      by linarith
    then show ?thesis
    proof cases
      case 1
      then have "length bytes - (totalSent + nat b) + eintr w1 < n" using Suc.prems True e by linarith
      then show ?thesis using Suc.IH [of "totalSent + nat b" w1] s e(1) 1 True by fastforce
    next
      case 2
      then show ?thesis using Suc.IH [of totalSent w1] Suc.prems s e(2) True by fastforce
    next
      case 3
      then show ?thesis using s e(1) True by (auto split: prod.splits)
    qed
  qed simp
qed simp

text \<open>What a \<open>send\<close> leaves alone, the loop does; so for \<open>recv\<close> below.\<close>

lemma sy_send_loop_keeps:
  assumes obs: "\<And>s bs f w. obs (snd (k_send K s bs f w)) = obs w"
  shows "sy_send_loop n K bytes totalSent c w = Some (r, c', w') \<Longrightarrow>
    obs w' = obs w \<and> sy_socket c' = sy_socket c"
proof (induction n arbitrary: totalSent w)
  case (Suc n)
  obtain b w1 where s: "k_send K (sy_socket c) (drop totalSent bytes) platformSendFlags w = (b, w1)"
    by fastforce
  have "obs w1 = obs w"
    using obs [of "sy_socket c" "drop totalSent bytes" platformSendFlags w] s by simp
  then show ?case
    using Suc s by (auto dest!: classify_eq split: if_splits prod.splits)
qed simp

section \<open>The receive loops\<close>

lemma sy_receiveSome_loop_inbox:
  assumes law: "recv_law K inbox"
  shows "sy_receiveSome_loop n K maxBytes c w = Some (r, out, c', w') \<Longrightarrow>
    inbox w (sy_socket c) = out @ inbox w' (sy_socket c) \<and> length out \<le> maxBytes
    \<and> (r = IO_Success \<longleftrightarrow> out \<noteq> []) \<and> sy_socket c' = sy_socket c"
proof (induction n arbitrary: w)
  case (Suc n)
  obtain a w1 where s: "k_recv K (sy_socket c) maxBytes w = (a, w1)" by fastforce
  note l = recv_lawD [OF law s]
  show ?case
    using Suc l s by (auto dest!: classify_eq split: if_splits prod.splits option.splits list.splits)
qed simp

lemma sy_receiveSome_loop_returns:
  assumes eintr: "eintr_law K eintr"
  shows "eintr w < n \<Longrightarrow>
    \<exists>r out c' w'. sy_receiveSome_loop n K maxBytes c w = Some (r, out, c', w') \<and> eintr w' \<le> eintr w"
proof (induction n arbitrary: w)
  case (Suc n)
  obtain a w1 where s: "k_recv K (sy_socket c) maxBytes w = (a, w1)" by fastforce
  note e = eintr_law_recv [OF eintr s]
  show ?case
  proof (cases "a = None \<and> k_errno K w1 = EINTR")
    case True
    then have lt: "eintr w1 < eintr w" using e(2) by simp
    then obtain r out c' w' where
      "sy_receiveSome_loop n K maxBytes c w1 = Some (r, out, c', w')" "eintr w' \<le> eintr w1"
      using Suc.IH [of w1] Suc.prems by fastforce
    then show ?thesis using True s lt by fastforce
  next
    case False
    then show ?thesis
      using s e(1) by (auto split: prod.splits option.splits list.splits)
  qed
qed simp

lemma sy_receiveSome_loop_keeps:
  assumes obs: "\<And>s n w. obs (snd (k_recv K s n w)) = obs w"
  shows "sy_receiveSome_loop n K maxBytes c w = Some (r, out, c', w') \<Longrightarrow>
    obs w' = obs w \<and> sy_socket c' = sy_socket c"
proof (induction n arbitrary: w)
  case (Suc n)
  obtain a w1 where s: "k_recv K (sy_socket c) maxBytes w = (a, w1)" by fastforce
  have "obs w1 = obs w" using obs [of "sy_socket c" maxBytes w] s by simp
  then show ?case
    using Suc s by (auto dest!: classify_eq split: if_splits prod.splits option.splits list.splits)
qed simp

lemma sy_receiveExact_loop_inbox:
  assumes law: "recv_law K inbox"
  shows "sy_receiveExact_loop n K m got c w = Some (r, out, c', w') \<Longrightarrow> length got \<le> m \<Longrightarrow>
    (\<exists>new. out = got @ new \<and> inbox w (sy_socket c) = new @ inbox w' (sy_socket c))
    \<and> length out \<le> m \<and> (r = IO_Success \<longleftrightarrow> length out = m) \<and> sy_socket c' = sy_socket c"
proof (induction n arbitrary: w got)
  case (Suc n)
  show ?case
  proof (cases "length got < m")
    case True
    obtain a w1 where s: "k_recv K (sy_socket c) (m - length got) w = (a, w1)" by fastforce
    note l = recv_lawD [OF law s]
    show ?thesis
    proof (cases "a = None \<and> k_errno K w1 = EINTR")
      case retry: True
      then have "sy_receiveExact_loop n K m got c w1 = Some (r, out, c', w')"
        using Suc.prems(1) s True by simp
      from Suc.IH [OF this Suc.prems(2)] l retry show ?thesis by simp
    next
      case False
      show ?thesis
      proof (cases a)
        case None
        then have "classifySocketError (k_errno K w1) c = (r, c') \<and> out = got \<and> w' = w1"
          using Suc.prems(1) s True False by (auto split: prod.splits)
        then show ?thesis
          using l None True by (auto dest!: classify_eq)
      next
        case (Some bs)
        show ?thesis
        proof (cases bs)
          case Nil
          then show ?thesis using Suc.prems(1) s True Some l by auto
        next
          case (Cons b bs')
          then have "sy_receiveExact_loop n K m (got @ bs) c w1 = Some (r, out, c', w')"
            using Suc.prems(1) s True Some by simp
          moreover have "length (got @ bs) \<le> m" using l Some True by auto
          ultimately show ?thesis
            using Suc.IH [of "got @ bs" w1] l Some by auto
        qed
      qed
    qed
  qed (use Suc.prems in auto)
qed simp

lemma sy_receiveExact_loop_returns:
  assumes law: "recv_law K inbox" and eintr: "eintr_law K eintr"
  shows "m - length got + eintr w < n \<Longrightarrow> \<exists>x. sy_receiveExact_loop n K m got c w = Some x"
proof (induction n arbitrary: w got)
  case (Suc n)
  obtain a w1 where s: "k_recv K (sy_socket c) (m - length got) w = (a, w1)" by fastforce
  note e = eintr_law_recv [OF eintr s]
  show ?case
  proof (cases a)
    case None
    then show ?thesis
      using Suc.IH [of got w1] Suc.prems s e by (auto split: prod.splits)
  next
    case (Some bs)
    then show ?thesis
      using Suc.IH [of "got @ bs" w1] Suc.prems s e(1) by (cases bs) auto
  qed
qed simp

section \<open>Reading up to a delimiter, and to the end\<close>

lemma search_found_sublist: "needle \<noteq> [] \<Longrightarrow> search_found xs needle \<longleftrightarrow> sublist needle xs"
proof (induction xs needle rule: search_found.induct)
  case (2 x xs needle)
  have "take (length needle) (x # xs) = needle \<longleftrightarrow> prefix needle (x # xs)"
    by (metis append_take_drop_id prefixI prefix_def append_eq_conv_conj)
  then show ?case
    using 2 by (simp add: sublist_Cons_right)
qed simp

lemma sy_receiveSome_inbox:
  assumes law: "recv_law K inbox" and r: "sy_receiveSome n K m c w = Some (r, out, c', w')"
  shows "inbox w (sy_socket c) = out @ inbox w' (sy_socket c) \<and> length out \<le> m
    \<and> (r = IO_Success \<longleftrightarrow> out \<noteq> []) \<and> sy_socket c' = sy_socket c"
  using r sy_receiveSome_loop_inbox [OF law, of n m "clearLastError c" w r out c' w']
  by (auto simp: sy_receiveSome_def split: if_splits)

lemma sy_receiveSome_returns:
  assumes "eintr_law K eintr" and "eintr w < n"
  shows "\<exists>r out c' w'. sy_receiveSome n K m c w = Some (r, out, c', w') \<and> eintr w' \<le> eintr w"
  using sy_receiveSome_loop_returns [OF assms, of m "clearLastError c"]
  by (auto simp: sy_receiveSome_def)

lemma sy_receiveSome_keeps:
  assumes "\<And>s n w. obs (snd (k_recv K s n w)) = obs w" and "sy_receiveSome n K m c w = Some (r, out, c', w')"
  shows "obs w' = obs w \<and> sy_socket c' = sy_socket c"
  using assms(2) sy_receiveSome_loop_keeps [where obs = obs, OF assms(1), of n m "clearLastError c" w r out c' w']
  by (auto simp: sy_receiveSome_def split: if_splits)

lemma sy_untilDelimiter_loop_result:
  assumes law: "recv_law K inbox"
  shows "sy_untilDelimiter_loop n K d m out c w = Some (r, out', c', w') \<Longrightarrow>
    length out \<le> m \<Longrightarrow> \<not> search_found out d \<Longrightarrow>
    (\<exists>new. out' = out @ new \<and> inbox w (sy_socket c) = new @ inbox w' (sy_socket c))
    \<and> length out' \<le> m \<and> (r = IO_Success \<longleftrightarrow> search_found out' d)
    \<and> (length out' = m \<and> r \<noteq> IO_Success \<longrightarrow> r = IO_Failed \<and> sy_lastPlatformError c' = EMSGSIZE)"
proof (induction n arbitrary: out c w)
  case (Suc n)
  show ?case
  proof (cases "length out < m")
    case False
    with Suc.prems show ?thesis by (auto simp: setLastPlatformError_def)
  next
    case True
    let ?m = "min kDefaultReceiveChunkSize (m - length out)"
    obtain q chunk c1 w1 where s: "sy_receiveSome n K ?m c w = Some (q, chunk, c1, w1)"
      using Suc.prems(1) True by (auto split: option.splits)
    note i = sy_receiveSome_inbox [OF law s]
    show ?thesis
    proof (cases "q = IO_Success")
      case False
      then show ?thesis using Suc.prems s True i by auto
    next
      case q: True
      show ?thesis
      proof (cases "search_found (out @ chunk) d")
        case True
        then show ?thesis
          using Suc.prems s q i \<open>length out < m\<close> by auto
      next
        case False
        then have l: "sy_untilDelimiter_loop n K d m (out @ chunk) c1 w1 = Some (r, out', c', w')"
          using Suc.prems(1) s q \<open>length out < m\<close> by simp
        have "length (out @ chunk) \<le> m" using i \<open>length out < m\<close> by auto
        from Suc.IH [OF l this False] i show ?thesis by auto
      qed
    qed
  qed
qed simp

lemma sy_untilDelimiter_loop_returns:
  assumes law: "recv_law K inbox" and eintr: "eintr_law K eintr"
  shows "m - length out + eintr w < n \<Longrightarrow> \<exists>x. sy_untilDelimiter_loop n K d m out c w = Some x"
proof (induction n arbitrary: out c w)
  case (Suc n)
  show ?case
  proof (cases "length out < m")
    case True
    let ?m = "min kDefaultReceiveChunkSize (m - length out)"
    have "eintr w < n" using True Suc.prems by linarith
    then obtain r chunk c1 w1 where s: "sy_receiveSome n K ?m c w = Some (r, chunk, c1, w1)"
      "eintr w1 \<le> eintr w"
      using sy_receiveSome_returns [OF eintr, of w n ?m c] by blast
    note i = sy_receiveSome_inbox [OF law s(1)]
    have "r = IO_Success \<Longrightarrow> m - length (out @ chunk) + eintr w1 < n"
      using i s(2) Suc.prems True by (cases chunk) auto
    then show ?thesis
      using Suc.IH [of "out @ chunk" w1 c1] s(1) True by auto
  qed simp
qed simp

lemma sy_untilClosed_loop_result:
  assumes law: "recv_law K inbox"
  shows "sy_untilClosed_loop n K m out c w = Some (r, out', c', w') \<Longrightarrow> length out \<le> m \<Longrightarrow>
    (\<exists>new. out' = out @ new \<and> inbox w (sy_socket c) = new @ inbox w' (sy_socket c))
    \<and> length out' \<le> m \<and> sy_socket c' = sy_socket c
    \<and> (if length out' = m then r = IO_Failed \<and> sy_lastPlatformError c' = EMSGSIZE else True)"
proof (induction n arbitrary: out c w)
  case (Suc n)
  show ?case
  proof (cases "length out < m")
    case False
    with Suc.prems show ?thesis by (auto simp: setLastPlatformError_def)
  next
    case True
    let ?m = "min kDefaultReceiveChunkSize (m - length out)"
    obtain q chunk c1 w1 where s: "sy_receiveSome n K ?m c w = Some (q, chunk, c1, w1)"
      using Suc.prems(1) True by (auto split: option.splits)
    note i = sy_receiveSome_inbox [OF law s]
    show ?thesis
    proof (cases "q = IO_Success")
      case False
      then show ?thesis using Suc.prems s True i by (auto split: if_splits)
    next
      case q: True
      then have l: "sy_untilClosed_loop n K m (out @ chunk) c1 w1 = Some (r, out', c', w')"
        using Suc.prems(1) s True by simp
      have "length (out @ chunk) \<le> m" using i True by auto
      from Suc.IH [OF l this] i show ?thesis by auto
    qed
  qed
qed simp

lemma sy_untilClosed_loop_returns:
  assumes law: "recv_law K inbox" and eintr: "eintr_law K eintr"
  shows "m - length out + eintr w < n \<Longrightarrow> \<exists>x. sy_untilClosed_loop n K m out c w = Some x"
proof (induction n arbitrary: out c w)
  case (Suc n)
  show ?case
  proof (cases "length out < m")
    case True
    let ?m = "min kDefaultReceiveChunkSize (m - length out)"
    have "eintr w < n" using True Suc.prems by linarith
    then obtain r chunk c1 w1 where s: "sy_receiveSome n K ?m c w = Some (r, chunk, c1, w1)"
      "eintr w1 \<le> eintr w"
      using sy_receiveSome_returns [OF eintr, of w n ?m c] by blast
    note i = sy_receiveSome_inbox [OF law s(1)]
    have "r = IO_Success \<Longrightarrow> m - length (out @ chunk) + eintr w1 < n"
      using i s(2) Suc.prems True by (cases chunk) auto
    then show ?thesis
      using Suc.IH [of "out @ chunk" w1 c1] s(1) True by auto
  qed simp
qed simp

section \<open>Descriptors\<close>

lemma closeSocketValue_opened:
  "socket_law K opened \<Longrightarrow>
   opened (closeSocketValue K s w) = (if 0 \<le> s then opened w - {s} else opened w)"
  by (simp add: closeSocketValue_def socket_law_snd(1,2))

lemma sy_close_opened:
  "socket_law K opened \<Longrightarrow> sy_close K c w = (c', w') \<Longrightarrow>
   opened w' = (if 0 \<le> sy_socket c then opened w - {sy_socket c} else opened w)
   \<and> \<not> sy_isConnected c' \<and> (sy_isConnected c \<longrightarrow> sy_socket c' = -1)
   \<and> (\<not> sy_isConnected c \<longrightarrow> c' = c)"
  by (auto simp: sy_close_def sy_isConnected_def closeSocketValue_opened split: if_splits)

lemma configureSocket_keeps:
  assumes "\<And>s i v w. obs (snd (k_setsockopt K s i v w)) = obs w" and "configureSocket K s c w = (ok, c', w')"
  shows "obs w' = obs w \<and> sy_socket c' = sy_socket c"
proof -
  have "k_setsockopt K s i v u = (r, u') \<Longrightarrow> obs u' = obs u" for i v u r u' using assms(1) [of s i v u] by simp
  then show ?thesis using assms(2) unfolding configureSocket_def by (auto split: prod.splits if_splits)
qed

lemma sy_connect_loop_opened:
  assumes law: "socket_law K opened"
  shows "sy_connect_loop K as c w = (ok, c', w') \<Longrightarrow>
    (if ok then 0 \<le> sy_socket c' \<and> sy_socket c' \<notin> opened w \<and> opened w' = insert (sy_socket c') (opened w)
     else sy_socket c' = sy_socket c \<and> opened w' = opened w)"
proof (induction as arbitrary: c w)
  case (Cons a as)
  obtain s w1 where s: "k_socket K (ai_family a) (ai_socktype a) (ai_protocol a) w = (s, w1)"
    by fastforce
  note o1 = socket_law_socket [OF law s]
  show ?case
  proof (cases "s < 0")
    case True
    then show ?thesis
      using Cons.IH [of "setLastPlatformError (k_errno K w1) c" w1] Cons.prems s o1(3) [OF True]
      by (simp split: if_splits)
  next
    case False
    obtain cfg c2 w2 where g: "configureSocket K s c w1 = (cfg, c2, w2)" by (metis prod_cases3)
    note o2 = configureSocket_keeps [where obs = opened, OF socket_law_snd(3) [OF law] g]
    obtain r w3 where k: "k_connect K s (ai_addr a) w2 = (r, w3)" by fastforce
    note o3 = socket_law_same(3) [OF law k]
    have c: "opened (closeSocketValue K s u) = opened u - {s}" for u
      using closeSocketValue_opened [OF law] False by simp
    have r: "opened w1 - {s} = opened w"
      using o1 False by auto
    consider "\<not> cfg" | "cfg" "r = 0" | "cfg" "r \<noteq> 0" by blast
    then show ?thesis
    proof cases
      case 1
      then have "sy_connect_loop K as c2 (closeSocketValue K s w2) = (ok, c', w')"
        using Cons.prems s g False by simp
      from Cons.IH [OF this] show ?thesis using c [of w2] o2 r by (simp split: if_splits)
    next
      case 2
      then have "(True, clearLastError (c2\<lparr>sy_socket := s\<rparr>), w3) = (ok, c', w')"
        using Cons.prems s g k False by simp
      then have e: "ok" "sy_socket c' = s" "w' = w3" by auto
      show ?thesis using e o1 o2 o3 False by simp
    next
      case 3
      then have "sy_connect_loop K as (setLastPlatformError (k_errno K w3) c2) (closeSocketValue K s w3)
          = (ok, c', w')"
        using Cons.prems s g k False by simp
      from Cons.IH [OF this] show ?thesis using c [of w3] o2 o3 r by (simp split: if_splits)
    qed
  qed
qed simp

lemma sy_connect_opened:
  assumes law: "socket_law K opened" and r: "sy_connect K c w = (ok, c', w')"
  shows "ok = sy_isConnected c'
    \<and> opened w' = (opened w - (if sy_isConnected c then {sy_socket c} else {}))
        \<union> (if ok then {sy_socket c'} else {})
    \<and> (ok \<longrightarrow> sy_socket c' \<notin> opened w - (if sy_isConnected c then {sy_socket c} else {}))"
proof -
  obtain c0 w0 where c0: "sy_close K c w = (c0, w0)" by fastforce
  note o0 = sy_close_opened [OF law c0]
  let ?h = "\<lparr>ai_family = AF_UNSPEC, ai_socktype = SOCK_STREAM, ai_protocol = IPPROTO_TCP, ai_addr = []\<rparr>"
  let ?c1 = "clearLastError c0"
  obtain e as w1 where g: "k_getaddrinfo K (sy_serverAddress ?c1) (to_string (unat (sy_port ?c1))) ?h w0
      = (e, as, w1)" by (metis prod_cases3)
  note o1 = socket_law_same(6) [OF law g]
  have n: "\<not> 0 \<le> sy_socket c0" using o0 by (simp add: sy_isConnected_def)
  show ?thesis
  proof (cases "e = 0")
    case True
    then have l: "sy_connect_loop K as ?c1 w1 = (ok, c', w')"
      using r c0 g by (simp add: sy_connect_def Let_def)
    show ?thesis
      using sy_connect_loop_opened [OF law l] o0 o1 n
      by (auto simp: sy_isConnected_def split: if_splits)
  next
    case False
    then show ?thesis
      using r c0 g o0 o1 n by (auto simp: sy_connect_def Let_def sy_isConnected_def)
  qed
qed

lemma sy_sendAll_keeps:
  assumes "\<And>s bs f w. obs (snd (k_send K s bs f w)) = obs w" and "sy_sendAll n K d k c w = Some (r, c', w')"
  shows "obs w' = obs w \<and> sy_socket c' = sy_socket c"
  using assms(2) sy_send_loop_keeps [where obs = obs, OF assms(1), of n _ 0 "clearLastError c" w r c' w']
  by (auto simp: sy_sendAll_def split: if_splits option.splits)

lemma shutdownWrite_keeps:
  assumes "\<And>s h w. obs (snd (k_shutdown K s h w)) = obs w" and "shutdownWrite K c w = (ok, c', w')"
  shows "obs w' = obs w \<and> sy_socket c' = sy_socket c"
  using assms(2) assms(1) [of "sy_socket c" SHUT_WR w] unfolding shutdownWrite_def Let_def
  by (auto split: prod.splits if_splits)

lemma sy_untilClosed_loop_keeps:
  assumes obs: "\<And>s n w. obs (snd (k_recv K s n w)) = obs w"
  shows "sy_untilClosed_loop n K m out c w = Some (r, out', c', w') \<Longrightarrow>
    obs w' = obs w \<and> sy_socket c' = sy_socket c"
proof (induction n arbitrary: out c w)
  case (Suc n)
  show ?case
  proof (cases "length out < m")
    case True
    let ?m = "min kDefaultReceiveChunkSize (m - length out)"
    obtain q chunk c1 w1 where s: "sy_receiveSome n K ?m c w = Some (q, chunk, c1, w1)"
      using Suc.prems(1) True by (auto split: option.splits)
    note i = sy_receiveSome_keeps [where obs = obs, OF obs s]
    show ?thesis
      using Suc.prems Suc.IH [of "out @ chunk" c1 w1] s True i by (auto split: if_splits)
  qed (use Suc.prems in auto)
qed simp

lemma sy_receiveUntilClosed_keeps:
  assumes "\<And>s n w. obs (snd (k_recv K s n w)) = obs w" and "sy_receiveUntilClosed n K m c w = Some (r, out, c', w')"
  shows "obs w' = obs w \<and> sy_socket c' = sy_socket c"
  using assms(2) sy_untilClosed_loop_keeps [where obs = obs, OF assms(1), of n m "[]" "clearLastError c" w r out c' w']
  by (auto simp: sy_receiveUntilClosed_def split: if_splits)

lemma closeOnExit_opened:
  assumes "socket_law K opened" and "closeOnExit K (r, out, c, w) = (r', out', c', w')"
  shows "\<not> sy_isConnected c' \<and> opened w' = (if sy_isConnected c then opened w - {sy_socket c} else opened w)"
  using assms(2) sy_close_opened [OF assms(1), of c w]
  by (auto simp: closeOnExit_def MakeScopeExit_def sy_isConnected_def split: prod.splits)

text \<open>No \<open>close\<close> on a descriptor that is not open.\<close>

lemma closeSocketValue_stray:
  assumes "socket_law K opened" and "stray_law K opened stray" and "0 \<le> s \<longrightarrow> s \<in> opened w"
  shows "stray (closeSocketValue K s w) = stray w"
  using assms(3) by (simp add: closeSocketValue_def stray_lawD [OF assms(2)] socket_law_snd(2) [OF assms(1)])

lemma sy_close_stray:
  assumes "socket_law K opened" and "stray_law K opened stray" and "sy_close K c w = (c', w')"
    and "sy_isConnected c \<longrightarrow> sy_socket c \<in> opened w"
  shows "stray w' = stray w"
  using assms(3,4) closeSocketValue_stray [OF assms(1,2), of "sy_socket c" w]
  by (auto simp: sy_close_def sy_isConnected_def split: if_splits)

lemma sy_connect_loop_stray:
  assumes law: "socket_law K opened" and st: "stray_law K opened stray"
  shows "sy_connect_loop K as c w = (ok, c', w') \<Longrightarrow> stray w' = stray w"
proof (induction as arbitrary: c w)
  case (Cons a as)
  obtain s w1 where s: "k_socket K (ai_family a) (ai_socktype a) (ai_protocol a) w = (s, w1)"
    by fastforce
  obtain cfg c2 w2 where g: "configureSocket K s c w1 = (cfg, c2, w2)" by (metis prod_cases3)
  obtain r w3 where k: "k_connect K s (ai_addr a) w2 = (r, w3)" by fastforce
  note o = socket_law_socket(2) [OF law s] configureSocket_keeps [where obs = opened, OF socket_law_snd(3) [OF law] g]
    socket_law_same(3) [OF law k]
  have e: "stray w1 = stray w" "stray w2 = stray w1" "stray w3 = stray w2"
    using stray_lawD(2) [OF st, of "ai_family a" "ai_socktype a" "ai_protocol a" w] s
      configureSocket_keeps [where obs = stray, OF stray_lawD(4) [OF st] g] stray_lawD(5) [OF st, of s "ai_addr a" w2] k
    by simp_all
  have "0 \<le> s \<longrightarrow> s \<in> opened w2" "0 \<le> s \<longrightarrow> s \<in> opened w3" using o by auto
  note f = closeSocketValue_stray [OF law st this(1)] closeSocketValue_stray [OF law st this(2)]
  show ?case
    using Cons.prems s g k e f Cons.IH by (force split: if_splits bool.splits)
qed simp

lemma sy_connect_stray:
  assumes law: "socket_law K opened" and st: "stray_law K opened stray" and r: "sy_connect K c w = (ok, c', w')"
    and own: "sy_isConnected c \<longrightarrow> sy_socket c \<in> opened w"
  shows "stray w' = stray w"
proof -
  obtain c0 w0 where c0: "sy_close K c w = (c0, w0)" by fastforce
  let ?h = "\<lparr>ai_family = AF_UNSPEC, ai_socktype = SOCK_STREAM, ai_protocol = IPPROTO_TCP, ai_addr = []\<rparr>"
  let ?c1 = "clearLastError c0"
  obtain e as w1 where g: "k_getaddrinfo K (sy_serverAddress ?c1) (to_string (unat (sy_port ?c1))) ?h w0
      = (e, as, w1)" by (metis prod_cases3)
  have "stray w1 = stray w"
    using stray_lawD(8) [OF st, of "sy_serverAddress ?c1" "to_string (unat (sy_port ?c1))" ?h w0] g
      sy_close_stray [OF law st c0 own] by simp
  then show ?thesis
    using r c0 g sy_connect_loop_stray [OF law st, of as ?c1 w1 ok c' w']
    by (auto simp: sy_connect_def Let_def split: if_splits)
qed

lemma closeOnExit_stray:
  assumes "socket_law K opened" and "stray_law K opened stray" and "closeOnExit K (r, out, c, w) = (r', out', c', w')"
    and "sy_isConnected c \<longrightarrow> sy_socket c \<in> opened w"
  shows "stray w' = stray w"
  using assms(3) sy_close_stray [OF assms(1,2) _ assms(4)]
  by (auto simp: closeOnExit_def MakeScopeExit_def split: prod.splits)

lemma configureSocket_eintr:
  assumes "eintr_law K eintr" and "configureSocket K s c w = (ok, c', w')"
  shows "eintr w' \<le> eintr w"
  using assms(2) unfolding configureSocket_def
  by (auto split: prod.splits if_splits dest!: eintr_law_other(2) [OF assms(1)])

lemma closeSocketValue_eintr:
  assumes "eintr_law K eintr"
  shows "eintr (closeSocketValue K s w) \<le> eintr w"
  using eintr_law_snd(4) [OF assms, of s SHUT_RDWR w]
    eintr_law_snd(5) [OF assms, of s "snd (k_shutdown K s SHUT_RDWR w)"]
  by (simp add: closeSocketValue_def)

lemma sy_connect_loop_eintr:
  assumes law: "eintr_law K eintr"
  shows "sy_connect_loop K as c w = (ok, c', w') \<Longrightarrow> eintr w' \<le> eintr w"
proof (induction as arbitrary: c w)
  case (Cons a as)
  obtain s w1 where s: "k_socket K (ai_family a) (ai_socktype a) (ai_protocol a) w = (s, w1)"
    by fastforce
  obtain cfg c2 w2 where g: "configureSocket K s c w1 = (cfg, c2, w2)" by (metis prod_cases3)
  obtain r w3 where k: "k_connect K s (ai_addr a) w2 = (r, w3)" by fastforce
  note o = eintr_law_other(1) [OF law s] configureSocket_eintr [OF law g] eintr_law_other(3) [OF law k]
    closeSocketValue_eintr [OF law, of s w2] closeSocketValue_eintr [OF law, of s w3]
  show ?case
    using Cons.prems s g k o Cons.IH
    by (force split: if_splits bool.splits)
qed simp

lemma sy_connect_eintr:
  assumes law: "eintr_law K eintr" and r: "sy_connect K c w = (ok, c', w')"
  shows "eintr w' \<le> eintr w"
proof -
  have cl: "eintr (snd (sy_close K c w)) \<le> eintr w"
    using closeSocketValue_eintr [OF law] by (simp add: sy_close_def)
  show ?thesis
    using r cl unfolding sy_connect_def Let_def
    by (auto split: prod.splits if_splits dest!: eintr_law_other(6) [OF law] sy_connect_loop_eintr [OF law])
qed

lemma sy_sendAll_returns:
  assumes "send_law K wire" and "eintr_law K eintr" and "nbytes + eintr w < n"
  shows "\<exists>r c' w'. sy_sendAll n K d nbytes c w = Some (r, c', w') \<and> eintr w' \<le> eintr w"
proof -
  have "length (take nbytes b) - 0 + eintr w < n" for b :: "byte list" using assms(3) by simp
  from sy_send_loop_returns [OF assms(1,2) this] show ?thesis
    by (auto simp: sy_sendAll_def split: option.splits)
qed

lemma shutdownWrite_eintr:
  assumes "eintr_law K eintr" and "shutdownWrite K c w = (ok, c', w')"
  shows "eintr w' \<le> eintr w"
  using assms(2) unfolding shutdownWrite_def Let_def
  by (auto split: prod.splits if_splits dest!: eintr_law_other(4) [OF assms(1)])

lemma sy_receiveUntilClosed_returns:
  assumes "recv_law K inbox" and "eintr_law K eintr" and "m + eintr w < n"
  shows "\<exists>r out c' w'. sy_receiveUntilClosed n K m c w = Some (r, out, c', w')"
  using sy_untilClosed_loop_returns [OF assms(1,2), of m "[]" w n "clearLastError c"] assms(3)
  by (auto simp: sy_receiveUntilClosed_def)

section \<open>Properties\<close>

definition sy_lb_client :: sync_client where
  "sy_lb_client = (sy_new ''localhost'' 9000)\<lparr>sy_socket := 3\<rparr>"

text \<open>C1: \<open>sendAll\<close> with more fuel than bytes to send plus signals still to come returns; the peer is
  sent a prefix of the payload, exactly once and in order, whatever the kernel's short writes and
  interruptions, and the answer is \<open>Success\<close> if and only if it is the whole payload.\<close>

theorem sy_sendAll_delivers:
  assumes law: "send_law K wire" and eintr: "eintr_law K eintr"
    and size: "nbytes \<le> length payload" and fuel: "nbytes + eintr w < fuel"
  shows "\<exists>r c' w' k. sy_sendAll fuel K (Some payload) nbytes c w = Some (r, c', w')
    \<and> k \<le> nbytes \<and> wire w' (sy_socket c) = wire w (sy_socket c) @ take k payload
    \<and> (r = IO_Success \<longleftrightarrow> k = nbytes)"
proof -
  obtain r c' w' where r: "sy_sendAll fuel K (Some payload) nbytes c w = Some (r, c', w')"
    using sy_sendAll_returns [OF law eintr fuel] by blast
  show ?thesis
  proof (cases "nbytes = 0 \<or> \<not> sy_isConnected c")
    case True
    then show ?thesis
      using r by (intro exI [of _ r] exI [of _ c'] exI [of _ w'] exI [of _ 0])
        (auto simp: sy_sendAll_def split: if_splits)
  next
    case False
    then have "sy_send_loop fuel K (take nbytes payload) 0 (clearLastError c) w = Some (r, c', w')"
      using r by (simp add: sy_sendAll_def)
    from sy_send_loop_wire [OF law this] obtain k where "k \<le> nbytes"
      "wire w' (sy_socket c) = wire w (sy_socket c) @ take k (take nbytes payload)"
      "r = IO_Success \<longleftrightarrow> k = nbytes"
      using size by auto
    then show ?thesis using r by auto
  qed
qed

theorem sy_sendAll_delivers_witness:
  "\<exists>r c' w' k. sy_sendAll 7 lb_kernel (Some [1, 2, 3, 4]) 4 sy_lb_client
       (lb_start [LbUpTo 1, LbFail EINTR, LbUpTo 2, LbFail 32] []) = Some (r, c', w')
     \<and> k \<le> 4 \<and> lb_wire w' (sy_socket sy_lb_client)
        = lb_wire (lb_start [LbUpTo 1, LbFail EINTR, LbUpTo 2, LbFail 32] []) (sy_socket sy_lb_client)
          @ take k [1, 2, 3, 4]
     \<and> (r = IO_Success \<longleftrightarrow> k = 4)"
  by (rule sy_sendAll_delivers [OF lb_send_law lb_eintr_law])
    (simp_all add: lb_eintr_def lb_start_def EINTR_def)

text \<open>\<open>receiveExact\<close> with more fuel than bytes wanted plus signals still to come returns; the bytes
  handed out are exactly the bytes taken from the connection, never more than asked for, and the
  answer is \<open>Success\<close> if and only if there are as many as asked for. On an error the bytes already
  received are kept in \<open>out\<close>.\<close>

theorem sy_receiveExact_complete:
  assumes law: "recv_law K inbox" and eintr: "eintr_law K eintr" and fuel: "m + eintr w < fuel"
    and conn: "sy_isConnected c"
  shows "\<exists>r out c' w'. sy_receiveExact fuel K m c w = Some (r, out, c', w')
    \<and> inbox w (sy_socket c) = out @ inbox w' (sy_socket c) \<and> length out \<le> m
    \<and> (r = IO_Success \<longleftrightarrow> length out = m)"
proof -
  obtain x where x: "sy_receiveExact_loop fuel K m [] (clearLastError c) w = Some x"
    using sy_receiveExact_loop_returns [OF law eintr, of m "[]" w fuel "clearLastError c"] fuel by auto
  obtain r out c' w' where p: "x = (r, out, c', w')" by (metis prod_cases4)
  show ?thesis
    using sy_receiveExact_loop_inbox [OF law x [unfolded p]] x p conn
    by (auto simp: sy_receiveExact_def)
qed

theorem sy_receiveExact_complete_witness:
  "\<exists>r out c' w'. sy_receiveExact 6 lb_kernel 4 sy_lb_client
       (lb_start [LbUpTo 2, LbFail EINTR, LbUpTo 9] [1, 2, 3, 4, 5]) = Some (r, out, c', w')
     \<and> lb_inbox (lb_start [LbUpTo 2, LbFail EINTR, LbUpTo 9] [1, 2, 3, 4, 5]) = out @ lb_inbox w'
     \<and> length out \<le> 4 \<and> (r = IO_Success \<longleftrightarrow> length out = 4)"
  by (rule sy_receiveExact_complete [OF lb_recv_law lb_eintr_law])
    (simp_all add: lb_eintr_def lb_start_def EINTR_def sy_lb_client_def sy_isConnected_def)

text \<open>C2: \<open>receiveUntilDelimiter\<close> with more fuel than \<open>maxBytes\<close> plus signals still to come returns; it
  hands out exactly the bytes it took, never more than \<open>maxBytes\<close>; it answers \<open>Success\<close> if and only if
  the delimiter occurs in them (also across the boundaries of the chunks it reads), and a buffer that
  filled up without the delimiter is \<open>Failed\<close> with \<open>EMSGSIZE\<close>.\<close>

theorem sy_receiveUntilDelimiter_finds:
  assumes law: "recv_law K inbox" and eintr: "eintr_law K eintr" and fuel: "m + eintr w < fuel"
    and args: "delimiter \<noteq> []" "0 < m" "sy_isConnected c"
  shows "\<exists>r out c' w'. sy_receiveUntilDelimiter fuel K delimiter m c w = Some (r, out, c', w')
    \<and> inbox w (sy_socket c) = out @ inbox w' (sy_socket c) \<and> length out \<le> m
    \<and> (r = IO_Success \<longleftrightarrow> sublist delimiter out)
    \<and> (length out = m \<and> r \<noteq> IO_Success \<longrightarrow> r = IO_Failed \<and> sy_lastPlatformError c' = EMSGSIZE)"
proof -
  obtain x where x: "sy_untilDelimiter_loop fuel K delimiter m [] (clearLastError c) w = Some x"
    using sy_untilDelimiter_loop_returns [OF law eintr, of m "[]" w fuel delimiter "clearLastError c"]
      fuel by auto
  obtain r out c' w' where p: "x = (r, out, c', w')" by (metis prod_cases4)
  show ?thesis
    using sy_untilDelimiter_loop_result [OF law x [unfolded p]] x p args
    by (auto simp: sy_receiveUntilDelimiter_def search_found_sublist)
qed

theorem sy_receiveUntilDelimiter_finds_witness:
  "\<exists>r out c' w'. sy_receiveUntilDelimiter 9 lb_kernel [13, 10] 6 sy_lb_client
       (lb_start [LbUpTo 2, LbFail EINTR, LbUpTo 9] [65, 13, 10, 66]) = Some (r, out, c', w')
     \<and> lb_inbox (lb_start [LbUpTo 2, LbFail EINTR, LbUpTo 9] [65, 13, 10, 66]) = out @ lb_inbox w'
     \<and> length out \<le> 6 \<and> (r = IO_Success \<longleftrightarrow> sublist [13, 10] out)
     \<and> (length out = 6 \<and> r \<noteq> IO_Success \<longrightarrow> r = IO_Failed \<and> sy_lastPlatformError c' = EMSGSIZE)"
  by (rule sy_receiveUntilDelimiter_finds [OF lb_recv_law lb_eintr_law])
    (simp_all add: lb_eintr_def lb_start_def EINTR_def sy_lb_client_def sy_isConnected_def)

text \<open>C38: \<open>receiveUntilClosed\<close> with more fuel than \<open>maxBytes\<close> plus signals still to come returns; it hands
  out exactly the bytes it took; \<open>Success\<close> means that strictly fewer than \<open>maxBytes\<close> came: a payload
  of exactly \<open>maxBytes\<close> bytes is answered \<open>Failed\<close> with \<open>EMSGSIZE\<close>, like a longer one.\<close>

theorem sy_receiveUntilClosed_bound:
  assumes law: "recv_law K inbox" and eintr: "eintr_law K eintr" and fuel: "m + eintr w < fuel"
    and args: "0 < m" "sy_isConnected c"
  shows "\<exists>r out c' w'. sy_receiveUntilClosed fuel K m c w = Some (r, out, c', w')
    \<and> inbox w (sy_socket c) = out @ inbox w' (sy_socket c) \<and> length out \<le> m
    \<and> (r = IO_Success \<longrightarrow> length out < m)
    \<and> (length out = m \<longrightarrow> r = IO_Failed \<and> sy_lastPlatformError c' = EMSGSIZE)"
proof -
  obtain r out c' w' where x: "sy_untilClosed_loop fuel K m [] (clearLastError c) w = Some (r, out, c', w')"
    using sy_receiveUntilClosed_returns [OF law eintr fuel, of c] args
    by (auto simp: sy_receiveUntilClosed_def)
  show ?thesis
    using sy_untilClosed_loop_result [OF law x] x args
    by (auto simp: sy_receiveUntilClosed_def split: if_splits)
qed

theorem sy_receiveUntilClosed_bound_witness:
  "\<exists>r out c' w'. sy_receiveUntilClosed 5 lb_kernel 3 sy_lb_client
       (lb_start [LbUpTo 2, LbFail EINTR, LbUpTo 9] [7, 8, 9]) = Some (r, out, c', w')
     \<and> lb_inbox (lb_start [LbUpTo 2, LbFail EINTR, LbUpTo 9] [7, 8, 9]) = out @ lb_inbox w'
     \<and> length out \<le> 3 \<and> (r = IO_Success \<longrightarrow> length out < 3)
     \<and> (length out = 3 \<longrightarrow> r = IO_Failed \<and> sy_lastPlatformError c' = EMSGSIZE)"
  by (rule sy_receiveUntilClosed_bound [OF lb_recv_law lb_eintr_law])
    (simp_all add: lb_eintr_def lb_start_def EINTR_def sy_lb_client_def sy_isConnected_def)

text \<open>C39: A whole exchange (\<open>exchangeOnceUntilClosed\<close>) with enough fuel returns, and on every path,
  errors included, it ends disconnected with exactly the descriptors that were open before it, less
  the one the client held: no descriptor leaks; and none is closed twice: it calls \<open>close\<close> on no descriptor
  that is not open at that moment.\<close>

theorem sy_exchangeOnceUntilClosed_no_leak:
  assumes slaw: "send_law K wire" and rlaw: "recv_law K inbox" and eintr: "eintr_law K eintr"
    and sock: "socket_law K opened" and st: "stray_law K opened stray"
    and own: "sy_isConnected c \<longrightarrow> sy_socket c \<in> opened w"
    and fuel: "requestSize + maxResponseBytes + eintr w < fuel"
  shows "\<exists>r out c' w'. sy_exchangeOnceUntilClosed fuel K d requestSize maxResponseBytes c w
      = Some (r, out, c', w')
    \<and> \<not> sy_isConnected c'
    \<and> opened w' = opened w - (if sy_isConnected c then {sy_socket c} else {})
    \<and> stray w' = stray w"
proof -
  obtain ok c1 w1 where c1: "sy_connect K c w = (ok, c1, w1)" by (metis prod_cases3)
  note o1 = sy_connect_opened [OF sock c1] and e1 = sy_connect_eintr [OF eintr c1]
    and t1 = sy_connect_stray [OF sock st c1 own]
  have "requestSize + eintr w1 < fuel" using fuel e1 by linarith
  then obtain r2 c2 w2 where c2: "sy_sendAll fuel K d requestSize c1 w1 = Some (r2, c2, w2)"
    and e2: "eintr w2 \<le> eintr w1"
    using sy_sendAll_returns [OF slaw eintr] by blast
  note o2 = sy_sendAll_keeps [where obs = opened, OF socket_law_snd(5) [OF sock] c2]
    sy_sendAll_keeps [where obs = stray, OF stray_lawD(6) [OF st] c2]
  obtain ok3 c3 w3 where c3: "shutdownWrite K c2 w2 = (ok3, c3, w3)" by (metis prod_cases3)
  note o3 = shutdownWrite_keeps [where obs = opened, OF socket_law_snd(2) [OF sock] c3]
    shutdownWrite_keeps [where obs = stray, OF stray_lawD(3) [OF st] c3] and e3 = shutdownWrite_eintr [OF eintr c3]
  have "maxResponseBytes + eintr w3 < fuel" using fuel e1 e2 e3 by linarith
  then obtain r4 out4 c4 w4 where c4: "sy_receiveUntilClosed fuel K maxResponseBytes c3 w3 = Some (r4, out4, c4, w4)"
    using sy_receiveUntilClosed_returns [OF rlaw eintr] by blast
  note o4 = sy_receiveUntilClosed_keeps [where obs = opened, OF socket_law_snd(6) [OF sock] c4]
    sy_receiveUntilClosed_keeps [where obs = stray, OF stray_lawD(7) [OF st] c4]
  let ?base = "opened w - (if sy_isConnected c then {sy_socket c} else {})"
  have fin: "\<exists>r out c' w'. map_option (closeOnExit K) (Some (q, buf, cc, ww)) = Some (r, out, c', w')
      \<and> \<not> sy_isConnected c' \<and> opened w' = ?base \<and> stray w' = stray w"
    if "ok" "sy_socket cc = sy_socket c1" "opened ww = opened w1" "stray ww = stray w1" for q buf cc ww
  proof -
    obtain q' buf' c' w' where x: "closeOnExit K (q, buf, cc, ww) = (q', buf', c', w')"
      by (metis prod_cases4)
    from closeOnExit_opened [OF sock x] closeOnExit_stray [OF sock st x] that o1 t1 show ?thesis
      unfolding x option.map by (auto simp: sy_isConnected_def split: if_splits)
  qed
  show ?thesis
  proof (cases ok)
    case False
    then show ?thesis using c1 o1 t1 by (simp add: sy_exchangeOnceUntilClosed_def)
  next
    case ok: True
    consider "r2 \<noteq> IO_Success" | "r2 = IO_Success" "\<not> ok3" | "r2 = IO_Success" "ok3" by blast
    then show ?thesis
    proof cases
      case 1
      then show ?thesis
        using c1 c2 ok fin [OF ok, of c2 w2 r2 "[]"] o2 by (simp add: sy_exchangeOnceUntilClosed_def)
    next
      case 2
      then show ?thesis
        using c1 c2 c3 ok fin [OF ok, of c3 w3 IO_Failed "[]"] o2 o3
        by (simp add: sy_exchangeOnceUntilClosed_def)
    next
      case 3
      then show ?thesis
        using c1 c2 c3 c4 ok fin [OF ok, of c4 w4 r4 out4] o2 o3 o4
        by (simp add: sy_exchangeOnceUntilClosed_def)
    qed
  qed
qed

theorem sy_exchangeOnceUntilClosed_no_leak_witness:
  "\<exists>r out c' w'. sy_exchangeOnceUntilClosed 9 lb_kernel (Some [1, 2]) 2 4 (sy_new ''localhost'' 9000)
       (lb_start [LbUpTo 1, LbFail EINTR, LbUpTo 1, LbUpTo 2, LbEof] [7, 8, 9]) = Some (r, out, c', w')
     \<and> \<not> sy_isConnected c' \<and> lb_open w' = {} \<and> lb_stray w' = 0"
  using sy_exchangeOnceUntilClosed_no_leak [OF lb_send_law lb_recv_law lb_eintr_law lb_socket_law lb_stray_law,
      of "sy_new ''localhost'' 9000" "lb_start [LbUpTo 1, LbFail EINTR, LbUpTo 1, LbUpTo 2, LbEof] [7, 8, 9]" 2 4 9 "Some [1, 2]"]
  by (simp add: lb_eintr_def lb_start_def EINTR_def sy_new_def sy_isConnected_def)

text \<open>The timeout that reaches the kernel is the one configured, to the microsecond: negative
  timeouts become none, the seconds and microseconds recompose to the milliseconds asked for, and the
  microseconds are a valid fraction of a second.\<close>

theorem toTimeval_exact:
  "tv_sec (toTimeval t) * 1000000 + tv_usec (toTimeval t) = max 0 t * 1000
   \<and> 0 \<le> tv_usec (toTimeval t) \<and> tv_usec (toTimeval t) < 1000000 \<and> 0 \<le> tv_sec (toTimeval t)"
proof -
  define q where "q = max 0 t"
  have "sanitizeTimeout t = q" by (simp add: sanitizeTimeout_def q_def)
  then have "toTimeval t = \<lparr>tv_sec = q div 1000, tv_usec = q mod 1000 * 1000\<rparr>"
    by (simp add: toTimeval_def)
  moreover have "0 \<le> q mod 1000" "q mod 1000 < 1000" "0 \<le> q div 1000" by (simp_all add: q_def)
  moreover have "q div 1000 * 1000000 + q mod 1000 * 1000 = q * 1000"
    using div_mult_mod_eq [of q 1000] by linarith
  ultimately show ?thesis unfolding q_def [symmetric] by simp
qed

text \<open>\<open>connect\<close> answers \<open>true\<close> exactly when the client ends connected; the address that connected
  holds the only new descriptor, every address that failed on the way has given its own back, and the
  previous connection is closed.\<close>

theorem sy_connect_owns_one_descriptor:
  assumes law: "socket_law K opened" and r: "sy_connect K c w = (ok, c', w')"
  shows "ok = sy_isConnected c'
    \<and> opened w' = (opened w - (if sy_isConnected c then {sy_socket c} else {}))
        \<union> (if ok then {sy_socket c'} else {})
    \<and> (ok \<longrightarrow> sy_socket c' \<notin> opened w - (if sy_isConnected c then {sy_socket c} else {}))"
  by (rule sy_connect_opened [OF law r])

theorem sy_connect_owns_one_descriptor_witness:
  "sy_socket (fst (snd (sy_connect lb_kernel (sy_new ''localhost'' 9000)
      ((lb_start [] [])\<lparr>lb_connects := [111, 0]\<rparr>)))) = 4
   \<and> lb_open (snd (snd (sy_connect lb_kernel (sy_new ''localhost'' 9000)
      ((lb_start [] [])\<lparr>lb_connects := [111, 0]\<rparr>)))) = {4}"
proof -
  let ?c = "sy_new ''localhost'' 9000" and ?w = "(lb_start [] [])\<lparr>lb_connects := [111, 0]\<rparr>"
  have e: "sy_connect lb_kernel ?c ?w = (True, ?c\<lparr>sy_socket := 4\<rparr>, ?w\<lparr>lb_connects := [], lb_open := {4}, lb_next := 5\<rparr>)"
    by (simp add: sy_connect_def sy_close_def sy_new_def sy_error_defs lb_defs configureSocket_def
        closeSocketValue_def Let_def)
  from sy_connect_owns_one_descriptor [OF lb_socket_law e] show ?thesis
    unfolding e by (simp add: sy_new_def sy_isConnected_def lb_start_def)
qed

end
