(* ===== verification/TcpClient.thy ===== *)
theory TcpClient
  imports BaseWorker Posix Contracts
begin

text \<open>
  \<open>TCPClient_V2\<close> (\<open>cTCPClient_V2.h\<close>): a background TCP client, a \<open>cBaseWorker_V2\<close> whose \<open>run()\<close> owns a
  reader and a writer thread. This theory has its operations, each as a function of the object and of
  the world; \<open>TcpClientThreads\<close> runs them concurrently.

  What other threads do to the object while a loop is running is the function \<open>te_other\<close> of the
  environment, applied once per turn of a loop, before its test, and again between the load of the
  socket and the system call on it: requests to stop, \<open>closeSocket\<close>, further calls to \<open>send\<close>. Loops take fuel, one unit per turn.
\<close>

section \<open>State\<close>

record tcp_client =
  tc_base :: base_worker
  tc_serverAddress :: string
  tc_port :: u16
  tc_socket :: fd
  tc_outboundQueue :: "byte list list"

record 'w tc_env =
  te_kernel :: "'w kernel"
  te_clock :: "'w \<Rightarrow> int"
  te_inet_pton :: "string \<Rightarrow> int \<times> byte list"
  te_receiveCallback :: "(byte list \<Rightarrow> 'w \<Rightarrow> (cpp_exn + unit) \<times> 'w) option"
  te_other :: "tcp_client \<Rightarrow> 'w \<Rightarrow> tcp_client \<times> 'w"

text \<open>\<open>std::chrono::steady_clock\<close> counts nanoseconds.\<close>

definition ticks_per_ms :: int where
  "ticks_per_ms = 1000000"

definition kReadBufferSize :: nat where
  "kReadBufferSize = 4096"

definition tc_new :: "string \<Rightarrow> string \<Rightarrow> u16 \<Rightarrow> int \<Rightarrow> tcp_client" where
  "tc_new name serverAddress port now =
     \<lparr>tc_base = bw_new name now, tc_serverAddress = serverAddress, tc_port = port, tc_socket = -1,
      tc_outboundQueue = []\<rparr>"

section \<open>The outbound queue\<close>

definition tc_push :: "byte list \<Rightarrow> tcp_client \<Rightarrow> tcp_client" where
  "tc_push data c = c\<lparr>tc_outboundQueue := tc_outboundQueue c @ [data]\<rparr>"

text \<open>\<open>front()\<close> and \<open>pop()\<close>, as \<open>writeLoop\<close> calls them.\<close>

definition tc_pop :: "tcp_client \<Rightarrow> byte list option \<times> tcp_client" where
  "tc_pop c =
     (case tc_outboundQueue c of
        [] \<Rightarrow> (None, c)
      | payload # rest \<Rightarrow> (Some payload, c\<lparr>tc_outboundQueue := rest\<rparr>))"

definition clearOutboundQueue :: "tcp_client \<Rightarrow> tcp_client" where
  "clearOutboundQueue c = c\<lparr>tc_outboundQueue := []\<rparr>"

text \<open>The guard of \<open>send\<close>, evaluated before the queue's mutex is taken.\<close>

definition tc_send_guard :: "byte list \<Rightarrow> tcp_client \<Rightarrow> bool" where
  "tc_send_guard data c \<longleftrightarrow> \<not> (data = [] \<or> \<not> isRunning (tc_base c))"

definition tc_send :: "byte list \<Rightarrow> tcp_client \<Rightarrow> bool \<times> tcp_client" where
  "tc_send data c = (if \<not> tc_send_guard data c then (False, c) else (True, tc_push data c))"

definition tc_send_raw :: "byte list option \<Rightarrow> nat \<Rightarrow> tcp_client \<Rightarrow> bool \<times> tcp_client" where
  "tc_send_raw data nbytes c =
     (case data of
        None \<Rightarrow> (False, c)
      | Some bytes \<Rightarrow> (if nbytes = 0 then (False, c) else tc_send (take nbytes bytes) c))"

definition tc_send_text :: "byte list \<Rightarrow> tcp_client \<Rightarrow> bool \<times> tcp_client" where
  "tc_send_text text c = tc_send_raw (Some text) (length text) c"

interpretation tcf: fifo tc_push tc_pop tc_outboundQueue "\<lambda>c. True"
  by unfold_locales (auto simp: tc_push_def tc_pop_def)

section \<open>The socket\<close>

definition tc_closeSocket :: "'w kernel \<Rightarrow> tcp_client \<Rightarrow> 'w \<Rightarrow> tcp_client \<times> 'w" where
  "tc_closeSocket K c w =
     (let socketFd = tc_socket c; c1 = c\<lparr>tc_socket := -1\<rparr> in
      if 0 \<le> socketFd
      then (c1, snd (k_close K socketFd (snd (k_shutdown K socketFd SHUT_RDWR w))))
      else (c1, w))"

text \<open>\<open>stopTriggered\<close>; its last call, \<open>notify_all\<close>, has no effect on the object.\<close>

definition tc_stopTriggered :: "'w kernel \<Rightarrow> tcp_client \<Rightarrow> 'w \<Rightarrow> tcp_client \<times> 'w" where
  "tc_stopTriggered K c w = (case tc_closeSocket K c w of (c1, w1) \<Rightarrow> (clearOutboundQueue c1, w1))"

text \<open>The inherited \<open>requestStop\<close> with the hook it calls.\<close>

definition tc_requestStop :: "'w kernel \<Rightarrow> tcp_client \<Rightarrow> 'w \<Rightarrow> tcp_client \<times> 'w" where
  "tc_requestStop K c w =
     (case requestStop (tc_base c) of
        (shouldTriggerStop, b) \<Rightarrow>
          if shouldTriggerStop then tc_stopTriggered K (c\<lparr>tc_base := b\<rparr>) w else (c\<lparr>tc_base := b\<rparr>, w))"

text \<open>\<open>struct sockaddr_in\<close> as the bytes given to \<open>connect\<close>: the family in the machine's (little-endian)
  order, the port through \<open>htons\<close>, the address, padding.\<close>

definition sockaddr_in_bytes :: "u16 \<Rightarrow> byte list \<Rightarrow> byte list" where
  "sockaddr_in_bytes port addr =
     [word_of_int AF_INET, 0, ucast (drop_bit 8 port), ucast port] @ addr @ replicate 8 0"

definition tc_preRun :: "'w tc_env \<Rightarrow> tcp_client \<Rightarrow> 'w \<Rightarrow> bool \<times> tcp_client \<times> 'w" where
  "tc_preRun E c w =
     (let K = te_kernel E; c0 = clearOutboundQueue c in
      case k_socket K AF_INET SOCK_STREAM 0 w of
        (socketFd, w1) \<Rightarrow>
          if socketFd < 0 then (False, c0, w1)
          else
            let c1 = c0\<lparr>tc_socket := socketFd\<rparr> in
            (case te_inet_pton E (tc_serverAddress c1) of
               (r, addr) \<Rightarrow>
                 if r \<le> 0 then (False, tc_closeSocket K c1 w1)
                 else
                   (case k_connect K socketFd (sockaddr_in_bytes (tc_port c1) addr) w1 of
                      (r', w2) \<Rightarrow>
                        if r' < 0 then (False, tc_closeSocket K c1 w2) else (True, c1, w2))))"

definition tc_updateHeartbeat :: "'w tc_env \<Rightarrow> tcp_client \<Rightarrow> 'w \<Rightarrow> tcp_client" where
  "tc_updateHeartbeat E c w = c\<lparr>tc_base := updateHeartbeat ticks_per_ms (te_clock E w) (tc_base c)\<rparr>"

section \<open>The reader\<close>

fun tc_readLoop :: "nat \<Rightarrow> 'w tc_env \<Rightarrow> tcp_client \<Rightarrow> 'w \<Rightarrow> (tcp_client \<times> 'w) option" where
  "tc_readLoop 0 E c0 w0 = None"
| "tc_readLoop (Suc n) E c0 w0 =
     (case te_other E c0 w0 of
        (c, w) \<Rightarrow>
          if \<not> continueRunning (tc_base c) then Some (c, w)
          else if tc_socket c < 0 then Some (c, w)
          else
            (case te_other E c w of
               (c1, w1) \<Rightarrow>
                 (case k_recv (te_kernel E) (tc_socket c) kReadBufferSize w1 of
                    (Some (b # bs), w2) \<Rightarrow>
                      (let c2 = tc_updateHeartbeat E c1 w2 in
                       case te_receiveCallback E of
                         None \<Rightarrow> tc_readLoop n E c2 w2
                       | Some callback \<Rightarrow>
                           (case callback (b # bs) w2 of
                              (Inr (), w3) \<Rightarrow> tc_readLoop n E c2 w3
                            | (Inl e, w3) \<Rightarrow> Some (tc_requestStop (te_kernel E) c2 w3)))
                  | (Some [], w2) \<Rightarrow> Some (tc_requestStop (te_kernel E) c1 w2)
                  | (None, w2) \<Rightarrow>
                      if k_errno (te_kernel E) w2 = EINTR then tc_readLoop n E c1 w2
                      else Some (tc_requestStop (te_kernel E) c1 w2))))"

section \<open>The writer\<close>

fun tc_sendAll ::
  "nat \<Rightarrow> 'w tc_env \<Rightarrow> byte list \<Rightarrow> nat \<Rightarrow> tcp_client \<Rightarrow> 'w \<Rightarrow> (bool \<times> tcp_client \<times> 'w) option" where
  "tc_sendAll 0 E payload totalSent c0 w0 = None"
| "tc_sendAll (Suc n) E payload totalSent c0 w0 =
     (case te_other E c0 w0 of
        (c, w) \<Rightarrow>
          if totalSent < length payload then
            if tc_socket c < 0 then Some (False, c, w)
            else
              (case te_other E c w of
                 (c1, w1) \<Rightarrow>
                   (case k_send (te_kernel E) (tc_socket c) (drop totalSent payload) 0 w1 of
                      (bytesSent, w2) \<Rightarrow>
                        if 0 < bytesSent then tc_sendAll n E payload (totalSent + nat bytesSent) c1 w2
                        else if bytesSent < 0 \<and> k_errno (te_kernel E) w2 = EINTR
                          then tc_sendAll n E payload totalSent c1 w2
                        else Some (False, c1, w2)))
          else Some (True, c, w))"

text \<open>\<open>m_outboundCondition.wait(lock, predicate)\<close>: each wake-up, spurious or not, is a turn.\<close>

fun tc_wait :: "nat \<Rightarrow> 'w tc_env \<Rightarrow> tcp_client \<Rightarrow> 'w \<Rightarrow> (tcp_client \<times> 'w) option" where
  "tc_wait 0 E c w = None"
| "tc_wait (Suc n) E c w =
     (if stopRequested (tc_base c) \<or> tc_outboundQueue c \<noteq> [] then Some (c, w)
      else (case te_other E c w of (c', w') \<Rightarrow> tc_wait n E c' w'))"

fun tc_writeLoop :: "nat \<Rightarrow> 'w tc_env \<Rightarrow> tcp_client \<Rightarrow> 'w \<Rightarrow> (tcp_client \<times> 'w) option" where
  "tc_writeLoop 0 E c0 w0 = None"
| "tc_writeLoop (Suc n) E c0 w0 =
     (case te_other E c0 w0 of
        (c, w) \<Rightarrow>
          if \<not> continueRunning (tc_base c) then Some (c, w)
          else
            (case tc_wait n E c w of
               None \<Rightarrow> None
             | Some (c1, w1) \<Rightarrow>
                 if stopRequested (tc_base c1) then Some (c1, w1)
                 else
                   (case tc_pop c1 of
                      (None, c2) \<Rightarrow> None
                    | (Some payload, c2) \<Rightarrow>
                        (case tc_sendAll n E payload 0 c2 w1 of
                           None \<Rightarrow> None
                         | Some (False, c3, w3) \<Rightarrow> Some (tc_requestStop (te_kernel E) c3 w3)
                         | Some (True, c3, w3) \<Rightarrow> tc_writeLoop n E (tc_updateHeartbeat E c3 w3) w3))))"

lemmas tc_defs [op_defs] =
  tc_push_def tc_pop_def clearOutboundQueue_def tc_send_guard_def tc_send_def tc_send_raw_def
  tc_send_text_def tc_closeSocket_def tc_stopTriggered_def tc_requestStop_def tc_updateHeartbeat_def

section \<open>What the loops rely on\<close>

text \<open>Other threads may stop the worker, close the socket and queue data; they do not write to the
  connection, read from it or call the callback, and no signal is due to them.\<close>

definition tc_rely :: "'w tc_env \<Rightarrow> ('w \<Rightarrow> 'x) \<Rightarrow> bool" where
  "tc_rely E observed \<longleftrightarrow>
     (\<forall>c w c' w'. te_other E c w = (c', w') \<longrightarrow>
        observed w' = observed w \<and> (tc_socket c' = tc_socket c \<or> tc_socket c' = -1))"

lemma tc_relyD:
  assumes "tc_rely E observed" and "te_other E c w = (c', w')"
  shows "observed w' = observed w" and "tc_socket c' = tc_socket c \<or> tc_socket c' = -1"
  using assms unfolding tc_rely_def by blast+

lemma tc_sendAll_wire:
  assumes law: "send_law (te_kernel E) wire" and rely: "tc_rely E wire"
  shows "tc_sendAll n E payload k0 c w = Some (r, c', w') \<Longrightarrow> k0 \<le> length payload \<Longrightarrow>
    tc_socket c = x \<or> tc_socket c = -1 \<Longrightarrow>
    \<exists>k \<le> length payload - k0. wire w' x = wire w x @ take k (drop k0 payload)
      \<and> (r \<longleftrightarrow> k = length payload - k0)"
proof (induction n arbitrary: k0 c w)
  case (Suc n)
  obtain c1 w1 where o: "te_other E c w = (c1, w1)" by fastforce
  note rl = tc_relyD [OF rely o]
  show ?case
  proof (cases "k0 < length payload \<and> 0 \<le> tc_socket c1")
    case False
    then have "w' = w1 \<and> (r \<longleftrightarrow> \<not> k0 < length payload)"
      using Suc.prems(1) o by (auto split: if_splits)
    then show ?thesis using rl(1) Suc.prems(2) by (intro exI [of _ 0]) auto
  next
    case True
    then have sock: "tc_socket c1 = x" using rl(2) Suc.prems(3) by auto
    obtain c2 u where m: "te_other E c1 w1 = (c2, u)" by fastforce
    note ml = tc_relyD [OF rely m, unfolded sock]
    obtain b w2 where s: "k_send (te_kernel E) x (drop k0 payload) 0 u = (b, w2)"
      by fastforce
    note b = send_lawD [OF law s]
    have w: "wire u = wire w" using rl(1) ml(1) by simp
    consider "0 < b" | "b < 0" "k_errno (te_kernel E) w2 = EINTR"
      | "b \<le> 0" "\<not> (b < 0 \<and> k_errno (te_kernel E) w2 = EINTR)" by linarith
    then show ?thesis
    proof cases
      case 1
      have t: "k0 + nat b \<le> length payload" using b(1) True by auto
      moreover have "tc_sendAll n E payload (k0 + nat b) c2 w2 = Some (r, c', w')"
        using Suc.prems(1) o m s sock True 1 by simp
      ultimately obtain k where k: "k \<le> length payload - (k0 + nat b)"
        "wire w' x = wire w2 x @ take k (drop (k0 + nat b) payload)"
        "r \<longleftrightarrow> k = length payload - (k0 + nat b)"
        using Suc.IH ml(2) by metis
      have "take (nat b) (drop k0 payload) @ take k (drop (k0 + nat b) payload)
          = take (nat b + k) (drop k0 payload)"
        by (simp add: take_add add.commute [of k0])
      then show ?thesis
        using k t b(2) w by (intro exI [of _ "nat b + k"]) auto
    next
      case 2
      then have "tc_sendAll n E payload k0 c2 w2 = Some (r, c', w')"
        using Suc.prems(1) o m s sock True by simp
      from Suc.IH [OF this Suc.prems(2) ml(2)] show ?thesis using b(2) 2(1) w by simp
    next
      case 3
      then have "\<not> r \<and> w' = w2" using Suc.prems(1) o m s sock True by auto
      then show ?thesis using b(2) 3(1) w True by (intro exI [of _ 0]) auto
    qed
  qed
qed simp

lemma tc_sendAll_returns:
  assumes eintr: "eintr_law (te_kernel E) eintr" and rely: "tc_rely E eintr"
  shows "length payload - k0 + eintr w < n \<Longrightarrow> \<exists>r c' w'. tc_sendAll n E payload k0 c w = Some (r, c', w')"
proof (induction n arbitrary: k0 c w)
  case (Suc n)
  obtain c1 w1 where o: "te_other E c w = (c1, w1)" by fastforce
  note rl = tc_relyD [OF rely o]
  obtain c2 u where m: "te_other E c1 w1 = (c2, u)" by fastforce
  note ml = tc_relyD [OF rely m]
  obtain b w2 where s: "k_send (te_kernel E) (tc_socket c1) (drop k0 payload) 0 u = (b, w2)"
    by fastforce
  note e = eintr_law_send [OF eintr s]
  show ?case
  proof (cases "k0 < length payload")
    case True
    have "0 < b \<Longrightarrow> length payload - (k0 + nat b) + eintr w2 < n"
      using e(1) rl(1) ml(1) Suc.prems True by linarith
    moreover have "b < 0 \<Longrightarrow> k_errno (te_kernel E) w2 = EINTR \<Longrightarrow> length payload - k0 + eintr w2 < n"
      using e(2) rl(1) ml(1) Suc.prems by simp
    ultimately show ?thesis
      using Suc.IH [of "k0 + nat b" w2 c2] Suc.IH [of k0 w2 c2] o m s by (auto split: if_splits)
  qed (auto simp: o)
qed simp

text \<open>\<open>seen\<close> is what the callback has been given so far; nothing but the callback adds to it, and the
  callback neither reads from the connection nor brings signals.\<close>

definition callback_law ::
  "'w tc_env \<Rightarrow> ('w \<Rightarrow> fd \<Rightarrow> byte list) \<Rightarrow> ('w \<Rightarrow> nat) \<Rightarrow> ('w \<Rightarrow> byte list) \<Rightarrow> bool" where
  "callback_law E inbox eintr seen \<longleftrightarrow>
     (\<forall>cb bs w r w'. te_receiveCallback E = Some cb \<longrightarrow> cb bs w = (r, w') \<longrightarrow>
        seen w' = seen w @ bs \<and> inbox w' = inbox w \<and> eintr w' \<le> eintr w) \<and>
     (\<forall>s n w. seen (snd (k_recv (te_kernel E) s n w)) = seen w) \<and>
     (\<forall>s h w. seen (snd (k_shutdown (te_kernel E) s h w)) = seen w) \<and>
     (\<forall>s w. seen (snd (k_close (te_kernel E) s w)) = seen w)"

lemma callback_lawD:
  assumes "callback_law E inbox eintr seen"
  shows "te_receiveCallback E = Some cb \<Longrightarrow> cb bs w = (r, w') \<Longrightarrow>
      seen w' = seen w @ bs \<and> inbox w' = inbox w \<and> eintr w' \<le> eintr w"
    and "seen (snd (k_recv (te_kernel E) s n w)) = seen w"
    and "seen (snd (k_shutdown (te_kernel E) s h w)) = seen w"
    and "seen (snd (k_close (te_kernel E) s w)) = seen w"
proof -
  note l = assms [unfolded callback_law_def]
  show "te_receiveCallback E = Some cb \<Longrightarrow> cb bs w = (r, w') \<Longrightarrow>
      seen w' = seen w @ bs \<and> inbox w' = inbox w \<and> eintr w' \<le> eintr w"
    by (rule l [THEN conjunct1, rule_format])
  show "seen (snd (k_recv (te_kernel E) s n w)) = seen w"
    by (rule l [THEN conjunct2, THEN conjunct1, rule_format])
  show "seen (snd (k_shutdown (te_kernel E) s h w)) = seen w"
    by (rule l [THEN conjunct2, THEN conjunct2, THEN conjunct1, rule_format])
  show "seen (snd (k_close (te_kernel E) s w)) = seen w"
    by (rule l [THEN conjunct2, THEN conjunct2, THEN conjunct2, rule_format])
qed

lemma tc_closeSocket_seen:
  assumes "callback_law E inbox eintr seen"
  shows "seen (snd (tc_closeSocket (te_kernel E) c w)) = seen w"
  using callback_lawD(3,4) [OF assms] by (simp add: tc_closeSocket_def Let_def)

lemma tc_requestStop_stops:
  "stopRequested (tc_base (fst (tc_requestStop K c w)))"
  by (auto simp: tc_requestStop_def requestStop_def tc_stopTriggered_def tc_closeSocket_def
      clearOutboundQueue_def stopRequested_def Let_def split: prod.splits)

lemma tc_requestStop_seen:
  assumes "callback_law E inbox eintr seen"
  shows "seen (snd (tc_requestStop (te_kernel E) c w)) = seen w"
  using tc_closeSocket_seen [OF assms]
  by (auto simp: tc_requestStop_def tc_stopTriggered_def split: prod.splits) (metis snd_conv)

text \<open>What one run of the reader amounts to.\<close>

definition tc_read_ok :: "('w \<Rightarrow> byte list) \<Rightarrow> byte list \<Rightarrow> 'w \<Rightarrow> tcp_client \<times> 'w \<Rightarrow> bool" where
  "tc_read_ok seen incoming w r \<longleftrightarrow>
     (case r of (c', w') \<Rightarrow>
        (\<exists>k. seen w' = seen w @ take k incoming)
        \<and> (stopRequested (tc_base c') \<or> tc_socket c' < 0))"

lemma tc_read_ok_stop:
  assumes "callback_law E inbox eintr seen" and "seen w1 = seen w @ take k incoming"
  shows "tc_read_ok seen incoming w (tc_requestStop (te_kernel E) c1 w1)"
proof -
  obtain c' w' where r: "tc_requestStop (te_kernel E) c1 w1 = (c', w')" by fastforce
  have "stopRequested (tc_base c')" using tc_requestStop_stops [of "te_kernel E" c1 w1] r by simp
  moreover have "seen w' = seen w1" using tc_requestStop_seen [OF assms(1), of c1 w1] r by simp
  ultimately show ?thesis using assms(2) by (auto simp: tc_read_ok_def r)
qed

lemma tc_read_ok_extend:
  assumes "tc_read_ok seen rest w1 r" and "seen w1 = seen w @ bs"
  shows "tc_read_ok seen (bs @ rest) w r"
proof -
  obtain k c' w' where k: "r = (c', w')" "seen w' = seen w1 @ take k rest"
    "stopRequested (tc_base c') \<or> tc_socket c' < 0"
    using assms(1) by (auto simp: tc_read_ok_def)
  have "seen w' = seen w @ take (length bs + k) (bs @ rest)" using k(2) assms(2) by simp
  then show ?thesis using k(3) unfolding tc_read_ok_def k(1) prod.case by blast
qed

lemma tc_readLoop_ok:
  assumes recv: "recv_law (te_kernel E) inbox" and eintr: "eintr_law (te_kernel E) eintr"
    and cb: "callback_law E inbox eintr seen" "te_receiveCallback E = Some cb"
    and rely: "tc_rely E (\<lambda>w. (inbox w, eintr w, seen w))"
  shows "length (inbox w s) + eintr w < n \<Longrightarrow> tc_socket c = s \<or> tc_socket c = -1 \<Longrightarrow>
    \<exists>r. tc_readLoop n E c w = Some r \<and> tc_read_ok seen (inbox w s) w r"
proof (induction n arbitrary: c w)
  case (Suc n)
  let ?K = "te_kernel E"
  obtain c1 w1 where o: "te_other E c w = (c1, w1)" by fastforce
  have same: "inbox w1 = inbox w" "eintr w1 = eintr w" "seen w1 = seen w"
    using tc_relyD(1) [OF rely o] by simp_all
  have sock: "tc_socket c1 = s \<or> tc_socket c1 = -1"
    using tc_relyD(2) [OF rely o] Suc.prems(2) by metis
  show ?case
  proof (cases "\<not> continueRunning (tc_base c1) \<or> tc_socket c1 < 0")
    case True
    have "tc_read_ok seen (inbox w s) w (c1, w1)"
      using True same(3) by (auto simp: tc_read_ok_def continueRunning_def intro!: exI [of _ 0])
    then show ?thesis using True o by auto
  next
    case False
    then have s: "tc_socket c1 = s" using sock by auto
    obtain t u where m: "te_other E c1 w1 = (t, u)" by fastforce
    have same': "inbox u = inbox w" "eintr u = eintr w" "seen u = seen w"
      using tc_relyD(1) [OF rely m] same by simp_all
    have sock': "tc_socket t = s \<or> tc_socket t = -1" using tc_relyD(2) [OF rely m] s by simp
    obtain a w2 where r: "k_recv ?K s kReadBufferSize u = (a, w2)" by fastforce
    note l = recv_lawD [OF recv r] and e = eintr_law_recv [OF eintr r]
    have sn: "seen w2 = seen w" using callback_lawD(2) [OF cb(1), of s kReadBufferSize u] r same' by simp
    have stop: "tc_read_ok seen (inbox w s) w (tc_requestStop ?K t w2)"
      by (rule tc_read_ok_stop [OF cb(1), of _ _ 0]) (simp add: sn)
    consider "a = None" "k_errno ?K w2 = EINTR" | "a = None" "k_errno ?K w2 \<noteq> EINTR" | "a = Some []"
      | b bs where "a = Some (b # bs)"
      by (cases a) (auto, metis list.exhaust)
    then show ?thesis
    proof cases
      case 1
      have "length (inbox w2 s) + eintr w2 < n" "inbox w2 s = inbox w s"
        using e(2) [OF 1] l 1(1) same' Suc.prems(1) by auto
      then obtain r' where "tc_readLoop n E t w2 = Some r'" "tc_read_ok seen (inbox w s) w2 r'"
        using Suc.IH [of w2 t] sock' by auto
      moreover have "tc_readLoop (Suc n) E c w = tc_readLoop n E t w2"
        using o m r s False 1 by simp
      ultimately show ?thesis using sn by (auto simp: tc_read_ok_def)
    next
      case 2
      then show ?thesis using o m r s False stop by simp
    next
      case 3
      then show ?thesis using o m r s False stop by simp
    next
      case (4 b bs)
      obtain q w3 where q: "cb (b # bs) w2 = (q, w3)" by fastforce
      note k = callback_lawD(1) [OF cb(1) cb(2) q]
      let ?c2 = "tc_updateHeartbeat E t w2"
      have in2: "inbox w s = (b # bs) @ inbox w3 s" using l 4 same' k by simp
      show ?thesis
      proof (cases q)
        case (Inl x)
        have "tc_read_ok seen (inbox w s) w (tc_requestStop ?K ?c2 w3)"
          by (rule tc_read_ok_stop [OF cb(1), of _ _ "length (b # bs)"]) (use k sn in2 in simp)
        then show ?thesis using o m r s False 4 q cb(2) Inl by (simp add: Let_def)
      next
        case (Inr u)
        have "length (inbox w3 s) + eintr w3 < n"
          using in2 k e(1) same' Suc.prems(1) by simp
        moreover have "tc_socket ?c2 = s \<or> tc_socket ?c2 = -1" using sock' by (simp add: tc_updateHeartbeat_def)
        ultimately obtain r' where r': "tc_readLoop n E ?c2 w3 = Some r'" "tc_read_ok seen (inbox w3 s) w3 r'"
          using Suc.IH [of w3 ?c2] by blast
        have "tc_readLoop (Suc n) E c w = tc_readLoop n E ?c2 w3"
          using o m r s False 4 q cb(2) Inr by (simp add: Let_def split: unit.splits)
        moreover have "tc_read_ok seen ((b # bs) @ inbox w3 s) w r'"
          by (rule tc_read_ok_extend [OF r'(2)]) (use k sn in simp)
        ultimately show ?thesis using r'(1) in2 by simp
      qed
    qed
  qed
qed simp

section \<open>Properties\<close>

definition tc_lb_env :: "lb tc_env" where
  "tc_lb_env =
     \<lparr>te_kernel = lb_kernel, te_clock = (\<lambda>w. 0), te_inet_pton = (\<lambda>a. (1, [127, 0, 0, 1])),
      te_receiveCallback = None, te_other = (\<lambda>c w. (c, w))\<rparr>"

definition tc_lb_client :: tcp_client where
  "tc_lb_client =
     (tc_new ''client'' ''127.0.0.1'' 9000 0)
       \<lparr>tc_socket := 3, tc_base := setState St_Running (bw_new ''client'' 0)\<rparr>"

text \<open>The writer's \<open>sendAll\<close>, with more turns than bytes plus signals still to come, returns; it puts a
  prefix of the payload on the connection it started with, in order and nothing else anywhere on it,
  and answers true if and only if that is all of it, even when another thread closes the socket
  between two sends.\<close>

theorem tc_sendAll_delivers:
  assumes "send_law (te_kernel E) wire" and "eintr_law (te_kernel E) eintr"
    and "tc_rely E wire" and "tc_rely E eintr" and "length payload + eintr w < fuel"
  shows "\<exists>r c' w' k. tc_sendAll fuel E payload 0 c w = Some (r, c', w') \<and> k \<le> length payload
    \<and> wire w' (tc_socket c) = wire w (tc_socket c) @ take k payload \<and> (r \<longleftrightarrow> k = length payload)"
proof -
  obtain r c' w' where x: "tc_sendAll fuel E payload 0 c w = Some (r, c', w')"
    using tc_sendAll_returns [OF assms(2,4), of payload 0] assms(5) by fastforce
  from tc_sendAll_wire [OF assms(1,3) x, of "tc_socket c"] show ?thesis using x by auto
qed

theorem tc_sendAll_delivers_witness:
  "\<exists>r c' w' k. tc_sendAll 6 tc_lb_env [1, 2, 3] 0 tc_lb_client
        (lb_start [LbUpTo 1, LbFail EINTR, LbFail 32] []) = Some (r, c', w') \<and> k \<le> length [1, 2, 3 :: byte]
     \<and> lb_wire w' (tc_socket tc_lb_client)
        = lb_wire (lb_start [LbUpTo 1, LbFail EINTR, LbFail 32] []) (tc_socket tc_lb_client) @ take k [1, 2, 3]
     \<and> (r \<longleftrightarrow> k = length [1, 2, 3 :: byte])"
proof -
  have k: "te_kernel tc_lb_env = lb_kernel" by (simp add: tc_lb_env_def)
  have r: "tc_rely tc_lb_env f" for f :: "lb \<Rightarrow> 'x" by (simp add: tc_rely_def tc_lb_env_def)
  show ?thesis
    by (rule tc_sendAll_delivers [where E = tc_lb_env, unfolded k, OF lb_send_law lb_eintr_law r r])
      (simp add: lb_eintr_def lb_start_def EINTR_def)
qed

text \<open>\<open>preRun\<close> starts from an empty queue; when it answers true the client holds the one new
  descriptor, and on each of its failures (bad address, refused connection, no descriptor) no
  descriptor stays open.\<close>

theorem tc_preRun_owns_socket:
  assumes law: "socket_law (te_kernel E) opened" and r: "tc_preRun E c w = (ok, c', w')"
  shows "tc_outboundQueue c' = []
    \<and> (if ok then 0 \<le> tc_socket c' \<and> tc_socket c' \<notin> opened w \<and> opened w' = insert (tc_socket c') (opened w)
       else opened w' = opened w \<and> (tc_socket c' = -1 \<or> tc_socket c' = tc_socket c))"
proof -
  let ?K = "te_kernel E"
  obtain s w1 where s: "k_socket ?K AF_INET SOCK_STREAM 0 w = (s, w1)" by fastforce
  note o1 = socket_law_socket [OF law s]
  obtain p addr where p: "te_inet_pton E (tc_serverAddress c) = (p, addr)" by fastforce
  obtain q w2 where q: "k_connect ?K s (sockaddr_in_bytes (tc_port c) addr) w1 = (q, w2)" by fastforce
  note o2 = socket_law_same(3) [OF law q]
  have c: "opened (snd (k_close ?K s (snd (k_shutdown ?K s h u)))) = opened u - {s}" for h u
    using socket_law_snd(1,2) [OF law] by simp
  let ?c1 = "c\<lparr>tc_outboundQueue := [], tc_socket := s\<rparr>"
  have close: "tc_closeSocket ?K ?c1 u = (c', w') \<Longrightarrow> 0 \<le> s \<Longrightarrow> opened u = insert s (opened w) \<Longrightarrow>
      s \<notin> opened w \<Longrightarrow> tc_outboundQueue c' = [] \<and> opened w' = opened w \<and> tc_socket c' = -1" for u
    using c [of SHUT_RDWR u] by (auto simp: tc_closeSocket_def Let_def)
  consider "s < 0" | "0 \<le> s" "p \<le> 0" | "0 \<le> s" "0 < p" "q < 0" | "0 \<le> s" "0 < p" "0 \<le> q" by linarith
  then show ?thesis
  proof cases
    case 1
    then have "(False, c\<lparr>tc_outboundQueue := []\<rparr>, w1) = (ok, c', w')"
      using r s by (simp add: tc_preRun_def Let_def clearOutboundQueue_def)
    then show ?thesis using o1(3) [OF 1] by auto
  next
    case 2
    then have "\<not> ok" "tc_closeSocket ?K ?c1 w1 = (c', w')"
      using r s p by (auto simp: tc_preRun_def Let_def clearOutboundQueue_def)
    then show ?thesis using close [OF _ 2(1) o1(2) [OF 2(1)] o1(1) [OF 2(1)]] by simp
  next
    case 3
    then have "\<not> ok" "tc_closeSocket ?K ?c1 w2 = (c', w')"
      using r s p q by (auto simp: tc_preRun_def Let_def clearOutboundQueue_def)
    then show ?thesis using close [OF _ 3(1) o2 [unfolded o1(2) [OF 3(1)]] o1(1) [OF 3(1)]] by simp
  next
    case 4
    then have "ok" and e: "c' = ?c1" "w' = w2"
      using r s p q by (auto simp: tc_preRun_def Let_def clearOutboundQueue_def)
    then show ?thesis using o2 o1(1,2) [OF 4(1)] 4(1) unfolding e by simp
  qed
qed

theorem tc_preRun_owns_socket_witness:
  "\<exists>c' w'. tc_preRun tc_lb_env (tc_new ''c'' ''127.0.0.1'' 9000 0) ((lb_start [] [])\<lparr>lb_connects := [111]\<rparr>)
     = (False, c', w') \<and> lb_open w' = {} \<and> tc_outboundQueue c' = []"
proof -
  let ?c = "tc_new ''c'' ''127.0.0.1'' 9000 0" and ?w = "(lb_start [] [])\<lparr>lb_connects := [111]\<rparr>"
  obtain c' w' where e: "tc_preRun tc_lb_env ?c ?w = (False, c', w')"
    by (simp add: tc_preRun_def tc_new_def tc_lb_env_def lb_defs tc_closeSocket_def clearOutboundQueue_def)
  have "socket_law (te_kernel tc_lb_env) lb_open" using lb_socket_law by (simp add: tc_lb_env_def)
  from tc_preRun_owns_socket [OF this e] e show ?thesis by (simp add: lb_start_def)
qed

text \<open>What \<open>send\<close> accepts is what the writer takes: any number of calls on a running client queue
  exactly the non-empty payloads, and the writer's \<open>front()\<close>/\<open>pop()\<close> hand them out in the order of the
  calls; a client that is not running accepts nothing.\<close>

theorem tc_send_then_pop:
  assumes empty: "tc_outboundQueue c = []"
  shows "fst (deq_upto tc_pop (length payloads) (fold (\<lambda>p c. snd (tc_send p c)) payloads c))
      = (if isRunning (tc_base c) then filter (\<lambda>p. p \<noteq> []) payloads else [])
    \<and> fst (tc_send p c) = (p \<noteq> [] \<and> isRunning (tc_base c))"
proof -
  have f: "fold (\<lambda>p c. snd (tc_send p c)) payloads c
      = fold tc_push (if isRunning (tc_base c) then filter (\<lambda>p. p \<noteq> []) payloads else []) c"
    for c
    by (induction payloads arbitrary: c) (auto simp: tc_send_def tc_send_guard_def tc_push_def)
  have q: "tc_outboundQueue (fold tc_push xs c) = xs" for xs
    using tcf.fold_enq [of xs c] empty by simp
  have "take (length payloads) (if isRunning (tc_base c) then filter (\<lambda>p. p \<noteq> []) payloads else [])
      = (if isRunning (tc_base c) then filter (\<lambda>p. p \<noteq> []) payloads else [])"
    by (simp add: length_filter_le)
  then show ?thesis
    using tcf.deq_upto_contents [of "length payloads" "fold (\<lambda>p c. snd (tc_send p c)) payloads c"] f q
    by (auto simp: tc_send_def tc_send_guard_def)
qed

theorem tc_send_then_pop_witness:
  "fst (deq_upto tc_pop (length [[1], [], [2]])
      (fold (\<lambda>p c. snd (tc_send p c)) [[1], [], [2]] tc_lb_client)) = [[1], [2 :: byte]]"
  using tc_send_then_pop [of tc_lb_client "[[1], [], [2]]" "[]"]
  by (simp add: tc_lb_client_def tc_new_def setState_def bw_new_def isRunning_def getState_def)

text \<open>The reader, with more turns than bytes to come plus signals, returns; the callback has then been
  given a prefix of the incoming stream, in order, nothing twice and nothing skipped, and the reader
  has ended only because a stop was requested (by another thread, or by itself on the peer's close, an
  error or a throwing callback) or the socket is closed.\<close>

theorem tc_readLoop_delivers:
  assumes "recv_law (te_kernel E) inbox" and "eintr_law (te_kernel E) eintr"
    and "callback_law E inbox eintr seen" and "te_receiveCallback E = Some cb"
    and "tc_rely E (\<lambda>w. (inbox w, eintr w, seen w))"
    and "length (inbox w (tc_socket c)) + eintr w < fuel"
  shows "\<exists>c' w' k. tc_readLoop fuel E c w = Some (c', w')
    \<and> seen w' = seen w @ take k (inbox w (tc_socket c))
    \<and> (stopRequested (tc_base c') \<or> tc_socket c' < 0)"
  using tc_readLoop_ok [OF assms] by (auto simp: tc_read_ok_def)

definition tc_lb_reader :: "lb tc_env" where
  "tc_lb_reader =
     tc_lb_env\<lparr>te_receiveCallback := Some (\<lambda>bs w. (Inr (), w\<lparr>lb_sent := lb_sent w @ [(0, bs)]\<rparr>))\<rparr>"

theorem tc_readLoop_delivers_witness:
  "\<exists>c' w' k. tc_readLoop 9 tc_lb_reader tc_lb_client
        (lb_start [LbUpTo 2, LbFail EINTR, LbUpTo 2, LbEof] [1, 2, 3, 4]) = Some (c', w')
     \<and> lb_wire w' 0 = lb_wire (lb_start [LbUpTo 2, LbFail EINTR, LbUpTo 2, LbEof] [1, 2, 3, 4]) 0
         @ take k (lb_inbox (lb_start [LbUpTo 2, LbFail EINTR, LbUpTo 2, LbEof] [1, 2, 3, 4]))
     \<and> (stopRequested (tc_base c') \<or> tc_socket c' < 0)"
proof -
  have k: "te_kernel tc_lb_reader = lb_kernel" by (simp add: tc_lb_reader_def tc_lb_env_def)
  have r: "tc_rely tc_lb_reader f" for f :: "lb \<Rightarrow> 'x"
    by (simp add: tc_rely_def tc_lb_reader_def tc_lb_env_def)
  have c: "callback_law tc_lb_reader (\<lambda>w s. lb_inbox w) lb_eintr (\<lambda>w. lb_wire w 0)"
    by (auto simp: callback_law_def tc_lb_reader_def tc_lb_env_def lb_defs lb_eintr_def lb_wire_def
        split: list.splits lb_reply.splits)
  show ?thesis
    by (rule tc_readLoop_delivers [where E = tc_lb_reader, unfolded k, OF lb_recv_law lb_eintr_law c _ r])
      (simp_all add: tc_lb_reader_def lb_eintr_def lb_start_def EINTR_def)
qed

end
