(* ===== verification/TcpClientThreads.thy ===== *)
theory TcpClientThreads
  imports TcpClient "HOL-Library.Sublist"
begin

text \<open>
  All interleavings of one run of a \<open>TCPClient_V2\<close> (\<open>cTCPClient_V2.h\<close>), from \<open>startThread\<close> on: the worker
  thread executes \<open>preRun()\<close> and then \<open>run()\<close>, which has its reader and its writer, while any number of
  other threads call \<open>send\<close> and \<open>requestStop\<close>. A step is one critical section, one atomic access or one
  system call; closing the socket is three of them, and between the first and the last the thread that
  stops is the one that has the descriptor. The writer evaluates the predicate of its \<open>wait\<close> and goes to
  sleep in two steps, because the flag it tests is not written under the mutex it holds: \<open>Wr_holds\<close> is
  the point in between, where the mutex is taken. Threads past the guard of \<open>send\<close>, before its
  \<open>notify_one\<close>, or inside \<open>stopTriggered\<close> (in \<open>closeSocket\<close>, before \<open>clearOutboundQueue\<close>, before
  \<open>notify_all\<close>) are counted. Three ghosts: the payloads that \<open>send\<close> has accepted before \<open>preRun\<close> cleared the
  queue (\<open>cl_early\<close>) and after it (\<open>cl_kept\<close>), and the bytes the connection has taken (\<open>cl_wire\<close>).
\<close>

section \<open>The system and its steps\<close>

datatype cl_pc =
    Wr_none
  | Wr_check
  | Wr_lock
  | Wr_holds
  | Wr_asleep
  | Wr_send "byte list" nat
  | Wr_loaded "byte list" nat fd
  | Wr_fail
  | Wr_exited

text \<open>The worker thread: in \<open>preRun\<close> (\<open>Pr_\<close>; the last three are its \<open>closeSocket\<close> after a failure), between it and
  \<open>run\<close>, then \<open>run\<close> with its reader.\<close>

datatype cl_reader_pc =
    Pr_clear | Pr_socket | Pr_store fd | Pr_connect | Pr_close | Pr_shutdown fd | Pr_closing fd
  | Pr_check | Pr_setRunning | Pr_failed
  | Rd_loop | Rd_joined | Rd_stopped | Rd_notified | Rd_ended

record cl_sys =
  cl_obj :: tcp_client
  cl_writer :: cl_pc
  cl_reader :: cl_reader_pc
  cl_guarded :: "byte list list"
  cl_notifyOne :: nat
  cl_closing :: nat
  cl_held :: "fd list"
  cl_shut :: "fd list"
  cl_clearing :: nat
  cl_notifyAll :: nat
  cl_closed :: "fd list"
  cl_early :: "byte list list"
  cl_kept :: "byte list list"
  cl_wire :: "byte list"

definition cl_accepted :: "cl_sys \<Rightarrow> byte list list" where
  "cl_accepted s = cl_early s @ cl_kept s"

text \<open>\<open>startThread\<close> has just made the thread. The queue may hold what an earlier run has left, and calls of
  \<open>send\<close> that have passed the guard in it, or still owe their notification, may go on; calls of \<open>requestStop\<close>
  from then are over.\<close>

definition cl_init :: "tcp_client \<Rightarrow> byte list list \<Rightarrow> nat \<Rightarrow> cl_sys" where
  "cl_init c guarded notifying =
     \<lparr>cl_obj = c, cl_writer = Wr_none, cl_reader = Pr_clear, cl_guarded = guarded, cl_notifyOne = notifying,
      cl_closing = 0, cl_held = [], cl_shut = [], cl_clearing = 0, cl_notifyAll = 0, cl_closed = [],
      cl_early = [], cl_kept = [], cl_wire = []\<rparr>"

abbreviation cl_stop :: "cl_sys \<Rightarrow> bool" where
  "cl_stop s \<equiv> stopRequested (tc_base (cl_obj s))"

abbreviation cl_queue :: "cl_sys \<Rightarrow> byte list list" where
  "cl_queue s \<equiv> tc_outboundQueue (cl_obj s)"

abbreviation cl_socket :: "cl_sys \<Rightarrow> fd" where
  "cl_socket s \<equiv> tc_socket (cl_obj s)"

text \<open>\<open>requestStop\<close> up to its call of the hook.\<close>

definition cl_request_stop :: "cl_sys \<Rightarrow> cl_sys" where
  "cl_request_stop s =
     (case requestStop (tc_base (cl_obj s)) of
        (trigger, b) \<Rightarrow> s\<lparr>cl_obj := (cl_obj s)\<lparr>tc_base := b\<rparr>,
                          cl_closing := cl_closing s + (if trigger then 1 else 0)\<rparr>)"

definition cl_set_state :: "enm_State \<Rightarrow> cl_sys \<Rightarrow> cl_sys" where
  "cl_set_state st s = s\<lparr>cl_obj := (cl_obj s)\<lparr>tc_base := setState st (tc_base (cl_obj s))\<rparr>\<rparr>"

definition cl_store_socket :: "fd \<Rightarrow> cl_sys \<Rightarrow> cl_sys" where
  "cl_store_socket x s = s\<lparr>cl_obj := (cl_obj s)\<lparr>tc_socket := x\<rparr>\<rparr>"

definition cl_push :: "byte list \<Rightarrow> cl_sys \<Rightarrow> cl_sys" where
  "cl_push data s =
     (if cl_reader s = Pr_clear then s\<lparr>cl_obj := tc_push data (cl_obj s), cl_early := cl_early s @ [data]\<rparr>
      else s\<lparr>cl_obj := tc_push data (cl_obj s), cl_kept := cl_kept s @ [data]\<rparr>)"

definition cl_wake :: "cl_pc \<Rightarrow> cl_pc" where
  "cl_wake p = (if p = Wr_asleep then Wr_lock else p)"

text \<open>The worker thread up to \<open>run()\<close>: \<open>preRun\<close>, and \<open>threadRunner\<close> around it.\<close>

inductive cl_prepares :: "cl_sys \<Rightarrow> cl_sys \<Rightarrow> bool" where
  pr_clear: "cl_reader s = Pr_clear \<Longrightarrow>
     cl_prepares s (s\<lparr>cl_reader := Pr_socket, cl_obj := clearOutboundQueue (cl_obj s)\<rparr>)"
| pr_socket: "cl_reader s = Pr_socket \<Longrightarrow> 0 \<le> x \<Longrightarrow> cl_prepares s (s\<lparr>cl_reader := Pr_store x\<rparr>)"
| pr_no_socket: "cl_reader s = Pr_socket \<Longrightarrow> cl_prepares s (s\<lparr>cl_reader := Pr_failed\<rparr>)"
| pr_store: "cl_reader s = Pr_store x \<Longrightarrow> cl_prepares s ((cl_store_socket x s)\<lparr>cl_reader := Pr_connect\<rparr>)"
| pr_connected: "cl_reader s = Pr_connect \<Longrightarrow> cl_prepares s (s\<lparr>cl_reader := Pr_check\<rparr>)"
| pr_not_connected: "cl_reader s = Pr_connect \<Longrightarrow> cl_prepares s (s\<lparr>cl_reader := Pr_close\<rparr>)"
| pr_exchange: "cl_reader s = Pr_close \<Longrightarrow>
     cl_prepares s ((cl_store_socket (-1) s)
       \<lparr>cl_reader := (if 0 \<le> cl_socket s then Pr_shutdown (cl_socket s) else Pr_failed)\<rparr>)"
| pr_shutdown: "cl_reader s = Pr_shutdown x \<Longrightarrow> cl_prepares s (s\<lparr>cl_reader := Pr_closing x\<rparr>)"
| pr_close: "cl_reader s = Pr_closing x \<Longrightarrow>
     cl_prepares s (s\<lparr>cl_reader := Pr_failed, cl_closed := x # cl_closed s\<rparr>)"
| pr_check_stop: "cl_reader s = Pr_check \<Longrightarrow> cl_stop s \<Longrightarrow> cl_prepares s (s\<lparr>cl_reader := Pr_failed\<rparr>)"
| pr_check_go: "cl_reader s = Pr_check \<Longrightarrow> \<not> cl_stop s \<Longrightarrow> cl_prepares s (s\<lparr>cl_reader := Pr_setRunning\<rparr>)"
| pr_run: "cl_reader s = Pr_setRunning \<Longrightarrow>
     cl_prepares s ((cl_set_state St_Running s)\<lparr>cl_reader := Rd_loop, cl_writer := Wr_check\<rparr>)"
| pr_failed: "cl_reader s = Pr_failed \<Longrightarrow>
     cl_prepares s ((cl_set_state St_Stopped s)\<lparr>cl_reader := Rd_ended\<rparr>)"

inductive cl_step :: "cl_sys \<Rightarrow> cl_sys \<Rightarrow> bool" where
  cl_prepare: "cl_prepares s t \<Longrightarrow> cl_step s t"
| cl_send_guard: "tc_send_guard data (cl_obj s) \<Longrightarrow>
     cl_step s (s\<lparr>cl_guarded := data # cl_guarded s\<rparr>)"
| cl_send_push: "data \<in> set (cl_guarded s) \<Longrightarrow> cl_writer s \<noteq> Wr_holds \<Longrightarrow>
     cl_step s ((cl_push data s)\<lparr>cl_guarded := remove1 data (cl_guarded s), cl_notifyOne := Suc (cl_notifyOne s)\<rparr>)"
| cl_send_notify: "cl_notifyOne s = Suc n \<Longrightarrow>
     cl_step s (s\<lparr>cl_notifyOne := n, cl_writer := cl_wake (cl_writer s)\<rparr>)"
| cl_requestStop: "cl_step s (cl_request_stop s)"
| cl_hook_exchange: "length (cl_held s) + length (cl_shut s) < cl_closing s \<Longrightarrow> 0 \<le> cl_socket s \<Longrightarrow>
     cl_step s ((cl_store_socket (-1) s)\<lparr>cl_held := cl_socket s # cl_held s\<rparr>)"
| cl_hook_nothing: "length (cl_held s) + length (cl_shut s) < cl_closing s \<Longrightarrow> cl_socket s < 0 \<Longrightarrow>
     cl_closing s = Suc n \<Longrightarrow>
     cl_step s ((cl_store_socket (-1) s)\<lparr>cl_closing := n, cl_clearing := Suc (cl_clearing s)\<rparr>)"
| cl_hook_shutdown: "x \<in> set (cl_held s) \<Longrightarrow>
     cl_step s (s\<lparr>cl_held := remove1 x (cl_held s), cl_shut := x # cl_shut s\<rparr>)"
| cl_hook_close: "x \<in> set (cl_shut s) \<Longrightarrow> cl_closing s = Suc n \<Longrightarrow>
     cl_step s (s\<lparr>cl_shut := remove1 x (cl_shut s), cl_closed := x # cl_closed s,
                  cl_closing := n, cl_clearing := Suc (cl_clearing s)\<rparr>)"
| cl_hook_clear: "cl_clearing s = Suc n \<Longrightarrow> cl_writer s \<noteq> Wr_holds \<Longrightarrow>
     cl_step s (s\<lparr>cl_clearing := n, cl_notifyAll := Suc (cl_notifyAll s),
                  cl_obj := clearOutboundQueue (cl_obj s)\<rparr>)"
| cl_hook_notify: "cl_notifyAll s = Suc n \<Longrightarrow>
     cl_step s (s\<lparr>cl_notifyAll := n, cl_writer := cl_wake (cl_writer s)\<rparr>)"
| cl_check_stop: "cl_writer s = Wr_check \<Longrightarrow> cl_stop s \<Longrightarrow> cl_step s (s\<lparr>cl_writer := Wr_exited\<rparr>)"
| cl_check_go: "cl_writer s = Wr_check \<Longrightarrow> \<not> cl_stop s \<Longrightarrow> cl_step s (s\<lparr>cl_writer := Wr_lock\<rparr>)"
| cl_lock_wait: "cl_writer s = Wr_lock \<Longrightarrow> \<not> cl_stop s \<Longrightarrow> cl_queue s = [] \<Longrightarrow>
     cl_step s (s\<lparr>cl_writer := Wr_holds\<rparr>)"
| cl_sleep: "cl_writer s = Wr_holds \<Longrightarrow> cl_step s (s\<lparr>cl_writer := Wr_asleep\<rparr>)"
| cl_spurious: "cl_writer s = Wr_asleep \<Longrightarrow> cl_step s (s\<lparr>cl_writer := Wr_lock\<rparr>)"
| cl_lock_stop: "cl_writer s = Wr_lock \<Longrightarrow> cl_stop s \<Longrightarrow> cl_step s (s\<lparr>cl_writer := Wr_exited\<rparr>)"
| cl_lock_pop: "cl_writer s = Wr_lock \<Longrightarrow> \<not> cl_stop s \<Longrightarrow> tc_pop (cl_obj s) = (Some payload, c) \<Longrightarrow>
     cl_step s (s\<lparr>cl_obj := c, cl_writer := Wr_send payload 0\<rparr>)"
| cl_load: "cl_writer s = Wr_send payload k \<Longrightarrow> k < length payload \<Longrightarrow> 0 \<le> cl_socket s \<Longrightarrow>
     cl_step s (s\<lparr>cl_writer := Wr_loaded payload k (cl_socket s)\<rparr>)"
| cl_load_closed: "cl_writer s = Wr_send payload k \<Longrightarrow> k < length payload \<Longrightarrow> cl_socket s < 0 \<Longrightarrow>
     cl_step s (s\<lparr>cl_writer := Wr_fail\<rparr>)"
| cl_send_some: "cl_writer s = Wr_loaded payload k sock \<Longrightarrow> sock = cl_socket s \<or> sock \<in> set (cl_held s) \<Longrightarrow>
     0 < n \<Longrightarrow> n \<le> length payload - k \<Longrightarrow>
     cl_step s (s\<lparr>cl_writer := Wr_send payload (k + n), cl_wire := cl_wire s @ take n (drop k payload)\<rparr>)"
| cl_send_stray: "cl_writer s = Wr_loaded payload k sock \<Longrightarrow> sock \<in> set (cl_closed s) \<Longrightarrow> 0 < n \<Longrightarrow>
     n \<le> length payload - k \<Longrightarrow> cl_step s (s\<lparr>cl_writer := Wr_send payload (k + n)\<rparr>)"
| cl_send_eintr: "cl_writer s = Wr_loaded payload k sock \<Longrightarrow>
     cl_step s (s\<lparr>cl_writer := Wr_send payload k\<rparr>)"
| cl_send_error: "cl_writer s = Wr_loaded payload k sock \<Longrightarrow> cl_step s (s\<lparr>cl_writer := Wr_fail\<rparr>)"
| cl_send_done: "cl_writer s = Wr_send payload k \<Longrightarrow> \<not> k < length payload \<Longrightarrow>
     cl_step s (s\<lparr>cl_writer := Wr_check,
                  cl_obj := (cl_obj s)\<lparr>tc_base := updateHeartbeat ticks_per_ms now (tc_base (cl_obj s))\<rparr>\<rparr>)"
| cl_fail_stop: "cl_writer s = Wr_fail \<Longrightarrow>
     cl_step s ((cl_request_stop s)\<lparr>cl_writer := Wr_exited\<rparr>)"
| cl_read_chunk: "cl_reader s = Rd_loop \<Longrightarrow>
     cl_step s (s\<lparr>cl_obj := (cl_obj s)\<lparr>tc_base := updateHeartbeat ticks_per_ms now (tc_base (cl_obj s))\<rparr>\<rparr>)"
| cl_read_end: "cl_reader s = Rd_loop \<Longrightarrow> cl_stop s \<or> cl_socket s < 0 \<Longrightarrow>
     cl_step s (s\<lparr>cl_reader := Rd_joined\<rparr>)"
| cl_read_stop: "cl_reader s = Rd_loop \<Longrightarrow> cl_step s ((cl_request_stop s)\<lparr>cl_reader := Rd_joined\<rparr>)"
| cl_run_stop: "cl_reader s = Rd_joined \<Longrightarrow> cl_step s ((cl_request_stop s)\<lparr>cl_reader := Rd_stopped\<rparr>)"
| cl_run_notify: "cl_reader s = Rd_stopped \<Longrightarrow>
     cl_step s (s\<lparr>cl_reader := Rd_notified, cl_writer := cl_wake (cl_writer s)\<rparr>)"
| cl_run_ended: "cl_reader s = Rd_notified \<Longrightarrow> cl_writer s = Wr_exited \<Longrightarrow>
     cl_step s ((cl_set_state St_Stopped s)\<lparr>cl_reader := Rd_ended\<rparr>)"

inductive cl_reachable :: "cl_sys \<Rightarrow> bool" where
  cl_reach_init: "tc_socket c = -1 \<Longrightarrow> startThread_locked (Some t) b = Created (tc_base c) \<Longrightarrow>
     cl_reachable (cl_init c guarded notifying)"
| cl_reach_step: "cl_reachable s \<Longrightarrow> cl_step s t \<Longrightarrow> cl_reachable t"


section \<open>The invariant\<close>

text \<open>The bytes of the payload in hand that the connection has not taken.\<close>

fun cl_inflight :: "cl_pc \<Rightarrow> byte list" where
  "cl_inflight (Wr_send p k) = drop k p"
| "cl_inflight (Wr_loaded p k s) = drop k p"
| "cl_inflight _ = []"

definition cl_given_up :: "cl_pc \<Rightarrow> bool" where
  "cl_given_up p \<longleftrightarrow> p = Wr_fail \<or> p = Wr_exited"

fun cl_in_run :: "cl_reader_pc \<Rightarrow> bool" where
  "cl_in_run Rd_loop = True"
| "cl_in_run Rd_joined = True"
| "cl_in_run Rd_stopped = True"
| "cl_in_run Rd_notified = True"
| "cl_in_run _ = False"

text \<open>The worker has passed the test of the flag after \<open>preRun\<close>.\<close>

definition cl_live :: "cl_sys \<Rightarrow> bool" where
  "cl_live s \<longleftrightarrow> cl_writer s \<noteq> Wr_none \<or> cl_reader s = Pr_setRunning"

text \<open>The descriptors of the run, wherever they are: in \<open>m_socket\<close>, with a thread in the middle of closing, closed,
  or in a local variable of \<open>preRun\<close>.\<close>

fun cl_pc_fds :: "cl_reader_pc \<Rightarrow> fd list" where
  "cl_pc_fds (Pr_store x) = [x]"
| "cl_pc_fds (Pr_shutdown x) = [x]"
| "cl_pc_fds (Pr_closing x) = [x]"
| "cl_pc_fds _ = []"

definition cl_fds :: "cl_sys \<Rightarrow> fd list" where
  "cl_fds s = (if 0 \<le> cl_socket s then [cl_socket s] else []) @ cl_held s @ cl_shut s @ cl_closed s @ cl_pc_fds (cl_reader s)"

definition cl_inv_phase :: "cl_sys \<Rightarrow> bool" where
  "cl_inv_phase s \<longleftrightarrow>
     (m_state (tc_base (cl_obj s)) \<in> {St_Starting, St_Running, St_Stopping}
        \<or> m_state (tc_base (cl_obj s)) = St_Stopped \<and> cl_reader s = Rd_ended) \<and>
     (cl_in_run (cl_reader s) \<longrightarrow> cl_writer s \<noteq> Wr_none) \<and>
     (cl_writer s \<noteq> Wr_none \<longrightarrow> cl_in_run (cl_reader s) \<or> cl_reader s = Rd_ended \<and> cl_writer s = Wr_exited) \<and>
     (0 < cl_closing s + cl_clearing s \<longrightarrow> cl_stop s)"

definition cl_inv_fd :: "cl_sys \<Rightarrow> bool" where
  "cl_inv_fd s \<longleftrightarrow>
     length (cl_fds s) \<le> 1 \<and> (\<forall>x \<in> set (cl_fds s). 0 \<le> x) \<and>
     (cl_reader s = Pr_clear \<or> cl_reader s = Pr_socket \<longrightarrow> cl_fds s = []) \<and>
     length (cl_held s) + length (cl_shut s) \<le> cl_closing s \<and>
     (cl_live s \<or> cl_reader s = Pr_connect \<or> cl_reader s = Pr_check \<longrightarrow> \<not> cl_stop s \<longrightarrow> 0 \<le> cl_socket s) \<and>
     (cl_live s \<and> 0 < cl_clearing s \<longrightarrow> cl_socket s < 0) \<and>
     (\<forall>p k x. cl_writer s = Wr_loaded p k x \<longrightarrow> cl_fds s = [x])"

definition cl_inv_bytes :: "cl_sys \<Rightarrow> bool" where
  "cl_inv_bytes s \<longleftrightarrow>
     (cl_writer s = Wr_none \<longrightarrow> cl_wire s = []) \<and>
     (cl_reader s = Pr_clear \<longrightarrow> cl_kept s = []) \<and>
     (cl_writer s = Wr_none \<and> cl_reader s \<noteq> Pr_clear \<and> \<not> cl_stop s \<longrightarrow> concat (cl_queue s) = concat (cl_kept s)) \<and>
     prefix (cl_wire s) (concat (cl_kept s)) \<and>
     (0 \<le> cl_socket s \<or> cl_held s \<noteq> [] \<longrightarrow> prefix (cl_wire s @ cl_inflight (cl_writer s)) (concat (cl_kept s))) \<and>
     (cl_live s \<and> 0 \<le> cl_socket s \<and> \<not> cl_given_up (cl_writer s) \<longrightarrow>
        cl_wire s @ cl_inflight (cl_writer s) @ concat (cl_queue s) = concat (cl_kept s))"

definition cl_inv_wake :: "cl_sys \<Rightarrow> bool" where
  "cl_inv_wake s \<longleftrightarrow>
     (cl_writer s = Wr_asleep \<and> cl_queue s \<noteq> [] \<longrightarrow> 0 < cl_notifyOne s) \<and>
     (cl_writer s = Wr_holds \<longrightarrow> cl_queue s = []) \<and>
     (cl_writer s = Wr_asleep \<and> cl_stop s \<longrightarrow> 0 < cl_closing s + cl_clearing s + cl_notifyAll s) \<and>
     (cl_writer s = Wr_holds \<and> cl_stop s \<longrightarrow> 0 < cl_closing s + cl_clearing s)"

lemmas cl_inv_defs = cl_inv_phase_def cl_inv_fd_def cl_inv_bytes_def cl_inv_wake_def

text \<open>Requesting a stop changes the flag, the state and the number of running hooks, nothing else.\<close>

lemma cl_request_stop_frame [simp]:
  "tc_socket (cl_obj (cl_request_stop s)) = tc_socket (cl_obj s)"
  "tc_outboundQueue (cl_obj (cl_request_stop s)) = tc_outboundQueue (cl_obj s)"
  "cl_writer (cl_request_stop s) = cl_writer s" "cl_reader (cl_request_stop s) = cl_reader s"
  "cl_notifyOne (cl_request_stop s) = cl_notifyOne s" "cl_clearing (cl_request_stop s) = cl_clearing s"
  "cl_notifyAll (cl_request_stop s) = cl_notifyAll s" "cl_closed (cl_request_stop s) = cl_closed s"
  "cl_early (cl_request_stop s) = cl_early s" "cl_kept (cl_request_stop s) = cl_kept s"
  "cl_held (cl_request_stop s) = cl_held s" "cl_shut (cl_request_stop s) = cl_shut s"
  "cl_wire (cl_request_stop s) = cl_wire s" "cl_guarded (cl_request_stop s) = cl_guarded s"
  by (simp_all add: cl_request_stop_def split: prod.splits)

lemma cl_request_stop_flag [simp]: "cl_stop (cl_request_stop s)"
  by (auto simp: cl_request_stop_def requestStop_def stopRequested_def Let_def split: prod.splits if_splits)

lemma cl_request_stop_hook:
  "cl_inv_phase s \<Longrightarrow> cl_closing (cl_request_stop s)
     = (if m_state (tc_base (cl_obj s)) = St_Stopped then cl_closing s else Suc (cl_closing s))
   \<and> m_state (tc_base (cl_obj (cl_request_stop s)))
     = (if m_state (tc_base (cl_obj s)) = St_Stopped then St_Stopped else St_Stopping)"
  by (auto simp: cl_inv_phase_def cl_request_stop_def requestStop_def Let_def)

lemma cl_set_state_frame [simp]:
  "cl_stop (cl_set_state st s) = cl_stop s" "cl_queue (cl_set_state st s) = cl_queue s"
  "cl_socket (cl_set_state st s) = cl_socket s" "m_state (tc_base (cl_obj (cl_set_state st s))) = st"
  "cl_writer (cl_set_state st s) = cl_writer s" "cl_reader (cl_set_state st s) = cl_reader s"
  "cl_notifyOne (cl_set_state st s) = cl_notifyOne s" "cl_clearing (cl_set_state st s) = cl_clearing s"
  "cl_notifyAll (cl_set_state st s) = cl_notifyAll s" "cl_closed (cl_set_state st s) = cl_closed s"
  "cl_early (cl_set_state st s) = cl_early s" "cl_kept (cl_set_state st s) = cl_kept s"
  "cl_held (cl_set_state st s) = cl_held s" "cl_shut (cl_set_state st s) = cl_shut s"
  "cl_wire (cl_set_state st s) = cl_wire s" "cl_closing (cl_set_state st s) = cl_closing s"
  by (simp_all add: cl_set_state_def setState_def stopRequested_def)

lemma cl_store_socket_frame [simp]:
  "tc_base (cl_obj (cl_store_socket x s)) = tc_base (cl_obj s)" "cl_queue (cl_store_socket x s) = cl_queue s"
  "cl_socket (cl_store_socket x s) = x"
  "cl_writer (cl_store_socket x s) = cl_writer s" "cl_reader (cl_store_socket x s) = cl_reader s"
  "cl_notifyOne (cl_store_socket x s) = cl_notifyOne s" "cl_clearing (cl_store_socket x s) = cl_clearing s"
  "cl_notifyAll (cl_store_socket x s) = cl_notifyAll s" "cl_closed (cl_store_socket x s) = cl_closed s"
  "cl_early (cl_store_socket x s) = cl_early s" "cl_kept (cl_store_socket x s) = cl_kept s"
  "cl_held (cl_store_socket x s) = cl_held s" "cl_shut (cl_store_socket x s) = cl_shut s"
  "cl_wire (cl_store_socket x s) = cl_wire s" "cl_closing (cl_store_socket x s) = cl_closing s"
  by (simp_all add: cl_store_socket_def)

lemma cl_push_frame [simp]:
  "tc_base (cl_obj (cl_push d s)) = tc_base (cl_obj s)" "cl_socket (cl_push d s) = cl_socket s"
  "cl_queue (cl_push d s) = cl_queue s @ [d]"
  "cl_writer (cl_push d s) = cl_writer s" "cl_reader (cl_push d s) = cl_reader s"
  "cl_notifyOne (cl_push d s) = cl_notifyOne s" "cl_clearing (cl_push d s) = cl_clearing s"
  "cl_notifyAll (cl_push d s) = cl_notifyAll s" "cl_closed (cl_push d s) = cl_closed s"
  "cl_held (cl_push d s) = cl_held s" "cl_shut (cl_push d s) = cl_shut s"
  "cl_wire (cl_push d s) = cl_wire s" "cl_closing (cl_push d s) = cl_closing s"
  "cl_early (cl_push d s) = (if cl_reader s = Pr_clear then cl_early s @ [d] else cl_early s)"
  "cl_kept (cl_push d s) = (if cl_reader s = Pr_clear then cl_kept s else cl_kept s @ [d])"
  by (simp_all add: cl_push_def tc_push_def)

lemma cl_obj_frame [simp]:
  "stopRequested (updateHeartbeat tpm now b) = stopRequested b"
  "m_state (updateHeartbeat tpm now b) = m_state b"
  by (simp_all add: updateHeartbeat_def stopRequested_def)

lemma tc_obj_frame [simp]:
  "tc_base (tc_push d c) = tc_base c" "tc_socket (tc_push d c) = tc_socket c"
  "tc_outboundQueue (tc_push d c) = tc_outboundQueue c @ [d]"
  "tc_base (clearOutboundQueue c) = tc_base c" "tc_socket (clearOutboundQueue c) = tc_socket c"
  "tc_outboundQueue (clearOutboundQueue c) = []"
  by (simp_all add: tc_push_def clearOutboundQueue_def)

lemma tc_pop_SomeD:
  "tc_pop c = (Some p, c') \<Longrightarrow>
   tc_outboundQueue c = p # tc_outboundQueue c' \<and> tc_base c' = tc_base c \<and> tc_socket c' = tc_socket c"
  by (auto simp: tc_pop_def split: list.splits)

lemma cl_wake_simps [simp]:
  "cl_wake p \<noteq> Wr_asleep" "cl_wake p = Wr_holds \<longleftrightarrow> p = Wr_holds"
  "cl_wake p = Wr_loaded q k x \<longleftrightarrow> p = Wr_loaded q k x"
  "cl_wake p = Wr_none \<longleftrightarrow> p = Wr_none" "cl_wake p = Wr_fail \<longleftrightarrow> p = Wr_fail" "cl_wake p = Wr_exited \<longleftrightarrow> p = Wr_exited"
  "cl_inflight (cl_wake p) = cl_inflight p" "cl_given_up (cl_wake p) = cl_given_up p"
  by (auto simp: cl_wake_def cl_given_up_def)

section \<open>Every step keeps it\<close>

lemma cl_phase_step: "cl_step s t \<Longrightarrow> cl_inv_phase s \<Longrightarrow> cl_inv_phase t"
proof (induction rule: cl_step.induct)
  case (cl_prepare s t)
  then show ?case by (cases rule: cl_prepares.cases) (auto simp: cl_inv_phase_def)
next
  case (cl_requestStop s)
  then show ?case using cl_request_stop_hook [of s] by (auto simp: cl_inv_phase_def)
next
  case (cl_fail_stop s)
  then show ?case using cl_request_stop_hook [of s] by (auto simp: cl_inv_phase_def)
next
  case (cl_read_stop s)
  then show ?case using cl_request_stop_hook [of s] by (auto simp: cl_inv_phase_def)
next
  case (cl_run_stop s)
  then show ?case using cl_request_stop_hook [of s] by (auto simp: cl_inv_phase_def)
next
  case (cl_lock_pop s p c)
  then show ?case using tc_pop_SomeD [OF cl_lock_pop.hyps(3)] by (auto simp: cl_inv_phase_def)
qed (auto simp: cl_inv_phase_def)


lemma cl_fds_frame:
  "cl_socket t = cl_socket s \<Longrightarrow> cl_held t = cl_held s \<Longrightarrow> cl_shut t = cl_shut s \<Longrightarrow> cl_closed t = cl_closed s \<Longrightarrow>
   cl_pc_fds (cl_reader t) = cl_pc_fds (cl_reader s) \<Longrightarrow> cl_fds t = cl_fds s"
  by (simp add: cl_fds_def)

lemma cl_fdsD:
  assumes "cl_inv_fd s"
  shows "length (cl_fds s) \<le> 1" "\<forall>x \<in> set (cl_fds s). 0 \<le> x"
  using assms by (simp_all add: cl_inv_fd_def)

lemma cl_fds_alone:
  assumes "cl_inv_fd s"
  shows "0 \<le> cl_socket s \<Longrightarrow> cl_fds s = [cl_socket s]"
    and "x \<in> set (cl_held s) \<Longrightarrow> cl_held s = [x] \<and> \<not> 0 \<le> cl_socket s \<and> cl_shut s = [] \<and> cl_closed s = []
      \<and> cl_pc_fds (cl_reader s) = [] \<and> cl_fds s = [x]"
    and "x \<in> set (cl_shut s) \<Longrightarrow> cl_shut s = [x] \<and> \<not> 0 \<le> cl_socket s \<and> cl_held s = [] \<and> cl_closed s = []
      \<and> cl_pc_fds (cl_reader s) = [] \<and> cl_fds s = [x]"
    and "x \<in> set (cl_closed s) \<Longrightarrow> cl_closed s = [x] \<and> \<not> 0 \<le> cl_socket s \<and> cl_held s = [] \<and> cl_shut s = []
      \<and> cl_pc_fds (cl_reader s) = [] \<and> cl_fds s = [x]"
    and "x \<in> set (cl_pc_fds (cl_reader s)) \<Longrightarrow> \<not> 0 \<le> cl_socket s \<and> cl_held s = [] \<and> cl_shut s = [] \<and> cl_closed s = []
      \<and> cl_pc_fds (cl_reader s) = [x] \<and> 0 \<le> x"
proof -
  have one: "x \<in> set zs \<Longrightarrow> length zs \<le> 1 \<Longrightarrow> zs = [x]" for zs and x :: fd
    by (cases zs) auto
  have len: "(if 0 \<le> cl_socket s then 1 else 0) + length (cl_held s) + length (cl_shut s) + length (cl_closed s)
      + length (cl_pc_fds (cl_reader s)) \<le> 1"
    using cl_fdsD(1) [OF assms] by (cases "0 \<le> cl_socket s") (simp_all add: cl_fds_def)
  show "0 \<le> cl_socket s \<Longrightarrow> cl_fds s = [cl_socket s]" using len by (simp add: cl_fds_def)
  show "x \<in> set (cl_held s) \<Longrightarrow> cl_held s = [x] \<and> \<not> 0 \<le> cl_socket s \<and> cl_shut s = [] \<and> cl_closed s = []
      \<and> cl_pc_fds (cl_reader s) = [] \<and> cl_fds s = [x]"
    using len length_pos_if_in_set [of x "cl_held s"] one [of x "cl_held s"]
    by (cases "0 \<le> cl_socket s") (simp_all add: cl_fds_def)
  show "x \<in> set (cl_shut s) \<Longrightarrow> cl_shut s = [x] \<and> \<not> 0 \<le> cl_socket s \<and> cl_held s = [] \<and> cl_closed s = []
      \<and> cl_pc_fds (cl_reader s) = [] \<and> cl_fds s = [x]"
    using len length_pos_if_in_set [of x "cl_shut s"] one [of x "cl_shut s"]
    by (cases "0 \<le> cl_socket s") (simp_all add: cl_fds_def)
  show "x \<in> set (cl_closed s) \<Longrightarrow> cl_closed s = [x] \<and> \<not> 0 \<le> cl_socket s \<and> cl_held s = [] \<and> cl_shut s = []
      \<and> cl_pc_fds (cl_reader s) = [] \<and> cl_fds s = [x]"
    using len length_pos_if_in_set [of x "cl_closed s"] one [of x "cl_closed s"]
    by (cases "0 \<le> cl_socket s") (simp_all add: cl_fds_def)
  show "x \<in> set (cl_pc_fds (cl_reader s)) \<Longrightarrow> \<not> 0 \<le> cl_socket s \<and> cl_held s = [] \<and> cl_shut s = [] \<and> cl_closed s = []
      \<and> cl_pc_fds (cl_reader s) = [x] \<and> 0 \<le> x"
    using len length_pos_if_in_set [of x "cl_pc_fds (cl_reader s)"] one [of x "cl_pc_fds (cl_reader s)"]
      cl_fdsD(2) [OF assms]
    by (cases "0 \<le> cl_socket s") (simp_all add: cl_fds_def)
qed

text \<open>A step that leaves the descriptors where they are.\<close>

lemma cl_fd_same:
  assumes "cl_inv_fd s" and "cl_socket t = cl_socket s" "cl_held t = cl_held s" "cl_shut t = cl_shut s"
      "cl_closed t = cl_closed s" "cl_pc_fds (cl_reader t) = cl_pc_fds (cl_reader s)"
    and "cl_reader t = Pr_clear \<or> cl_reader t = Pr_socket \<longrightarrow> cl_reader s = Pr_clear \<or> cl_reader s = Pr_socket"
    and "cl_closing s \<le> cl_closing t" and "cl_stop s \<longrightarrow> cl_stop t"
    and "cl_live t \<or> cl_reader t = Pr_connect \<or> cl_reader t = Pr_check \<longrightarrow> \<not> cl_stop t \<longrightarrow>
      cl_live s \<or> cl_reader s = Pr_connect \<or> cl_reader s = Pr_check"
    and "cl_live t \<and> 0 < cl_clearing t \<longrightarrow> cl_live s \<and> 0 < cl_clearing s"
    and "\<forall>p k x. cl_writer t = Wr_loaded p k x \<longrightarrow>
      (\<exists>p k. cl_writer s = Wr_loaded p k x) \<or> 0 \<le> cl_socket s \<and> x = cl_socket s"
  shows "cl_inv_fd t"
proof -
  have f: "cl_fds t = cl_fds s" using assms(2-6) by (simp add: cl_fds_def)
  note l = cl_fds_alone(1) [OF assms(1)]
  have "\<forall>p k x. cl_writer t = Wr_loaded p k x \<longrightarrow> cl_fds t = [x]"
    using assms(1,12) l unfolding f cl_inv_fd_def by metis
  moreover have "length (cl_held t) + length (cl_shut t) \<le> cl_closing t"
    using assms(1,3,4,8) unfolding cl_inv_fd_def by simp
  ultimately show ?thesis
    using assms(1,7,9,10,11) unfolding cl_inv_fd_def f assms(2) by blast
qed

lemma cl_fd_prepare: "cl_prepares s t \<Longrightarrow> cl_inv_phase s \<Longrightarrow> cl_inv_fd s \<Longrightarrow> cl_inv_fd t"
proof (induction rule: cl_prepares.induct)
  case (pr_clear s)
  show ?case by (rule cl_fd_same [OF pr_clear(3)]) (use pr_clear in \<open>auto simp: cl_live_def\<close>)
next
  case (pr_socket s x)
  then have "cl_fds s = []" "cl_writer s = Wr_none" by (auto simp: cl_inv_fd_def cl_inv_phase_def)
  then show ?case using pr_socket by (simp add: cl_inv_fd_def cl_fds_def cl_live_def split: if_splits)
next
  case (pr_no_socket s)
  then have "cl_writer s = Wr_none" by (auto simp: cl_inv_phase_def)
  show ?case by (rule cl_fd_same [OF pr_no_socket(3)]) (use pr_no_socket \<open>cl_writer s = Wr_none\<close> in \<open>auto simp: cl_live_def\<close>)
next
  case (pr_store s x)
  have "cl_writer s = Wr_none" using pr_store by (auto simp: cl_inv_phase_def)
  moreover have "x \<in> set (cl_pc_fds (cl_reader s))" using pr_store(1) by simp
  note cl_fds_alone(5) [OF pr_store(3) this]
  ultimately show ?case using pr_store by (simp add: cl_inv_fd_def cl_fds_def cl_live_def)
next
  case (pr_connected s)
  then have "cl_writer s = Wr_none" by (auto simp: cl_inv_phase_def)
  show ?case by (rule cl_fd_same [OF pr_connected(3)]) (use pr_connected \<open>cl_writer s = Wr_none\<close> in \<open>auto simp: cl_live_def\<close>)
next
  case (pr_not_connected s)
  then have "cl_writer s = Wr_none" by (auto simp: cl_inv_phase_def)
  show ?case by (rule cl_fd_same [OF pr_not_connected(3)]) (use pr_not_connected \<open>cl_writer s = Wr_none\<close> in \<open>auto simp: cl_live_def\<close>)
next
  case (pr_exchange s)
  then have "cl_writer s = Wr_none" by (auto simp: cl_inv_phase_def)
  then show ?case
    using pr_exchange by (cases "0 \<le> cl_socket s") (simp_all add: cl_inv_fd_def cl_fds_def cl_live_def)
next
  case (pr_shutdown s x)
  then have "cl_writer s = Wr_none" by (auto simp: cl_inv_phase_def)
  show ?case by (rule cl_fd_same [OF pr_shutdown(3)]) (use pr_shutdown \<open>cl_writer s = Wr_none\<close> in \<open>auto simp: cl_live_def\<close>)
next
  case (pr_close s x)
  have "cl_writer s = Wr_none" using pr_close by (auto simp: cl_inv_phase_def)
  moreover have "x \<in> set (cl_pc_fds (cl_reader s))" using pr_close(1) by simp
  note cl_fds_alone(5) [OF pr_close(3) this]
  ultimately show ?case using pr_close by (simp add: cl_inv_fd_def cl_fds_def cl_live_def)
next
  case (pr_check_stop s)
  then have "cl_writer s = Wr_none" by (auto simp: cl_inv_phase_def)
  show ?case by (rule cl_fd_same [OF pr_check_stop(4)]) (use pr_check_stop \<open>cl_writer s = Wr_none\<close> in \<open>auto simp: cl_live_def\<close>)
next
  case (pr_check_go s)
  then have "\<not> 0 < cl_clearing s" by (auto simp: cl_inv_phase_def)
  then show ?case by (intro cl_fd_same [OF pr_check_go(4)]) (use pr_check_go in \<open>auto simp: cl_live_def\<close>)
next
  case (pr_run s)
  show ?case by (rule cl_fd_same [OF pr_run(3)]) (use pr_run in \<open>auto simp: cl_live_def\<close>)
next
  case (pr_failed s)
  then have "cl_writer s = Wr_none" by (auto simp: cl_inv_phase_def)
  show ?case by (rule cl_fd_same [OF pr_failed(3)]) (use pr_failed \<open>cl_writer s = Wr_none\<close> in \<open>auto simp: cl_live_def\<close>)
qed

lemma cl_fd_request_stop: "cl_inv_phase s \<Longrightarrow> cl_inv_fd s \<Longrightarrow> cl_inv_fd (cl_request_stop s)"
  by (rule cl_fd_same) (auto simp: cl_request_stop_hook cl_live_def)

lemma cl_fd_step: "cl_step s t \<Longrightarrow> cl_inv_phase s \<Longrightarrow> cl_inv_fd s \<Longrightarrow> cl_inv_fd t"
proof (induction rule: cl_step.induct)
  case (cl_prepare s t)
  then show ?case by (rule cl_fd_prepare)
next
  case (cl_requestStop s)
  then show ?case by (rule cl_fd_request_stop)
next
  case (cl_fail_stop s)
  show ?case
    by (rule cl_fd_same [OF cl_fd_request_stop [OF cl_fail_stop(2,3)]]) (use cl_fail_stop in \<open>auto simp: cl_live_def\<close>)
next
  case (cl_read_stop s)
  show ?case
    by (rule cl_fd_same [OF cl_fd_request_stop [OF cl_read_stop(2,3)]]) (use cl_read_stop in \<open>auto simp: cl_live_def\<close>)
next
  case (cl_run_stop s)
  show ?case
    by (rule cl_fd_same [OF cl_fd_request_stop [OF cl_run_stop(2,3)]]) (use cl_run_stop in \<open>auto simp: cl_live_def\<close>)
next
  case (cl_lock_pop s p c)
  note pop = tc_pop_SomeD [OF cl_lock_pop.hyps(3)]
  show ?case by (rule cl_fd_same [OF cl_lock_pop.prems(2)]) (use cl_lock_pop.hyps pop in \<open>auto simp: cl_live_def\<close>)
next
  case (cl_hook_exchange s)
  from cl_fds_alone(1) [OF cl_hook_exchange(4,2)] have "cl_held s = []" "cl_shut s = []" "cl_closed s = []" "cl_pc_fds (cl_reader s) = []"
    using cl_hook_exchange(2) by (auto simp: cl_fds_def)
  moreover have "cl_stop s" using cl_hook_exchange by (auto simp: cl_inv_phase_def)
  ultimately show ?case using cl_hook_exchange by (simp add: cl_inv_fd_def cl_fds_def cl_live_def)
next
  case (cl_hook_nothing s n)
  moreover have "cl_stop s" using cl_hook_nothing by (auto simp: cl_inv_phase_def)
  ultimately show ?case by (simp add: cl_inv_fd_def cl_fds_def cl_live_def)
next
  case (cl_hook_shutdown x s)
  note cl_fds_alone(2) [OF cl_hook_shutdown(3,1)]
  then show ?case using cl_hook_shutdown by (simp add: cl_inv_fd_def cl_fds_def cl_live_def)
next
  case (cl_hook_close x s n)
  note cl_fds_alone(3) [OF cl_hook_close(4,1)]
  moreover have "cl_stop s" using cl_hook_close by (auto simp: cl_inv_phase_def)
  ultimately show ?case using cl_hook_close by (simp add: cl_inv_fd_def cl_fds_def cl_live_def)
next
  case (cl_load s p k)
  show ?case by (rule cl_fd_same [OF cl_load.prems(2)]) (use cl_load.hyps in \<open>auto simp: cl_live_def\<close>)
next
  case (cl_send_guard data s)
  show ?case by (rule cl_fd_same [OF cl_send_guard.prems(2)]) (use cl_send_guard.hyps in \<open>auto simp: cl_live_def\<close>)
next
  case (cl_send_push data s)
  show ?case by (rule cl_fd_same [OF cl_send_push.prems(2)]) (use cl_send_push.hyps in \<open>auto simp: cl_live_def\<close>)
next
  case (cl_send_notify s n)
  show ?case by (rule cl_fd_same [OF cl_send_notify.prems(2)]) (use cl_send_notify.hyps in \<open>auto simp: cl_live_def\<close>)
next
  case (cl_hook_clear s n)
  show ?case by (rule cl_fd_same [OF cl_hook_clear.prems(2)]) (use cl_hook_clear.hyps in \<open>auto simp: cl_live_def\<close>)
next
  case (cl_hook_notify s n)
  show ?case by (rule cl_fd_same [OF cl_hook_notify.prems(2)]) (use cl_hook_notify.hyps in \<open>auto simp: cl_live_def\<close>)
next
  case (cl_check_stop s)
  show ?case by (rule cl_fd_same [OF cl_check_stop.prems(2)]) (use cl_check_stop.hyps in \<open>auto simp: cl_live_def\<close>)
next
  case (cl_check_go s)
  show ?case by (rule cl_fd_same [OF cl_check_go.prems(2)]) (use cl_check_go.hyps in \<open>auto simp: cl_live_def\<close>)
next
  case (cl_lock_wait s)
  show ?case by (rule cl_fd_same [OF cl_lock_wait.prems(2)]) (use cl_lock_wait.hyps in \<open>auto simp: cl_live_def\<close>)
next
  case (cl_sleep s)
  show ?case by (rule cl_fd_same [OF cl_sleep.prems(2)]) (use cl_sleep.hyps in \<open>auto simp: cl_live_def\<close>)
next
  case (cl_spurious s)
  show ?case by (rule cl_fd_same [OF cl_spurious.prems(2)]) (use cl_spurious.hyps in \<open>auto simp: cl_live_def\<close>)
next
  case (cl_lock_stop s)
  show ?case by (rule cl_fd_same [OF cl_lock_stop.prems(2)]) (use cl_lock_stop.hyps in \<open>auto simp: cl_live_def\<close>)
next
  case (cl_load_closed s p k)
  show ?case by (rule cl_fd_same [OF cl_load_closed.prems(2)]) (use cl_load_closed.hyps in \<open>auto simp: cl_live_def\<close>)
next
  case (cl_send_some s p k x n)
  show ?case by (rule cl_fd_same [OF cl_send_some.prems(2)]) (use cl_send_some.hyps in \<open>auto simp: cl_live_def\<close>)
next
  case (cl_send_stray s p k x n)
  show ?case by (rule cl_fd_same [OF cl_send_stray.prems(2)]) (use cl_send_stray.hyps in \<open>auto simp: cl_live_def\<close>)
next
  case (cl_send_eintr s p k x)
  show ?case by (rule cl_fd_same [OF cl_send_eintr.prems(2)]) (use cl_send_eintr.hyps in \<open>auto simp: cl_live_def\<close>)
next
  case (cl_send_error s p k x)
  show ?case by (rule cl_fd_same [OF cl_send_error.prems(2)]) (use cl_send_error.hyps in \<open>auto simp: cl_live_def\<close>)
next
  case (cl_send_done s p k now)
  show ?case by (rule cl_fd_same [OF cl_send_done.prems(2)]) (use cl_send_done.hyps in \<open>auto simp: cl_live_def\<close>)
next
  case (cl_read_chunk s now)
  show ?case by (rule cl_fd_same [OF cl_read_chunk.prems(2)]) (use cl_read_chunk.hyps in \<open>auto simp: cl_live_def\<close>)
next
  case (cl_read_end s)
  show ?case by (rule cl_fd_same [OF cl_read_end.prems(2)]) (use cl_read_end.hyps in \<open>auto simp: cl_live_def\<close>)
next
  case (cl_run_notify s)
  show ?case by (rule cl_fd_same [OF cl_run_notify.prems(2)]) (use cl_run_notify.hyps in \<open>auto simp: cl_live_def\<close>)
next
  case (cl_run_ended s)
  show ?case by (rule cl_fd_same [OF cl_run_ended.prems(2)]) (use cl_run_ended.hyps in \<open>auto simp: cl_live_def\<close>)
qed

lemma cl_wake_step: "cl_step s t \<Longrightarrow> cl_inv_phase s \<Longrightarrow> cl_inv_wake s \<Longrightarrow> cl_inv_wake t"
proof (induction rule: cl_step.induct)
  case (cl_prepare s t)
  then show ?case by (cases rule: cl_prepares.cases) (auto simp: cl_inv_wake_def)
next
  case (cl_requestStop s)
  then have "cl_writer s = Wr_asleep \<or> cl_writer s = Wr_holds \<Longrightarrow> m_state (tc_base (cl_obj s)) \<noteq> St_Stopped"
    by (auto simp: cl_inv_phase_def)
  then show ?case using cl_request_stop_hook [of s] cl_requestStop by (auto simp: cl_inv_wake_def)
next
  case (cl_fail_stop s)
  then show ?case by (auto simp: cl_inv_wake_def)
next
  case (cl_read_stop s)
  then have "m_state (tc_base (cl_obj s)) \<noteq> St_Stopped" by (auto simp: cl_inv_phase_def)
  then show ?case using cl_request_stop_hook [of s] cl_read_stop by (auto simp: cl_inv_wake_def)
next
  case (cl_run_stop s)
  then have "m_state (tc_base (cl_obj s)) \<noteq> St_Stopped" by (auto simp: cl_inv_phase_def)
  then show ?case using cl_request_stop_hook [of s] cl_run_stop by (auto simp: cl_inv_wake_def)
qed (auto simp: cl_inv_wake_def)

text \<open>The same for the bytes: a step that changes neither the wire nor what is queued, accepted or in hand.\<close>

lemma cl_bytes_same:
  assumes "cl_inv_bytes s" and "cl_socket t = cl_socket s" "cl_held t = cl_held s" "cl_queue t = cl_queue s"
      "cl_kept t = cl_kept s" "cl_wire t = cl_wire s"
    and "cl_inflight (cl_writer t) = cl_inflight (cl_writer s) \<and> cl_given_up (cl_writer t) = cl_given_up (cl_writer s)
      \<or> cl_inflight (cl_writer t) = [] \<and> cl_given_up (cl_writer t)"
    and "cl_writer t = Wr_none \<longrightarrow> cl_writer s = Wr_none" and "cl_stop s \<longrightarrow> cl_stop t"
    and "cl_reader t = Pr_clear \<longleftrightarrow> cl_reader s = Pr_clear"
    and "cl_live t \<longrightarrow> cl_live s"
  shows "cl_inv_bytes t"
proof -
  have inf: "0 \<le> cl_socket s \<or> cl_held s \<noteq> [] \<Longrightarrow> prefix (cl_wire s @ cl_inflight (cl_writer t)) (concat (cl_kept s))"
    using assms(1,7) unfolding cl_inv_bytes_def by (metis append_Nil2)
  have all: "cl_live t \<Longrightarrow> 0 \<le> cl_socket s \<Longrightarrow> \<not> cl_given_up (cl_writer t) \<Longrightarrow>
      cl_wire s @ cl_inflight (cl_writer t) @ concat (cl_queue s) = concat (cl_kept s)"
    using assms(1,7,11) unfolding cl_inv_bytes_def by metis
  show ?thesis
    using assms(1,8-10) inf all unfolding cl_inv_bytes_def assms(2-6) by blast
qed

lemma cl_bytes_prepare: "cl_prepares s t \<Longrightarrow> cl_inv_phase s \<Longrightarrow> cl_inv_bytes s \<Longrightarrow> cl_inv_bytes t"
proof (induction rule: cl_prepares.induct)
  case (pr_clear s)
  then show ?case by (auto simp: cl_inv_bytes_def cl_inv_phase_def cl_live_def)
next
  case (pr_store s x)
  then have "cl_writer s = Wr_none" by (auto simp: cl_inv_phase_def)
  then show ?case using pr_store by (auto simp: cl_inv_bytes_def cl_live_def)
next
  case (pr_exchange s)
  then have "cl_writer s = Wr_none" by (auto simp: cl_inv_phase_def)
  then show ?case using pr_exchange by (auto simp: cl_inv_bytes_def cl_live_def)
next
  case (pr_check_go s)
  then have "cl_writer s = Wr_none" by (auto simp: cl_inv_phase_def)
  then show ?case using pr_check_go by (auto simp: cl_inv_bytes_def cl_live_def)
next
  case (pr_run s)
  then have "cl_writer s = Wr_none" by (auto simp: cl_inv_phase_def)
  then show ?case using pr_run by (auto simp: cl_inv_bytes_def cl_live_def cl_given_up_def)
next
  case (pr_socket s x)
  show ?case by (rule cl_bytes_same [OF pr_socket(4)]) (use pr_socket in \<open>auto simp: cl_live_def\<close>)
next
  case (pr_no_socket s)
  show ?case by (rule cl_bytes_same [OF pr_no_socket(3)]) (use pr_no_socket in \<open>auto simp: cl_live_def\<close>)
next
  case (pr_connected s)
  show ?case by (rule cl_bytes_same [OF pr_connected(3)]) (use pr_connected in \<open>auto simp: cl_live_def\<close>)
next
  case (pr_not_connected s)
  show ?case by (rule cl_bytes_same [OF pr_not_connected(3)]) (use pr_not_connected in \<open>auto simp: cl_live_def\<close>)
next
  case (pr_shutdown s x)
  show ?case by (rule cl_bytes_same [OF pr_shutdown(3)]) (use pr_shutdown in \<open>auto simp: cl_live_def\<close>)
next
  case (pr_close s x)
  show ?case by (rule cl_bytes_same [OF pr_close(3)]) (use pr_close in \<open>auto simp: cl_live_def\<close>)
next
  case (pr_check_stop s)
  show ?case by (rule cl_bytes_same [OF pr_check_stop(4)]) (use pr_check_stop in \<open>auto simp: cl_live_def\<close>)
next
  case (pr_failed s)
  show ?case by (rule cl_bytes_same [OF pr_failed(3)]) (use pr_failed in \<open>auto simp: cl_live_def\<close>)
qed

lemma cl_bytes_step: "cl_step s t \<Longrightarrow> cl_inv_phase s \<Longrightarrow> cl_inv_fd s \<Longrightarrow> cl_inv_bytes s \<Longrightarrow> cl_inv_bytes t"
proof (induction rule: cl_step.induct)
  case (cl_prepare s t)
  from cl_prepare.hyps cl_prepare.prems(1,3) show ?case by (rule cl_bytes_prepare)
next
  case (cl_send_push data s)
  show ?case
  proof (cases "cl_reader s = Pr_clear")
    case True
    then have "cl_writer s = Wr_none" using cl_send_push.prems(1) by (auto simp: cl_inv_phase_def)
    then show ?thesis using True cl_send_push.prems(3) by (simp add: cl_inv_bytes_def cl_live_def)
  next
    case False
    then show ?thesis using cl_send_push.prems(3) by (simp add: cl_inv_bytes_def cl_live_def flip: append_assoc)
  qed
next
  case (cl_hook_exchange s)
  then show ?case by (auto simp: cl_inv_bytes_def cl_live_def)
next
  case (cl_hook_nothing s n)
  then show ?case by (auto simp: cl_inv_bytes_def cl_live_def)
next
  case (cl_hook_shutdown x s)
  then show ?case using cl_fds_alone(2) [OF cl_hook_shutdown(3,1)] by (auto simp: cl_inv_bytes_def cl_live_def)
next
  case (cl_hook_clear s n)
  moreover have "cl_stop s" using cl_hook_clear by (auto simp: cl_inv_phase_def)
  moreover have "cl_live s \<Longrightarrow> cl_socket s < 0" using cl_hook_clear by (simp add: cl_inv_fd_def)
  ultimately show ?case by (auto simp: cl_inv_bytes_def cl_live_def)
next
  case (cl_lock_pop s p c)
  note pop = tc_pop_SomeD [OF cl_lock_pop.hyps(3)]
  have "cl_live s" using cl_lock_pop.hyps(1) by (simp add: cl_live_def)
  then have "0 \<le> cl_socket s" using cl_lock_pop.hyps(2) cl_lock_pop.prems(2) by (simp add: cl_inv_fd_def)
  then have "cl_wire s @ p @ concat (tc_outboundQueue c) = concat (cl_kept s)"
    using cl_lock_pop.prems(3) cl_lock_pop.hyps(1) pop \<open>cl_live s\<close> by (simp add: cl_inv_bytes_def cl_given_up_def)
  moreover from this have "prefix (cl_wire s @ p) (concat (cl_kept s))" by (metis append.assoc prefixI)
  ultimately show ?case
    using cl_lock_pop.prems(3) cl_lock_pop.hyps(1) by (simp add: cl_inv_bytes_def cl_live_def cl_given_up_def)
next
  case (cl_send_some s payload k sock n)
  have split: "drop k payload = take n (drop k payload) @ drop (k + n) payload"
    by (metis add.commute append_take_drop_id drop_drop)
  have "cl_fds s = [sock]" using cl_send_some.prems(2) cl_send_some.hyps(1) by (simp add: cl_inv_fd_def)
  then have "0 \<le> sock" using cl_fdsD(2) [OF cl_send_some.prems(2)] by simp
  then have "0 \<le> cl_socket s \<or> cl_held s \<noteq> []" using cl_send_some.hyps(2) by auto
  then have w: "prefix (cl_wire s @ take n (drop k payload) @ drop (k + n) payload) (concat (cl_kept s))"
    using cl_send_some.prems(3) cl_send_some.hyps(1) split by (simp add: cl_inv_bytes_def)
  then have "prefix (cl_wire s @ take n (drop k payload)) (concat (cl_kept s))"
    by (metis append.assoc append_prefixD)
  moreover have "cl_wire s @ (take n (drop k payload) @ drop (k + n) payload) @ concat (cl_queue s) = concat (cl_kept s)"
    if "0 \<le> cl_socket s"
    using that cl_send_some.prems(3) cl_send_some.hyps(1) split by (simp add: cl_inv_bytes_def cl_live_def cl_given_up_def)
  ultimately show ?case
    using cl_send_some.prems(3) cl_send_some.hyps(1) w by (simp add: cl_inv_bytes_def cl_live_def cl_given_up_def)
next
  case (cl_send_stray s payload k sock n)
  then show ?case
    using cl_fds_alone(4) [OF cl_send_stray(6,2)] by (auto simp: cl_inv_bytes_def cl_live_def cl_given_up_def)
next
  case (cl_requestStop s)
  show ?case by (rule cl_bytes_same [OF cl_requestStop(3)]) (auto simp: cl_live_def)
next
  case (cl_fail_stop s)
  show ?case by (rule cl_bytes_same [OF cl_fail_stop(4)]) (use cl_fail_stop in \<open>auto simp: cl_live_def cl_given_up_def\<close>)
next
  case (cl_send_guard data s)
  show ?case by (rule cl_bytes_same [OF cl_send_guard.prems(3)]) (use cl_send_guard.hyps in \<open>auto simp: cl_live_def cl_given_up_def\<close>)
next
  case (cl_send_notify s n)
  show ?case by (rule cl_bytes_same [OF cl_send_notify.prems(3)]) (use cl_send_notify.hyps in \<open>auto simp: cl_live_def cl_given_up_def\<close>)
next
  case (cl_hook_close x s n)
  show ?case by (rule cl_bytes_same [OF cl_hook_close.prems(3)]) (use cl_hook_close.hyps in \<open>auto simp: cl_live_def cl_given_up_def\<close>)
next
  case (cl_hook_notify s n)
  show ?case by (rule cl_bytes_same [OF cl_hook_notify.prems(3)]) (use cl_hook_notify.hyps in \<open>auto simp: cl_live_def cl_given_up_def\<close>)
next
  case (cl_check_stop s)
  show ?case by (rule cl_bytes_same [OF cl_check_stop.prems(3)]) (use cl_check_stop.hyps in \<open>auto simp: cl_live_def cl_given_up_def\<close>)
next
  case (cl_check_go s)
  show ?case by (rule cl_bytes_same [OF cl_check_go.prems(3)]) (use cl_check_go.hyps in \<open>auto simp: cl_live_def cl_given_up_def\<close>)
next
  case (cl_lock_wait s)
  show ?case by (rule cl_bytes_same [OF cl_lock_wait.prems(3)]) (use cl_lock_wait.hyps in \<open>auto simp: cl_live_def cl_given_up_def\<close>)
next
  case (cl_sleep s)
  show ?case by (rule cl_bytes_same [OF cl_sleep.prems(3)]) (use cl_sleep.hyps in \<open>auto simp: cl_live_def cl_given_up_def\<close>)
next
  case (cl_spurious s)
  show ?case by (rule cl_bytes_same [OF cl_spurious.prems(3)]) (use cl_spurious.hyps in \<open>auto simp: cl_live_def cl_given_up_def\<close>)
next
  case (cl_lock_stop s)
  show ?case by (rule cl_bytes_same [OF cl_lock_stop.prems(3)]) (use cl_lock_stop.hyps in \<open>auto simp: cl_live_def cl_given_up_def\<close>)
next
  case (cl_load s p k)
  show ?case by (rule cl_bytes_same [OF cl_load.prems(3)]) (use cl_load.hyps in \<open>auto simp: cl_live_def cl_given_up_def\<close>)
next
  case (cl_load_closed s p k)
  show ?case by (rule cl_bytes_same [OF cl_load_closed.prems(3)]) (use cl_load_closed.hyps in \<open>auto simp: cl_live_def cl_given_up_def\<close>)
next
  case (cl_send_eintr s p k x)
  show ?case by (rule cl_bytes_same [OF cl_send_eintr.prems(3)]) (use cl_send_eintr.hyps in \<open>auto simp: cl_live_def cl_given_up_def\<close>)
next
  case (cl_send_error s p k x)
  show ?case by (rule cl_bytes_same [OF cl_send_error.prems(3)]) (use cl_send_error.hyps in \<open>auto simp: cl_live_def cl_given_up_def\<close>)
next
  case (cl_send_done s p k now)
  show ?case by (rule cl_bytes_same [OF cl_send_done.prems(3)]) (use cl_send_done.hyps in \<open>auto simp: cl_live_def cl_given_up_def\<close>)
next
  case (cl_read_chunk s now)
  show ?case by (rule cl_bytes_same [OF cl_read_chunk.prems(3)]) (use cl_read_chunk.hyps in \<open>auto simp: cl_live_def cl_given_up_def\<close>)
next
  case (cl_read_end s)
  show ?case by (rule cl_bytes_same [OF cl_read_end.prems(3)]) (use cl_read_end.hyps in \<open>auto simp: cl_live_def cl_given_up_def\<close>)
next
  case (cl_read_stop s)
  show ?case by (rule cl_bytes_same [OF cl_read_stop.prems(3)]) (use cl_read_stop.hyps in \<open>auto simp: cl_live_def cl_given_up_def\<close>)
next
  case (cl_run_stop s)
  show ?case by (rule cl_bytes_same [OF cl_run_stop.prems(3)]) (use cl_run_stop.hyps in \<open>auto simp: cl_live_def cl_given_up_def\<close>)
next
  case (cl_run_notify s)
  show ?case by (rule cl_bytes_same [OF cl_run_notify.prems(3)]) (use cl_run_notify.hyps in \<open>auto simp: cl_live_def cl_given_up_def\<close>)
next
  case (cl_run_ended s)
  show ?case by (rule cl_bytes_same [OF cl_run_ended.prems(3)]) (use cl_run_ended.hyps in \<open>auto simp: cl_live_def cl_given_up_def\<close>)
qed

lemma cl_reachable_inv: "cl_reachable s \<Longrightarrow> cl_inv_phase s \<and> cl_inv_fd s \<and> cl_inv_wake s \<and> cl_inv_bytes s"
proof (induction rule: cl_reachable.induct)
  case (cl_reach_init c t b g n)
  obtain w where w: "tc_base c = w" by blast
  have "m_state w = St_Starting \<and> \<not> stopRequested w"
    using cl_reach_init(2) unfolding w by (auto simp: startThread_locked_def stopRequested_def Let_def split: if_splits)
  then show ?case
    using cl_reach_init w by (simp add: cl_inv_defs cl_init_def cl_fds_def cl_live_def)
next
  case (cl_reach_step s t)
  then show ?case using cl_phase_step cl_fd_step cl_wake_step cl_bytes_step by blast
qed

section \<open>Properties\<close>

text \<open>A start that nobody disturbs, up to \<open>run()\<close>.\<close>

definition cl_connected :: "fd \<Rightarrow> cl_sys \<Rightarrow> cl_sys" where
  "cl_connected x s = (cl_set_state St_Running (cl_store_socket x (s\<lparr>cl_obj := clearOutboundQueue (cl_obj s)\<rparr>)))
     \<lparr>cl_reader := Rd_loop, cl_writer := Wr_check\<rparr>"

lemma cl_connects:
  assumes "cl_reachable s" and "cl_reader s = Pr_clear" and "\<not> cl_stop s" and "0 \<le> x"
  shows "cl_reachable (cl_connected x s)"
proof -
  let ?c = "s\<lparr>cl_reader := Pr_socket, cl_obj := clearOutboundQueue (cl_obj s)\<rparr>"
  note step = cl_reach_step [OF _ cl_prepare]
  have 1: "cl_reachable ?c" by (rule step [OF assms(1) pr_clear [OF assms(2)]])
  have 2: "cl_reachable (?c\<lparr>cl_reader := Pr_store x\<rparr>)" by (rule step [OF 1 pr_socket]) (simp_all add: assms(4))
  have 3: "cl_reachable ((cl_store_socket x (?c\<lparr>cl_reader := Pr_store x\<rparr>))\<lparr>cl_reader := Pr_connect\<rparr>)" (is "cl_reachable ?d")
    by (rule step [OF 2 pr_store]) simp
  have 4: "cl_reachable (?d\<lparr>cl_reader := Pr_check\<rparr>)" by (rule step [OF 3 pr_connected]) simp
  have 5: "cl_reachable (?d\<lparr>cl_reader := Pr_check, cl_reader := Pr_setRunning\<rparr>)"
    by (rule step [OF 4 pr_check_go]) (simp_all add: assms(3))
  have "cl_reachable ((cl_set_state St_Running (?d\<lparr>cl_reader := Pr_check, cl_reader := Pr_setRunning\<rparr>))
      \<lparr>cl_reader := Rd_loop, cl_writer := Wr_check\<rparr>)" (is "cl_reachable ?e")
    by (rule step [OF 5 pr_run]) simp
  moreover have "?e = cl_connected x s"
    by (rule cl_sys.equality) (simp_all add: cl_connected_def cl_set_state_def cl_store_socket_def)
  ultimately show ?thesis by simp
qed

definition cl_started :: cl_sys where
  "cl_started = cl_init ((tc_new ''c'' ''127.0.0.1'' 9000 0)
     \<lparr>tc_base := (bw_new ''c'' 0)\<lparr>m_state := St_Starting, m_thread := Some 1\<rparr>\<rparr>) [] 0"

lemma cl_started_reachable: "cl_reachable cl_started"
  unfolding cl_started_def
  by (rule cl_reach_init [of _ 1 "bw_new ''c'' 0"])
    (simp_all add: tc_new_def bw_new_def startThread_locked_def Let_def)

lemma cl_started_fields [simp]:
  "cl_reader cl_started = Pr_clear" "cl_writer cl_started = Wr_none" "\<not> cl_stop cl_started" "cl_queue cl_started = []"
  "cl_guarded cl_started = []" "cl_notifyOne cl_started = 0" "cl_closing cl_started = 0" "cl_clearing cl_started = 0"
  "cl_held cl_started = []" "cl_shut cl_started = []" "cl_closed cl_started = []" "cl_early cl_started = []"
  "cl_kept cl_started = []" "cl_wire cl_started = []" "m_state (tc_base (cl_obj cl_started)) = St_Starting"
  "cl_notifyAll cl_started = 0" "cl_socket cl_started = -1"
  by (simp_all add: cl_started_def cl_init_def tc_new_def bw_new_def stopRequested_def)

definition cl_ready :: cl_sys where
  "cl_ready = cl_connected 3 cl_started"

lemma cl_ready_reachable: "cl_reachable cl_ready"
  unfolding cl_ready_def by (rule cl_connects [OF cl_started_reachable]) simp_all

lemma cl_connected_fields [simp]:
  "cl_reader (cl_connected x s) = Rd_loop" "cl_writer (cl_connected x s) = Wr_check" "cl_stop (cl_connected x s) = cl_stop s"
  "cl_queue (cl_connected x s) = []" "cl_guarded (cl_connected x s) = cl_guarded s"
  "cl_notifyOne (cl_connected x s) = cl_notifyOne s" "cl_closing (cl_connected x s) = cl_closing s"
  "cl_clearing (cl_connected x s) = cl_clearing s" "cl_notifyAll (cl_connected x s) = cl_notifyAll s"
  "cl_held (cl_connected x s) = cl_held s" "cl_shut (cl_connected x s) = cl_shut s"
  "cl_closed (cl_connected x s) = cl_closed s" "cl_early (cl_connected x s) = cl_early s"
  "cl_kept (cl_connected x s) = cl_kept s" "cl_wire (cl_connected x s) = cl_wire s"
  "m_state (tc_base (cl_obj (cl_connected x s))) = St_Running" "cl_socket (cl_connected x s) = x"
  by (simp_all add: cl_connected_def) (simp_all add: cl_set_state_def cl_store_socket_def)

text \<open>A history in which \<open>requestStop\<close> sets the flag just after the writer has found nothing to do.\<close>

definition cl_asleep :: cl_sys where
  "cl_asleep = (cl_request_stop (cl_ready\<lparr>cl_writer := Wr_holds\<rparr>))\<lparr>cl_writer := Wr_asleep\<rparr>"

lemma cl_asleep_reachable: "cl_reachable cl_asleep"
proof -
  have 1: "cl_reachable (cl_ready\<lparr>cl_writer := Wr_lock\<rparr>)"
    by (rule cl_reach_step [OF cl_ready_reachable cl_check_go]) (simp_all add: cl_ready_def)
  have "cl_step (cl_ready\<lparr>cl_writer := Wr_lock\<rparr>) (cl_ready\<lparr>cl_writer := Wr_lock, cl_writer := Wr_holds\<rparr>)"
    by (rule cl_lock_wait) (simp_all add: cl_ready_def)
  then have 2: "cl_reachable (cl_ready\<lparr>cl_writer := Wr_holds\<rparr>)"
    using cl_reach_step [OF 1] by simp
  show ?thesis
    unfolding cl_asleep_def
    by (rule cl_reach_step [OF cl_reach_step [OF 2 cl_requestStop] cl_sleep]) simp
qed

text \<open>A history in which a payload is accepted and the writer is about to send it.\<close>

definition cl_sent :: "cl_sys" where
  "cl_sent = cl_ready\<lparr>cl_notifyOne := 1, cl_kept := [[1]], cl_writer := Wr_loaded [1] 0 3\<rparr>"

lemma cl_sent_reachable: "cl_reachable cl_sent"
proof -
  let ?i = "cl_ready"
  let ?g = "?i\<lparr>cl_guarded := [[1]]\<rparr>"
  let ?q = "(cl_push [1] ?g)\<lparr>cl_guarded := [], cl_notifyOne := 1\<rparr>"
  let ?p = "?i\<lparr>cl_notifyOne := 1, cl_kept := [[1]]\<rparr>"
  have g: "tc_send_guard [1] (cl_obj ?i)"
    by (simp add: tc_send_guard_def isRunning_def getState_def cl_ready_def Let_def)
  have i: "cl_writer ?i = Wr_check" "\<not> cl_stop ?i" "cl_guarded ?i = []" "cl_notifyOne ?i = 0"
    "cl_kept ?i = []" "cl_socket ?i = 3" "cl_queue ?i = []" "cl_reader ?i = Rd_loop"
    by (simp_all add: cl_ready_def)
  have 1: "cl_reachable ?g"
    using cl_reach_step [OF cl_ready_reachable cl_send_guard [OF g]] i(3) by simp
  have "cl_step ?g ?q"
    using cl_send_push [of "[1]" ?g] i by simp
  then have 2: "cl_reachable ?q" by (rule cl_reach_step [OF 1])
  have 3: "cl_reachable (?q\<lparr>cl_writer := Wr_lock\<rparr>)"
    by (rule cl_reach_step [OF 2 cl_check_go]) (simp_all add: i)
  have "tc_pop (cl_obj (?q\<lparr>cl_writer := Wr_lock\<rparr>)) = (Some [1], cl_obj ?i)"
    using i by (simp add: cl_push_def tc_pop_def tc_push_def)
  then have "cl_step (?q\<lparr>cl_writer := Wr_lock\<rparr>)
      (?q\<lparr>cl_writer := Wr_lock, cl_obj := cl_obj ?i, cl_writer := Wr_send [1] 0\<rparr>)"
    by (intro cl_lock_pop) (simp_all add: i)
  moreover have "?q\<lparr>cl_writer := Wr_lock, cl_obj := cl_obj ?i, cl_writer := Wr_send [1] 0\<rparr>
      = ?p\<lparr>cl_writer := Wr_send [1] 0\<rparr>"
    using i by (intro cl_sys.equality) (simp_all add: cl_push_def)
  ultimately have "cl_step (?q\<lparr>cl_writer := Wr_lock\<rparr>) (?p\<lparr>cl_writer := Wr_send [1] 0\<rparr>)"
    by (simp only:)
  then have 4: "cl_reachable (?p\<lparr>cl_writer := Wr_send [1] 0\<rparr>)" by (rule cl_reach_step [OF 3])
  have "cl_step (?p\<lparr>cl_writer := Wr_send [1] 0\<rparr>) (?p\<lparr>cl_writer := Wr_loaded [1] 0 3\<rparr>)"
    using cl_load [of "?p\<lparr>cl_writer := Wr_send [1] 0\<rparr>" "[1]" 0] i by simp
  from cl_reach_step [OF 4 this] show ?thesis
    by (simp add: cl_sent_def)
qed

lemma cl_sent_fields [simp]:
  "cl_writer cl_sent = Wr_loaded [1] 0 3" "cl_socket cl_sent = 3" "cl_wire cl_sent = []" "cl_kept cl_sent = [[1]]"
  "cl_early cl_sent = []" "cl_queue cl_sent = []" "\<not> cl_stop cl_sent" "cl_closing cl_sent = 0" "cl_held cl_sent = []"
  "cl_shut cl_sent = []" "cl_closed cl_sent = []" "m_state (tc_base (cl_obj cl_sent)) = St_Running"
  by (simp_all add: cl_sent_def cl_ready_def)

text \<open>The same when the connection has taken the payload.\<close>

definition cl_taken :: "cl_sys" where
  "cl_taken = cl_sent\<lparr>cl_writer := Wr_send [1] 1, cl_wire := [1]\<rparr>"

lemma cl_taken_reachable: "cl_reachable cl_taken"
  using cl_reach_step [OF cl_sent_reachable cl_send_some [of cl_sent "[1]" 0 3 1]]
  by (simp add: cl_taken_def)



text \<open>The early payloads: \<open>send\<close> accepts one while the client is Starting, \<open>preRun\<close> clears the queue, and the client
  runs without it; the caller was told that it is sent.\<close>

theorem cl_early_payload_lost:
  "\<exists>s. cl_reachable s \<and> cl_accepted s = [[1]] \<and> cl_kept s = [] \<and> cl_queue s = [] \<and> \<not> cl_stop s
     \<and> m_state (tc_base (cl_obj s)) = St_Running \<and> 0 \<le> cl_socket s"
proof -
  let ?i = "cl_started"
  let ?q = "(cl_push [1] (?i\<lparr>cl_guarded := [[1]]\<rparr>))\<lparr>cl_guarded := [], cl_notifyOne := 1\<rparr>"
  have "tc_send_guard [1] (cl_obj ?i)"
    by (simp add: tc_send_guard_def isRunning_def getState_def Let_def)
  from cl_reach_step [OF cl_started_reachable cl_send_guard [OF this]]
  have 1: "cl_reachable (?i\<lparr>cl_guarded := [[1]]\<rparr>)" by simp
  have "cl_step (?i\<lparr>cl_guarded := [[1]]\<rparr>) ?q"
    using cl_send_push [of "[1]" "?i\<lparr>cl_guarded := [[1]]\<rparr>"] by simp
  from cl_connects [OF cl_reach_step [OF 1 this], of 3]
  show ?thesis by (intro exI [of _ "cl_connected 3 ?q"]) (simp add: cl_accepted_def)
qed

text \<open>C6: No wake-up is lost. Whenever the writer sleeps although it has something to do (a payload is
  queued, or a stop was requested) some thread still owes it a notification; in particular, once the
  hooks of all stop requests have run, a stopped client's writer is not asleep. This rests on
  \<open>clearOutboundQueue\<close> taking the writer's mutex between the store to the flag and \<open>notify_all\<close>.\<close>

theorem cl_no_lost_wakeup:
  assumes "cl_reachable s" and "cl_writer s = Wr_asleep"
  shows "(cl_queue s \<noteq> [] \<longrightarrow> 0 < cl_notifyOne s)
    \<and> (cl_stop s \<longrightarrow> 0 < cl_closing s + cl_clearing s + cl_notifyAll s)"
  using cl_reachable_inv [OF assms(1)] assms(2) by (simp add: cl_inv_wake_def)

theorem cl_no_lost_wakeup_witness:
  "cl_stop cl_asleep \<and> 0 < cl_closing cl_asleep + cl_clearing cl_asleep + cl_notifyAll cl_asleep"
proof -
  have "cl_writer cl_asleep = Wr_asleep" "cl_stop cl_asleep"
    using cl_request_stop_flag by (simp_all add: cl_asleep_def)
  then show ?thesis using cl_no_lost_wakeup [OF cl_asleep_reachable] by simp
qed

text \<open>However many threads stop the client, a run has at most one descriptor, in one place: in \<open>m_socket\<close>, with
  the one thread that is closing it, in \<open>preRun\<close>, or closed; it is never closed twice.\<close>

theorem cl_closed_once:
  assumes "cl_reachable s"
  shows "length (cl_fds s) \<le> 1 \<and> length (cl_closed s) \<le> 1"
  using cl_fdsD(1) [of s] cl_reachable_inv [OF assms] by (simp add: cl_fds_def)

theorem cl_closed_once_witness: "length (cl_closed cl_asleep) \<le> 1"
  using cl_closed_once [OF cl_asleep_reachable] by (rule conjunct2)

text \<open>The writer reads \<open>m_socket\<close> and calls \<open>::send\<close> in two steps: there is a run in which it is about
  to send on a descriptor that another thread has already closed (and that the system may have handed
  out again in the meantime).\<close>

theorem cl_send_after_close:
  "\<exists>s p k x. cl_reachable s \<and> cl_writer s = Wr_loaded p k x \<and> k < length p \<and> cl_closed s = [x]"
proof -
  let ?r = "cl_request_stop cl_sent"
  let ?e = "(cl_store_socket (-1) ?r)\<lparr>cl_held := [3]\<rparr>"
  let ?h = "?e\<lparr>cl_held := [], cl_shut := [3]\<rparr>"
  have r: "cl_closing ?r = 1" by (simp add: cl_request_stop_def requestStop_def Let_def)
  have 1: "cl_reachable ?e"
    using cl_reach_step [OF cl_reach_step [OF cl_sent_reachable cl_requestStop] cl_hook_exchange] r by simp
  have 2: "cl_reachable ?h" using cl_reach_step [OF 1 cl_hook_shutdown [of 3]] by simp
  have "cl_reachable (?h\<lparr>cl_shut := [], cl_closed := [3], cl_closing := 0, cl_clearing := Suc (cl_clearing ?h)\<rparr>)" (is "cl_reachable ?c")
    using cl_reach_step [OF 2 cl_hook_close [of 3 _ 0]] r by simp
  then show ?thesis by (intro exI [of _ ?c] exI [of _ "[1]"] exI [of _ "0::nat"] exI [of _ 3]) simp
qed

text \<open>A stop that is over before \<open>preRun\<close> has stored its socket closes nothing: the worker then skips \<open>run()\<close> and
  the client is Stopped with its connection open, which no later stop closes, since \<open>stopTriggered\<close> is not
  called in state Stopped.\<close>

theorem cl_stopped_connected:
  "\<exists>s. cl_reachable s \<and> m_state (tc_base (cl_obj s)) = St_Stopped \<and> cl_reader s = Rd_ended \<and> 0 \<le> cl_socket s
     \<and> cl_closing s = 0 \<and> cl_clearing s = 0 \<and> cl_notifyAll s = 0 \<and> cl_closing (cl_request_stop s) = 0"
proof -
  let ?r = "cl_request_stop cl_started"
  have r: "cl_closing ?r = 1" by (simp add: cl_request_stop_def requestStop_def Let_def)
  let ?f = "(cl_store_socket (-1) ?r)\<lparr>cl_closing := 0, cl_clearing := 1\<rparr>"
  let ?g = "?f\<lparr>cl_clearing := 0, cl_notifyAll := 1, cl_obj := clearOutboundQueue (cl_obj ?f)\<rparr>"
  let ?h = "?g\<lparr>cl_notifyAll := 0, cl_writer := cl_wake (cl_writer ?g)\<rparr>"
  have 1: "cl_reachable ?f"
    using cl_reach_step [OF cl_reach_step [OF cl_started_reachable cl_requestStop] cl_hook_nothing] r by simp
  have 2: "cl_reachable ?g" using cl_reach_step [OF 1 cl_hook_clear [of _ 0]] by simp
  have 3: "cl_reachable ?h" using cl_reach_step [OF 2 cl_hook_notify [of _ 0]] by simp
  note step = cl_reach_step [OF _ cl_prepare]
  let ?c = "?h\<lparr>cl_reader := Pr_socket, cl_obj := clearOutboundQueue (cl_obj ?h)\<rparr>"
  have 4: "cl_reachable ?c" by (rule step [OF 3 pr_clear]) simp
  have 5: "cl_reachable (?c\<lparr>cl_reader := Pr_store 3\<rparr>)" by (rule step [OF 4 pr_socket]) simp_all
  have 6: "cl_reachable ((cl_store_socket 3 (?c\<lparr>cl_reader := Pr_store 3\<rparr>))\<lparr>cl_reader := Pr_connect\<rparr>)" (is "cl_reachable ?d")
    by (rule step [OF 5 pr_store]) simp
  have 7: "cl_reachable (?d\<lparr>cl_reader := Pr_check\<rparr>)" by (rule step [OF 6 pr_connected]) simp
  have 8: "cl_reachable (?d\<lparr>cl_reader := Pr_check, cl_reader := Pr_failed\<rparr>)"
    by (rule step [OF 7 pr_check_stop]) simp_all
  have "cl_reachable ((cl_set_state St_Stopped (?d\<lparr>cl_reader := Pr_check, cl_reader := Pr_failed\<rparr>))\<lparr>cl_reader := Rd_ended\<rparr>)" (is "cl_reachable ?e")
    by (rule step [OF 8 pr_failed]) simp
  then show ?thesis
    by (intro exI [of _ ?e]) (simp add: cl_request_stop_def requestStop_def Let_def)
qed

end
