(* ===== verification/TcpServer.thy ===== *)
theory TcpServer
  imports BaseWorker Posix
begin

text \<open>
  \<open>TCPServer_V2\<close> (\<open>cTCPServer_V2.h\<close>): an accepting worker with one thread per client. The sessions are
  the nodes of a \<open>std::list\<close>, which keep their address when they are spliced into another list: here
  a session has an identity, \<open>m_clients\<close> is one list of sessions and the local list of
  \<open>reapCompletedClients\<close> and \<open>joinAndClearAllClients\<close> is another (\<open>ts_joining\<close>), because the handler
  threads still reach its nodes.

  \<open>se_other\<close> is what the other threads did (handlers closing and completing their sessions, a thread
  running \<open>stopTriggered\<close>) since the last turn of a loop, and again between the load of a descriptor and
  the end of the blocking call on it; \<open>se_join\<close> what they did until the joined thread had ended.
\<close>

section \<open>State\<close>

record client_info =
  ci_address :: string
  ci_port :: u16

record client_session =
  cs_id :: nat
  cs_socket :: fd
  cs_info :: client_info
  cs_worker :: "nat option"
  cs_completed :: bool

record tcp_server =
  ts_base :: base_worker
  ts_port :: u16
  ts_backlog :: int
  ts_serverSocket :: fd
  ts_clients :: "client_session list"
  ts_joining :: "client_session list"
  ts_nextId :: nat

text \<open>The calls of the server that the client does not make. \<open>se_alloc\<close> tells whether the allocation
  of a list node succeeds, \<open>se_thread\<close> the identity of a created thread, or \<open>None\<close> when
  \<open>std::thread\<close> throws.\<close>

record 'w ts_env =
  se_kernel :: "'w kernel"
  se_setsockopt :: "fd \<Rightarrow> int \<Rightarrow> int \<Rightarrow> 'w \<Rightarrow> int \<times> 'w"
  se_bind :: "fd \<Rightarrow> byte list \<Rightarrow> 'w \<Rightarrow> int \<times> 'w"
  se_listen :: "fd \<Rightarrow> int \<Rightarrow> 'w \<Rightarrow> int \<times> 'w"
  se_accept :: "fd \<Rightarrow> 'w \<Rightarrow> fd \<times> byte list \<times> 'w"
  se_inet_ntop :: "byte list \<Rightarrow> string option"
  se_clock :: "'w \<Rightarrow> int"
  se_alloc :: "'w \<Rightarrow> bool \<times> 'w"
  se_thread :: "'w \<Rightarrow> nat option \<times> 'w"
  se_join :: "nat \<Rightarrow> tcp_server \<Rightarrow> 'w \<Rightarrow> tcp_server \<times> 'w"
  se_other :: "tcp_server \<Rightarrow> 'w \<Rightarrow> tcp_server \<times> 'w"
  se_dataCallback :: "(byte list \<Rightarrow> client_info \<Rightarrow> 'w \<Rightarrow> (cpp_exn + unit) \<times> 'w) option"

definition ts_kReadBufferSize :: nat where
  "ts_kReadBufferSize = 4096"

definition ts_new :: "string \<Rightarrow> u16 \<Rightarrow> int \<Rightarrow> int \<Rightarrow> tcp_server" where
  "ts_new name port backlog now =
     \<lparr>ts_base = bw_new name now, ts_port = port, ts_backlog = backlog, ts_serverSocket = -1,
      ts_clients = [], ts_joining = [], ts_nextId = 0\<rparr>"

section \<open>Closing\<close>

definition ts_closeSocketValue :: "'w kernel \<Rightarrow> fd \<Rightarrow> 'w \<Rightarrow> 'w" where
  "ts_closeSocketValue K socket w =
     (if 0 \<le> socket then snd (k_close K socket (snd (k_shutdown K socket SHUT_RDWR w))) else w)"

text \<open>\<open>closeSocket\<close> takes the descriptor out with \<open>exchange(-1)\<close>, in the atomic it is given.\<close>

definition ts_closeServerSocket :: "'w kernel \<Rightarrow> tcp_server \<Rightarrow> 'w \<Rightarrow> tcp_server \<times> 'w" where
  "ts_closeServerSocket K s w =
     (s\<lparr>ts_serverSocket := -1\<rparr>, ts_closeSocketValue K (ts_serverSocket s) w)"

fun cs_close_all :: "'w kernel \<Rightarrow> client_session list \<Rightarrow> 'w \<Rightarrow> client_session list \<times> 'w" where
  "cs_close_all K [] w = ([], w)"
| "cs_close_all K (c # cs) w =
     (case cs_close_all K cs (ts_closeSocketValue K (cs_socket c) w) of
        (cs', w') \<Rightarrow> (c\<lparr>cs_socket := -1\<rparr> # cs', w'))"

definition ts_closeAllClientSockets :: "'w kernel \<Rightarrow> tcp_server \<Rightarrow> 'w \<Rightarrow> tcp_server \<times> 'w" where
  "ts_closeAllClientSockets K s w =
     (case cs_close_all K (ts_clients s) w of (cs, w') \<Rightarrow> (s\<lparr>ts_clients := cs\<rparr>, w'))"

definition ts_stopTriggered :: "'w kernel \<Rightarrow> tcp_server \<Rightarrow> 'w \<Rightarrow> tcp_server \<times> 'w" where
  "ts_stopTriggered K s w =
     (case ts_closeServerSocket K s w of (s1, w1) \<Rightarrow> ts_closeAllClientSockets K s1 w1)"

definition ts_requestStop :: "'w kernel \<Rightarrow> tcp_server \<Rightarrow> 'w \<Rightarrow> tcp_server \<times> 'w" where
  "ts_requestStop K s w =
     (case requestStop (ts_base s) of
        (shouldTriggerStop, b) \<Rightarrow>
          if shouldTriggerStop then ts_stopTriggered K (s\<lparr>ts_base := b\<rparr>) w else (s\<lparr>ts_base := b\<rparr>, w))"

section \<open>Listening\<close>

text \<open>\<open>sockaddr_in\<close> as the bytes handed to the kernel and back: family, \<open>htons(port)\<close>, address, padding.\<close>

definition ts_sockaddr :: "u16 \<Rightarrow> byte list \<Rightarrow> byte list" where
  "ts_sockaddr port addr =
     [word_of_int AF_INET, 0, ucast (drop_bit 8 port), ucast port] @ addr @ replicate 8 0"

definition INADDR_ANY :: "byte list" where
  "INADDR_ANY = [0, 0, 0, 0]"

definition ts_preRun :: "'w ts_env \<Rightarrow> tcp_server \<Rightarrow> 'w \<Rightarrow> bool \<times> tcp_server \<times> 'w" where
  "ts_preRun E s w =
     (let K = se_kernel E in
      case k_socket K AF_INET SOCK_STREAM 0 w of
        (serverSocket, w1) \<Rightarrow>
          if serverSocket < 0 then (False, s, w1)
          else
            let s1 = s\<lparr>ts_serverSocket := serverSocket\<rparr>;
                w2 = snd (se_setsockopt E serverSocket SO_REUSEADDR 1 w1)
            in (case se_bind E serverSocket (ts_sockaddr (ts_port s1) INADDR_ANY) w2 of
                  (r, w3) \<Rightarrow>
                    if r < 0 then (False, ts_closeServerSocket K s1 w3)
                    else
                      (case se_listen E serverSocket (ts_backlog s1) w3 of
                         (r', w4) \<Rightarrow>
                           if r' < 0 then (False, ts_closeServerSocket K s1 w4) else (True, s1, w4))))"

definition ntohs :: "byte \<Rightarrow> byte \<Rightarrow> u16" where
  "ntohs hi lo = push_bit 8 (ucast hi) + ucast lo"

definition makeClientInfo :: "'w ts_env \<Rightarrow> byte list \<Rightarrow> client_info" where
  "makeClientInfo E clientAddr =
     \<lparr>ci_address =
        (case se_inet_ntop E (take 4 (drop 4 clientAddr)) of None \<Rightarrow> '''' | Some text \<Rightarrow> text),
      ci_port = ntohs (clientAddr ! 2) (clientAddr ! 3)\<rparr>"

section \<open>Sessions\<close>

text \<open>\<open>startClientSession\<close>: the node is added before its thread is created; when that fails the node's
  descriptor is closed and the node removed.\<close>

definition startClientSession ::
  "'w ts_env \<Rightarrow> fd \<Rightarrow> client_info \<Rightarrow> tcp_server \<Rightarrow> 'w \<Rightarrow> bool \<times> tcp_server \<times> 'w" where
  "startClientSession E clientSocket clientInfo s w =
     (case se_alloc E w of
        (False, w1) \<Rightarrow> (False, s, w1)
      | (True, w1) \<Rightarrow>
          let session = \<lparr>cs_id = ts_nextId s, cs_socket = clientSocket, cs_info = clientInfo,
                         cs_worker = None, cs_completed = False\<rparr>
          in (case se_thread E w1 of
                (Some t, w2) \<Rightarrow>
                  (True, s\<lparr>ts_clients := ts_clients s @ [session\<lparr>cs_worker := Some t\<rparr>],
                           ts_nextId := Suc (ts_nextId s)\<rparr>, w2)
              | (None, w2) \<Rightarrow>
                  (False, s\<lparr>ts_nextId := Suc (ts_nextId s)\<rparr>,
                   ts_closeSocketValue (se_kernel E) (cs_socket session) w2)))"

definition ts_session :: "nat \<Rightarrow> tcp_server \<Rightarrow> client_session option" where
  "ts_session i s = List.find (\<lambda>c. cs_id c = i) (ts_clients s @ ts_joining s)"

definition cs_update :: "nat \<Rightarrow> (client_session \<Rightarrow> client_session) \<Rightarrow> client_session list \<Rightarrow> client_session list" where
  "cs_update i f cs = map (\<lambda>c. if cs_id c = i then f c else c) cs"

definition ts_update :: "nat \<Rightarrow> (client_session \<Rightarrow> client_session) \<Rightarrow> tcp_server \<Rightarrow> tcp_server" where
  "ts_update i f s = s\<lparr>ts_clients := cs_update i f (ts_clients s), ts_joining := cs_update i f (ts_joining s)\<rparr>"

definition ts_closeSession :: "'w kernel \<Rightarrow> nat \<Rightarrow> tcp_server \<Rightarrow> 'w \<Rightarrow> tcp_server \<times> 'w" where
  "ts_closeSession K i s w =
     (case ts_session i s of
        None \<Rightarrow> (s, w)
      | Some c \<Rightarrow> (ts_update i (cs_socket_update (\<lambda>_. -1)) s, ts_closeSocketValue K (cs_socket c) w))"

definition ts_updateHeartbeat :: "'w ts_env \<Rightarrow> tcp_server \<Rightarrow> 'w \<Rightarrow> tcp_server" where
  "ts_updateHeartbeat E s w = s\<lparr>ts_base := updateHeartbeat 1000000 (se_clock E w) (ts_base s)\<rparr>"

text \<open>The loop of \<open>handleClient\<close>, which an exception of the callback leaves too.\<close>

fun ts_client_loop :: "nat \<Rightarrow> 'w ts_env \<Rightarrow> nat \<Rightarrow> tcp_server \<Rightarrow> 'w \<Rightarrow> (tcp_server \<times> 'w) option" where
  "ts_client_loop 0 E i s0 w0 = None"
| "ts_client_loop (Suc n) E i s0 w0 =
     (case se_other E s0 w0 of
        (s, w) \<Rightarrow>
          if \<not> continueRunning (ts_base s) then Some (s, w)
          else
            (case ts_session i s of
               None \<Rightarrow> Some (s, w)
             | Some session \<Rightarrow>
                 if cs_socket session < 0 then Some (s, w)
                 else
                   (case se_other E s w of
                      (s1, w1) \<Rightarrow>
                        (case k_recv (se_kernel E) (cs_socket session) ts_kReadBufferSize w1 of
                           (Some (b # bs), w2) \<Rightarrow>
                             (let s2 = ts_updateHeartbeat E s1 w2 in
                              case se_dataCallback E of
                                None \<Rightarrow> ts_client_loop n E i s2 w2
                              | Some callback \<Rightarrow>
                                  (case callback (b # bs) (cs_info session) w2 of
                                     (Inr (), w3) \<Rightarrow> ts_client_loop n E i s2 w3
                                   | (Inl e, w3) \<Rightarrow> Some (s2, w3)))
                         | (Some [], w2) \<Rightarrow> Some (s1, w2)
                         | (None, w2) \<Rightarrow>
                             if k_errno (se_kernel E) w2 = EINTR then ts_client_loop n E i s1 w2
                             else Some (s1, w2)))))"

definition handleClient :: "nat \<Rightarrow> 'w ts_env \<Rightarrow> nat \<Rightarrow> tcp_server \<Rightarrow> 'w \<Rightarrow> (tcp_server \<times> 'w) option" where
  "handleClient fuel E i s w =
     (case ts_client_loop fuel E i s w of
        None \<Rightarrow> None
      | Some (s1, w1) \<Rightarrow>
          (case ts_closeSession (se_kernel E) i s1 w1 of
             (s2, w2) \<Rightarrow> Some (ts_update i (cs_completed_update (\<lambda>_. True)) s2, w2)))"

section \<open>Joining\<close>

text \<open>Close and join every session of the local list, in order.\<close>

fun ts_join_loop :: "'w ts_env \<Rightarrow> nat list \<Rightarrow> tcp_server \<Rightarrow> 'w \<Rightarrow> tcp_server \<times> 'w" where
  "ts_join_loop E [] s w = (s\<lparr>ts_joining := []\<rparr>, w)"
| "ts_join_loop E (i # is) s w =
     (case ts_closeSession (se_kernel E) i s w of
        (s1, w1) \<Rightarrow>
          (case map_option cs_worker (ts_session i s1) of
             Some (Some t) \<Rightarrow> (case se_join E t s1 w1 of (s2, w2) \<Rightarrow> ts_join_loop E is s2 w2)
           | _ \<Rightarrow> ts_join_loop E is s1 w1))"

definition reapCompletedClients :: "'w ts_env \<Rightarrow> tcp_server \<Rightarrow> 'w \<Rightarrow> tcp_server \<times> 'w" where
  "reapCompletedClients E s w =
     (let s1 = s\<lparr>ts_joining := filter cs_completed (ts_clients s),
                 ts_clients := filter (\<lambda>c. \<not> cs_completed c) (ts_clients s)\<rparr>
      in ts_join_loop E (map cs_id (ts_joining s1)) s1 w)"

definition joinAndClearAllClients :: "'w ts_env \<Rightarrow> tcp_server \<Rightarrow> 'w \<Rightarrow> tcp_server \<times> 'w" where
  "joinAndClearAllClients E s w =
     (let s1 = s\<lparr>ts_joining := ts_clients s, ts_clients := []\<rparr>
      in ts_join_loop E (map cs_id (ts_joining s1)) s1 w)"

section \<open>The accept loop\<close>

text \<open>One client: \<open>startClientSession\<close>, and the caller's \<open>closeSocketValue\<close> when it answers false.\<close>

definition ts_serve :: "'w ts_env \<Rightarrow> fd \<Rightarrow> byte list \<Rightarrow> tcp_server \<Rightarrow> 'w \<Rightarrow> tcp_server \<times> 'w" where
  "ts_serve E clientSocket clientAddr s w =
     (case startClientSession E clientSocket (makeClientInfo E clientAddr) s w of
        (True, s1, w1) \<Rightarrow> (s1, w1)
      | (False, s1, w1) \<Rightarrow> (s1, ts_closeSocketValue (se_kernel E) clientSocket w1))"

fun ts_accept_loop :: "nat \<Rightarrow> 'w ts_env \<Rightarrow> tcp_server \<Rightarrow> 'w \<Rightarrow> (tcp_server \<times> 'w) option" where
  "ts_accept_loop 0 E s0 w0 = None"
| "ts_accept_loop (Suc n) E s0 w0 =
     (case se_other E s0 w0 of
        (s, w) \<Rightarrow>
          if \<not> continueRunning (ts_base s) then Some (s, w)
          else
            (case reapCompletedClients E s w of
               (s1, w1) \<Rightarrow>
                 if ts_serverSocket s1 < 0 then Some (s1, w1)
                 else
                   (case se_other E s1 w1 of
                      (s2, w2) \<Rightarrow>
                        (case se_accept E (ts_serverSocket s1) w2 of
                           (clientSocket, clientAddr, w3) \<Rightarrow>
                             if clientSocket < 0 then
                               if k_errno (se_kernel E) w3 = EINTR \<and> continueRunning (ts_base s2)
                               then ts_accept_loop n E s2 w3
                               else if \<not> stopRequested (ts_base s2)
                               then Some (ts_requestStop (se_kernel E) s2 w3)
                               else Some (s2, w3)
                             else (case ts_serve E clientSocket clientAddr s2 w3 of
                                     (s4, w4) \<Rightarrow> ts_accept_loop n E s4 w4)))))"

definition ts_run :: "nat \<Rightarrow> 'w ts_env \<Rightarrow> tcp_server \<Rightarrow> 'w \<Rightarrow> (tcp_server \<times> 'w) option" where
  "ts_run fuel E s w =
     (case ts_accept_loop fuel E s w of
        None \<Rightarrow> None
      | Some (s1, w1) \<Rightarrow>
          (case joinAndClearAllClients E s1 w1 of
             (s2, w2) \<Rightarrow> Some (ts_closeServerSocket (se_kernel E) s2 w2)))"

end
