(* ===== verification/TcpServerProofs.thy ===== *)
theory TcpServerProofs
  imports TcpServer
begin

text \<open>
  What \<open>TCPServer_V2\<close> promises: every descriptor it owns is owned once, each operation keeps it so, and
  when \<open>run()\<close> has returned all of them are closed and all sessions are joined.
\<close>

section \<open>Ownership of descriptors\<close>

definition ts_all :: "tcp_server \<Rightarrow> client_session list" where
  "ts_all s = ts_clients s @ ts_joining s"

definition ts_sockets :: "client_session list \<Rightarrow> fd list" where
  "ts_sockets cs = filter (\<lambda>x. 0 \<le> x) (map cs_socket cs)"

definition ts_listening :: "tcp_server \<Rightarrow> fd list" where
  "ts_listening s = filter (\<lambda>x. 0 \<le> x) [ts_serverSocket s]"

text \<open>Beside the descriptors \<open>base\<close> of the rest of the program, exactly the server's own are open, each
  held once; sessions have distinct identities.\<close>

definition ts_owns :: "('w \<Rightarrow> fd set) \<Rightarrow> fd set \<Rightarrow> tcp_server \<Rightarrow> 'w \<Rightarrow> bool" where
  "ts_owns opened base s w \<longleftrightarrow>
     distinct (ts_listening s @ ts_sockets (ts_all s)) \<and>
     set (ts_listening s @ ts_sockets (ts_all s)) \<inter> base = {} \<and>
     opened w = base \<union> set (ts_listening s @ ts_sockets (ts_all s)) \<and>
     distinct (map cs_id (ts_all s)) \<and>
     (\<forall>c \<in> set (ts_all s). cs_id c < ts_nextId s)"

lemma ts_sockets_append [simp]: "ts_sockets (as @ bs) = ts_sockets as @ ts_sockets bs"
  and ts_sockets_Nil [simp]: "ts_sockets [] = []"
  and ts_sockets_Cons [simp]:
    "ts_sockets (c # cs) = (if 0 \<le> cs_socket c then cs_socket c # ts_sockets cs else ts_sockets cs)"
  by (simp_all add: ts_sockets_def)

lemma ts_closeSocketValue_opened:
  "socket_law K opened \<Longrightarrow>
   opened (ts_closeSocketValue K x w) = (if 0 \<le> x then opened w - {x} else opened w)"
  by (simp add: ts_closeSocketValue_def socket_law_snd(1,2))

section \<open>Closing one session\<close>

lemma ts_session_None: "ts_session i s = None \<longleftrightarrow> i \<notin> cs_id ` set (ts_all s)"
  by (auto simp: ts_session_def ts_all_def find_None_iff image_iff)

lemma cs_update_other: "i \<notin> cs_id ` set cs \<Longrightarrow> cs_update i f cs = cs"
  by (induction cs) (auto simp: cs_update_def)

lemma cs_update_append [simp]: "cs_update i f (as @ bs) = cs_update i f as @ cs_update i f bs"
  by (simp add: cs_update_def)

lemma cs_update_ids [simp]: "map cs_id (cs_update i (cs_socket_update g) cs) = map cs_id cs"
  by (auto simp: cs_update_def)

lemma ts_all_update: "ts_all (ts_update i f s) = cs_update i f (ts_all s)"
  by (simp add: ts_all_def ts_update_def)

lemma ts_update_frame [simp]:
  "ts_serverSocket (ts_update i f s) = ts_serverSocket s" "ts_nextId (ts_update i f s) = ts_nextId s"
  "ts_clients (ts_update i f s) = cs_update i f (ts_clients s)"
  "ts_joining (ts_update i f s) = cs_update i f (ts_joining s)"
  "ts_base (ts_update i f s) = ts_base s"
  by (simp_all add: ts_update_def)

lemma ts_session_split:
  assumes "ts_session i s = Some c" and "distinct (map cs_id (ts_all s))"
  obtains as bs where "ts_all s = as @ c # bs" and "cs_id c = i"
    and "i \<notin> cs_id ` set as" and "i \<notin> cs_id ` set bs"
proof -
  have "c \<in> set (ts_all s)" "cs_id c = i"
    using assms(1) unfolding ts_session_def ts_all_def [symmetric] find_Some_iff
    by (auto simp: in_set_conv_nth)
  then obtain as bs where "ts_all s = as @ c # bs" by (meson split_list)
  then show ?thesis using that assms(2) \<open>cs_id c = i\<close> by auto
qed

lemma ts_closeSession_owns:
  assumes law: "socket_law K opened" and own: "ts_owns opened base s w"
    and r: "ts_closeSession K i s w = (s', w')"
  shows "ts_owns opened base s' w'"
proof (cases "ts_session i s")
  case None
  then show ?thesis using r own by (simp add: ts_closeSession_def)
next
  case (Some c)
  have d: "distinct (map cs_id (ts_all s))" using own by (simp add: ts_owns_def)
  from ts_session_split [OF Some d] obtain as bs where all: "ts_all s = as @ c # bs" "cs_id c = i"
    "i \<notin> cs_id ` set as" "i \<notin> cs_id ` set bs" .
  have s': "s' = ts_update i (cs_socket_update (\<lambda>_. -1)) s" "w' = ts_closeSocketValue K (cs_socket c) w"
    using r Some by (simp_all add: ts_closeSession_def)
  have all': "ts_all s' = as @ c\<lparr>cs_socket := -1\<rparr> # bs"
    unfolding s'(1) ts_all_update all(1)
    using cs_update_other [OF all(3)] cs_update_other [OF all(4)] all(2)
    by (simp add: cs_update_def)
  have lis: "ts_listening s' = ts_listening s" "ts_nextId s' = ts_nextId s"
    by (simp_all add: s'(1) ts_listening_def)
  show ?thesis
    using own unfolding ts_owns_def all' lis all(1) s'(2) ts_closeSocketValue_opened [OF law]
    by (auto split: if_splits)
qed

text \<open>What others may do to the sessions meanwhile.\<close>

definition cs_calm :: "client_session \<Rightarrow> client_session \<Rightarrow> bool" where
  "cs_calm c c' \<longleftrightarrow> cs_id c' = cs_id c \<and> (cs_socket c' = cs_socket c \<or> cs_socket c' = -1)"

definition ts_calm :: "tcp_server \<Rightarrow> tcp_server \<Rightarrow> bool" where
  "ts_calm s s' \<longleftrightarrow>
     list_all2 cs_calm (ts_clients s) (ts_clients s') \<and> list_all2 cs_calm (ts_joining s) (ts_joining s')"

lemma list_all2_cs_calm_ids: "list_all2 cs_calm cs cs' \<Longrightarrow> map cs_id cs' = map cs_id cs"
  by (induction rule: list_all2_induct) (auto simp: cs_calm_def)

lemma list_all2_cs_calm_closed:
  "list_all2 cs_calm cs cs' \<Longrightarrow> \<forall>c \<in> set cs. cs_id c \<notin> I \<longrightarrow> cs_socket c < 0 \<Longrightarrow>
   \<forall>c \<in> set cs'. cs_id c \<notin> I \<longrightarrow> cs_socket c < 0"
  by (induction rule: list_all2_induct) (auto simp: cs_calm_def)

lemma cs_calm_close: "list_all2 cs_calm cs (cs_update i (cs_socket_update (\<lambda>_. -1)) cs)"
  by (auto simp: cs_update_def cs_calm_def list_all2_map2 intro!: list_all2_refl)

lemma ts_closeSession_calm: "ts_closeSession K i s w = (s', w') \<Longrightarrow> ts_calm s s' \<and> ts_base s' = ts_base s"
  using list_all2_refl [of cs_calm] 
  by (auto simp: ts_closeSession_def ts_calm_def cs_calm_close cs_calm_def split: option.splits)

lemma cs_update_closed:
  assumes "c \<in> set (cs_update i (cs_socket_update (\<lambda>_. -1)) cs)" and "cs_id c = i"
  shows "cs_socket c < 0"
proof -
  from assms(1) obtain d where d: "c = (if cs_id d = i then d\<lparr>cs_socket := -1\<rparr> else d)"
    unfolding cs_update_def by fastforce
  show ?thesis
  proof (cases "cs_id d = i")
    case True
    then show ?thesis unfolding d by simp
  next
    case False
    then have "c = d" unfolding d by simp
    then show ?thesis using False assms(2) by simp
  qed
qed

lemma ts_closeSession_closed:
  assumes "ts_closeSession K i s w = (s', w')" and "c \<in> set (ts_all s')" and "cs_id c = i"
  shows "cs_socket c < 0"
proof (cases "ts_session i s")
  case None
  then have "s' = s" "i \<notin> cs_id ` set (ts_all s)"
    using assms(1) ts_session_None [of i s] by (simp_all add: ts_closeSession_def)
  then show ?thesis using assms(2,3) by auto
next
  case (Some d)
  then have "ts_all s' = cs_update i (cs_socket_update (\<lambda>_. -1)) (ts_all s)"
    using assms(1) by (auto simp: ts_closeSession_def ts_all_update)
  from cs_update_closed [OF assms(2) [unfolded this] assms(3)] show ?thesis .
qed

section \<open>What the server relies on\<close>

text \<open>\<open>arrivals\<close> bounds how many more connections and interruptions \<open>accept\<close> will report; finitely many
  clients come. \<open>accept\<close> opens a descriptor that was not open; the other calls open and close none.\<close>

definition accept_law :: "'w ts_env \<Rightarrow> ('w \<Rightarrow> fd set) \<Rightarrow> ('w \<Rightarrow> nat) \<Rightarrow> bool" where
  "accept_law E opened arrivals \<longleftrightarrow>
     (\<forall>l w c addr w'. se_accept E l w = (c, addr, w') \<longrightarrow>
        (if 0 \<le> c then c \<notin> opened w \<and> opened w' = insert c (opened w) \<and> arrivals w' < arrivals w
         else opened w' = opened w \<and> (if k_errno (se_kernel E) w' = EINTR then arrivals w' < arrivals w
                                      else arrivals w' \<le> arrivals w)))"

definition resource_law :: "'w ts_env \<Rightarrow> ('w \<Rightarrow> fd set) \<Rightarrow> ('w \<Rightarrow> nat) \<Rightarrow> bool" where
  "resource_law E opened arrivals \<longleftrightarrow>
     (\<forall>w b w'. se_alloc E w = (b, w') \<longrightarrow> opened w' = opened w \<and> arrivals w' \<le> arrivals w) \<and>
     (\<forall>w t w'. se_thread E w = (t, w') \<longrightarrow> opened w' = opened w \<and> arrivals w' \<le> arrivals w) \<and>
     (\<forall>s w. arrivals (ts_closeSocketValue (se_kernel E) s w) \<le> arrivals w)"

text \<open>The other threads close sessions and the listening socket, in a way that keeps ownership, and
  neither add nor remove sessions.\<close>

definition ts_rely :: "'w ts_env \<Rightarrow> ('w \<Rightarrow> fd set) \<Rightarrow> ('w \<Rightarrow> nat) \<Rightarrow> bool" where
  "ts_rely E opened arrivals \<longleftrightarrow>
     (\<forall>s w s' w'. (se_other E s w = (s', w') \<or> (\<exists>t. se_join E t s w = (s', w'))) \<longrightarrow>
        ts_calm s s' \<and> arrivals w' \<le> arrivals w
        \<and> (\<forall>base. ts_owns opened base s w \<longrightarrow> ts_owns opened base s' w'))"

lemma ts_relyD:
  assumes "ts_rely E opened arrivals"
  shows "se_other E s w = (s', w') \<Longrightarrow>
      ts_calm s s' \<and> arrivals w' \<le> arrivals w \<and> (ts_owns opened base s w \<longrightarrow> ts_owns opened base s' w')"
    and "se_join E t s w = (s', w') \<Longrightarrow>
      ts_calm s s' \<and> arrivals w' \<le> arrivals w \<and> (ts_owns opened base s w \<longrightarrow> ts_owns opened base s' w')"
proof -
  note l = assms [unfolded ts_rely_def, rule_format]
  show "se_other E s w = (s', w') \<Longrightarrow>
      ts_calm s s' \<and> arrivals w' \<le> arrivals w \<and> (ts_owns opened base s w \<longrightarrow> ts_owns opened base s' w')"
    using l [of s w s' w'] by simp
  show "se_join E t s w = (s', w') \<Longrightarrow>
      ts_calm s s' \<and> arrivals w' \<le> arrivals w \<and> (ts_owns opened base s w \<longrightarrow> ts_owns opened base s' w')"
    using l [of s w s' w'] by fastforce
qed

lemma resource_lawD:
  assumes "resource_law E opened arrivals"
  shows "se_alloc E w = (b, w') \<Longrightarrow> opened w' = opened w \<and> arrivals w' \<le> arrivals w"
    and "se_thread E w = (t, w') \<Longrightarrow> opened w' = opened w \<and> arrivals w' \<le> arrivals w"
    and "arrivals (ts_closeSocketValue (se_kernel E) x w) \<le> arrivals w"
proof -
  note l = assms [unfolded resource_law_def]
  show "se_alloc E w = (b, w') \<Longrightarrow> opened w' = opened w \<and> arrivals w' \<le> arrivals w"
    by (rule l [THEN conjunct1, rule_format])
  show "se_thread E w = (t, w') \<Longrightarrow> opened w' = opened w \<and> arrivals w' \<le> arrivals w"
    by (rule l [THEN conjunct2, THEN conjunct1, rule_format])
  show "arrivals (ts_closeSocketValue (se_kernel E) x w) \<le> arrivals w"
    by (rule l [THEN conjunct2, THEN conjunct2, rule_format])
qed

section \<open>Joining\<close>

lemma ts_drop_joining:
  assumes "ts_owns opened base s w" and "\<forall>c \<in> set (ts_joining s). cs_socket c < 0"
  shows "ts_owns opened base (s\<lparr>ts_joining := []\<rparr>) w"
proof -
  have "ts_sockets (ts_joining s) = []"
    using assms(2) by (auto simp: ts_sockets_def filter_empty_conv)
  then show ?thesis
    using assms(1) by (auto simp: ts_owns_def ts_all_def ts_listening_def)
qed

lemma ts_join_loop_owns:
  assumes law: "socket_law (se_kernel E) opened" and res: "resource_law E opened arrivals"
    and rely: "ts_rely E opened arrivals"
  shows "ts_join_loop E is s w = (s', w') \<Longrightarrow> ts_owns opened base s w \<Longrightarrow>
    \<forall>c \<in> set (ts_joining s). cs_id c \<notin> set is \<longrightarrow> cs_socket c < 0 \<Longrightarrow>
    ts_owns opened base s' w' \<and> ts_joining s' = [] \<and> arrivals w' \<le> arrivals w
    \<and> length (ts_clients s') = length (ts_clients s)"
proof (induction "is" arbitrary: s w)
  case Nil
  have "ts_owns opened base (s\<lparr>ts_joining := []\<rparr>) w"
    by (rule ts_drop_joining [OF Nil(2)]) (use Nil(3) in simp)
  then show ?case using Nil(1) by auto
next
  case (Cons i "is")
  obtain s1 w1 where c: "ts_closeSession (se_kernel E) i s w = (s1, w1)" by fastforce
  note own1 = ts_closeSession_owns [OF law Cons.prems(2) c]
  have arr1: "arrivals w1 \<le> arrivals w"
    using c resource_lawD(3) [OF res] by (auto simp: ts_closeSession_def split: option.splits)
  have calm1: "ts_calm s s1" using ts_closeSession_calm [OF c] by blast
  then have cl1: "\<forall>c \<in> set (ts_joining s1). cs_id c \<notin> set is \<longrightarrow> cs_socket c < 0"
    using list_all2_cs_calm_closed [of "ts_joining s" "ts_joining s1" "set (i # is)"] Cons.prems(3)
      ts_closeSession_closed [OF c] by (auto simp: ts_calm_def ts_all_def)
  have len1: "length (ts_clients s1) = length (ts_clients s)"
    using calm1 by (auto simp: ts_calm_def dest: list_all2_lengthD)
  consider "\<exists>t. map_option cs_worker (ts_session i s1) = Some (Some t)"
    | "\<nexists>t. map_option cs_worker (ts_session i s1) = Some (Some t)" by blast
  then show ?case
  proof cases
    case 1
    then obtain t where t: "map_option cs_worker (ts_session i s1) = Some (Some t)" by blast
    obtain s2 w2 where j: "se_join E t s1 w1 = (s2, w2)" by fastforce
    note rl = ts_relyD(2) [OF rely j, of base]
    have cl2: "\<forall>c \<in> set (ts_joining s2). cs_id c \<notin> set is \<longrightarrow> cs_socket c < 0"
      using rl list_all2_cs_calm_closed [OF _ cl1, of "ts_joining s2"] by (simp add: ts_calm_def)
    have "ts_join_loop E is s2 w2 = (s', w')" using Cons.prems(1) c t j by auto
    from Cons.IH [OF this _ cl2] own1 rl arr1 len1 show ?thesis
      by (auto simp: ts_calm_def dest: list_all2_lengthD)
  next
    case 2
    then have "ts_join_loop E is s1 w1 = (s', w')"
      using Cons.prems(1) c by (auto split: option.splits)
    from Cons.IH [OF this own1 cl1] arr1 len1 show ?thesis by auto
  qed
qed

text \<open>Splicing sessions into the local list moves ownership, not more.\<close>

lemma ts_owns_splice:
  assumes own: "ts_owns opened base s w" and j: "ts_joining s = []"
    and perm: "mset (cs @ js) = mset (ts_clients s)"
  shows "ts_owns opened base (s\<lparr>ts_joining := js, ts_clients := cs\<rparr>) w"
proof -
  have all: "ts_all s = ts_clients s" using j by (simp add: ts_all_def)
  have m: "mset (map f (cs @ js)) = mset (map f (ts_clients s))" for f :: "client_session \<Rightarrow> 'x"
    using perm by (metis mset_map)
  have ids: "distinct (map cs_id (cs @ js))"
    using own m [of cs_id] all by (metis ts_owns_def mset_eq_imp_distinct_iff)
  have "mset (ts_sockets (cs @ js)) = mset (ts_sockets (ts_clients s))"
    using m [of cs_socket] by (metis ts_sockets_def mset_filter)
  then have sk: "mset (ts_listening s @ ts_sockets (cs @ js)) = mset (ts_listening s @ ts_sockets (ts_clients s))"
    by simp
  have lis: "ts_listening (s\<lparr>ts_joining := js, ts_clients := cs\<rparr>) = ts_listening s"
    by (simp add: ts_listening_def)
  have all': "ts_all (s\<lparr>ts_joining := js, ts_clients := cs\<rparr>) = cs @ js" by (simp add: ts_all_def)
  have "set (cs @ js) = set (ts_clients s)" using perm by (metis set_mset_mset)
  then show ?thesis
    using own ids mset_eq_setD [OF sk] mset_eq_imp_distinct_iff [OF sk]
    unfolding ts_owns_def lis all all' by simp
qed

lemma reapCompletedClients_owns:
  assumes law: "socket_law (se_kernel E) opened" and res: "resource_law E opened arrivals"
    and rely: "ts_rely E opened arrivals"
    and own: "ts_owns opened base s w" "ts_joining s = []"
    and r: "reapCompletedClients E s w = (s', w')"
  shows "ts_owns opened base s' w' \<and> ts_joining s' = [] \<and> arrivals w' \<le> arrivals w"
proof -
  let ?s1 = "s\<lparr>ts_joining := filter cs_completed (ts_clients s),
               ts_clients := filter (\<lambda>c. \<not> cs_completed c) (ts_clients s)\<rparr>"
  have "ts_owns opened base ?s1 w"
    by (rule ts_owns_splice [OF own]) (simp add: add.commute)
  moreover have "ts_join_loop E (map cs_id (ts_joining ?s1)) ?s1 w = (s', w')"
    using r by (simp add: reapCompletedClients_def Let_def)
  ultimately show ?thesis
    using ts_join_loop_owns [OF law res rely, of _ ?s1 w s' w' base] by force
qed

lemma joinAndClearAllClients_owns:
  assumes law: "socket_law (se_kernel E) opened" and res: "resource_law E opened arrivals"
    and rely: "ts_rely E opened arrivals"
    and own: "ts_owns opened base s w" "ts_joining s = []"
    and r: "joinAndClearAllClients E s w = (s', w')"
  shows "ts_owns opened base s' w' \<and> ts_joining s' = [] \<and> ts_clients s' = []"
proof -
  let ?s1 = "s\<lparr>ts_joining := ts_clients s, ts_clients := []\<rparr>"
  have "ts_owns opened base ?s1 w"
    by (rule ts_owns_splice [OF own]) simp
  moreover have "ts_join_loop E (map cs_id (ts_joining ?s1)) ?s1 w = (s', w')"
    using r by (simp add: joinAndClearAllClients_def Let_def)
  ultimately show ?thesis
    using ts_join_loop_owns [OF law res rely, of _ ?s1 w s' w' base] by force
qed

section \<open>Serving and stopping\<close>

lemma ts_serve_owns:
  assumes law: "socket_law (se_kernel E) opened" and res: "resource_law E opened arrivals"
    and own: "ts_owns opened base s w" "ts_joining s = []"
    and fresh: "0 \<le> c" "c \<notin> opened w" "opened w1 = insert c (opened w)"
    and r: "ts_serve E c addr s w1 = (s', w')"
  shows "ts_owns opened base s' w' \<and> ts_joining s' = [] \<and> arrivals w' \<le> arrivals w1"
proof -
  let ?K = "se_kernel E"
  obtain a w2 where a: "se_alloc E w1 = (a, w2)" by fastforce
  obtain t w3 where t: "se_thread E w2 = (t, w3)" by fastforce
  note la = resource_lawD(1) [OF res a] and lt = resource_lawD(2) [OF res t]
  note cl = ts_closeSocketValue_opened [OF law] and ca = resource_lawD(3) [OF res]
  have sub: "set (ts_listening s @ ts_sockets (ts_all s)) \<subseteq> opened w" "base \<subseteq> opened w"
    using own(1) by (auto simp: ts_owns_def)
  have closed: "ts_owns opened base s u \<and> ts_owns opened base (s\<lparr>ts_nextId := Suc (ts_nextId s)\<rparr>) u"
    if "opened u = opened w" for u
    using own(1) that unfolding ts_owns_def by (simp add: ts_all_def ts_listening_def less_SucI)
  consider "\<not> a" | "a" "t = None" | x where "a" "t = Some x" by (cases a; cases t) auto
  then show ?thesis
  proof cases
    case 1
    then have e: "s' = s" "w' = ts_closeSocketValue ?K c w2"
      using r a by (simp_all add: ts_serve_def startClientSession_def)
    have "opened w' = opened w" using e(2) cl fresh la by auto
    then show ?thesis using closed e own(2) la ca [of c w2] by auto
  next
    case 2
    then have e: "s' = s\<lparr>ts_nextId := Suc (ts_nextId s)\<rparr>"
      "w' = ts_closeSocketValue ?K c (ts_closeSocketValue ?K c w3)"
      using r a t by (simp_all add: ts_serve_def startClientSession_def Let_def)
    have "opened w' = opened w" using e(2) cl fresh la lt by auto
    then show ?thesis
      using closed e own(2) la lt ca [of c w3] ca [of c "ts_closeSocketValue ?K c w3"] by auto
  next
    case 3
    let ?c = "\<lparr>cs_id = ts_nextId s, cs_socket = c, cs_info = makeClientInfo E addr,
                cs_worker = Some x, cs_completed = False\<rparr>"
    have e: "s' = s\<lparr>ts_clients := ts_clients s @ [?c], ts_nextId := Suc (ts_nextId s)\<rparr>" "w' = w3"
      using r a t 3 by (simp_all add: ts_serve_def startClientSession_def Let_def)
    have f: "ts_all s' = ts_clients s @ [?c]" "ts_listening s' = ts_listening s" "ts_all s = ts_clients s"
      using own(2) by (simp_all add: e(1) ts_all_def ts_listening_def)
    have "ts_owns opened base s' w'"
      using own(1) sub fresh la lt unfolding ts_owns_def f e(2)
      by (auto simp: e(1) less_Suc_eq)
    then show ?thesis using e own(2) la lt by simp
  qed
qed

lemma cs_close_all_opened:
  assumes law: "socket_law K opened"
  shows "cs_close_all K cs w = (cs', w') \<Longrightarrow>
    cs' = map (cs_socket_update (\<lambda>_. -1)) cs \<and> opened w' = opened w - set (ts_sockets cs)"
proof (induction cs arbitrary: w cs' w')
  case (Cons c cs)
  obtain cs1 w1 where r: "cs_close_all K cs (ts_closeSocketValue K (cs_socket c) w) = (cs1, w1)"
    by fastforce
  from Cons.IH [OF this] Cons.prems r show ?case
    using ts_closeSocketValue_opened [OF law] by auto
qed simp

lemma ts_requestStop_owns:
  assumes law: "socket_law K opened" and own: "ts_owns opened base s w" "ts_joining s = []"
    and r: "ts_requestStop K s w = (s', w')"
  shows "ts_owns opened base s' w' \<and> ts_joining s' = []"
proof -
  obtain q b where q: "requestStop (ts_base s) = (q, b)" by fastforce
  show ?thesis
  proof (cases q)
    case False
    then show ?thesis
      using r q own by (auto simp: ts_requestStop_def ts_owns_def ts_all_def ts_listening_def)
  next
    case True
    obtain cs w2 where c: "cs_close_all K (ts_clients s) (ts_closeSocketValue K (ts_serverSocket s) w) = (cs, w2)"
      by fastforce
    have e: "s' = s\<lparr>ts_base := b, ts_serverSocket := -1, ts_clients := cs\<rparr>" "w' = w2"
      using r q True c
      by (simp_all add: ts_requestStop_def ts_stopTriggered_def ts_closeServerSocket_def
          ts_closeAllClientSockets_def)
    note o = cs_close_all_opened [OF law c]
    have cl: "ts_sockets cs = []" "map cs_id cs = map cs_id (ts_clients s)"
      using o by (auto simp: ts_sockets_def filter_empty_conv)
    have al: "ts_all s' = cs" "ts_listening s' = []" "ts_all s = ts_clients s" "ts_nextId s' = ts_nextId s"
      using own(2) by (simp_all add: e(1) ts_all_def ts_listening_def)
    have ow: "opened w' = opened w - set (ts_listening s) - set (ts_sockets (ts_clients s))"
      using o ts_closeSocketValue_opened [OF law] by (auto simp: e(2) ts_listening_def)
    have lt: "\<forall>c \<in> set cs. cs_id c < ts_nextId s"
      using own(1) cl(2) al(3) unfolding ts_owns_def by (metis image_eqI imageE list.set_map)
    show ?thesis
      using own lt unfolding ts_owns_def al cl ow by (auto simp: e(1))
  qed
qed

lemma accept_lawD:
  assumes "accept_law E opened arrivals" and "se_accept E l w = (c, addr, w')"
  shows "if 0 \<le> c then c \<notin> opened w \<and> opened w' = insert c (opened w) \<and> arrivals w' < arrivals w
         else opened w' = opened w \<and> (if k_errno (se_kernel E) w' = EINTR then arrivals w' < arrivals w
                                      else arrivals w' \<le> arrivals w)"
  by (rule assms(1) [unfolded accept_law_def, rule_format, OF assms(2)])

lemma ts_owns_cong: "opened w' = opened w \<Longrightarrow> ts_owns opened base s w' = ts_owns opened base s w"
  by (simp add: ts_owns_def)

lemma ts_accept_loop_owns:
  assumes law: "socket_law (se_kernel E) opened" and acc: "accept_law E opened arrivals"
    and res: "resource_law E opened arrivals" and rely: "ts_rely E opened arrivals"
  shows "arrivals w < n \<Longrightarrow> ts_owns opened base s w \<Longrightarrow> ts_joining s = [] \<Longrightarrow>
    \<exists>s' w'. ts_accept_loop n E s w = Some (s', w') \<and> ts_owns opened base s' w' \<and> ts_joining s' = []"
proof (induction n arbitrary: s w)
  case (Suc n)
  let ?K = "se_kernel E"
  obtain s1 w1 where o: "se_other E s w = (s1, w1)" by fastforce
  note rl = ts_relyD(1) [OF rely o, of base]
  have own1: "ts_owns opened base s1 w1" "ts_joining s1 = []" "arrivals w1 \<le> arrivals w"
    using rl Suc.prems by (auto simp: ts_calm_def)
  show ?case
  proof (cases "continueRunning (ts_base s1)")
    case False
    then show ?thesis using o own1 by simp
  next
    case run: True
    obtain s2 w2 where p: "reapCompletedClients E s1 w1 = (s2, w2)" by fastforce
    note own2 = reapCompletedClients_owns [OF law res rely own1(1,2) p]
    show ?thesis
    proof (cases "ts_serverSocket s2 < 0")
      case True
      then show ?thesis using o run p own2 by simp
    next
      case lis: False
      obtain t u where b: "se_other E s2 w2 = (t, u)" by fastforce
      have own': "ts_owns opened base t u" "ts_joining t = []" "arrivals u \<le> arrivals w2"
        using ts_relyD(1) [OF rely b, of base] own2 by (auto simp: ts_calm_def)
      obtain c addr w3 where a: "se_accept E (ts_serverSocket s2) u = (c, addr, w3)"
        by (metis prod_cases3)
      note al = accept_lawD [OF acc a]
      show ?thesis
      proof (cases "0 \<le> c")
        case True
        obtain s4 w4 where v: "ts_serve E c addr t w3 = (s4, w4)" by fastforce
        have "ts_owns opened base s4 w4 \<and> ts_joining s4 = [] \<and> arrivals w4 \<le> arrivals w3"
          by (rule ts_serve_owns [OF law res _ _ True _ _ v, of base u]) (use own' al True in auto)
        moreover from this have "arrivals w4 < n" using al own2 own' own1(3) True Suc.prems(1) by simp
        ultimately show ?thesis
          using Suc.IH [of w4 s4] o run p lis b a v True by auto
      next
        case False
        then have own3: "ts_owns opened base t w3" using al own' ts_owns_cong [of opened w3 u] by simp
        consider "k_errno ?K w3 = EINTR" "continueRunning (ts_base t)"
          | "\<not> (k_errno ?K w3 = EINTR \<and> continueRunning (ts_base t))" by blast
        then show ?thesis
        proof cases
          case 1
          then have "arrivals w3 < n" using al own2 own' own1(3) False Suc.prems(1) by simp
          then show ?thesis using Suc.IH [of w3 t] own3 own' o run p lis b a False 1 by auto
        next
          case 2
          obtain s4 w4 where q: "ts_requestStop ?K t w3 = (s4, w4)" by fastforce
          from ts_requestStop_owns [OF law own3 own'(2) q]
          have "ts_owns opened base s4 w4 \<and> ts_joining s4 = []" .
          moreover have "ts_accept_loop (Suc n) E s w
              = (if \<not> stopRequested (ts_base t) then Some (ts_requestStop ?K t w3) else Some (t, w3))"
            using o run p lis b a False 2 by auto
          ultimately show ?thesis using q own3 own' by simp
        qed
      qed
    qed
  qed
qed simp

section \<open>Properties\<close>

text \<open>A scripted server: \<open>lb_connects\<close> is what the next calls of \<open>accept\<close> report, 0 for a client and
  otherwise an error number; when it is empty the listening socket has been closed.\<close>

definition ts_lb_accept :: "fd \<Rightarrow> lb \<Rightarrow> fd \<times> byte list \<times> lb" where
  "ts_lb_accept l w =
     (case lb_connects w of
        [] \<Rightarrow> (-1, [], w\<lparr>lb_errno := 22\<rparr>)
      | e # es \<Rightarrow>
          if e = 0 \<and> int (lb_next w) \<notin> lb_open w
          then (int (lb_next w), ts_sockaddr 4660 [127, 0, 0, 1],
                w\<lparr>lb_connects := es, lb_next := Suc (lb_next w), lb_open := insert (int (lb_next w)) (lb_open w)\<rparr>)
          else (-1, [], w\<lparr>lb_connects := es, lb_errno := e\<rparr>))"

definition ts_lb_env :: "lb ts_env" where
  "ts_lb_env =
     \<lparr>se_kernel = lb_kernel, se_setsockopt = (\<lambda>s o' v w. (0, w)), se_bind = (\<lambda>s a w. (0, w)),
      se_listen = (\<lambda>s b w. (0, w)), se_accept = ts_lb_accept, se_inet_ntop = (\<lambda>a. Some ''127.0.0.1''),
      se_clock = (\<lambda>w. 0), se_alloc = (\<lambda>w. (True, w)), se_thread = (\<lambda>w. (Some 0, w)),
      se_join = (\<lambda>t s w. (s, w)), se_other = (\<lambda>s w. (s, w)), se_dataCallback = None\<rparr>"

definition ts_lb_server :: tcp_server where
  "ts_lb_server = (ts_new ''s'' 8080 5 0)\<lparr>ts_serverSocket := 3\<rparr>"

definition ts_lb_world :: lb where
  "ts_lb_world = (lb_start [] [])\<lparr>lb_open := {3}, lb_next := 4, lb_connects := [0, EINTR, 0]\<rparr>"

lemma ts_lb_kernel [simp]: "se_kernel ts_lb_env = lb_kernel"
  by (simp add: ts_lb_env_def)

lemma ts_lb_accept_law: "accept_law ts_lb_env lb_open (\<lambda>w. length (lb_connects w))"
  by (auto simp: accept_law_def ts_lb_env_def ts_lb_accept_def lb_kernel_def lb_close_def EINTR_def split: list.splits if_splits)

lemma ts_lb_resource_law: "resource_law ts_lb_env lb_open (\<lambda>w. length (lb_connects w))"
  by (auto simp: resource_law_def ts_lb_env_def ts_closeSocketValue_def lb_kernel_def lb_close_def)

lemma ts_lb_rely: "ts_rely ts_lb_env lb_open (\<lambda>w. length (lb_connects w))"
  by (auto simp: ts_rely_def ts_lb_env_def ts_calm_def cs_calm_def intro!: list_all2_refl)



text \<open>When a session's thread cannot be created its descriptor is closed twice: by
  \<open>startClientSession\<close>, and again by \<open>run()\<close> because the answer is false. Between the two calls another
  thread may have been given the same number.\<close>

theorem ts_serve_closes_twice:
  assumes "se_alloc E w = (True, w1)" and "se_thread E w1 = (None, w2)"
  shows "snd (ts_serve E c addr s w)
      = ts_closeSocketValue (se_kernel E) c (ts_closeSocketValue (se_kernel E) c w2)
    \<and> ts_clients (fst (ts_serve E c addr s w)) = ts_clients s"
  using assms by (simp add: ts_serve_def startClientSession_def Let_def)

theorem ts_serve_closes_twice_witness:
  "snd (ts_serve (ts_lb_env\<lparr>se_thread := (\<lambda>w. (None, w))\<rparr>) 7 [] ts_lb_server ts_lb_world)
   = ts_closeSocketValue lb_kernel 7 (ts_closeSocketValue lb_kernel 7 ts_lb_world)"
proof -
  let ?E = "ts_lb_env\<lparr>se_thread := (\<lambda>w. (None, w))\<rparr>"
  have "se_alloc ?E ts_lb_world = (True, ts_lb_world)" "se_thread ?E ts_lb_world = (None, ts_lb_world)"
    by (simp_all add: ts_lb_env_def)
  from ts_serve_closes_twice [OF this] show ?thesis by simp
qed

lemma ntohs_htons: "ntohs (ucast (drop_bit 8 port)) (ucast port) = port"
proof -
  define p where "p = unat port"
  have p: "p < 65536" using unsigned_less [of port] by (simp add: p_def)
  have hi: "unat (ucast (drop_bit 8 port) :: byte) = p div 256"
    using p by (simp add: unsigned_ucast_eq p_def drop_bit_eq_div take_bit_eq_mod unat_div)
  have lo: "unat (ucast port :: byte) = p mod 256"
    by (simp add: unsigned_ucast_eq p_def take_bit_eq_mod)
  have "unat (ntohs hi lo) = (unat hi * 256 + unat lo) mod 65536" for hi lo
    by (simp add: ntohs_def push_bit_eq_mult unat_word_ariths unsigned_ucast_eq take_bit_eq_mod mod_simps)
  then have "unat (ntohs (ucast (drop_bit 8 port)) (ucast port)) = p"
    using p by (simp add: hi lo)
  then show ?thesis unfolding p_def by (rule unsigned_word_eqI)
qed

text \<open>The port a callback sees is the peer's: \<open>makeClientInfo\<close> undoes \<open>htons\<close>, for every port and
  address.\<close>

theorem makeClientInfo_port:
  assumes "length addr = 4"
  shows "ci_port (makeClientInfo E (ts_sockaddr port addr)) = port
    \<and> ci_address (makeClientInfo E (ts_sockaddr port addr))
        = (case se_inet_ntop E addr of None \<Rightarrow> '''' | Some text \<Rightarrow> text)"
  using assms by (simp add: makeClientInfo_def ts_sockaddr_def ntohs_htons)

theorem makeClientInfo_port_witness:
  "ci_port (makeClientInfo ts_lb_env (ts_sockaddr 4660 [127, 0, 0, 1])) = 4660"
  using makeClientInfo_port [of "[127, 0, 0, 1]" ts_lb_env 4660] by simp

text \<open>What \<open>preRun\<close> relies on beside \<open>socket_law\<close>: its other calls open and close nothing.\<close>

definition listen_law :: "'w ts_env \<Rightarrow> ('w \<Rightarrow> fd set) \<Rightarrow> bool" where
  "listen_law E opened \<longleftrightarrow>
     (\<forall>s opt v w. opened (snd (se_setsockopt E s opt v w)) = opened w) \<and>
     (\<forall>s addr w. opened (snd (se_bind E s addr w)) = opened w) \<and>
     (\<forall>s b w. opened (snd (se_listen E s b w)) = opened w)"

text \<open>\<open>preRun\<close> answers true with exactly one new descriptor, the listening socket; on each of its
  failures (no descriptor, address in use, not listening) it leaves none open.\<close>

theorem ts_preRun_owns_socket:
  assumes law: "socket_law (se_kernel E) opened" and lis: "listen_law E opened"
    and r: "ts_preRun E s w = (ok, s', w')"
  shows "if ok then 0 \<le> ts_serverSocket s' \<and> ts_serverSocket s' \<notin> opened w
        \<and> opened w' = insert (ts_serverSocket s') (opened w)
      else opened w' = opened w \<and> (ts_serverSocket s' = -1 \<or> s' = s)"
proof -
  let ?K = "se_kernel E"
  obtain x w1 where s: "k_socket ?K AF_INET SOCK_STREAM 0 w = (x, w1)" by fastforce
  note o1 = socket_law_socket [OF law s]
  define w2 where "w2 = snd (se_setsockopt E x SO_REUSEADDR 1 w1)"
  obtain b w3 where b: "se_bind E x (ts_sockaddr (ts_port s) INADDR_ANY) w2 = (b, w3)" by fastforce
  obtain l w4 where l: "se_listen E x (ts_backlog s) w3 = (l, w4)" by fastforce
  have o: "opened w2 = opened w1" "opened w3 = opened w1" "opened w4 = opened w1"
    using lis b l unfolding listen_law_def w2_def by (metis snd_conv)+
  let ?s1 = "s\<lparr>ts_serverSocket := x\<rparr>"
  have close: "ts_closeServerSocket ?K ?s1 u = (s', w') \<Longrightarrow> 0 \<le> x \<Longrightarrow> opened u = opened w1 \<Longrightarrow>
      opened w' = opened w \<and> ts_serverSocket s' = -1" for u
    using ts_closeSocketValue_opened [OF law, of x u] o1(1,2)
    by (auto simp: ts_closeServerSocket_def)
  consider "x < 0" | "0 \<le> x" "b < 0" | "0 \<le> x" "0 \<le> b" "l < 0" | "0 \<le> x" "0 \<le> b" "0 \<le> l" by linarith
  then show ?thesis
  proof cases
    case 1
    then have "\<not> ok" "s' = s" "w' = w1" using r s by (auto simp: ts_preRun_def Let_def)
    then show ?thesis using o1(3) [OF 1] by simp
  next
    case 2
    then have "\<not> ok" "ts_closeServerSocket ?K ?s1 w3 = (s', w')"
      using r s b by (auto simp: ts_preRun_def Let_def w2_def)
    then show ?thesis using close [OF _ 2(1) o(2)] by simp
  next
    case 3
    then have "\<not> ok" "ts_closeServerSocket ?K ?s1 w4 = (s', w')"
      using r s b l by (auto simp: ts_preRun_def Let_def w2_def)
    then show ?thesis using close [OF _ 3(1) o(3)] by simp
  next
    case 4
    then have "ok" and e: "s' = ?s1" "w' = w4"
      using r s b l by (auto simp: ts_preRun_def Let_def w2_def)
    then show ?thesis using o(3) o1(1,2) [OF 4(1)] 4(1) unfolding e by simp
  qed
qed

theorem ts_preRun_owns_socket_witness:
  "\<exists>s' w'. ts_preRun (ts_lb_env\<lparr>se_bind := (\<lambda>s a w. (-1, w))\<rparr>) (ts_new ''s'' 80 5 0) (lb_start [] [])
     = (False, s', w') \<and> lb_open w' = {}"
proof -
  let ?E = "ts_lb_env\<lparr>se_bind := (\<lambda>s a w. (-1, w))\<rparr>"
  obtain s' w' where r: "ts_preRun ?E (ts_new ''s'' 80 5 0) (lb_start [] []) = (False, s', w')"
    by (simp add: ts_preRun_def Let_def ts_lb_env_def lb_defs ts_closeServerSocket_def)
  have "socket_law (se_kernel ?E) lb_open" "listen_law ?E lb_open"
    using lb_socket_law by (simp_all add: ts_lb_env_def listen_law_def)
  from ts_preRun_owns_socket [OF this r] r show ?thesis by (simp add: lb_start_def)
qed

section \<open>One client's thread\<close>

text \<open>What the thread of a session relies on: others close its session at most, and the callback only
  records what it is given.\<close>

definition handler_law ::
  "'w ts_env \<Rightarrow> ('w \<Rightarrow> fd \<Rightarrow> byte list) \<Rightarrow> ('w \<Rightarrow> nat) \<Rightarrow> ('w \<Rightarrow> byte list) \<Rightarrow> bool" where
  "handler_law E inbox eintr seen \<longleftrightarrow>
     (\<forall>s w s' w'. se_other E s w = (s', w') \<longrightarrow>
        ts_calm s s' \<and> inbox w' = inbox w \<and> eintr w' = eintr w \<and> seen w' = seen w) \<and>
     (\<forall>cb bs info w r w'. se_dataCallback E = Some cb \<longrightarrow> cb bs info w = (r, w') \<longrightarrow>
        seen w' = seen w @ bs \<and> inbox w' = inbox w \<and> eintr w' \<le> eintr w) \<and>
     (\<forall>s n w. seen (snd (k_recv (se_kernel E) s n w)) = seen w) \<and>
     (\<forall>s w. seen (ts_closeSocketValue (se_kernel E) s w) = seen w)"

lemma handler_lawD:
  assumes "handler_law E inbox eintr seen"
  shows "se_other E s w = (s', w') \<Longrightarrow>
      ts_calm s s' \<and> inbox w' = inbox w \<and> eintr w' = eintr w \<and> seen w' = seen w"
    and "se_dataCallback E = Some cb \<Longrightarrow> cb bs info w = (r, w') \<Longrightarrow>
      seen w' = seen w @ bs \<and> inbox w' = inbox w \<and> eintr w' \<le> eintr w"
    and "seen (snd (k_recv (se_kernel E) x n w)) = seen w"
    and "seen (ts_closeSocketValue (se_kernel E) x w) = seen w"
proof -
  note l = assms [unfolded handler_law_def]
  show "se_other E s w = (s', w') \<Longrightarrow>
      ts_calm s s' \<and> inbox w' = inbox w \<and> eintr w' = eintr w \<and> seen w' = seen w"
    by (rule l [THEN conjunct1, rule_format])
  show "se_dataCallback E = Some cb \<Longrightarrow> cb bs info w = (r, w') \<Longrightarrow>
      seen w' = seen w @ bs \<and> inbox w' = inbox w \<and> eintr w' \<le> eintr w"
    by (rule l [THEN conjunct2, THEN conjunct1, rule_format])
  show "seen (snd (k_recv (se_kernel E) x n w)) = seen w"
    by (rule l [THEN conjunct2, THEN conjunct2, THEN conjunct1, rule_format])
  show "seen (ts_closeSocketValue (se_kernel E) x w) = seen w"
    by (rule l [THEN conjunct2, THEN conjunct2, THEN conjunct2, rule_format])
qed

definition ts_socket_is :: "nat \<Rightarrow> fd \<Rightarrow> tcp_server \<Rightarrow> bool" where
  "ts_socket_is i x s \<longleftrightarrow> (\<forall>c. ts_session i s = Some c \<longrightarrow> cs_socket c = x \<or> cs_socket c = -1)"

lemma find_calm:
  "list_all2 cs_calm cs cs' \<Longrightarrow> List.find (\<lambda>c. cs_id c = i) cs' = Some c' \<Longrightarrow>
   \<exists>c. List.find (\<lambda>c. cs_id c = i) cs = Some c \<and> cs_calm c c'"
  by (induction rule: list_all2_induct) (auto simp: cs_calm_def split: if_splits)

lemma ts_socket_is_calm: "ts_calm s s' \<Longrightarrow> ts_socket_is i x s \<Longrightarrow> ts_socket_is i x s'"
  using find_calm [of "ts_clients s @ ts_joining s" "ts_clients s' @ ts_joining s'" i]
  by (fastforce simp: ts_socket_is_def ts_session_def ts_calm_def cs_calm_def list_all2_appendI)

lemma ts_session_heartbeat [simp]: "ts_session i (ts_updateHeartbeat E s w) = ts_session i s"
  by (simp add: ts_session_def ts_updateHeartbeat_def)

lemma take_shift: "seen @ bs @ take k rest = seen @ take (length bs + k) (bs @ rest)"
  by simp

lemma ts_client_loop_seen:
  assumes recv: "recv_law (se_kernel E) inbox" and eintr: "eintr_law (se_kernel E) eintr"
    and law: "handler_law E inbox eintr seen" and cb: "se_dataCallback E = Some cb"
  shows "length (inbox w x) + eintr w < n \<Longrightarrow> ts_socket_is i x s \<Longrightarrow>
    \<exists>s' w' k. ts_client_loop n E i s w = Some (s', w') \<and> seen w' = seen w @ take k (inbox w x)"
proof (induction n arbitrary: s w)
  case (Suc n)
  let ?K = "se_kernel E"
  obtain s1 w1 where o: "se_other E s w = (s1, w1)" by fastforce
  note ol = handler_lawD(1) [OF law o]
  have is1: "ts_socket_is i x s1" using ts_socket_is_calm ol Suc.prems(2) by blast
  consider "\<not> continueRunning (ts_base s1)" | "ts_session i s1 = None"
    | c where "continueRunning (ts_base s1)" "ts_session i s1 = Some c" "cs_socket c < 0"
    | c where "continueRunning (ts_base s1)" "ts_session i s1 = Some c" "\<not> cs_socket c < 0"
    by (cases "ts_session i s1") auto
  then show ?case
  proof cases
    case 1
    then show ?thesis using o ol by (intro exI [of _ s1] exI [of _ w1] exI [of _ 0]) simp
  next
    case 2
    then show ?thesis using o ol by (intro exI [of _ s1] exI [of _ w1] exI [of _ 0]) simp
  next
    case 3
    then show ?thesis using o ol by (intro exI [of _ s1] exI [of _ w1] exI [of _ 0]) simp
  next
    case (4 c)
    then have cx: "cs_socket c = x" using is1 by (auto simp: ts_socket_is_def)
    obtain t u where m: "se_other E s1 w1 = (t, u)" by fastforce
    note ml = handler_lawD(1) [OF law m]
    have is2: "ts_socket_is i x t" using ts_socket_is_calm ml is1 by blast
    obtain a w2 where r: "k_recv ?K x ts_kReadBufferSize u = (a, w2)" by fastforce
    note l = recv_lawD [OF recv r] and e = eintr_law_recv [OF eintr r]
    have sn: "seen w2 = seen w" using handler_lawD(3) [OF law, of x ts_kReadBufferSize u] r ol ml by simp
    consider "a = None" "k_errno ?K w2 = EINTR" | "a = Some [] \<or> a = None \<and> k_errno ?K w2 \<noteq> EINTR"
      | b bs where "a = Some (b # bs)"
      by (cases a) (auto, metis list.exhaust)
    then show ?thesis
    proof cases
      case 1
      have "length (inbox w2 x) + eintr w2 < n" "inbox w2 x = inbox w x"
        using e(2) [OF 1] l 1(1) ol ml Suc.prems(1) by auto
      then have "\<exists>s' w' k. ts_client_loop n E i t w2 = Some (s', w') \<and> seen w' = seen w @ take k (inbox w x)"
        using Suc.IH [of w2 t] is2 sn by simp
      moreover have "ts_client_loop (Suc n) E i s w = ts_client_loop n E i t w2"
        using o m r 4 cx 1 by simp
      ultimately show ?thesis by simp
    next
      case 2
      then show ?thesis using o m r 4 cx sn by (intro exI [of _ t] exI [of _ w2] exI [of _ 0]) auto
    next
      case (3 b bs)
      obtain q w3 where q: "cb (b # bs) (cs_info c) w2 = (q, w3)" by fastforce
      note k = handler_lawD(2) [OF law cb q]
      let ?s2 = "ts_updateHeartbeat E t w2"
      have in2: "inbox w x = (b # bs) @ inbox w3 x" using l 3 ol ml k by simp
      show ?thesis
      proof (cases q)
        case (Inl y)
        then show ?thesis using o m r 4 cx 3 q cb k sn in2
          by (intro exI [of _ ?s2] exI [of _ w3] exI [of _ "length (b # bs)"]) (simp add: Let_def)
      next
        case (Inr u)
        have "length (inbox w3 x) + eintr w3 < n" using in2 k e(1) ol ml Suc.prems(1) by simp
        moreover have "ts_socket_is i x ?s2" using is2 by (simp add: ts_socket_is_def)
        ultimately obtain s' w' j where rec: "ts_client_loop n E i ?s2 w3 = Some (s', w')"
          "seen w' = seen w3 @ take j (inbox w3 x)"
          using Suc.IH [of w3 ?s2] by blast
        have "seen w' = seen w @ take (length (b # bs) + j) (inbox w x)"
          unfolding in2 using rec(2) k sn take_shift by simp
        moreover have "ts_client_loop (Suc n) E i s w = ts_client_loop n E i ?s2 w3"
          using o m r 4 cx 3 q cb Inr by (simp add: Let_def split: unit.splits)
        ultimately show ?thesis using rec(1) by auto
      qed
    qed
  qed
qed simp

lemma cs_update_completed:
  assumes "\<forall>c \<in> set cs. cs_id c = i \<longrightarrow> cs_socket c < 0"
  shows "\<forall>c \<in> set (cs_update i (cs_completed_update (\<lambda>_. True)) cs).
    cs_id c = i \<longrightarrow> cs_socket c < 0 \<and> cs_completed c"
proof (intro ballI impI)
  fix c
  assume c: "c \<in> set (cs_update i (cs_completed_update (\<lambda>_. True)) cs)" "cs_id c = i"
  from c(1) obtain d where d: "d \<in> set cs" "c = (if cs_id d = i then d\<lparr>cs_completed := True\<rparr> else d)"
    unfolding cs_update_def by fastforce
  show "cs_socket c < 0 \<and> cs_completed c"
  proof (cases "cs_id d = i")
    case True
    then show ?thesis using assms d by simp
  next
    case False
    then have "c = d" unfolding d(2) by simp
    then show ?thesis using False c(2) by simp
  qed
qed

text \<open>The thread of a session, with more turns than bytes to come plus signals, ends; the callback has
  then been given a prefix of the client's stream, in order and without gaps, and the session is
  closed and marked completed, also when the callback throws, so that \<open>reapCompletedClients\<close> finds
  it.\<close>

theorem handleClient_delivers:
  assumes "recv_law (se_kernel E) inbox" and "eintr_law (se_kernel E) eintr"
    and law: "handler_law E inbox eintr seen" and "se_dataCallback E = Some cb"
    and "ts_session i s = Some c" and "length (inbox w (cs_socket c)) + eintr w < fuel"
  shows "\<exists>s' w' k. handleClient fuel E i s w = Some (s', w')
    \<and> seen w' = seen w @ take k (inbox w (cs_socket c))
    \<and> (\<forall>d \<in> set (ts_all s'). cs_id d = i \<longrightarrow> cs_socket d < 0 \<and> cs_completed d)"
proof -
  have "ts_socket_is i (cs_socket c) s" using assms(5) by (simp add: ts_socket_is_def)
  from ts_client_loop_seen [OF assms(1-4,6) this] obtain s1 w1 k where
    l: "ts_client_loop fuel E i s w = Some (s1, w1)" "seen w1 = seen w @ take k (inbox w (cs_socket c))"
    by blast
  obtain s2 w2 where cl: "ts_closeSession (se_kernel E) i s1 w1 = (s2, w2)" by fastforce
  have "seen w2 = seen w1"
    using cl handler_lawD(4) [OF law] by (auto simp: ts_closeSession_def split: option.splits)
  moreover have "\<forall>d \<in> set (ts_all s2). cs_id d = i \<longrightarrow> cs_socket d < 0"
    using ts_closeSession_closed [OF cl] by blast
  moreover have "handleClient fuel E i s w = Some (ts_update i (cs_completed_update (\<lambda>_. True)) s2, w2)"
    using l cl by (simp add: handleClient_def)
  ultimately show ?thesis
    using l(2) cs_update_completed [of "ts_all s2" i] unfolding ts_all_update [symmetric] by metis
qed

definition ts_lb_handler :: "lb ts_env" where
  "ts_lb_handler =
     ts_lb_env\<lparr>se_dataCallback := Some (\<lambda>bs info w. (Inr (), w\<lparr>lb_sent := lb_sent w @ [(0, bs)]\<rparr>))\<rparr>"

definition ts_lb_session :: tcp_server where
  "ts_lb_session = fst (ts_serve ts_lb_env 4 (ts_sockaddr 4660 [127, 0, 0, 1]) ts_lb_server ts_lb_world)"

theorem handleClient_delivers_witness:
  "\<exists>s' w' k. handleClient 6 ts_lb_handler 0 ts_lb_session (lb_start [LbUpTo 1, LbFail EINTR] [5, 6, 7])
      = Some (s', w')
     \<and> lb_wire w' 0 = lb_wire (lb_start [LbUpTo 1, LbFail EINTR] [5, 6, 7]) 0
         @ take k (lb_inbox (lb_start [LbUpTo 1, LbFail EINTR] [5, 6, 7]))
     \<and> (\<forall>d \<in> set (ts_all s'). cs_id d = 0 \<longrightarrow> cs_socket d < 0 \<and> cs_completed d)"
proof -
  have k: "se_kernel ts_lb_handler = lb_kernel" by (simp add: ts_lb_handler_def)
  have h: "handler_law ts_lb_handler (\<lambda>w s. lb_inbox w) lb_eintr (\<lambda>w. lb_wire w 0)"
    by (auto simp: handler_law_def ts_lb_handler_def ts_lb_env_def lb_defs lb_eintr_def lb_wire_def
        ts_closeSocketValue_def ts_calm_def cs_calm_def intro!: list_all2_refl
        split: list.splits lb_reply.splits)
  obtain c where c: "ts_session 0 ts_lb_session = Some c"
    by (simp add: ts_lb_session_def ts_serve_def startClientSession_def ts_lb_env_def ts_lb_server_def
        ts_new_def ts_session_def Let_def)
  show ?thesis
    by (rule handleClient_delivers [where E = ts_lb_handler, unfolded k, OF lb_recv_law lb_eintr_law h _ c])
      (simp_all add: ts_lb_handler_def lb_eintr_def lb_start_def EINTR_def)
qed

end
