(* ===== verification/StartContract.thy ===== *)
theory StartContract
  imports Contracts BaseWorker
begin

text \<open>
  Starting a server, as the four HTTP servers do it: a \<open>cBaseWorker_V2\<close> whose \<open>startThread\<close> arms the start
  latch, starts the base worker without waiting, and then waits on the latch. The locale extends the
  latch by the base worker inside the object and the two calls; what its users may conclude from the
  answer of \<open>startThread\<close> is proved once.
\<close>

locale latched_server = start_latch reset resolve resolved succeeded port error_text
  for reset :: "'s \<Rightarrow> 's"
    and resolve :: "bool \<Rightarrow> u16 \<Rightarrow> string \<Rightarrow> 's \<Rightarrow> 's"
    and resolved :: "'s \<Rightarrow> bool"
    and succeeded :: "'s \<Rightarrow> bool"
    and port :: "'s \<Rightarrow> u16"
    and error_text :: "'s \<Rightarrow> string" +
  fixes base :: "'s \<Rightarrow> base_worker"
    and set_base :: "base_worker \<Rightarrow> 's \<Rightarrow> 's"
    and wait :: "int \<Rightarrow> 's wake list \<Rightarrow> 's \<Rightarrow> (bool \<times> 's) option"
    and start :: "nat option \<Rightarrow> int \<Rightarrow> int \<Rightarrow> 's wake list \<Rightarrow> 's \<Rightarrow> (bool \<times> 's) option"
  assumes base_reset: "base (reset s) = base s"
    and base_set: "base (set_base b s) = b"
    and set_base_latch: "resolved (set_base b s) = resolved s \<and> port (set_base b s) = port s
      \<and> error_text (set_base b s) = error_text s"
    and wait_zero: "wait 0 ws s = Some (True, s)"
    and wait_answer: "t \<noteq> 0 \<Longrightarrow> wait t ws s = Some (ok, s') \<Longrightarrow> ok = (resolved s' \<and> succeeded s')"
    and wait_returns: "t \<noteq> 0 \<Longrightarrow> cv_wait_for resolved s ws \<noteq> None \<Longrightarrow> wait t ws s \<noteq> None"
    and start_refused: "startThread created now 0 [] (base (reset s)) = Some (False, b) \<Longrightarrow>
      start created now t ws s = Some (False, set_base b (reset s))"
    and start_made: "startThread created now 0 [] (base (reset s)) = Some (True, b) \<Longrightarrow>
      start created now t ws s = wait t ws (set_base b (reset s))"
begin

lemma base_start_returns: "\<exists>ok b. startThread created now 0 [] w = Some (ok, b) \<and> (created = None \<longrightarrow> \<not> ok)"
  by (auto simp: startThread_def startThread_locked_def Let_def split: start_outcome.splits option.splits)

lemma start_answer:
  assumes "start created now t ws s = Some (ok, s')"
  shows "(if ok \<and> t \<noteq> 0 then resolved s' \<and> succeeded s' else True) \<and> (if created = None then \<not> ok else True)"
proof -
  obtain r b where b: "startThread created now 0 [] (base (reset s)) = Some (r, b)" "created = None \<longrightarrow> \<not> r"
    using base_start_returns by blast
  show ?thesis
  proof (cases r)
    case True
    then have "wait t ws (set_base b (reset s)) = Some (ok, s')"
      using start_made b(1) assms by simp
    then show ?thesis using wait_answer [of t ws _ ok s'] b(2) True by auto
  next
    case False
    then show ?thesis using start_refused b(1) assms by simp
  qed
qed

lemma start_returns:
  assumes "\<exists>x \<in> set ws. is_timeout x"
  shows "start created now t ws s \<noteq> None"
proof -
  obtain r b where b: "startThread created now 0 [] (base (reset s)) = Some (r, b)"
    using base_start_returns by blast
  show ?thesis
  proof (cases r)
    case True
    then have e: "start created now t ws s = wait t ws (set_base b (reset s))"
      using start_made b by simp
    have "cv_wait_for resolved (set_base b (reset s)) ws \<noteq> None"
      using cv_wait_for_returns [OF assms, of resolved] by fastforce
    then show ?thesis unfolding e using wait_returns wait_zero by (cases "t = 0") auto
  next
    case False
    then show ?thesis using start_refused b by simp
  qed
qed

lemma start_running_refused:
  assumes "isRunning (base s)"
  shows "\<exists>s'. start created now t ws s = Some (False, s') \<and> base s' = base s \<and> \<not> resolved s'
    \<and> port s' = 0 \<and> error_text s' = []"
proof -
  have "startThread created now 0 [] (base (reset s)) = Some (False, base s)"
    using assms by (auto simp: base_reset isRunning_def getState_def startThread_def
        startThread_locked_def joinFinishedThread_def takeFinishedThread_def Let_def)
  from start_refused [OF this] show ?thesis
    using base_set set_base_latch reset_pending by metis
qed

lemma start_contract:
  "case start created now t ws s of
     None \<Rightarrow> \<not> (\<exists>x \<in> set ws. is_timeout x)
   | Some (ok, s') \<Rightarrow>
       (if ok \<and> t \<noteq> 0 then resolved s' \<and> succeeded s' else True)
       \<and> (if created = None then \<not> ok else True)
       \<and> (if isRunning (base s)
          then \<not> ok \<and> base s' = base s \<and> \<not> resolved s' \<and> port s' = 0 \<and> error_text s' = [] else True)"
proof (cases "start created now t ws s")
  case None
  then have "\<not> (\<exists>x \<in> set ws. is_timeout x)"
    using start_returns [of ws created now t s] by blast
  then show ?thesis unfolding None by simp
next
  case (Some r)
  obtain ok s' where r: "r = (ok, s')" by fastforce
  have "if isRunning (base s)
      then \<not> ok \<and> base s' = base s \<and> \<not> resolved s' \<and> port s' = 0 \<and> error_text s' = [] else True"
    using start_running_refused [of s created now t ws] Some r by auto
  then show ?thesis using start_answer [OF Some [unfolded r]] Some r by simp
qed

end

end
