(* ===== verification/HttpText.thy ===== *)
theory HttpText
  imports Prelude
begin

text \<open>
  The text helpers that the HTTP classes define in their anonymous namespaces: trimming, comparing
  header names, and the response writer, from \<open>cHTTPServer.cpp\<close>. \<open>HttpClient\<close> has the client's own
  versions and \<open>HttpsServer\<close> the HTTPS server's. The table of status codes is the server library's:
  the parameter \<open>status_code\<close>, empty for a code it does not know.
\<close>

section \<open>Fields\<close>

record st_Field =
  fld_name :: string
  fld_value :: string

type_synonym td_Fields = "st_Field list"

definition Field :: "string \<Rightarrow> string \<Rightarrow> st_Field" where
  "Field name value = \<lparr>fld_name = name, fld_value = value\<rparr>"

definition trimCopy :: "string \<Rightarrow> string" where
  "trimCopy value =
     (let front_erased = dropWhile c_isspace value in rev (dropWhile c_isspace (rev front_erased)))"

definition normalizeMethod :: "string \<Rightarrow> string" where
  "normalizeMethod method = map c_toupper (trimCopy method)"

function iequals_loop :: "nat \<Rightarrow> string \<Rightarrow> string \<Rightarrow> bool" where
  "iequals_loop index lhs rhs =
     (if index < length lhs then
        if c_tolower (lhs ! index) \<noteq> c_tolower (rhs ! index) then False
        else iequals_loop (Suc index) lhs rhs
      else True)"
  by pat_completeness auto
termination by (relation "measure (\<lambda>(i, l, r). length l - i)") auto

declare iequals_loop.simps [simp del]

definition iequals :: "string \<Rightarrow> string \<Rightarrow> bool" where
  "iequals lhs rhs \<longleftrightarrow> (if length lhs \<noteq> length rhs then False else iequals_loop 0 lhs rhs)"

definition hasHeader :: "td_Fields \<Rightarrow> string \<Rightarrow> bool" where
  "hasHeader headers headerName \<longleftrightarrow> list_ex (\<lambda>header. iequals (fld_name header) headerName) headers"

text \<open>\<open>copyFields\<close>, from the entries of the library's multimap in iteration order.\<close>

fun copyFields :: "(string \<times> string) list \<Rightarrow> td_Fields" where
  "copyFields [] = []"
| "copyFields (entry # entries) = Field (fst entry) (snd entry) # copyFields entries"

section \<open>The response writer\<close>

definition CR :: char where "CR = CHR 0x0D"
definition LF :: char where "LF = CHR 0x0A"
abbreviation CRLF :: string where "CRLF \<equiv> [CR, LF]"

definition makeStatusLine :: "(u16 \<Rightarrow> string) \<Rightarrow> u16 \<Rightarrow> string" where
  "makeStatusLine status_code statusCode =
     (let mapped = status_code statusCode in
      if mapped \<noteq> [] then mapped else to_string (unat statusCode))"

fun writeHeaders :: "td_Fields \<Rightarrow> string" where
  "writeHeaders [] = []"
| "writeHeaders (header # headers) =
     (if fld_name header = [] then writeHeaders headers
      else fld_name header @ '': '' @ fld_value header @ CRLF @ writeHeaders headers)"

text \<open>What is put on the response's stream; \<open>None\<close> is a null response.\<close>

definition writeResponse ::
  "(u16 \<Rightarrow> string) \<Rightarrow> string option \<Rightarrow> u16 \<Rightarrow> string \<Rightarrow> td_Fields \<Rightarrow> string option" where
  "writeResponse status_code response statusCode body headers =
     (case response of
        None \<Rightarrow> None
      | Some out \<Rightarrow>
          Some (out @ ''HTTP/1.1 '' @ makeStatusLine status_code statusCode @ CRLF
            @ writeHeaders headers
            @ (if \<not> hasHeader headers ''Content-Length''
               then ''Content-Length: '' @ to_string (length body) @ CRLF else [])
            @ CRLF @ (if body \<noteq> [] then body else [])))"

section \<open>Lemmas\<close>

lemma iequals_loop_iff:
  "length lhs = length rhs \<Longrightarrow>
   iequals_loop i lhs rhs \<longleftrightarrow> (\<forall>j. i \<le> j \<and> j < length lhs \<longrightarrow> c_tolower (lhs ! j) = c_tolower (rhs ! j))"
proof (induction i lhs rhs rule: iequals_loop.induct)
  case (1 i lhs rhs)
  show ?case
  proof (cases "i < length lhs \<and> c_tolower (lhs ! i) = c_tolower (rhs ! i)")
    case True
    then have "iequals_loop i lhs rhs = iequals_loop (Suc i) lhs rhs"
      by (subst iequals_loop.simps) simp
    moreover have "(\<forall>j. Suc i \<le> j \<and> j < length lhs \<longrightarrow> c_tolower (lhs ! j) = c_tolower (rhs ! j))
        = (\<forall>j. i \<le> j \<and> j < length lhs \<longrightarrow> c_tolower (lhs ! j) = c_tolower (rhs ! j))"
      using True by (metis Suc_leI le_neq_implies_less Suc_leD)
    ultimately show ?thesis using 1 True by simp
  next
    case False
    then show ?thesis by (subst iequals_loop.simps) auto
  qed
qed

lemma iequals_iff: "iequals lhs rhs \<longleftrightarrow> map c_tolower lhs = map c_tolower rhs"
  by (auto simp: iequals_def iequals_loop_iff list_eq_iff_nth_eq)

lemma hasHeader_iff:
  "hasHeader headers n \<longleftrightarrow> (\<exists>h \<in> set headers. map c_tolower (fld_name h) = map c_tolower n)"
  by (simp add: hasHeader_def list_ex_iff iequals_iff)

lemma dropWhile_rev_dropWhile:
  "dropWhile P (rev (dropWhile P (rev (dropWhile P xs)))) = rev (dropWhile P (rev (dropWhile P xs)))"
proof (cases "dropWhile P xs")
  case Nil
  show ?thesis unfolding Nil by simp
next
  case (Cons y ys)
  then have y: "\<not> P y" by (metis dropWhile_eq_Cons_conv)
  have "rev (dropWhile P (rev (y # ys))) = y # rev (dropWhile P (rev ys))"
    using y by (simp add: dropWhile_append2 dropWhile_append)
  then show ?thesis using Cons y by simp
qed

lemma trimCopy_idem [simp]: "trimCopy (trimCopy v) = trimCopy v"
  by (simp add: trimCopy_def dropWhile_rev_dropWhile)

lemma trimCopy_map:
  "(\<And>c. c_isspace (f c) = c_isspace c) \<Longrightarrow> trimCopy (map f v) = map f (trimCopy v)"
  by (simp add: trimCopy_def dropWhile_map_same rev_map)

lemma normalizeMethod_idem [simp]: "normalizeMethod (normalizeMethod m) = normalizeMethod m"
  by (simp add: normalizeMethod_def trimCopy_map comp_def)

text \<open>Where a recipient ends the head: at the first empty line.\<close>

fun http_split :: "string \<Rightarrow> (string \<times> string) option" where
  "http_split [] = None"
| "http_split (c # cs) =
     (if take 4 (c # cs) = CRLF @ CRLF then Some ([], drop 4 (c # cs))
      else (case http_split cs of None \<Rightarrow> None | Some (h, b) \<Rightarrow> Some (c # h, b)))"

lemma CR_LF [simp]: "CR \<noteq> LF" "LF \<noteq> CR"
  by (simp_all add: CR_def LF_def)

lemma http_split_line:
  "CR \<notin> set l \<Longrightarrow> http_split (l @ s) = (case http_split s of None \<Rightarrow> None | Some (h, b) \<Rightarrow> Some (l @ h, b))"
  by (induction l) (auto split: option.splits)

lemma http_split_next:
  "c \<noteq> CR \<Longrightarrow> http_split (CRLF @ c # s) =
    (case http_split (c # s) of None \<Rightarrow> None | Some (h, b) \<Rightarrow> Some (CRLF @ h, b))"
  by (cases s) (auto split: option.splits)

lemma http_split_end: "http_split (CRLF @ CRLF @ body) = Some ([], body)"
  by simp

fun crlf_lines :: "string list \<Rightarrow> string" where
  "crlf_lines [] = []"
| "crlf_lines (l # ls) = CR # LF # l @ crlf_lines ls"

lemma crlf_lines_append [simp]: "crlf_lines (as @ bs) = crlf_lines as @ crlf_lines bs"
  by (induction as) auto

lemma http_split_lines:
  assumes "\<forall>l \<in> set ls. l \<noteq> [] \<and> CR \<notin> set l"
  shows "http_split (crlf_lines ls @ CRLF @ CRLF @ body)
    = Some (crlf_lines ls, body)"
  using assms
proof (induction ls)
  case (Cons l ls)
  then obtain c l' where l: "l = c # l'" "c \<noteq> CR" by (cases l) auto
  let ?rest = "crlf_lines ls"
  have "http_split ((CRLF @ l @ ?rest) @ CRLF @ CRLF @ body)
      = (case http_split (l @ ?rest @ CRLF @ CRLF @ body) of None \<Rightarrow> None | Some (h, b) \<Rightarrow> Some (CRLF @ h, b))"
    using http_split_next [OF l(2), of "l' @ ?rest @ CRLF @ CRLF @ body"] l(1) by simp
  also have "\<dots> = Some (CRLF @ l @ ?rest, body)"
    using Cons http_split_line [of l "?rest @ CRLF @ CRLF @ body"] by simp
  finally show ?case by simp
qed simp

end
