(* ===== verification/HttpServer.thy ===== *)
theory HttpServer
  imports StartContract HttpText
begin

text \<open>
  \<open>cHTTPServer\<close> (\<open>cHTTPServer.h\<close>, \<open>cHTTPServer.cpp\<close>): the HTTP server as a \<open>cBaseWorker_V2\<close> around the
  third-party Simple-Web-Server. Of that library the model has what the code sets and reads: the
  configuration, the two tables of handlers, \<open>on_error\<close>; \<open>start()\<close> is a parameter of \<open>run\<close>, the port it
  reports and how it ends, and \<open>status_code\<close> one of the response writer.

  A user's request handler is a function of the request snapshot to the calls it makes on its
  \<open>cResponse\<close> (copies of the response object included) and the exception it ends with, if any; an error
  handler is a function to the exception it throws, if any. Each operation below is one critical
  section of \<open>m_impl->mutex\<close>.
\<close>

section \<open>Requests\<close>

text \<open>The library's request, as far as the snapshot reads it: an endpoint is a pair of a text (\<open>None\<close> when
  \<open>to_string\<close> throws) and a port.\<close>

record lib_request =
  lr_method :: string
  lr_path :: string
  lr_query_string :: string
  lr_http_version :: string
  lr_content :: string
  lr_header :: "(string \<times> string) list"
  lr_query_fields :: "(string \<times> string) list"
  lr_path_match :: "string list"
  lr_remote_endpoint :: "string option \<times> u16"
  lr_local_endpoint :: "string option \<times> u16"

record st_Request =
  rq_method :: string
  rq_path :: string
  rq_queryString :: string
  rq_httpVersion :: string
  rq_body :: string
  rq_headers :: td_Fields
  rq_queryFields :: td_Fields
  rq_pathMatch :: "string list"
  rq_remoteAddress :: string
  rq_remotePort :: u16
  rq_localAddress :: string
  rq_localPort :: u16

definition rq_default :: st_Request where
  "rq_default =
     \<lparr>rq_method = [], rq_path = [], rq_queryString = [], rq_httpVersion = [], rq_body = [],
      rq_headers = [], rq_queryFields = [], rq_pathMatch = [], rq_remoteAddress = [], rq_remotePort = 0,
      rq_localAddress = [], rq_localPort = 0\<rparr>"

definition endpointAddressToString :: "string option \<times> u16 \<Rightarrow> string" where
  "endpointAddressToString endpoint = (case fst endpoint of Some text \<Rightarrow> text | None \<Rightarrow> [])"

definition makeRequestSnapshot :: "lib_request option \<Rightarrow> st_Request" where
  "makeRequestSnapshot request =
     (case request of
        None \<Rightarrow> rq_default
      | Some r \<Rightarrow>
          rq_default
            \<lparr>rq_method := lr_method r, rq_path := lr_path r, rq_queryString := lr_query_string r,
             rq_httpVersion := lr_http_version r, rq_body := lr_content r,
             rq_headers := copyFields (lr_header r), rq_queryFields := copyFields (lr_query_fields r),
             rq_pathMatch := lr_path_match r,
             rq_remoteAddress := endpointAddressToString (lr_remote_endpoint r),
             rq_remotePort := snd (lr_remote_endpoint r),
             rq_localAddress := endpointAddressToString (lr_local_endpoint r),
             rq_localPort := snd (lr_local_endpoint r)\<rparr>)"

section \<open>Responses\<close>

text \<open>The shared \<open>st_State\<close> of a \<open>cResponse\<close>: whether an answer was given, how many copies share it, and
  the library's response that the writer puts the answer on. A default-constructed \<open>cResponse\<close> has none
  (\<open>None\<close>).\<close>

record response_state =
  rs_responded :: bool
  rs_use_count :: nat
  rs_response :: "string option"

type_synonym cResponse = "response_state option"

definition cr_make :: "string option \<Rightarrow> cResponse" where
  "cr_make response = Some \<lparr>rs_responded = False, rs_use_count = 1, rs_response = response\<rparr>"

definition cr_write :: "(u16 \<Rightarrow> string) \<Rightarrow> u16 \<Rightarrow> string \<Rightarrow> td_Fields \<Rightarrow> cResponse \<Rightarrow> cResponse" where
  "cr_write status_code statusCode body headers r =
     (case r of
        None \<Rightarrow> None
      | Some st \<Rightarrow>
          let alreadyResponded = rs_responded st; st1 = st\<lparr>rs_responded := True\<rparr> in
          if alreadyResponded then Some st1
          else Some (st1\<lparr>rs_response := writeResponse status_code (rs_response st1) statusCode body headers\<rparr>))"

definition cr_write_body :: "(u16 \<Rightarrow> string) \<Rightarrow> string \<Rightarrow> cResponse \<Rightarrow> cResponse" where
  "cr_write_body status_code body r = cr_write status_code 200 body [] r"

definition cr_write_headers :: "(u16 \<Rightarrow> string) \<Rightarrow> u16 \<Rightarrow> td_Fields \<Rightarrow> cResponse \<Rightarrow> cResponse" where
  "cr_write_headers status_code statusCode headers r = cr_write status_code statusCode [] headers r"

definition cr_redirect :: "(u16 \<Rightarrow> string) \<Rightarrow> string \<Rightarrow> u16 \<Rightarrow> cResponse \<Rightarrow> cResponse" where
  "cr_redirect status_code location statusCode r =
     cr_write status_code statusCode [] [Field ''Location'' location] r"

definition cr_valid :: "cResponse \<Rightarrow> bool" where
  "cr_valid r \<longleftrightarrow> r \<noteq> None"

definition cr_copy :: "cResponse \<Rightarrow> cResponse" where
  "cr_copy r = map_option (rs_use_count_update Suc) r"

text \<open>The destructor, and the release of its share of the state.\<close>

definition cr_destroy :: "(u16 \<Rightarrow> string) \<Rightarrow> cResponse \<Rightarrow> cResponse" where
  "cr_destroy status_code r =
     (let r1 = (case r of
                  None \<Rightarrow> None
                | Some st \<Rightarrow>
                    if \<not> rs_responded st \<and> rs_use_count st = 1
                    then cr_write_headers status_code 204 [] r else r)
      in map_option (rs_use_count_update (\<lambda>n. n - 1)) r1)"

text \<open>What user code can do with it.\<close>

datatype cr_call =
    Call_write u16 string td_Fields
  | Call_write_body string
  | Call_write_headers u16 td_Fields
  | Call_redirect string u16
  | Call_copy
  | Call_destroy

fun cr_apply :: "(u16 \<Rightarrow> string) \<Rightarrow> cr_call \<Rightarrow> cResponse \<Rightarrow> cResponse" where
  "cr_apply sc (Call_write statusCode body headers) r = cr_write sc statusCode body headers r"
| "cr_apply sc (Call_write_body body) r = cr_write_body sc body r"
| "cr_apply sc (Call_write_headers statusCode headers) r = cr_write_headers sc statusCode headers r"
| "cr_apply sc (Call_redirect location statusCode) r = cr_redirect sc location statusCode r"
| "cr_apply sc Call_copy r = cr_copy r"
| "cr_apply sc Call_destroy r = cr_destroy sc r"

section \<open>The server object\<close>

type_synonym td_RequestHandler = "st_Request \<Rightarrow> cr_call list \<times> cpp_exn option"
type_synonym td_ErrorHandler = "st_Request \<Rightarrow> int \<Rightarrow> string \<Rightarrow> cpp_exn option"

record st_Route =
  rt_pathRegex :: string
  rt_method :: string
  rt_handler :: td_RequestHandler

text \<open>A handler as it is installed in the library: the closure's captures, and which of the two lambdas
  of \<open>preRun\<close> it is.\<close>

record installed =
  in_handler :: td_RequestHandler
  in_errorHandler :: "td_ErrorHandler option"
  in_default :: bool

record lib_server =
  sv_port :: u16
  sv_address :: string
  sv_thread_pool_size :: nat
  sv_reuse_address :: bool
  sv_fast_open :: bool
  sv_timeout_request :: int
  sv_timeout_content :: int
  sv_max_request_streambuf_size :: nat
  sv_resource :: "string \<Rightarrow> string \<Rightarrow> installed option"
  sv_default_resource :: "string \<Rightarrow> installed option"
  sv_on_error :: "td_ErrorHandler option"

record http_server =
  hb_base :: base_worker
  hi_resources :: "st_Route list"
  hi_defaultResources :: "st_Route list"
  hi_errorHandler :: "td_ErrorHandler option"
  hi_server :: "lib_server option"
  hi_bindAddress :: string
  hi_configuredPort :: u16
  hi_listeningPort :: u16
  hi_threadPoolSize :: nat
  hi_reuseAddress :: bool
  hi_fastOpen :: bool
  hi_requestTimeoutSeconds :: int
  hi_contentTimeoutSeconds :: int
  hi_maxRequestSize :: nat
  hi_startResolved :: bool
  hi_startSucceeded :: bool
  hi_lastError :: string

definition ht_new :: "string \<Rightarrow> u16 \<Rightarrow> string \<Rightarrow> nat \<Rightarrow> int \<Rightarrow> http_server" where
  "ht_new name port bindAddress threadPoolSize now =
     \<lparr>hb_base = bw_new name now, hi_resources = [], hi_defaultResources = [], hi_errorHandler = None,
      hi_server = None, hi_bindAddress = bindAddress, hi_configuredPort = port, hi_listeningPort = 0,
      hi_threadPoolSize = (if threadPoolSize = 0 then 1 else threadPoolSize),
      hi_reuseAddress = True, hi_fastOpen = False, hi_requestTimeoutSeconds = 5,
      hi_contentTimeoutSeconds = 300, hi_maxRequestSize = size_max, hi_startResolved = False,
      hi_startSucceeded = False, hi_lastError = []\<rparr>"

section \<open>The start latch and the last error\<close>

definition ht_resetStartState :: "http_server \<Rightarrow> http_server" where
  "ht_resetStartState s =
     s\<lparr>hi_startResolved := False, hi_startSucceeded := False, hi_listeningPort := 0, hi_lastError := []\<rparr>"

definition ht_resolveStartIfPending :: "bool \<Rightarrow> u16 \<Rightarrow> string \<Rightarrow> http_server \<Rightarrow> http_server" where
  "ht_resolveStartIfPending success port errorMessage s =
     (if hi_startResolved s then
        (if errorMessage \<noteq> [] then s\<lparr>hi_lastError := errorMessage\<rparr> else s)
      else s\<lparr>hi_startResolved := True, hi_startSucceeded := success,
             hi_listeningPort := (if success then port else 0), hi_lastError := errorMessage\<rparr>)"

definition ht_setLastError :: "string \<Rightarrow> http_server \<Rightarrow> http_server" where
  "ht_setLastError errorMessage s = s\<lparr>hi_lastError := errorMessage\<rparr>"

interpretation ht_latch: start_latch ht_resetStartState ht_resolveStartIfPending hi_startResolved
  hi_startSucceeded hi_listeningPort hi_lastError
  by unfold_locales (simp_all add: ht_resetStartState_def ht_resolveStartIfPending_def)

section \<open>Configuration\<close>

definition ht_isRunning :: "http_server \<Rightarrow> bool" where
  "ht_isRunning s \<longleftrightarrow> isRunning (hb_base s)"

definition addResource ::
  "string \<Rightarrow> string \<Rightarrow> td_RequestHandler option \<Rightarrow> http_server \<Rightarrow> bool \<times> http_server" where
  "addResource pathRegex method handler s =
     (let normalizedMethod = normalizeMethod method in
      case handler of
        None \<Rightarrow> (False, s)
      | Some h \<Rightarrow>
          if pathRegex = [] \<or> normalizedMethod = [] \<or> ht_isRunning s then (False, s)
          else (True, s\<lparr>hi_resources :=
            upsert (\<lambda>route. rt_pathRegex route = pathRegex \<and> rt_method route = normalizedMethod)
              (rt_handler_update (\<lambda>_. h))
              \<lparr>rt_pathRegex = pathRegex, rt_method = normalizedMethod, rt_handler = h\<rparr>
              (hi_resources s)\<rparr>))"

definition setDefaultResource ::
  "string \<Rightarrow> td_RequestHandler option \<Rightarrow> http_server \<Rightarrow> bool \<times> http_server" where
  "setDefaultResource method handler s =
     (let normalizedMethod = normalizeMethod method in
      case handler of
        None \<Rightarrow> (False, s)
      | Some h \<Rightarrow>
          if normalizedMethod = [] \<or> ht_isRunning s then (False, s)
          else (True, s\<lparr>hi_defaultResources :=
            upsert (\<lambda>route. rt_method route = normalizedMethod) (rt_handler_update (\<lambda>_. h))
              \<lparr>rt_pathRegex = [], rt_method = normalizedMethod, rt_handler = h\<rparr>
              (hi_defaultResources s)\<rparr>))"

definition setErrorHandler :: "td_ErrorHandler option \<Rightarrow> http_server \<Rightarrow> http_server" where
  "setErrorHandler handler s = (if ht_isRunning s then s else s\<lparr>hi_errorHandler := handler\<rparr>)"

definition clearErrorHandler :: "http_server \<Rightarrow> http_server" where
  "clearErrorHandler s = (if ht_isRunning s then s else s\<lparr>hi_errorHandler := None\<rparr>)"

definition setBindAddress :: "string \<Rightarrow> http_server \<Rightarrow> http_server" where
  "setBindAddress bindAddress s = (if ht_isRunning s then s else s\<lparr>hi_bindAddress := bindAddress\<rparr>)"

definition setPort :: "u16 \<Rightarrow> http_server \<Rightarrow> http_server" where
  "setPort port s = (if ht_isRunning s then s else s\<lparr>hi_configuredPort := port\<rparr>)"

definition setThreadPoolSize :: "nat \<Rightarrow> http_server \<Rightarrow> http_server" where
  "setThreadPoolSize threadPoolSize s =
     (if ht_isRunning s then s
      else s\<lparr>hi_threadPoolSize := (if threadPoolSize = 0 then 1 else threadPoolSize)\<rparr>)"

definition setReuseAddress :: "bool \<Rightarrow> http_server \<Rightarrow> http_server" where
  "setReuseAddress reuseAddress s = (if ht_isRunning s then s else s\<lparr>hi_reuseAddress := reuseAddress\<rparr>)"

definition setFastOpen :: "bool \<Rightarrow> http_server \<Rightarrow> http_server" where
  "setFastOpen fastOpen s = (if ht_isRunning s then s else s\<lparr>hi_fastOpen := fastOpen\<rparr>)"

definition setRequestTimeoutSeconds :: "int \<Rightarrow> http_server \<Rightarrow> http_server" where
  "setRequestTimeoutSeconds timeoutSeconds s =
     (if ht_isRunning s then s else s\<lparr>hi_requestTimeoutSeconds := max 0 timeoutSeconds\<rparr>)"

definition setContentTimeoutSeconds :: "int \<Rightarrow> http_server \<Rightarrow> http_server" where
  "setContentTimeoutSeconds timeoutSeconds s =
     (if ht_isRunning s then s else s\<lparr>hi_contentTimeoutSeconds := max 0 timeoutSeconds\<rparr>)"

definition setMaxRequestSize :: "nat \<Rightarrow> http_server \<Rightarrow> http_server" where
  "setMaxRequestSize maxRequestSize s =
     (if ht_isRunning s then s
      else s\<lparr>hi_maxRequestSize := (if maxRequestSize = 0 then size_max else maxRequestSize)\<rparr>)"

text \<open>The getters of the class.\<close>

definition ht_bindAddress :: "http_server \<Rightarrow> string" where
  "ht_bindAddress s = hi_bindAddress s"

definition ht_configuredPort :: "http_server \<Rightarrow> u16" where
  "ht_configuredPort s = hi_configuredPort s"

definition ht_threadPoolSize :: "http_server \<Rightarrow> nat" where
  "ht_threadPoolSize s = hi_threadPoolSize s"

definition ht_listeningPort :: "http_server \<Rightarrow> u16" where
  "ht_listeningPort s = hi_listeningPort s"

definition ht_lastError :: "http_server \<Rightarrow> string" where
  "ht_lastError s = hi_lastError s"

section \<open>Handling a request\<close>

text \<open>The lambda that \<open>preRun\<close> installs for a route. The result is the exception that leaves it, if any,
  the server and the response; the local \<open>wrappedResponse\<close> is destroyed on every way out.\<close>

definition default_message :: "bool \<Rightarrow> string" where
  "default_message in_default_table =
     (if in_default_table then ''Unhandled default handler exception''
      else ''Unhandled request handler exception'')"

definition exn_message :: "bool \<Rightarrow> cpp_exn \<Rightarrow> string" where
  "exn_message in_default_table e =
     (case e of StdException what \<Rightarrow> what | OtherException \<Rightarrow> default_message in_default_table)"

definition ht_updateHeartbeat :: "int \<Rightarrow> http_server \<Rightarrow> http_server" where
  "ht_updateHeartbeat now s = s\<lparr>hb_base := updateHeartbeat 1000000 now (hb_base s)\<rparr>"

definition handleRequest ::
  "(u16 \<Rightarrow> string) \<Rightarrow> installed \<Rightarrow> int \<Rightarrow> lib_request option \<Rightarrow> string option \<Rightarrow> http_server
     \<Rightarrow> cpp_exn option \<times> http_server \<times> cResponse" where
  "handleRequest status_code i now request response s =
     (let s1 = ht_updateHeartbeat now s;
          requestSnapshot = makeRequestSnapshot request;
          wrappedResponse = cr_make response
      in case in_handler i requestSnapshot of
           (calls, thrown) \<Rightarrow>
             let r1 = fold (cr_apply status_code) calls wrappedResponse in
             (case thrown of
                None \<Rightarrow> (None, s1, cr_destroy status_code r1)
              | Some e \<Rightarrow>
                  let message = exn_message (in_default i) e; s2 = ht_setLastError message s1 in
                  (case (case in_errorHandler i of
                           None \<Rightarrow> None | Some errorHandler \<Rightarrow> errorHandler requestSnapshot (-1) message) of
                     Some e' \<Rightarrow> (Some e', s2, cr_destroy status_code r1)
                   | None \<Rightarrow>
                       (None, s2, cr_destroy status_code
                         (cr_write status_code 500 message
                            [Field ''Content-Type'' ''text/plain; charset=utf-8''] r1)))))"

text \<open>The \<open>on_error\<close> lambda.\<close>

definition handleError ::
  "td_ErrorHandler option \<Rightarrow> int \<Rightarrow> lib_request option \<Rightarrow> int \<Rightarrow> string \<Rightarrow> http_server
     \<Rightarrow> cpp_exn option \<times> http_server" where
  "handleError errorHandler now request errorValue message s =
     (let s1 = ht_setLastError message (ht_updateHeartbeat now s) in
      case errorHandler of
        None \<Rightarrow> (None, s1)
      | Some h \<Rightarrow> (h (makeRequestSnapshot request) errorValue message, s1))"

section \<open>Life cycle\<close>

fun installResources ::
  "td_ErrorHandler option \<Rightarrow> st_Route list \<Rightarrow> (string \<Rightarrow> string \<Rightarrow> installed option)
     \<Rightarrow> string \<Rightarrow> string \<Rightarrow> installed option" where
  "installResources errorHandler [] table = table"
| "installResources errorHandler (route # routes) table =
     installResources errorHandler routes
       (table(rt_pathRegex route := (table (rt_pathRegex route))
          (rt_method route \<mapsto>
             \<lparr>in_handler = rt_handler route, in_errorHandler = errorHandler, in_default = False\<rparr>)))"

fun installDefaults ::
  "td_ErrorHandler option \<Rightarrow> st_Route list \<Rightarrow> (string \<Rightarrow> installed option)
     \<Rightarrow> string \<Rightarrow> installed option" where
  "installDefaults errorHandler [] table = table"
| "installDefaults errorHandler (route # routes) table =
     installDefaults errorHandler routes
       (table(rt_method route \<mapsto>
          \<lparr>in_handler = rt_handler route, in_errorHandler = errorHandler, in_default = True\<rparr>))"

text \<open>\<open>thrown\<close> is the exception that building or configuring the library's server ends with, if any.\<close>

definition ht_preRun :: "cpp_exn option \<Rightarrow> http_server \<Rightarrow> bool \<times> http_server" where
  "ht_preRun thrown s =
     (case thrown of
        None \<Rightarrow>
          (True, s\<lparr>hi_server := Some
             \<lparr>sv_port = hi_configuredPort s, sv_address = hi_bindAddress s,
              sv_thread_pool_size = hi_threadPoolSize s, sv_reuse_address = hi_reuseAddress s,
              sv_fast_open = hi_fastOpen s, sv_timeout_request = hi_requestTimeoutSeconds s,
              sv_timeout_content = hi_contentTimeoutSeconds s,
              sv_max_request_streambuf_size = hi_maxRequestSize s,
              sv_resource = installResources (hi_errorHandler s) (hi_resources s) (\<lambda>_ _. None),
              sv_default_resource = installDefaults (hi_errorHandler s) (hi_defaultResources s) (\<lambda>_. None),
              sv_on_error = hi_errorHandler s\<rparr>\<rparr>)
      | Some e \<Rightarrow>
          (False, (ht_resolveStartIfPending False 0
             (case e of StdException what \<Rightarrow> what | OtherException \<Rightarrow> ''Failed to initialize HTTP server'') s)
             \<lparr>hi_server := None\<rparr>))"

text \<open>\<open>server->start(callback)\<close>: the port it calls back with, if it gets that far, what other threads do
  to the object until it ends, and the exception it ends with, if any.\<close>

record lib_start =
  ls_port :: "u16 option"
  ls_meanwhile :: "http_server \<Rightarrow> http_server"
  ls_thrown :: "cpp_exn option"

definition ht_run :: "lib_start \<Rightarrow> int \<Rightarrow> http_server \<Rightarrow> (cpp_exn + unit) \<times> http_server" where
  "ht_run start now s =
     (case hi_server s of
        None \<Rightarrow> (Inr (), ht_resolveStartIfPending False 0 ''HTTP server is not initialized'' s)
      | Some server \<Rightarrow>
          let s1 = (case ls_port start of
                      None \<Rightarrow> s
                    | Some port \<Rightarrow> ht_resolveStartIfPending True port [] (ht_updateHeartbeat now s));
              s2 = ls_meanwhile start s1
          in (case ls_thrown start of
                None \<Rightarrow>
                  (Inr (), (ht_resolveStartIfPending False 0
                     (if stopRequested (hb_base s2) then ''HTTP server stopped''
                      else ''HTTP server exited unexpectedly'') s2)\<lparr>hi_server := None\<rparr>)
              | Some (StdException what) \<Rightarrow>
                  (Inl (StdException what), ht_resolveStartIfPending False 0 what s2)
              | Some OtherException \<Rightarrow>
                  (Inl OtherException, ht_resolveStartIfPending False 0 ''Unhandled HTTP server exception'' s2)))"

text \<open>\<open>stopTriggered\<close>; the flag tells whether \<open>stop()\<close> of the library's server is called.\<close>

definition ht_stopTriggered :: "http_server \<Rightarrow> bool \<times> http_server" where
  "ht_stopTriggered s =
     (hi_server s \<noteq> None, ht_resolveStartIfPending False 0 ''HTTP server stop requested'' s)"

definition ht_requestStop :: "http_server \<Rightarrow> http_server" where
  "ht_requestStop s =
     (case requestStop (hb_base s) of
        (shouldTriggerStop, b) \<Rightarrow>
          if shouldTriggerStop then snd (ht_stopTriggered (s\<lparr>hb_base := b\<rparr>)) else s\<lparr>hb_base := b\<rparr>)"

definition ht_waitUntilListening :: "int \<Rightarrow> http_server wake list \<Rightarrow> http_server \<Rightarrow> (bool \<times> http_server) option" where
  "ht_waitUntilListening timeout wakes s =
     (if timeout = 0 then Some (True, s)
      else (case cv_wait_for hi_startResolved s wakes of
              None \<Rightarrow> None
            | Some (completed, s1) \<Rightarrow>
                if \<not> completed then Some (False, s1) else Some (hi_startSucceeded s1, s1)))"

definition ht_startThread ::
  "nat option \<Rightarrow> int \<Rightarrow> int \<Rightarrow> http_server wake list \<Rightarrow> http_server \<Rightarrow> (bool \<times> http_server) option" where
  "ht_startThread created now timeout wakes s =
     (let s1 = ht_resetStartState s in
      case startThread created now 0 [] (hb_base s1) of
        None \<Rightarrow> None
      | Some (False, b) \<Rightarrow> Some (False, s1\<lparr>hb_base := b\<rparr>)
      | Some (True, b) \<Rightarrow> ht_waitUntilListening timeout wakes (s1\<lparr>hb_base := b\<rparr>))"

definition ht_startThread_ms ::
  "nat option \<Rightarrow> int \<Rightarrow> u16 \<Rightarrow> http_server wake list \<Rightarrow> http_server \<Rightarrow> (bool \<times> http_server) option" where
  "ht_startThread_ms created now timeout wakes s = ht_startThread created now (uint timeout) wakes s"

text \<open>Starting follows the contract.\<close>

interpretation ht_start: latched_server ht_resetStartState ht_resolveStartIfPending hi_startResolved hi_startSucceeded
  hi_listeningPort hi_lastError hb_base "\<lambda>b. hb_base_update (\<lambda>_. b)" ht_waitUntilListening ht_startThread
proof unfold_locales
  fix t ws s ok s'
  assume "t \<noteq> 0" and "ht_waitUntilListening t ws s = Some (ok, s')"
  then show "ok = (hi_startResolved s' \<and> hi_startSucceeded s')"
    by (auto simp: ht_waitUntilListening_def dest!: cv_wait_for_result split: option.splits if_splits)
qed (auto simp: ht_resetStartState_def ht_waitUntilListening_def ht_startThread_def Let_def split: option.splits)

lemmas ht_config_defs =
  setErrorHandler_def clearErrorHandler_def setBindAddress_def setPort_def setThreadPoolSize_def
  setReuseAddress_def setFastOpen_def setRequestTimeoutSeconds_def setContentTimeoutSeconds_def
  setMaxRequestSize_def

lemmas cr_defs =
  cr_make_def cr_write_def cr_write_body_def cr_write_headers_def cr_redirect_def cr_copy_def
  cr_destroy_def

end
