(* ===== verification/HttpServerProofs.thy ===== *)
theory HttpServerProofs
  imports HttpServer
begin

text \<open>
  What \<open>cHTTPServer\<close> promises: responses are framed so that the body is what was written, every request
  is answered once, the routes served are the ones registered last, settings stay in range and fixed
  while the server runs, and a start is reported once.
\<close>

section \<open>Framing\<close>

definition no_CR :: "td_Fields \<Rightarrow> bool" where
  "no_CR headers \<longleftrightarrow>
     (\<forall>h \<in> set headers. fld_name h \<noteq> [] \<longrightarrow> CR \<notin> set (fld_name h) \<and> CR \<notin> set (fld_value h))"

definition header_lines :: "td_Fields \<Rightarrow> string list" where
  "header_lines headers =
     map (\<lambda>h. fld_name h @ '': '' @ fld_value h) (filter (\<lambda>h. fld_name h \<noteq> []) headers)"

definition length_line :: "td_Fields \<Rightarrow> string \<Rightarrow> string list" where
  "length_line headers body =
     (if hasHeader headers ''Content-Length'' then []
      else [''Content-Length: '' @ to_string (length body)])"

lemma writeHeaders_lines: "CRLF @ writeHeaders headers = crlf_lines (header_lines headers) @ CRLF"
  by (induction headers) (auto simp: header_lines_def)

lemma CR_not_in_text [simp]:
  "CR \<notin> set ''HTTP/1.1 ''" "CR \<notin> set '': ''" "CR \<notin> set ''Content-Length: ''" "CR \<noteq> CHR '':''" "CR \<noteq> CHR '' ''"
  by (simp_all add: CR_def)

lemma CR_not_in_to_string [simp]: "CR \<notin> set (to_string n)"
  using to_string_digits [of CR n] by (auto simp: CR_def)

lemma header_lines_ok:
  "no_CR headers \<Longrightarrow> \<forall>l \<in> set (header_lines headers @ length_line headers body). l \<noteq> [] \<and> CR \<notin> set l"
  using CR_not_in_text(3) by (auto simp: no_CR_def header_lines_def length_line_def)

lemma writeResponse_lines:
  "writeResponse sc (Some out) code body headers
   = Some (out @ ''HTTP/1.1 '' @ makeStatusLine sc code
       @ crlf_lines (header_lines headers @ length_line headers body) @ CRLF @ CRLF @ body)"
proof -
  have "CRLF @ writeHeaders headers
      @ (if \<not> hasHeader headers ''Content-Length''
         then ''Content-Length: '' @ to_string (length body) @ CRLF else []) @ CRLF @ body
    = crlf_lines (header_lines headers @ length_line headers body) @ CRLF @ CRLF @ body"
    using writeHeaders_lines [of headers] by (simp add: length_line_def)
  moreover have "(if body \<noteq> [] then body else []) = body" by simp
  ultimately show ?thesis unfolding writeResponse_def by simp
qed

text \<open>C20: A response whose header names and values have no carriage return is framed faithfully: a
  recipient that ends the head at the first empty line reads back the status line, exactly the named
  headers in order, a \<open>Content-Length\<close> that is the decimal length of the body unless the caller gave
  one, and exactly the body, whatever bytes it contains.\<close>

theorem writeResponse_framing:
  assumes "CR \<notin> set (makeStatusLine status_code statusCode)" and "no_CR headers"
  shows "http_split (the (writeResponse status_code (Some []) statusCode body headers))
    = Some (''HTTP/1.1 '' @ makeStatusLine status_code statusCode
        @ crlf_lines (header_lines headers @ length_line headers body), body)"
proof -
  let ?l = "''HTTP/1.1 '' @ makeStatusLine status_code statusCode"
  let ?ls = "header_lines headers @ length_line headers body"
  have "CR \<notin> set ?l" using assms(1) CR_not_in_text(1) by auto
  note h = http_split_line [OF this, of "crlf_lines ?ls @ CRLF @ CRLF @ body"]
  have "the (writeResponse status_code (Some []) statusCode body headers)
      = ?l @ crlf_lines ?ls @ CRLF @ CRLF @ body"
    unfolding writeResponse_lines by simp
  then show ?thesis
    using h http_split_lines [OF header_lines_ok [OF assms(2), of body], of body] by simp
qed

theorem writeResponse_framing_witness:
  "http_split (the (writeResponse (\<lambda>c. []) (Some []) 200 ''ok'' [Field ''X'' ''1'']))
   = Some (''HTTP/1.1 '' @ makeStatusLine (\<lambda>c. []) 200
        @ crlf_lines (header_lines [Field ''X'' ''1''] @ length_line [Field ''X'' ''1''] ''ok''),
      ''ok'')"
proof (rule writeResponse_framing)
  show "CR \<notin> set (makeStatusLine (\<lambda>c. []) 200)" by (simp add: makeStatusLine_def)
qed (simp add: no_CR_def Field_def CR_def)

text \<open>Header values are not checked: a value that contains an empty line, for example one copied from
  a request, ends the head there, and the recipient takes what follows in the value for the body.\<close>

theorem writeResponse_header_injection:
  assumes "CR \<notin> set (makeStatusLine status_code statusCode)" and "CR \<notin> set v"
  shows "\<exists>head rest. http_split (the (writeResponse status_code (Some []) statusCode body
      [Field ''Location'' (v @ CRLF @ CRLF @ evil)])) = Some (head, evil @ rest)"
proof -
  let ?l = "''HTTP/1.1 '' @ makeStatusLine status_code statusCode"
  let ?h = "[Field ''Location'' (v @ CRLF @ CRLF @ evil)]"
  let ?k = "''Location: '' @ v"
  let ?rest = "crlf_lines (length_line ?h body) @ CRLF @ CRLF @ body"
  have o: "the (writeResponse status_code (Some []) statusCode body ?h)
      = ?l @ (CRLF @ ?k) @ CRLF @ CRLF @ evil @ ?rest"
    unfolding writeResponse_lines by (simp add: header_lines_def Field_def)
  have l: "CR \<notin> set ?l" using assms(1) CR_not_in_text(1) by auto
  have k: "\<forall>l \<in> set [?k]. l \<noteq> [] \<and> CR \<notin> set l" using assms(2) by (auto simp: CR_def)
  have "http_split ((CRLF @ ?k) @ CRLF @ CRLF @ evil @ ?rest) = Some (CRLF @ ?k, evil @ ?rest)"
    using http_split_lines [OF k, of "evil @ ?rest"] by simp
  then show ?thesis unfolding o http_split_line [OF l] by auto
qed

theorem writeResponse_header_injection_witness:
  "\<exists>head rest. http_split (the (writeResponse (\<lambda>c. ''302 Found'') (Some []) 302 []
      [Field ''Location'' (''/a'' @ CRLF @ CRLF @ ''evil'')])) = Some (head, ''evil'' @ rest)"
  by (rule writeResponse_header_injection) (simp_all add: makeStatusLine_def CR_def)

section \<open>One answer per request\<close>

text \<open>The specification: the first answering call decides; the last copy to go answers 204 if nobody
  did. The number is how many copies share the state.\<close>

fun cr_first_answer :: "nat \<Rightarrow> cr_call list \<Rightarrow> (u16 \<times> string \<times> td_Fields) option" where
  "cr_first_answer n [] = None"
| "cr_first_answer n (Call_write code body headers # cs) = Some (code, body, headers)"
| "cr_first_answer n (Call_write_body body # cs) = Some (200, body, [])"
| "cr_first_answer n (Call_write_headers code headers # cs) = Some (code, [], headers)"
| "cr_first_answer n (Call_redirect location code # cs) = Some (code, [], [Field ''Location'' location])"
| "cr_first_answer n (Call_copy # cs) = cr_first_answer (Suc n) cs"
| "cr_first_answer n (Call_destroy # cs) =
     (if n = 1 then Some (204, [], []) else cr_first_answer (n - 1) cs)"

lemma cr_answered_stays:
  "rs_responded st \<Longrightarrow> \<exists>m. fold (cr_apply sc) calls (Some st) = Some (st\<lparr>rs_use_count := m\<rparr>)"
proof (induction calls arbitrary: st)
  case Nil
  then show ?case by (auto intro!: exI [of _ "rs_use_count st"])
next
  case (Cons c cs)
  have "\<exists>m. cr_apply sc c (Some st) = Some (st\<lparr>rs_use_count := m\<rparr>)"
  proof (cases c)
    case Call_copy
    then show ?thesis by (auto simp: cr_copy_def intro!: exI [of _ "Suc (rs_use_count st)"])
  next
    case Call_destroy
    then show ?thesis using Cons.prems by (auto simp: cr_destroy_def intro!: exI [of _ "rs_use_count st - 1"])
  qed (use Cons.prems in \<open>auto simp: cr_defs intro!: exI [of _ "rs_use_count st"]\<close>)
  then obtain m where m: "cr_apply sc c (Some st) = Some (st\<lparr>rs_use_count := m\<rparr>)" by blast
  then show ?case using Cons.IH [of "st\<lparr>rs_use_count := m\<rparr>"] Cons.prems by simp
qed

text \<open>The state after some calls, against the specification.\<close>

definition cr_meets :: "(u16 \<Rightarrow> string) \<Rightarrow> string option \<Rightarrow> (u16 \<times> string \<times> td_Fields) option \<Rightarrow> cResponse \<Rightarrow> bool" where
  "cr_meets sc out answer r \<longleftrightarrow>
     (case r of
        None \<Rightarrow> False
      | Some st \<Rightarrow>
          (case answer of
             None \<Rightarrow> \<not> rs_responded st \<and> rs_response st = out
           | Some (code, body, headers) \<Rightarrow>
               rs_responded st \<and> rs_response st = writeResponse sc out code body headers))"

lemma cr_calls_meet:
  "\<not> rs_responded st \<Longrightarrow> 1 \<le> rs_use_count st \<Longrightarrow>
   cr_meets sc (rs_response st) (cr_first_answer (rs_use_count st) calls) (fold (cr_apply sc) calls (Some st))"
proof (induction calls arbitrary: st)
  case Nil
  then show ?case by (simp add: cr_meets_def)
next
  case (Cons c cs)
  have answered: "cr_meets sc (rs_response st) (Some (code, body, headers))
      (fold (cr_apply sc) cs (Some (st\<lparr>rs_responded := True,
         rs_response := writeResponse sc (rs_response st) code body headers, rs_use_count := m\<rparr>)))"
    for code body headers m
  proof -
    let ?st = "st\<lparr>rs_responded := True,
         rs_response := writeResponse sc (rs_response st) code body headers, rs_use_count := m\<rparr>"
    obtain k where "fold (cr_apply sc) cs (Some ?st) = Some (?st\<lparr>rs_use_count := k\<rparr>)"
      using cr_answered_stays [of ?st sc cs] by auto
    then show ?thesis by (simp add: cr_meets_def)
  qed
  note a = answered [where m = "rs_use_count st"]
  show ?case
  proof (cases c)
    case (Call_write code body headers)
    then show ?thesis using Cons.prems a [of code body headers] by (simp add: cr_defs)
  next
    case (Call_write_body body)
    then show ?thesis using Cons.prems a [of 200 body "[]"] by (simp add: cr_defs)
  next
    case (Call_write_headers code headers)
    then show ?thesis using Cons.prems a [of code "[]" headers] by (simp add: cr_defs)
  next
    case (Call_redirect location code)
    then show ?thesis using Cons.prems a [of code "[]" "[Field ''Location'' location]"] by (simp add: cr_defs)
  next
    case Call_copy
    then show ?thesis using Cons.IH [of "rs_use_count_update Suc st"] Cons.prems
      by (simp add: cr_copy_def)
  next
    case Call_destroy
    show ?thesis
    proof (cases "rs_use_count st = 1")
      case True
      have "cr_apply sc Call_destroy (Some st) = Some (st\<lparr>rs_responded := True,
          rs_response := writeResponse sc (rs_response st) 204 [] [], rs_use_count := 0\<rparr>)"
        using True Cons.prems(1) by (simp add: cr_defs)
      then show ?thesis using Call_destroy True answered [of 204 "[]" "[]" 0] by simp
    next
      case False
      then show ?thesis using Call_destroy Cons.IH [of "rs_use_count_update (\<lambda>n. n - 1) st"] Cons.prems
        by (simp add: cr_destroy_def)
    qed
  qed
qed

text \<open>However a response object is used, copied and destroyed, by whichever threads, the first answer is
  the only one that reaches the library's response, and if none was given the last copy to be
  destroyed answers 204.\<close>

theorem cr_responds_once:
  "cr_meets sc (Some out) (cr_first_answer 1 calls) (fold (cr_apply sc) calls (cr_make (Some out)))"
  using cr_calls_meet [of "\<lparr>rs_responded = False, rs_use_count = 1, rs_response = Some out\<rparr>" sc calls]
  by (simp add: cr_make_def)

text \<open>A handler that keeps no copy of its response.\<close>

fun cr_plain :: "cr_call \<Rightarrow> bool" where
  "cr_plain Call_copy = False"
| "cr_plain Call_destroy = False"
| "cr_plain _ = True"

lemma cr_first_answer_plain:
  "list_all cr_plain calls \<Longrightarrow>
   cr_first_answer n (calls @ rest) = (case calls of [] \<Rightarrow> cr_first_answer n rest | _ \<Rightarrow> cr_first_answer n calls)"
  by (cases calls; cases "hd calls") auto

text \<open>The answer a handler's calls and exception come to.\<close>

definition handler_answer :: "installed \<Rightarrow> st_Request \<Rightarrow> u16 \<times> string \<times> td_Fields" where
  "handler_answer i rq =
     (case in_handler i rq of
        (calls, thrown) \<Rightarrow>
          (case cr_first_answer 1 calls of
             Some answer \<Rightarrow> answer
           | None \<Rightarrow>
               (let message = exn_message (in_default i) (the thrown) in
                if thrown \<noteq> None \<and> (case in_errorHandler i of None \<Rightarrow> None | Some h \<Rightarrow> h rq (-1) message) = None
                then (500, message, [Field ''Content-Type'' ''text/plain; charset=utf-8''])
                else (204, [], []))))"

lemma handleRequest_meets:
  assumes plain: "list_all cr_plain (fst (in_handler i (makeRequestSnapshot request)))"
  shows "cr_meets sc (Some out) (Some (handler_answer i (makeRequestSnapshot request)))
    (snd (snd (handleRequest sc i now request (Some out) s)))"
proof -
  obtain calls thrown where h: "in_handler i (makeRequestSnapshot request) = (calls, thrown)" by fastforce
  then have p: "list_all cr_plain calls" using plain by simp
  have meets: "cr_meets sc (Some out) (cr_first_answer 1 (calls @ rest))
      (fold (cr_apply sc) (calls @ rest) (cr_make (Some out)))" for rest
    using cr_calls_meet [of "\<lparr>rs_responded = False, rs_use_count = 1, rs_response = Some out\<rparr>" sc "calls @ rest"]
    by (simp add: cr_make_def)
  have first: "cr_first_answer 1 (calls @ rest)
      = (case cr_first_answer 1 calls of Some a \<Rightarrow> Some a | None \<Rightarrow> cr_first_answer 1 rest)" for rest
    using cr_first_answer_plain [OF p, of 1 rest] p
    by (cases calls; cases "hd calls") auto
  let ?c = "Call_write 500 (exn_message (in_default i) (the thrown))
    [Field ''Content-Type'' ''text/plain; charset=utf-8'']"
  note m1 = meets [of "[Call_destroy]", unfolded first]
  note m2 = meets [of "[?c, Call_destroy]", unfolded first]
  show ?thesis
    using m1 m2
    by (cases thrown; cases "in_errorHandler i")
      (auto simp: handleRequest_def handler_answer_def h Let_def split: option.splits)
qed

text \<open>C14: A request is answered exactly once by the installed lambda when the handler keeps no copy of the
  response: with the handler's first answer; if it gave none, with 204 when it returned, and with 500
  and the exception's text when it threw. When the error handler throws as well its exception leaves
  the lambda and the client is answered 204 instead of 500. The text is kept as \<open>lastError\<close>.\<close>

theorem handleRequest_answers:
  assumes plain: "list_all cr_plain (fst (in_handler i (makeRequestSnapshot request)))"
  shows "(let (calls, thrown) = in_handler i (makeRequestSnapshot request);
              (escaped, s', r) = handleRequest sc i now request (Some out) s;
              message = exn_message (in_default i) (the thrown);
              second = (case in_errorHandler i of
                          None \<Rightarrow> None | Some h \<Rightarrow> h (makeRequestSnapshot request) (-1) message)
          in cr_meets sc (Some out)
               (case cr_first_answer 1 calls of
                  Some answer \<Rightarrow> Some answer
                | None \<Rightarrow> Some (if thrown \<noteq> None \<and> second = None
                               then (500, message, [Field ''Content-Type'' ''text/plain; charset=utf-8''])
                               else (204, [], []))) r
             \<and> escaped = (if thrown = None then None else second)
             \<and> hi_lastError s' = (if thrown = None then hi_lastError s else message))"
  using handleRequest_meets [OF assms, of sc out now s]
  by (cases "in_handler i (makeRequestSnapshot request)"; cases "snd (in_handler i (makeRequestSnapshot request))")
    (auto simp: handleRequest_def handler_answer_def Let_def ht_setLastError_def ht_updateHeartbeat_def
      split: option.splits prod.splits)

definition ht_throwing :: installed where
  "ht_throwing =
     \<lparr>in_handler = (\<lambda>rq. ([], Some (StdException ''boom''))), in_errorHandler = None, in_default = False\<rparr>"

theorem handleRequest_answers_witness:
  "(case handleRequest (\<lambda>c. []) ht_throwing 0 None (Some []) (ht_new ''h'' 80 [] 1 0) of
      (escaped, s', r) \<Rightarrow>
        cr_meets (\<lambda>c. []) (Some [])
          (Some (500, ''boom'', [Field ''Content-Type'' ''text/plain; charset=utf-8''])) r
        \<and> escaped = None \<and> hi_lastError s' = ''boom'')"
  using handleRequest_answers [of ht_throwing None "\<lambda>c. []" 0 "[]" "ht_new ''h'' 80 [] 1 0"]
  by (simp add: ht_throwing_def exn_message_def Let_def split: prod.splits)

section \<open>Routes\<close>

text \<open>Every registered route has its own pair of path and normalized method.\<close>

definition ht_routes_ok :: "http_server \<Rightarrow> bool" where
  "ht_routes_ok s \<longleftrightarrow>
     distinct (map (\<lambda>r. (rt_pathRegex r, rt_method r)) (hi_resources s)) \<and>
     distinct (map rt_method (hi_defaultResources s))"

lemma distinct_upsert:
  assumes "distinct (map g xs)" and "\<And>x. P x \<longleftrightarrow> g x = k" and "\<And>x. g (f x) = g x" and "g new = k"
  shows "distinct (map g (upsert P f new xs))"
proof -
  have "map g (upsert P f new xs)
      = (if \<exists>x \<in> set xs. P x then map g xs else map g xs @ [g new])"
    by (rule map_upsert) (rule assms(3))
  then show ?thesis using assms(1,2,4) by auto
qed

lemma installResources_find:
  "distinct (map (\<lambda>r. (rt_pathRegex r, rt_method r)) rs) \<Longrightarrow>
   installResources eh rs t p m =
     (case find (\<lambda>r. rt_pathRegex r = p \<and> rt_method r = m) rs of
        Some r \<Rightarrow> Some \<lparr>in_handler = rt_handler r, in_errorHandler = eh, in_default = False\<rparr>
      | None \<Rightarrow> t p m)"
proof (induction rs arbitrary: t)
  case (Cons r rs)
  show ?case
  proof (cases "rt_pathRegex r = p \<and> rt_method r = m")
    case True
    then have "find (\<lambda>r. rt_pathRegex r = p \<and> rt_method r = m) rs = None"
      using Cons.prems by (auto simp: find_None_iff image_iff)
    then show ?thesis using Cons True by simp
  next
    case False
    then show ?thesis using Cons by (auto split: option.splits)
  qed
qed simp

lemma installDefaults_find:
  "distinct (map rt_method rs) \<Longrightarrow>
   installDefaults eh rs t m =
     (case find (\<lambda>r. rt_method r = m) rs of
        Some r \<Rightarrow> Some \<lparr>in_handler = rt_handler r, in_errorHandler = eh, in_default = True\<rparr>
      | None \<Rightarrow> t m)"
proof (induction rs arbitrary: t)
  case (Cons r rs)
  show ?case
  proof (cases "rt_method r = m")
    case True
    then have "find (\<lambda>r. rt_method r = m) rs = None"
      using Cons.prems by (auto simp: find_None_iff image_iff)
    then show ?thesis using Cons True by simp
  next
    case False
    then show ?thesis using Cons by (auto split: option.splits)
  qed
qed simp

text \<open>The handler a request for a path pattern and a method finds once the server has started.\<close>

definition ht_served :: "http_server \<Rightarrow> string \<Rightarrow> string \<Rightarrow> td_RequestHandler option" where
  "ht_served s p m =
     (case hi_server (snd (ht_preRun None s)) of
        None \<Rightarrow> None | Some sv \<Rightarrow> map_option in_handler (sv_resource sv p m))"

lemma ht_served_find:
  "ht_routes_ok s \<Longrightarrow>
   ht_served s p m = map_option rt_handler (find (\<lambda>r. rt_pathRegex r = p \<and> rt_method r = m) (hi_resources s))"
  by (simp add: ht_served_def ht_preRun_def installResources_find ht_routes_ok_def split: option.splits)

text \<open>C29: A handler registered with \<open>addResource\<close> is the one served: it answers for its path pattern and
  its method, in any case and with blanks around it, it replaces an earlier registration for the same
  pair, every other pair is served as before, and the table never holds a pair twice. A registration
  with an empty pattern or method, without a handler, or while the server runs, is refused and changes
  nothing.\<close>

theorem addResource_served:
  assumes ok: "ht_routes_ok s" and r: "addResource pathRegex method handler s = (added, s')"
  shows "ht_routes_ok s'
    \<and> added = (pathRegex \<noteq> [] \<and> normalizeMethod method \<noteq> [] \<and> handler \<noteq> None \<and> \<not> ht_isRunning s)
    \<and> ht_served s' p m =
        (if added \<and> p = pathRegex \<and> m = normalizeMethod method then handler else ht_served s p m)
    \<and> (\<not> added \<longrightarrow> s' = s)"
proof (cases "pathRegex \<noteq> [] \<and> normalizeMethod method \<noteq> [] \<and> handler \<noteq> None \<and> \<not> ht_isRunning s")
  case False
  then have "\<not> added \<and> s' = s" using r by (auto simp: addResource_def Let_def split: option.splits if_splits)
  then show ?thesis using ok False by auto
next
  case True
  then obtain h where h: "handler = Some h" by blast
  let ?m = "normalizeMethod method"
  let ?new = "\<lparr>rt_pathRegex = pathRegex, rt_method = ?m, rt_handler = h\<rparr>"
  let ?P = "\<lambda>route. rt_pathRegex route = pathRegex \<and> rt_method route = ?m"
  let ?rs = "upsert ?P (rt_handler_update (\<lambda>_. h)) ?new (hi_resources s)"
  have s': "added" "s' = s\<lparr>hi_resources := ?rs\<rparr>"
    using r True h by (auto simp: addResource_def Let_def)
  have ok': "ht_routes_ok s'"
    using ok distinct_upsert [of "\<lambda>r. (rt_pathRegex r, rt_method r)" "hi_resources s" ?P "(pathRegex, ?m)"
        "rt_handler_update (\<lambda>_. h)" ?new]
    by (simp add: ht_routes_ok_def s'(2))
  have "find (\<lambda>r. rt_pathRegex r = p \<and> rt_method r = m) ?rs
      = (if p = pathRegex \<and> m = ?m
         then Some (case find ?P (hi_resources s) of Some x \<Rightarrow> x\<lparr>rt_handler := h\<rparr> | None \<Rightarrow> ?new)
         else find (\<lambda>r. rt_pathRegex r = p \<and> rt_method r = m) (hi_resources s))"
  proof (cases "p = pathRegex \<and> m = ?m")
    case True
    then show ?thesis
      using find_upsert_same [of ?P ?new "rt_handler_update (\<lambda>_. h)" "hi_resources s"] by simp
  next
    case False
    then show ?thesis
      using find_upsert_other [of "\<lambda>r. rt_pathRegex r = p \<and> rt_method r = m" ?new ?P
          "rt_handler_update (\<lambda>_. h)" "hi_resources s"] by auto
  qed
  then have "ht_served s' p m = (if p = pathRegex \<and> m = ?m then Some h else ht_served s p m)"
    unfolding ht_served_find [OF ok] ht_served_find [OF ok'] by (auto simp: s'(2) split: option.splits)
  then show ?thesis using s'(1) ok' True h by simp
qed

theorem addResource_served_witness:
  "ht_served (snd (addResource ''/a'' '' get '' (Some (\<lambda>rq. ([], None))) (ht_new ''h'' 80 [] 1 0))) ''/a'' ''GET''
   = Some (\<lambda>rq. ([], None))"
proof -
  let ?s = "ht_new ''h'' 80 [] 1 0"
  have ok: "ht_routes_ok ?s" by (simp add: ht_routes_ok_def ht_new_def)
  have m: "normalizeMethod '' get '' = ''GET''" by code_simp
  have n: "\<not> ht_isRunning ?s" by (simp add: ht_isRunning_def ht_new_def bw_new_def isRunning_def getState_def)
  obtain added s' where r: "addResource ''/a'' '' get '' (Some (\<lambda>rq. ([], None))) ?s = (added, s')" by fastforce
  show ?thesis using addResource_served [OF ok r, of "''/a''" "''GET''"] m n r by simp
qed

text \<open>The same for \<open>setDefaultResource\<close>: it answers for its method where no route matches.\<close>

theorem setDefaultResource_served:
  assumes ok: "ht_routes_ok s" and r: "setDefaultResource method handler s = (added, s')"
  shows "ht_routes_ok s'
    \<and> added = (normalizeMethod method \<noteq> [] \<and> handler \<noteq> None \<and> \<not> ht_isRunning s)
    \<and> map_option in_handler (installDefaults (hi_errorHandler s') (hi_defaultResources s') (\<lambda>_. None) m)
      = (if added \<and> m = normalizeMethod method then handler
         else map_option in_handler (installDefaults (hi_errorHandler s) (hi_defaultResources s) (\<lambda>_. None) m))"
proof (cases "normalizeMethod method \<noteq> [] \<and> handler \<noteq> None \<and> \<not> ht_isRunning s")
  case False
  then have "\<not> added \<and> s' = s" using r by (auto simp: setDefaultResource_def Let_def split: option.splits if_splits)
  then show ?thesis using ok False by auto
next
  case True
  then obtain h where h: "handler = Some h" by blast
  let ?m = "normalizeMethod method"
  let ?new = "\<lparr>rt_pathRegex = [], rt_method = ?m, rt_handler = h\<rparr>"
  let ?P = "\<lambda>route. rt_method route = ?m"
  let ?rs = "upsert ?P (rt_handler_update (\<lambda>_. h)) ?new (hi_defaultResources s)"
  have s': "added" "s' = s\<lparr>hi_defaultResources := ?rs\<rparr>"
    using r True h by (auto simp: setDefaultResource_def Let_def)
  have d: "distinct (map rt_method (hi_defaultResources s))" "distinct (map rt_method ?rs)"
    using ok distinct_upsert [of rt_method "hi_defaultResources s" ?P ?m "rt_handler_update (\<lambda>_. h)" ?new]
    by (simp_all add: ht_routes_ok_def)
  have "find (\<lambda>r. rt_method r = m) ?rs
      = (if m = ?m then Some (case find ?P (hi_defaultResources s) of Some x \<Rightarrow> x\<lparr>rt_handler := h\<rparr> | None \<Rightarrow> ?new)
         else find (\<lambda>r. rt_method r = m) (hi_defaultResources s))"
  proof (cases "m = ?m")
    case True
    then show ?thesis
      using find_upsert_same [of ?P ?new "rt_handler_update (\<lambda>_. h)" "hi_defaultResources s"] by simp
  next
    case False
    then show ?thesis
      using find_upsert_other [of "\<lambda>r. rt_method r = m" ?new ?P
          "rt_handler_update (\<lambda>_. h)" "hi_defaultResources s"] by auto
  qed
  then show ?thesis
    using s'(1) True h ok d by (auto simp: s'(2) installDefaults_find ht_routes_ok_def split: option.splits)
qed

theorem setDefaultResource_served_witness:
  "fst (setDefaultResource ''get'' (Some (\<lambda>rq. ([], None))) (ht_new ''h'' 80 [] 1 0))"
proof -
  let ?s = "ht_new ''h'' 80 [] 1 0"
  have ok: "ht_routes_ok ?s" by (simp add: ht_routes_ok_def ht_new_def)
  have m: "normalizeMethod ''get'' = ''GET''" by code_simp
  have n: "\<not> ht_isRunning ?s" by (simp add: ht_isRunning_def ht_new_def bw_new_def isRunning_def getState_def)
  obtain added s' where r: "setDefaultResource ''get'' (Some (\<lambda>rq. ([], None))) ?s = (added, s')" by fastforce
  show ?thesis using setDefaultResource_served [OF ok r, of "''GET''"] m n r by simp
qed

section \<open>Settings\<close>

datatype ht_setting =
    Set_errorHandler "td_ErrorHandler option"
  | Clear_errorHandler
  | Set_bindAddress string
  | Set_port u16
  | Set_threadPoolSize nat
  | Set_reuseAddress bool
  | Set_fastOpen bool
  | Set_requestTimeout int
  | Set_contentTimeout int
  | Set_maxRequestSize nat

fun ht_set :: "ht_setting \<Rightarrow> http_server \<Rightarrow> http_server" where
  "ht_set (Set_errorHandler h) s = setErrorHandler h s"
| "ht_set Clear_errorHandler s = clearErrorHandler s"
| "ht_set (Set_bindAddress a) s = setBindAddress a s"
| "ht_set (Set_port p) s = setPort p s"
| "ht_set (Set_threadPoolSize n) s = setThreadPoolSize n s"
| "ht_set (Set_reuseAddress b) s = setReuseAddress b s"
| "ht_set (Set_fastOpen b) s = setFastOpen b s"
| "ht_set (Set_requestTimeout t) s = setRequestTimeoutSeconds t s"
| "ht_set (Set_contentTimeout t) s = setContentTimeoutSeconds t s"
| "ht_set (Set_maxRequestSize n) s = setMaxRequestSize n s"

definition ht_settings_ok :: "http_server \<Rightarrow> bool" where
  "ht_settings_ok s \<longleftrightarrow>
     1 \<le> hi_threadPoolSize s \<and> 0 \<le> hi_requestTimeoutSeconds s \<and> 0 \<le> hi_contentTimeoutSeconds s
     \<and> 1 \<le> hi_maxRequestSize s"

lemma ht_set_ok: "ht_settings_ok s \<Longrightarrow> ht_settings_ok (ht_set x s)"
  by (cases x) (auto simp: ht_settings_ok_def ht_config_defs size_max_def)

lemma ht_set_running: "ht_isRunning s \<Longrightarrow> ht_set x s = s"
  by (cases x) (auto simp: ht_config_defs)

text \<open>Whatever sequence of settings is made, with any values, the configuration handed to the library
  is in range: at least one thread, no negative timeout, a positive request size; and while the server
  runs no setting has any effect.\<close>

theorem ht_settings_in_range:
  "(case hi_server (snd (ht_preRun None (fold ht_set settings (ht_new name port bindAddress pool now)))) of
      None \<Rightarrow> False
    | Some sv \<Rightarrow> 1 \<le> sv_thread_pool_size sv \<and> 0 \<le> sv_timeout_request sv \<and> 0 \<le> sv_timeout_content sv
        \<and> 1 \<le> sv_max_request_streambuf_size sv)
   \<and> (if ht_isRunning s then fold ht_set settings s = s else True)"
proof -
  have "ht_settings_ok u \<Longrightarrow> ht_settings_ok (fold ht_set settings u)" for u
    by (induction settings arbitrary: u) (auto intro: ht_set_ok)
  moreover have "ht_settings_ok (ht_new name port bindAddress pool now)"
    by (simp add: ht_settings_ok_def ht_new_def size_max_def)
  moreover have "ht_isRunning s \<Longrightarrow> fold ht_set settings s = s"
    by (induction settings) (simp_all add: ht_set_running)
  ultimately show ?thesis by (simp add: ht_preRun_def ht_settings_ok_def)
qed

section \<open>Starting and stopping\<close>

text \<open>A start is reported once. After \<open>resetStartState\<close> the first of the reports, from whichever thread,
  decides whether the start succeeded and which port is listened on; later reports (the stop request,
  the end of \<open>run\<close>) change at most the error text.\<close>

theorem ht_first_report_decides:
  "(let s' = fold (\<lambda>(success, port, msg). ht_resolveStartIfPending success port msg)
       ((success, port, msg) # reports) (ht_resetStartState s)
    in hi_startResolved s' \<and> hi_startSucceeded s' = success
       \<and> ht_listeningPort s' = (if success then port else 0)
       \<and> ht_lastError s' =
          (let texts = filter (\<lambda>e. e \<noteq> []) (map (\<lambda>(b, p, e). e) reports)
           in if texts = [] then msg else last texts))"
proof -
  let ?s1 = "ht_resolveStartIfPending success port msg (ht_resetStartState s)"
  have "hi_startResolved ?s1" "hi_lastError ?s1 = msg"
    using ht_latch.resolve_pending ht_latch.reset_pending by blast+
  then show ?thesis
    using ht_latch.first_report_decides [of success port msg reports s]
      ht_latch.reports_error_text [of ?s1 reports]
    by (simp add: ht_latch.reports_def ht_listeningPort_def ht_lastError_def Let_def)
qed

text \<open>\<open>run()\<close> always reports: whatever the library's server does, and whatever other threads do to the
  rest of the object meanwhile, the start is resolved when it ends, and it is a success exactly if the
  library had called back with its port. The library's server is given up, except when its \<open>start\<close>
  threw: the exception is passed on with the old server still in place.\<close>

theorem ht_run_resolves:
  assumes pending: "\<not> hi_startResolved s"
    and calm: "\<And>u. hi_startResolved (ls_meanwhile start u) = hi_startResolved u
      \<and> hi_startSucceeded (ls_meanwhile start u) = hi_startSucceeded u
      \<and> hi_listeningPort (ls_meanwhile start u) = hi_listeningPort u
      \<and> hi_server (ls_meanwhile start u) = hi_server u"
  shows "(case ht_run start now s of (r, s') \<Rightarrow>
      hi_startResolved s'
      \<and> hi_startSucceeded s' = (hi_server s \<noteq> None \<and> ls_port start \<noteq> None)
      \<and> hi_listeningPort s' =
          (case ls_port start of Some port \<Rightarrow> (if hi_server s \<noteq> None then port else 0) | None \<Rightarrow> 0)
      \<and> (hi_server s' = None \<longleftrightarrow> hi_server s = None \<or> ls_thrown start = None)
      \<and> (r = Inr () \<longleftrightarrow> hi_server s = None \<or> ls_thrown start = None))"
proof (cases "hi_server s")
  case None
  then show ?thesis
    using pending by (auto simp: ht_run_def ht_resolveStartIfPending_def split: option.splits)
next
  case (Some server)
  let ?s1 = "case ls_port start of None \<Rightarrow> s
    | Some port \<Rightarrow> ht_resolveStartIfPending True port [] (ht_updateHeartbeat now s)"
  have c: "hi_startResolved ?s1 = (ls_port start \<noteq> None)" "hi_server ?s1 = Some server"
    "ls_port start = Some port \<Longrightarrow> hi_startSucceeded ?s1 \<and> hi_listeningPort ?s1 = port" for port
    using pending Some by (auto simp: ht_resolveStartIfPending_def ht_updateHeartbeat_def split: option.splits)
  have resolve: "(case ht_resolveStartIfPending False 0 msg (ls_meanwhile start ?s1) of s' \<Rightarrow>
      hi_startResolved s' \<and> hi_startSucceeded s' = (ls_port start \<noteq> None)
      \<and> hi_listeningPort s' = (case ls_port start of Some port \<Rightarrow> port | None \<Rightarrow> 0)
      \<and> hi_server s' = Some server)" for msg
    using calm [of ?s1] c by (cases "ls_port start") (auto simp: ht_resolveStartIfPending_def)
  consider "ls_thrown start = None" | what where "ls_thrown start = Some (StdException what)"
    | "ls_thrown start = Some OtherException"
    by (cases "ls_thrown start"; cases "the (ls_thrown start)") auto
  then show ?thesis
  proof cases
    case 1
    then have "ht_run start now s = (Inr (), (ht_resolveStartIfPending False 0
        (if stopRequested (hb_base (ls_meanwhile start ?s1)) then ''HTTP server stopped''
         else ''HTTP server exited unexpectedly'') (ls_meanwhile start ?s1))\<lparr>hi_server := None\<rparr>)"
      using Some by (simp add: ht_run_def Let_def)
    then show ?thesis using resolve Some 1 by (simp split: option.splits)
  next
    case (2 what)
    then have "ht_run start now s
        = (Inl (StdException what), ht_resolveStartIfPending False 0 what (ls_meanwhile start ?s1))"
      using Some by (simp add: ht_run_def Let_def)
    then show ?thesis using resolve [of what] Some 2 by (simp split: option.splits)
  next
    case 3
    then have "ht_run start now s = (Inl OtherException,
        ht_resolveStartIfPending False 0 ''Unhandled HTTP server exception'' (ls_meanwhile start ?s1))"
      using Some by (simp add: ht_run_def Let_def)
    then show ?thesis
      using resolve [of "''Unhandled HTTP server exception''"] Some 3 by (simp split: option.splits)
  qed
qed

theorem ht_run_resolves_witness:
  "(case ht_run \<lparr>ls_port = Some 8080, ls_meanwhile = id, ls_thrown = None\<rparr> 0
        (snd (ht_preRun None (ht_new ''h'' 0 [] 1 0))) of
      (r, s') \<Rightarrow> hi_startSucceeded s' \<and> hi_listeningPort s' = 8080 \<and> hi_server s' = None)"
proof -
  let ?s = "snd (ht_preRun None (ht_new ''h'' 0 [] 1 0))"
  let ?start = "\<lparr>ls_port = Some 8080, ls_meanwhile = id, ls_thrown = None\<rparr> :: lib_start"
  have "\<not> hi_startResolved ?s" "hi_server ?s \<noteq> None"
    by (simp_all add: ht_preRun_def ht_new_def)
  then show ?thesis using ht_run_resolves [of ?s ?start 0] by (auto split: prod.splits)
qed

end
