(* ===== verification/HttpsServer.thy ===== *)
theory HttpsServer
  imports HttpServer
begin

text \<open>
  \<open>cHTTPSServer\<close> (\<open>cHTTPSServer.h\<close>, \<open>cHTTPSServer.cpp\<close>): the HTTPS server. The repository keeps it as a second
  copy of the HTTP server with the certificate files added, and so does this theory: every function of
  \<open>cHTTPSServer.cpp\<close> has its own definition here, on the request, route and response types of
  \<open>HttpServer\<close>, which the two classes declare alike. \<open>HttpsServerProofs\<close> shows that the copies agree.
\<close>

section \<open>Text helpers\<close>

definition hs_trimCopy :: "string \<Rightarrow> string" where
  "hs_trimCopy value =
     (let front_erased = dropWhile c_isspace value in rev (dropWhile c_isspace (rev front_erased)))"

definition hs_normalizeMethod :: "string \<Rightarrow> string" where
  "hs_normalizeMethod method = map c_toupper (hs_trimCopy method)"

function hs_iequals_loop :: "nat \<Rightarrow> string \<Rightarrow> string \<Rightarrow> bool" where
  "hs_iequals_loop index lhs rhs =
     (if index < length lhs then
        if c_tolower (lhs ! index) \<noteq> c_tolower (rhs ! index) then False
        else hs_iequals_loop (Suc index) lhs rhs
      else True)"
  by pat_completeness auto
termination by (relation "measure (\<lambda>(i, l, r). length l - i)") auto

declare hs_iequals_loop.simps [simp del]

definition hs_iequals :: "string \<Rightarrow> string \<Rightarrow> bool" where
  "hs_iequals lhs rhs \<longleftrightarrow> (if length lhs \<noteq> length rhs then False else hs_iequals_loop 0 lhs rhs)"

definition hs_hasHeader :: "td_Fields \<Rightarrow> string \<Rightarrow> bool" where
  "hs_hasHeader headers headerName \<longleftrightarrow> list_ex (\<lambda>header. hs_iequals (fld_name header) headerName) headers"

fun hs_copyFields :: "(string \<times> string) list \<Rightarrow> td_Fields" where
  "hs_copyFields [] = []"
| "hs_copyFields (entry # entries) = Field (fst entry) (snd entry) # hs_copyFields entries"

section \<open>The response writer\<close>

definition hs_makeStatusLine :: "(u16 \<Rightarrow> string) \<Rightarrow> u16 \<Rightarrow> string" where
  "hs_makeStatusLine status_code statusCode =
     (let mapped = status_code statusCode in
      if mapped \<noteq> [] then mapped else to_string (unat statusCode))"

fun hs_writeHeaders :: "td_Fields \<Rightarrow> string" where
  "hs_writeHeaders [] = []"
| "hs_writeHeaders (header # headers) =
     (if fld_name header = [] then hs_writeHeaders headers
      else fld_name header @ '': '' @ fld_value header @ CRLF @ hs_writeHeaders headers)"

text \<open>What is put on the response's stream; \<open>None\<close> is a null response.\<close>

definition hs_writeResponse ::
  "(u16 \<Rightarrow> string) \<Rightarrow> string option \<Rightarrow> u16 \<Rightarrow> string \<Rightarrow> td_Fields \<Rightarrow> string option" where
  "hs_writeResponse status_code response statusCode body headers =
     (case response of
        None \<Rightarrow> None
      | Some out \<Rightarrow>
          Some (out @ ''HTTP/1.1 '' @ hs_makeStatusLine status_code statusCode @ CRLF
            @ hs_writeHeaders headers
            @ (if \<not> hs_hasHeader headers ''Content-Length''
               then ''Content-Length: '' @ to_string (length body) @ CRLF else [])
            @ CRLF @ (if body \<noteq> [] then body else [])))"

section \<open>Requests and responses\<close>

definition hs_endpointAddressToString :: "string option \<times> u16 \<Rightarrow> string" where
  "hs_endpointAddressToString endpoint = (case fst endpoint of Some text \<Rightarrow> text | None \<Rightarrow> [])"

definition hs_makeRequestSnapshot :: "lib_request option \<Rightarrow> st_Request" where
  "hs_makeRequestSnapshot request =
     (case request of
        None \<Rightarrow> rq_default
      | Some r \<Rightarrow>
          rq_default
            \<lparr>rq_method := lr_method r, rq_path := lr_path r, rq_queryString := lr_query_string r,
             rq_httpVersion := lr_http_version r, rq_body := lr_content r,
             rq_headers := hs_copyFields (lr_header r), rq_queryFields := hs_copyFields (lr_query_fields r),
             rq_pathMatch := lr_path_match r,
             rq_remoteAddress := hs_endpointAddressToString (lr_remote_endpoint r),
             rq_remotePort := snd (lr_remote_endpoint r),
             rq_localAddress := hs_endpointAddressToString (lr_local_endpoint r),
             rq_localPort := snd (lr_local_endpoint r)\<rparr>)"

definition zr_make :: "string option \<Rightarrow> cResponse" where
  "zr_make response = Some \<lparr>rs_responded = False, rs_use_count = 1, rs_response = response\<rparr>"

definition zr_write :: "(u16 \<Rightarrow> string) \<Rightarrow> u16 \<Rightarrow> string \<Rightarrow> td_Fields \<Rightarrow> cResponse \<Rightarrow> cResponse" where
  "zr_write status_code statusCode body headers r =
     (case r of
        None \<Rightarrow> None
      | Some st \<Rightarrow>
          let alreadyResponded = rs_responded st; st1 = st\<lparr>rs_responded := True\<rparr> in
          if alreadyResponded then Some st1
          else Some (st1\<lparr>rs_response := hs_writeResponse status_code (rs_response st1) statusCode body headers\<rparr>))"

definition zr_write_body :: "(u16 \<Rightarrow> string) \<Rightarrow> string \<Rightarrow> cResponse \<Rightarrow> cResponse" where
  "zr_write_body status_code body r = zr_write status_code 200 body [] r"

definition zr_write_headers :: "(u16 \<Rightarrow> string) \<Rightarrow> u16 \<Rightarrow> td_Fields \<Rightarrow> cResponse \<Rightarrow> cResponse" where
  "zr_write_headers status_code statusCode headers r = zr_write status_code statusCode [] headers r"

definition zr_redirect :: "(u16 \<Rightarrow> string) \<Rightarrow> string \<Rightarrow> u16 \<Rightarrow> cResponse \<Rightarrow> cResponse" where
  "zr_redirect status_code location statusCode r =
     zr_write status_code statusCode [] [Field ''Location'' location] r"

definition zr_valid :: "cResponse \<Rightarrow> bool" where
  "zr_valid r \<longleftrightarrow> r \<noteq> None"

definition zr_copy :: "cResponse \<Rightarrow> cResponse" where
  "zr_copy r = map_option (rs_use_count_update Suc) r"

text \<open>The destructor, and the release of its share of the state.\<close>

definition zr_destroy :: "(u16 \<Rightarrow> string) \<Rightarrow> cResponse \<Rightarrow> cResponse" where
  "zr_destroy status_code r =
     (let r1 = (case r of
                  None \<Rightarrow> None
                | Some st \<Rightarrow>
                    if \<not> rs_responded st \<and> rs_use_count st = 1
                    then zr_write_headers status_code 204 [] r else r)
      in map_option (rs_use_count_update (\<lambda>n. n - 1)) r1)"

fun zr_apply :: "(u16 \<Rightarrow> string) \<Rightarrow> cr_call \<Rightarrow> cResponse \<Rightarrow> cResponse" where
  "zr_apply sc (Call_write statusCode body headers) r = zr_write sc statusCode body headers r"
| "zr_apply sc (Call_write_body body) r = zr_write_body sc body r"
| "zr_apply sc (Call_write_headers statusCode headers) r = zr_write_headers sc statusCode headers r"
| "zr_apply sc (Call_redirect location statusCode) r = zr_redirect sc location statusCode r"
| "zr_apply sc Call_copy r = zr_copy r"
| "zr_apply sc Call_destroy r = zr_destroy sc r"

section \<open>The server object\<close>

text \<open>The three files are the arguments of the library's constructor.\<close>

record https_lib_server =
  sz_certificateFile :: string
  sz_privateKeyFile :: string
  sz_verifyFile :: string
  sz_port :: u16
  sz_address :: string
  sz_thread_pool_size :: nat
  sz_reuse_address :: bool
  sz_fast_open :: bool
  sz_timeout_request :: int
  sz_timeout_content :: int
  sz_max_request_streambuf_size :: nat
  sz_resource :: "string \<Rightarrow> string \<Rightarrow> installed option"
  sz_default_resource :: "string \<Rightarrow> installed option"
  sz_on_error :: "td_ErrorHandler option"

record https_server =
  hz_base :: base_worker
  hz_resources :: "st_Route list"
  hz_defaultResources :: "st_Route list"
  hz_errorHandler :: "td_ErrorHandler option"
  hz_server :: "https_lib_server option"
  hz_certificateFile :: string
  hz_privateKeyFile :: string
  hz_verifyFile :: string
  hz_bindAddress :: string
  hz_configuredPort :: u16
  hz_listeningPort :: u16
  hz_threadPoolSize :: nat
  hz_reuseAddress :: bool
  hz_fastOpen :: bool
  hz_requestTimeoutSeconds :: int
  hz_contentTimeoutSeconds :: int
  hz_maxRequestSize :: nat
  hz_startResolved :: bool
  hz_startSucceeded :: bool
  hz_lastError :: string

definition hs_new ::
  "string \<Rightarrow> u16 \<Rightarrow> string \<Rightarrow> string \<Rightarrow> string \<Rightarrow> string \<Rightarrow> nat \<Rightarrow> int \<Rightarrow> https_server" where
  "hs_new name port certificateFile privateKeyFile verifyFile bindAddress threadPoolSize now =
     \<lparr>hz_base = bw_new name now, hz_resources = [], hz_defaultResources = [], hz_errorHandler = None,
      hz_server = None, hz_certificateFile = certificateFile, hz_privateKeyFile = privateKeyFile,
      hz_verifyFile = verifyFile, hz_bindAddress = bindAddress, hz_configuredPort = port, hz_listeningPort = 0,
      hz_threadPoolSize = (if threadPoolSize = 0 then 1 else threadPoolSize),
      hz_reuseAddress = True, hz_fastOpen = False, hz_requestTimeoutSeconds = 5,
      hz_contentTimeoutSeconds = 300, hz_maxRequestSize = size_max, hz_startResolved = False,
      hz_startSucceeded = False, hz_lastError = []\<rparr>"

section \<open>The start latch and the last error\<close>

definition hs_resetStartState :: "https_server \<Rightarrow> https_server" where
  "hs_resetStartState s =
     s\<lparr>hz_startResolved := False, hz_startSucceeded := False, hz_listeningPort := 0, hz_lastError := []\<rparr>"

definition hs_resolveStartIfPending :: "bool \<Rightarrow> u16 \<Rightarrow> string \<Rightarrow> https_server \<Rightarrow> https_server" where
  "hs_resolveStartIfPending success port errorMessage s =
     (if hz_startResolved s then
        (if errorMessage \<noteq> [] then s\<lparr>hz_lastError := errorMessage\<rparr> else s)
      else s\<lparr>hz_startResolved := True, hz_startSucceeded := success,
             hz_listeningPort := (if success then port else 0), hz_lastError := errorMessage\<rparr>)"

definition hs_setLastError :: "string \<Rightarrow> https_server \<Rightarrow> https_server" where
  "hs_setLastError errorMessage s = s\<lparr>hz_lastError := errorMessage\<rparr>"

interpretation hs_latch: start_latch hs_resetStartState hs_resolveStartIfPending hz_startResolved
  hz_startSucceeded hz_listeningPort hz_lastError
  by unfold_locales (simp_all add: hs_resetStartState_def hs_resolveStartIfPending_def)

section \<open>Configuration\<close>

definition hs_isRunning :: "https_server \<Rightarrow> bool" where
  "hs_isRunning s \<longleftrightarrow> isRunning (hz_base s)"

definition hs_addResource ::
  "string \<Rightarrow> string \<Rightarrow> td_RequestHandler option \<Rightarrow> https_server \<Rightarrow> bool \<times> https_server" where
  "hs_addResource pathRegex method handler s =
     (let normalizedMethod = hs_normalizeMethod method in
      case handler of
        None \<Rightarrow> (False, s)
      | Some h \<Rightarrow>
          if pathRegex = [] \<or> normalizedMethod = [] \<or> hs_isRunning s then (False, s)
          else (True, s\<lparr>hz_resources :=
            upsert (\<lambda>route. rt_pathRegex route = pathRegex \<and> rt_method route = normalizedMethod)
              (rt_handler_update (\<lambda>_. h))
              \<lparr>rt_pathRegex = pathRegex, rt_method = normalizedMethod, rt_handler = h\<rparr>
              (hz_resources s)\<rparr>))"

definition hs_setDefaultResource ::
  "string \<Rightarrow> td_RequestHandler option \<Rightarrow> https_server \<Rightarrow> bool \<times> https_server" where
  "hs_setDefaultResource method handler s =
     (let normalizedMethod = hs_normalizeMethod method in
      case handler of
        None \<Rightarrow> (False, s)
      | Some h \<Rightarrow>
          if normalizedMethod = [] \<or> hs_isRunning s then (False, s)
          else (True, s\<lparr>hz_defaultResources :=
            upsert (\<lambda>route. rt_method route = normalizedMethod) (rt_handler_update (\<lambda>_. h))
              \<lparr>rt_pathRegex = [], rt_method = normalizedMethod, rt_handler = h\<rparr>
              (hz_defaultResources s)\<rparr>))"

definition hs_setErrorHandler :: "td_ErrorHandler option \<Rightarrow> https_server \<Rightarrow> https_server" where
  "hs_setErrorHandler handler s = (if hs_isRunning s then s else s\<lparr>hz_errorHandler := handler\<rparr>)"

definition hs_clearErrorHandler :: "https_server \<Rightarrow> https_server" where
  "hs_clearErrorHandler s = (if hs_isRunning s then s else s\<lparr>hz_errorHandler := None\<rparr>)"

definition hs_setBindAddress :: "string \<Rightarrow> https_server \<Rightarrow> https_server" where
  "hs_setBindAddress bindAddress s = (if hs_isRunning s then s else s\<lparr>hz_bindAddress := bindAddress\<rparr>)"

definition hs_setPort :: "u16 \<Rightarrow> https_server \<Rightarrow> https_server" where
  "hs_setPort port s = (if hs_isRunning s then s else s\<lparr>hz_configuredPort := port\<rparr>)"

definition hs_setThreadPoolSize :: "nat \<Rightarrow> https_server \<Rightarrow> https_server" where
  "hs_setThreadPoolSize threadPoolSize s =
     (if hs_isRunning s then s
      else s\<lparr>hz_threadPoolSize := (if threadPoolSize = 0 then 1 else threadPoolSize)\<rparr>)"

definition hs_setReuseAddress :: "bool \<Rightarrow> https_server \<Rightarrow> https_server" where
  "hs_setReuseAddress reuseAddress s = (if hs_isRunning s then s else s\<lparr>hz_reuseAddress := reuseAddress\<rparr>)"

definition hs_setFastOpen :: "bool \<Rightarrow> https_server \<Rightarrow> https_server" where
  "hs_setFastOpen fastOpen s = (if hs_isRunning s then s else s\<lparr>hz_fastOpen := fastOpen\<rparr>)"

definition hs_setRequestTimeoutSeconds :: "int \<Rightarrow> https_server \<Rightarrow> https_server" where
  "hs_setRequestTimeoutSeconds timeoutSeconds s =
     (if hs_isRunning s then s else s\<lparr>hz_requestTimeoutSeconds := max 0 timeoutSeconds\<rparr>)"

definition hs_setContentTimeoutSeconds :: "int \<Rightarrow> https_server \<Rightarrow> https_server" where
  "hs_setContentTimeoutSeconds timeoutSeconds s =
     (if hs_isRunning s then s else s\<lparr>hz_contentTimeoutSeconds := max 0 timeoutSeconds\<rparr>)"

definition hs_setMaxRequestSize :: "nat \<Rightarrow> https_server \<Rightarrow> https_server" where
  "hs_setMaxRequestSize maxRequestSize s =
     (if hs_isRunning s then s
      else s\<lparr>hz_maxRequestSize := (if maxRequestSize = 0 then size_max else maxRequestSize)\<rparr>)"

definition setCertificateFiles :: "string \<Rightarrow> string \<Rightarrow> string \<Rightarrow> https_server \<Rightarrow> https_server" where
  "setCertificateFiles certificateFile privateKeyFile verifyFile s =
     (if hs_isRunning s then s
      else s\<lparr>hz_certificateFile := certificateFile, hz_privateKeyFile := privateKeyFile,
             hz_verifyFile := verifyFile\<rparr>)"

text \<open>The getters of the class.\<close>

definition hs_bindAddress :: "https_server \<Rightarrow> string" where
  "hs_bindAddress s = hz_bindAddress s"

definition hs_configuredPort :: "https_server \<Rightarrow> u16" where
  "hs_configuredPort s = hz_configuredPort s"

definition hs_threadPoolSize :: "https_server \<Rightarrow> nat" where
  "hs_threadPoolSize s = hz_threadPoolSize s"

definition hs_certificateFile :: "https_server \<Rightarrow> string" where
  "hs_certificateFile s = hz_certificateFile s"

definition hs_privateKeyFile :: "https_server \<Rightarrow> string" where
  "hs_privateKeyFile s = hz_privateKeyFile s"

definition hs_verifyFile :: "https_server \<Rightarrow> string" where
  "hs_verifyFile s = hz_verifyFile s"

definition hs_listeningPort :: "https_server \<Rightarrow> u16" where
  "hs_listeningPort s = hz_listeningPort s"

definition hs_lastError :: "https_server \<Rightarrow> string" where
  "hs_lastError s = hz_lastError s"

section \<open>Handling a request\<close>

text \<open>The lambda that \<open>preRun\<close> installs for a route. The result is the exception that leaves it, if any,
  the server and the response; the local \<open>wrappedResponse\<close> is destroyed on every way out.\<close>

definition hs_default_message :: "bool \<Rightarrow> string" where
  "hs_default_message in_default_table =
     (if in_default_table then ''Unhandled HTTPS default handler exception''
      else ''Unhandled HTTPS request handler exception'')"

definition hs_exn_message :: "bool \<Rightarrow> cpp_exn \<Rightarrow> string" where
  "hs_exn_message in_default_table e =
     (case e of StdException what \<Rightarrow> what | OtherException \<Rightarrow> hs_default_message in_default_table)"

definition hs_updateHeartbeat :: "int \<Rightarrow> https_server \<Rightarrow> https_server" where
  "hs_updateHeartbeat now s = s\<lparr>hz_base := updateHeartbeat 1000000 now (hz_base s)\<rparr>"

definition hs_handleRequest ::
  "(u16 \<Rightarrow> string) \<Rightarrow> installed \<Rightarrow> int \<Rightarrow> lib_request option \<Rightarrow> string option \<Rightarrow> https_server
     \<Rightarrow> cpp_exn option \<times> https_server \<times> cResponse" where
  "hs_handleRequest status_code i now request response s =
     (let s1 = hs_updateHeartbeat now s;
          requestSnapshot = hs_makeRequestSnapshot request;
          wrappedResponse = zr_make response
      in case in_handler i requestSnapshot of
           (calls, thrown) \<Rightarrow>
             let r1 = fold (zr_apply status_code) calls wrappedResponse in
             (case thrown of
                None \<Rightarrow> (None, s1, zr_destroy status_code r1)
              | Some e \<Rightarrow>
                  let message = hs_exn_message (in_default i) e; s2 = hs_setLastError message s1 in
                  (case (case in_errorHandler i of
                           None \<Rightarrow> None | Some errorHandler \<Rightarrow> errorHandler requestSnapshot (-1) message) of
                     Some e' \<Rightarrow> (Some e', s2, zr_destroy status_code r1)
                   | None \<Rightarrow>
                       (None, s2, zr_destroy status_code
                         (zr_write status_code 500 message
                            [Field ''Content-Type'' ''text/plain; charset=utf-8''] r1)))))"

text \<open>The \<open>on_error\<close> lambda.\<close>

definition hs_handleError ::
  "td_ErrorHandler option \<Rightarrow> int \<Rightarrow> lib_request option \<Rightarrow> int \<Rightarrow> string \<Rightarrow> https_server
     \<Rightarrow> cpp_exn option \<times> https_server" where
  "hs_handleError errorHandler now request errorValue message s =
     (let s1 = hs_setLastError message (hs_updateHeartbeat now s) in
      case errorHandler of
        None \<Rightarrow> (None, s1)
      | Some h \<Rightarrow> (h (hs_makeRequestSnapshot request) errorValue message, s1))"

section \<open>Life cycle\<close>

fun hs_installResources ::
  "td_ErrorHandler option \<Rightarrow> st_Route list \<Rightarrow> (string \<Rightarrow> string \<Rightarrow> installed option)
     \<Rightarrow> string \<Rightarrow> string \<Rightarrow> installed option" where
  "hs_installResources errorHandler [] table = table"
| "hs_installResources errorHandler (route # routes) table =
     hs_installResources errorHandler routes
       (table(rt_pathRegex route := (table (rt_pathRegex route))
          (rt_method route \<mapsto>
             \<lparr>in_handler = rt_handler route, in_errorHandler = errorHandler, in_default = False\<rparr>)))"

fun hs_installDefaults ::
  "td_ErrorHandler option \<Rightarrow> st_Route list \<Rightarrow> (string \<Rightarrow> installed option)
     \<Rightarrow> string \<Rightarrow> installed option" where
  "hs_installDefaults errorHandler [] table = table"
| "hs_installDefaults errorHandler (route # routes) table =
     hs_installDefaults errorHandler routes
       (table(rt_method route \<mapsto>
          \<lparr>in_handler = rt_handler route, in_errorHandler = errorHandler, in_default = True\<rparr>))"

text \<open>\<open>thrown\<close> is the exception that building or configuring the library's server ends with, if any.\<close>

definition hs_preRun :: "cpp_exn option \<Rightarrow> https_server \<Rightarrow> bool \<times> https_server" where
  "hs_preRun thrown s =
     (if hz_certificateFile s = [] \<or> hz_privateKeyFile s = [] then
        (False, hs_resolveStartIfPending False 0
           ''HTTPS server requires certificate and private key files'' s)
      else
        case thrown of
          None \<Rightarrow>
            (True, s\<lparr>hz_server := Some
               \<lparr>sz_certificateFile = hz_certificateFile s, sz_privateKeyFile = hz_privateKeyFile s,
                sz_verifyFile = hz_verifyFile s,
                sz_port = hz_configuredPort s, sz_address = hz_bindAddress s,
                sz_thread_pool_size = hz_threadPoolSize s, sz_reuse_address = hz_reuseAddress s,
                sz_fast_open = hz_fastOpen s, sz_timeout_request = hz_requestTimeoutSeconds s,
                sz_timeout_content = hz_contentTimeoutSeconds s,
                sz_max_request_streambuf_size = hz_maxRequestSize s,
                sz_resource = hs_installResources (hz_errorHandler s) (hz_resources s) (\<lambda>_ _. None),
                sz_default_resource = hs_installDefaults (hz_errorHandler s) (hz_defaultResources s) (\<lambda>_. None),
                sz_on_error = hz_errorHandler s\<rparr>\<rparr>)
        | Some e \<Rightarrow>
            (False, (hs_resolveStartIfPending False 0
               (case e of StdException what \<Rightarrow> what | OtherException \<Rightarrow> ''Failed to initialize HTTPS server'') s)
               \<lparr>hz_server := None\<rparr>))"

text \<open>\<open>server->start(callback)\<close>: the port it calls back with, if it gets that far, what other threads do
  to the object until it ends, and the exception it ends with, if any.\<close>

record https_lib_start =
  lz_port :: "u16 option"
  lz_meanwhile :: "https_server \<Rightarrow> https_server"
  lz_thrown :: "cpp_exn option"

definition hs_run :: "https_lib_start \<Rightarrow> int \<Rightarrow> https_server \<Rightarrow> (cpp_exn + unit) \<times> https_server" where
  "hs_run start now s =
     (case hz_server s of
        None \<Rightarrow> (Inr (), hs_resolveStartIfPending False 0 ''HTTPS server is not initialized'' s)
      | Some server \<Rightarrow>
          let s1 = (case lz_port start of
                      None \<Rightarrow> s
                    | Some port \<Rightarrow> hs_resolveStartIfPending True port [] (hs_updateHeartbeat now s));
              s2 = lz_meanwhile start s1
          in (case lz_thrown start of
                None \<Rightarrow>
                  (Inr (), (hs_resolveStartIfPending False 0
                     (if stopRequested (hz_base s2) then ''HTTPS server stopped''
                      else ''HTTPS server exited unexpectedly'') s2)\<lparr>hz_server := None\<rparr>)
              | Some (StdException what) \<Rightarrow>
                  (Inl (StdException what), hs_resolveStartIfPending False 0 what s2)
              | Some OtherException \<Rightarrow>
                  (Inl OtherException, hs_resolveStartIfPending False 0 ''Unhandled HTTPS server exception'' s2)))"

text \<open>\<open>stopTriggered\<close>; the flag tells whether \<open>stop()\<close> of the library's server is called.\<close>

definition hs_stopTriggered :: "https_server \<Rightarrow> bool \<times> https_server" where
  "hs_stopTriggered s =
     (hz_server s \<noteq> None, hs_resolveStartIfPending False 0 ''HTTPS server stop requested'' s)"

definition hs_requestStop :: "https_server \<Rightarrow> https_server" where
  "hs_requestStop s =
     (case requestStop (hz_base s) of
        (shouldTriggerStop, b) \<Rightarrow>
          if shouldTriggerStop then snd (hs_stopTriggered (s\<lparr>hz_base := b\<rparr>)) else s\<lparr>hz_base := b\<rparr>)"

definition hs_waitUntilListening :: "int \<Rightarrow> https_server wake list \<Rightarrow> https_server \<Rightarrow> (bool \<times> https_server) option" where
  "hs_waitUntilListening timeout wakes s =
     (if timeout = 0 then Some (True, s)
      else (case cv_wait_for hz_startResolved s wakes of
              None \<Rightarrow> None
            | Some (completed, s1) \<Rightarrow>
                if \<not> completed then Some (False, s1) else Some (hz_startSucceeded s1, s1)))"

definition hs_startThread ::
  "nat option \<Rightarrow> int \<Rightarrow> int \<Rightarrow> https_server wake list \<Rightarrow> https_server \<Rightarrow> (bool \<times> https_server) option" where
  "hs_startThread created now timeout wakes s =
     (let s1 = hs_resetStartState s in
      case startThread created now 0 [] (hz_base s1) of
        None \<Rightarrow> None
      | Some (False, b) \<Rightarrow> Some (False, s1\<lparr>hz_base := b\<rparr>)
      | Some (True, b) \<Rightarrow> hs_waitUntilListening timeout wakes (s1\<lparr>hz_base := b\<rparr>))"

definition hs_startThread_ms ::
  "nat option \<Rightarrow> int \<Rightarrow> u16 \<Rightarrow> https_server wake list \<Rightarrow> https_server \<Rightarrow> (bool \<times> https_server) option" where
  "hs_startThread_ms created now timeout wakes s = hs_startThread created now (uint timeout) wakes s"

text \<open>Starting follows the contract.\<close>

interpretation hs_start: latched_server hs_resetStartState hs_resolveStartIfPending hz_startResolved hz_startSucceeded
  hz_listeningPort hz_lastError hz_base "\<lambda>b. hz_base_update (\<lambda>_. b)" hs_waitUntilListening hs_startThread
proof unfold_locales
  fix t ws s ok s'
  assume "t \<noteq> 0" and "hs_waitUntilListening t ws s = Some (ok, s')"
  then show "ok = (hz_startResolved s' \<and> hz_startSucceeded s')"
    by (auto simp: hs_waitUntilListening_def dest!: cv_wait_for_result split: option.splits if_splits)
qed (auto simp: hs_resetStartState_def hs_waitUntilListening_def hs_startThread_def Let_def split: option.splits)

lemmas hs_config_defs =
  hs_setErrorHandler_def hs_clearErrorHandler_def hs_setBindAddress_def hs_setPort_def hs_setThreadPoolSize_def
  hs_setReuseAddress_def hs_setFastOpen_def hs_setRequestTimeoutSeconds_def hs_setContentTimeoutSeconds_def
  hs_setMaxRequestSize_def

lemmas zr_defs =
  zr_make_def zr_write_def zr_write_body_def zr_write_headers_def zr_redirect_def zr_copy_def
  zr_destroy_def


end
