(* ===== verification/HttpsServerProofs.thy ===== *)
theory HttpsServerProofs
  imports HttpsServer HttpServerProofs
begin

text \<open>
  The HTTPS server against the HTTP server: the view of an \<open>https_server\<close> that forgets the certificate
  files is an \<open>http_server\<close>, and every operation of the copy commutes with it. What
  \<open>HttpServerProofs\<close> shows of the original holds of the copy through this view; what is new, the check
  of the certificate files, is stated on its own.
\<close>

section \<open>The helpers agree\<close>

lemma hs_text_agrees:
  "hs_trimCopy = trimCopy" "hs_normalizeMethod = normalizeMethod" "hs_makeStatusLine = makeStatusLine"
  by (simp_all add: fun_eq_iff hs_trimCopy_def trimCopy_def hs_normalizeMethod_def normalizeMethod_def
      hs_makeStatusLine_def makeStatusLine_def)

lemma hs_iequals_loop_agrees: "hs_iequals_loop i l r = iequals_loop i l r"
proof (induction i l r rule: iequals_loop.induct)
  case (1 i l r)
  then show ?case by (subst iequals_loop.simps, subst hs_iequals_loop.simps) simp
qed

lemma hs_hasHeader_agrees: "hs_hasHeader = hasHeader"
  by (simp add: fun_eq_iff hs_hasHeader_def hasHeader_def hs_iequals_def iequals_def hs_iequals_loop_agrees)

lemma hs_copyFields_agrees: "hs_copyFields fs = copyFields fs"
  by (induction fs) simp_all

lemma hs_writeHeaders_agrees: "hs_writeHeaders hs = writeHeaders hs"
  by (induction hs) simp_all

lemma hs_writeResponse_agrees: "hs_writeResponse = writeResponse"
  unfolding fun_eq_iff hs_writeResponse_def writeResponse_def hs_text_agrees hs_hasHeader_agrees
    hs_writeHeaders_agrees by (intro allI refl)+

lemma hs_makeRequestSnapshot_agrees: "hs_makeRequestSnapshot = makeRequestSnapshot"
  by (simp add: fun_eq_iff hs_makeRequestSnapshot_def makeRequestSnapshot_def hs_copyFields_agrees
      hs_endpointAddressToString_def endpointAddressToString_def split: option.splits)

lemma zr_agrees:
  "zr_make = cr_make" "zr_write = cr_write" "zr_write_body = cr_write_body"
  "zr_write_headers = cr_write_headers" "zr_redirect = cr_redirect" "zr_copy = cr_copy"
  "zr_destroy = cr_destroy"
  unfolding fun_eq_iff zr_defs cr_defs hs_writeResponse_agrees by (intro allI refl)+

lemma zr_apply_agrees: "zr_apply sc c = cr_apply sc c"
  by (cases c) (simp_all add: fun_eq_iff zr_agrees)

lemma hs_install_agrees:
  "hs_installResources eh rs t = installResources eh rs t" "hs_installDefaults eh ds u = installDefaults eh ds u"
  by (induction rs arbitrary: t, simp_all) (induction ds arbitrary: u, simp_all)

section \<open>The view\<close>

definition sv_view :: "https_lib_server \<Rightarrow> lib_server" where
  "sv_view v =
     \<lparr>sv_port = sz_port v, sv_address = sz_address v, sv_thread_pool_size = sz_thread_pool_size v,
      sv_reuse_address = sz_reuse_address v, sv_fast_open = sz_fast_open v,
      sv_timeout_request = sz_timeout_request v, sv_timeout_content = sz_timeout_content v,
      sv_max_request_streambuf_size = sz_max_request_streambuf_size v, sv_resource = sz_resource v,
      sv_default_resource = sz_default_resource v, sv_on_error = sz_on_error v\<rparr>"

definition http_view :: "https_server \<Rightarrow> http_server" where
  "http_view s =
     \<lparr>hb_base = hz_base s, hi_resources = hz_resources s, hi_defaultResources = hz_defaultResources s,
      hi_errorHandler = hz_errorHandler s, hi_server = map_option sv_view (hz_server s),
      hi_bindAddress = hz_bindAddress s, hi_configuredPort = hz_configuredPort s,
      hi_listeningPort = hz_listeningPort s, hi_threadPoolSize = hz_threadPoolSize s,
      hi_reuseAddress = hz_reuseAddress s, hi_fastOpen = hz_fastOpen s,
      hi_requestTimeoutSeconds = hz_requestTimeoutSeconds s,
      hi_contentTimeoutSeconds = hz_contentTimeoutSeconds s, hi_maxRequestSize = hz_maxRequestSize s,
      hi_startResolved = hz_startResolved s, hi_startSucceeded = hz_startSucceeded s,
      hi_lastError = hz_lastError s\<rparr>"

lemma view_running [simp]: "ht_isRunning (http_view s) = hs_isRunning s"
  by (simp add: ht_isRunning_def hs_isRunning_def http_view_def)

lemma view_latch:
  "http_view (hs_resetStartState s) = ht_resetStartState (http_view s)"
  "http_view (hs_resolveStartIfPending b p e s) = ht_resolveStartIfPending b p e (http_view s)"
  "http_view (hs_setLastError e s) = ht_setLastError e (http_view s)"
  "http_view (hs_updateHeartbeat now s) = ht_updateHeartbeat now (http_view s)"
  by (simp_all add: http_view_def hs_resetStartState_def ht_resetStartState_def
      hs_resolveStartIfPending_def ht_resolveStartIfPending_def hs_setLastError_def ht_setLastError_def
      hs_updateHeartbeat_def ht_updateHeartbeat_def)

lemma view_addResource:
  "apsnd http_view (hs_addResource p m h s) = addResource p m h (http_view s)"
  "apsnd http_view (hs_setDefaultResource m h s) = setDefaultResource m h (http_view s)"
  by (auto simp: hs_addResource_def addResource_def hs_setDefaultResource_def setDefaultResource_def
      hs_text_agrees Let_def split: option.splits) (simp_all add: http_view_def)

fun hs_set :: "ht_setting \<Rightarrow> https_server \<Rightarrow> https_server" where
  "hs_set (Set_errorHandler h) s = hs_setErrorHandler h s"
| "hs_set Clear_errorHandler s = hs_clearErrorHandler s"
| "hs_set (Set_bindAddress a) s = hs_setBindAddress a s"
| "hs_set (Set_port p) s = hs_setPort p s"
| "hs_set (Set_threadPoolSize n) s = hs_setThreadPoolSize n s"
| "hs_set (Set_reuseAddress b) s = hs_setReuseAddress b s"
| "hs_set (Set_fastOpen b) s = hs_setFastOpen b s"
| "hs_set (Set_requestTimeout t) s = hs_setRequestTimeoutSeconds t s"
| "hs_set (Set_contentTimeout t) s = hs_setContentTimeoutSeconds t s"
| "hs_set (Set_maxRequestSize n) s = hs_setMaxRequestSize n s"

lemma view_set: "http_view (hs_set x s) = ht_set x (http_view s)"
  by (cases x) (auto simp: hs_config_defs ht_config_defs http_view_def ht_isRunning_def hs_isRunning_def)

lemma answer_agrees:
  assumes "snd (in_handler i (makeRequestSnapshot request)) \<noteq> Some OtherException"
  shows "fst (hs_handleRequest sc i now request response s) = fst (handleRequest sc i now request response u)
    \<and> snd (snd (hs_handleRequest sc i now request response s))
      = snd (snd (handleRequest sc i now request response u))"
proof -
  have f: "fold (zr_apply sc) calls r = fold (cr_apply sc) calls r" for calls r
    by (simp add: zr_apply_agrees cong: fold_cong)
  obtain calls thrown where h: "in_handler i (makeRequestSnapshot request) = (calls, thrown)" by fastforce
  have "hs_exn_message (in_default i) e = exn_message (in_default i) e" if "thrown = Some e" for e
    using assms h that by (cases e) (auto simp: hs_exn_message_def exn_message_def)
  then show ?thesis
    by (auto simp: hs_handleRequest_def handleRequest_def hs_makeRequestSnapshot_agrees h f zr_agrees
        Let_def split: option.splits)
qed

section \<open>Operations\<close>

text \<open>What can be done to a server, as far as its own state goes: the calls of its user, the hooks that
  its worker thread runs, the requests and errors that the library reports. \<open>run()\<close> carries what happens
  during \<open>start\<close>.\<close>

datatype hs_op =
    Op_set ht_setting
  | Op_addResource string string "td_RequestHandler option"
  | Op_setDefaultResource string "td_RequestHandler option"
  | Op_setCertificateFiles string string string
  | Op_startThread "nat option" int
  | Op_requestStop
  | Op_preRun "cpp_exn option"
  | Op_run "u16 option" int "hs_op list" "cpp_exn option"
  | Op_request installed int "lib_request option" "string option"
  | Op_error "td_ErrorHandler option" int "lib_request option" int string

fun hs_step :: "(u16 \<Rightarrow> string) \<Rightarrow> hs_op \<Rightarrow> https_server \<Rightarrow> https_server"
and hs_steps :: "(u16 \<Rightarrow> string) \<Rightarrow> hs_op list \<Rightarrow> https_server \<Rightarrow> https_server" where
  "hs_step sc (Op_set x) s = hs_set x s"
| "hs_step sc (Op_addResource p m h) s = snd (hs_addResource p m h s)"
| "hs_step sc (Op_setDefaultResource m h) s = snd (hs_setDefaultResource m h s)"
| "hs_step sc (Op_setCertificateFiles c k v) s = setCertificateFiles c k v s"
| "hs_step sc (Op_startThread created now) s =
     (case hs_startThread created now 0 [] s of Some (r, s') \<Rightarrow> s' | None \<Rightarrow> s)"
| "hs_step sc Op_requestStop s = hs_requestStop s"
| "hs_step sc (Op_preRun thrown) s = snd (hs_preRun thrown s)"
| "hs_step sc (Op_run port now ops thrown) s =
     snd (hs_run \<lparr>lz_port = port, lz_meanwhile = (\<lambda>u. hs_steps sc ops u), lz_thrown = thrown\<rparr> now s)"
| "hs_step sc (Op_request i now rq rs) s = fst (snd (hs_handleRequest sc i now rq rs s))"
| "hs_step sc (Op_error h now rq v m) s = snd (hs_handleError h now rq v m s)"
| "hs_steps sc [] s = s"
| "hs_steps sc (x # xs) s = hs_steps sc xs (hs_step sc x s)"

fun ht_op_step :: "(u16 \<Rightarrow> string) \<Rightarrow> hs_op \<Rightarrow> http_server \<Rightarrow> http_server"
and ht_op_steps :: "(u16 \<Rightarrow> string) \<Rightarrow> hs_op list \<Rightarrow> http_server \<Rightarrow> http_server" where
  "ht_op_step sc (Op_set x) s = ht_set x s"
| "ht_op_step sc (Op_addResource p m h) s = snd (addResource p m h s)"
| "ht_op_step sc (Op_setDefaultResource m h) s = snd (setDefaultResource m h s)"
| "ht_op_step sc (Op_setCertificateFiles c k v) s = s"
| "ht_op_step sc (Op_startThread created now) s =
     (case ht_startThread created now 0 [] s of Some (r, s') \<Rightarrow> s' | None \<Rightarrow> s)"
| "ht_op_step sc Op_requestStop s = ht_requestStop s"
| "ht_op_step sc (Op_preRun thrown) s = snd (ht_preRun thrown s)"
| "ht_op_step sc (Op_run port now ops thrown) s =
     snd (ht_run \<lparr>ls_port = port, ls_meanwhile = (\<lambda>u. ht_op_steps sc ops u), ls_thrown = thrown\<rparr> now s)"
| "ht_op_step sc (Op_request i now rq rs) s = fst (snd (handleRequest sc i now rq rs s))"
| "ht_op_step sc (Op_error h now rq v m) s = snd (handleError h now rq v m s)"
| "ht_op_steps sc [] s = s"
| "ht_op_steps sc (x # xs) s = ht_op_steps sc xs (ht_op_step sc x s)"


text \<open>The simulation: the same state, up to the text of the last error, which the copy words differently,
  and certificate files that are set.\<close>

definition hs_sim :: "https_server \<Rightarrow> http_server \<Rightarrow> bool" where
  "hs_sim s u \<longleftrightarrow>
     hz_certificateFile s \<noteq> [] \<and> hz_privateKeyFile s \<noteq> [] \<and> http_view s = u\<lparr>hi_lastError := hz_lastError s\<rparr>"

lemma hs_sim_fields:
  "hs_sim s u \<longleftrightarrow>
     hz_certificateFile s \<noteq> [] \<and> hz_privateKeyFile s \<noteq> [] \<and> hz_base s = hb_base u
     \<and> hz_resources s = hi_resources u \<and> hz_defaultResources s = hi_defaultResources u
     \<and> hz_errorHandler s = hi_errorHandler u \<and> map_option sv_view (hz_server s) = hi_server u
     \<and> hz_bindAddress s = hi_bindAddress u \<and> hz_configuredPort s = hi_configuredPort u
     \<and> hz_listeningPort s = hi_listeningPort u \<and> hz_threadPoolSize s = hi_threadPoolSize u
     \<and> hz_reuseAddress s = hi_reuseAddress u \<and> hz_fastOpen s = hi_fastOpen u
     \<and> hz_requestTimeoutSeconds s = hi_requestTimeoutSeconds u
     \<and> hz_contentTimeoutSeconds s = hi_contentTimeoutSeconds u
     \<and> hz_maxRequestSize s = hi_maxRequestSize u \<and> hz_startResolved s = hi_startResolved u
     \<and> hz_startSucceeded s = hi_startSucceeded u"
  by (cases u) (auto simp: hs_sim_def http_view_def)

text \<open>No operation of the list takes the certificate files away.\<close>

fun keeps_certificates :: "hs_op \<Rightarrow> bool" where
  "keeps_certificates (Op_setCertificateFiles c k v) \<longleftrightarrow> c \<noteq> [] \<and> k \<noteq> []"
| "keeps_certificates (Op_run port now ops thrown) \<longleftrightarrow> list_all keeps_certificates ops"
| "keeps_certificates _ \<longleftrightarrow> True"

lemma sim_latch:
  assumes "hs_sim s u"
  shows "hs_sim (hs_resetStartState s) (ht_resetStartState u)"
    "hs_sim (hs_resolveStartIfPending b p e s) (ht_resolveStartIfPending b p e' u)"
    "hs_sim (hs_setLastError e s) (ht_setLastError e' u)"
    "hs_sim (hs_updateHeartbeat now s) (ht_updateHeartbeat now u)"
  using assms
  by (auto simp: hs_sim_fields hs_resetStartState_def ht_resetStartState_def hs_setLastError_def
      hs_resolveStartIfPending_def ht_resolveStartIfPending_def ht_setLastError_def
      hs_updateHeartbeat_def ht_updateHeartbeat_def)

lemma sim_running: "hs_sim s u \<Longrightarrow> ht_isRunning u = hs_isRunning s"
  by (simp add: hs_sim_fields hs_isRunning_def ht_isRunning_def)

lemma sim_set: "hs_sim s u \<Longrightarrow> hs_sim (hs_set x s) (ht_set x u)"
  by (cases x) (auto simp: hs_config_defs ht_config_defs sim_running hs_sim_fields)

lemma sim_resources:
  assumes "hs_sim s u"
  shows "hs_sim (snd (hs_addResource p m h s)) (snd (addResource p m h u))"
    "hs_sim (snd (hs_setDefaultResource m h s)) (snd (setDefaultResource m h u))"
  using assms
  by (auto simp: hs_addResource_def addResource_def hs_setDefaultResource_def setDefaultResource_def
      hs_text_agrees Let_def sim_running hs_sim_fields split: option.splits)

lemma sim_setCertificateFiles:
  "hs_sim s u \<Longrightarrow> c \<noteq> [] \<Longrightarrow> k \<noteq> [] \<Longrightarrow> hs_sim (setCertificateFiles c k v s) u"
  by (simp add: setCertificateFiles_def hs_sim_fields)

lemma sim_base: "hs_sim s u \<Longrightarrow> hs_sim (s\<lparr>hz_base := b\<rparr>) (u\<lparr>hb_base := b\<rparr>)"
  by (simp add: hs_sim_fields)

lemma sim_no_server: "hs_sim s u \<Longrightarrow> hs_sim (s\<lparr>hz_server := None\<rparr>) (u\<lparr>hi_server := None\<rparr>)"
  by (simp add: hs_sim_fields)

lemma sim_baseD: "hs_sim s u \<Longrightarrow> hz_base s = hb_base u"
  by (simp add: hs_sim_fields)

lemma sim_serverD: "hs_sim s u \<Longrightarrow> hi_server u = map_option sv_view (hz_server s)"
  by (simp add: hs_sim_fields)

lemma sim_startThread:
  assumes "hs_sim s u"
  shows "hs_sim (hs_step sc (Op_startThread created now) s) (ht_op_step sc (Op_startThread created now) u)"
proof -
  note r = sim_latch(1) [OF assms]
  show ?thesis
    by (auto simp: hs_startThread_def ht_startThread_def hs_waitUntilListening_def
        ht_waitUntilListening_def Let_def sim_baseD [OF r] intro!: assms sim_base r
        split: option.splits bool.splits)
qed

lemma sim_requestStop: "hs_sim s u \<Longrightarrow> hs_sim (hs_requestStop s) (ht_requestStop u)"
  by (auto simp: hs_requestStop_def ht_requestStop_def hs_stopTriggered_def ht_stopTriggered_def
      sim_baseD intro!: sim_latch sim_base split: prod.splits)

lemma sv_view_server:
  "hs_sim s u \<Longrightarrow> hz_server s = None \<longleftrightarrow> hi_server u = None"
  by (simp add: sim_serverD)

lemma sim_preRun:
  assumes "hs_sim s u"
  shows "fst (hs_preRun thrown s) = fst (ht_preRun thrown u)
    \<and> hs_sim (snd (hs_preRun thrown s)) (snd (ht_preRun thrown u))"
proof (cases thrown)
  case None
  then show ?thesis
    using assms by (simp add: hs_preRun_def ht_preRun_def hs_sim_fields sv_view_def hs_install_agrees)
next
  case (Some e)
  have "\<not> (hz_certificateFile s = [] \<or> hz_privateKeyFile s = [])"
    using assms by (simp add: hs_sim_def)
  with Some show ?thesis
    using sim_no_server [OF sim_latch(2) [OF assms]] by (simp add: hs_preRun_def ht_preRun_def)
qed

lemma sim_run:
  assumes s: "hs_sim s u"
    and m: "\<And>v w. hs_sim v w \<Longrightarrow> hs_sim (lz_meanwhile zs v) (ls_meanwhile hs w)"
    and l: "lz_port zs = ls_port hs" "lz_thrown zs = ls_thrown hs"
  shows "hs_sim (snd (hs_run zs now s)) (snd (ht_run hs now u))"
proof (cases "hi_server u")
  case None
  then show ?thesis
    using sim_latch(2) [OF s] sv_view_server [OF s] by (simp add: hs_run_def ht_run_def)
next
  case (Some server)
  then obtain server' where z: "hz_server s = Some server'"
    using sv_view_server [OF s] by auto
  let ?s1 = "case lz_port zs of None \<Rightarrow> s
     | Some port \<Rightarrow> hs_resolveStartIfPending True port [] (hs_updateHeartbeat now s)"
  let ?u1 = "case ls_port hs of None \<Rightarrow> u
     | Some port \<Rightarrow> ht_resolveStartIfPending True port [] (ht_updateHeartbeat now u)"
  have "hs_sim ?s1 ?u1"
    using s l(1) by (auto split: option.splits intro: sim_latch)
  then have s2: "hs_sim (lz_meanwhile zs ?s1) (ls_meanwhile hs ?u1)" by (rule m)
  show ?thesis
    unfolding hs_run_def ht_run_def Some z Let_def option.case l(2)
    using sim_no_server [OF sim_latch(2) [OF s2]] sim_latch(2) [OF s2]
    by (auto split: option.splits cpp_exn.splits)
qed

lemma sim_request:
  assumes "hs_sim s u"
  shows "hs_sim (fst (snd (hs_handleRequest sc i now rq rs s))) (fst (snd (handleRequest sc i now rq rs u)))"
  by (auto simp: hs_handleRequest_def handleRequest_def Let_def hs_makeRequestSnapshot_agrees intro!: sim_latch assms
      split: prod.splits option.splits)

lemma sim_error:
  assumes "hs_sim s u"
  shows "hs_handleError h now rq v m s = (fst (handleError h now rq v m u), snd (hs_handleError h now rq v m s))
    \<and> hs_sim (snd (hs_handleError h now rq v m s)) (snd (handleError h now rq v m u))"
  by (auto simp: hs_handleError_def handleError_def Let_def hs_makeRequestSnapshot_agrees
      intro!: sim_latch assms split: option.splits)

lemma hs_step_sim:
  "hs_sim s u \<Longrightarrow> keeps_certificates x \<Longrightarrow> hs_sim (hs_step sc x s) (ht_op_step sc x u)"
  "hs_sim s u \<Longrightarrow> list_all keeps_certificates xs \<Longrightarrow> hs_sim (hs_steps sc xs s) (ht_op_steps sc xs u)"
proof (induction sc x s and sc xs s arbitrary: u and u rule: hs_step_hs_steps.induct)
  case (4 sc c k v s)
  then show ?case
    unfolding hs_step.simps ht_op_step.simps keeps_certificates.simps by (blast intro: sim_setCertificateFiles)
next
  case (5 sc created now s)
  then show ?case using sim_startThread by blast
next
  case (7 sc thrown s)
  then show ?case
    unfolding hs_step.simps ht_op_step.simps using sim_preRun by blast
next
  case (8 sc port now ops thrown s)
  show ?case
    unfolding hs_step.simps ht_op_step.simps
    by (rule sim_run [OF 8(2)]) (use 8 in \<open>auto\<close>)
next
  case (10 sc h now rq v m s)
  then show ?case
    unfolding hs_step.simps ht_op_step.simps using sim_error by blast
next
  case (12 sc x xs s)
  from 12(4) have k: "keeps_certificates x" "list_all keeps_certificates xs" by simp_all
  show ?case
    unfolding hs_steps.simps ht_op_steps.simps by (rule 12(2) [OF 12(1) [OF 12(3) k(1)] k(2)])
qed (unfold hs_step.simps ht_op_step.simps hs_steps.simps ht_op_steps.simps,
    (assumption | rule sim_set sim_resources sim_requestStop sim_request)+)

text \<open>C26: The HTTPS server refines the HTTP server: over any sequence of operations that keeps a
  certificate and a key configured, its state, the certificate files and the wording of the last error
  left out, is the state of an HTTP server after the same operations, and it answers every request with
  the same bytes (a handler that throws something else than a \<open>std::exception\<close> apart).\<close>

theorem hs_refines_http:
  assumes "c \<noteq> []" and "k \<noteq> []" and "list_all keeps_certificates ops"
  shows "let s = hs_steps sc ops (hs_new name port c k v addr pool t0);
             u = ht_op_steps sc ops (ht_new name port addr pool t0)
         in http_view s = u\<lparr>hi_lastError := hs_lastError s\<rparr>
            \<and> (\<forall>i now rq rs. snd (in_handler i (makeRequestSnapshot rq)) \<noteq> Some OtherException \<longrightarrow>
                 snd (snd (hs_handleRequest sc i now rq rs s)) = snd (snd (handleRequest sc i now rq rs u)))"
proof -
  have "hs_sim (hs_new name port c k v addr pool t0) (ht_new name port addr pool t0)"
    using assms by (simp add: hs_sim_fields hs_new_def ht_new_def)
  from hs_step_sim(2) [OF this assms(3), of sc] show ?thesis
    by (simp add: hs_sim_def hs_lastError_def Let_def answer_agrees)
qed

theorem hs_refines_http_witness:
  "let ops = [Op_set (Set_port 8443), Op_startThread (Some 1) 7, Op_preRun None,
              Op_run (Some 8443) 9 [Op_requestStop] None];
       s = hs_steps (\<lambda>_. []) ops (hs_new ''h'' 443 ''cert.pem'' ''key.pem'' [] [] 1 0)
   in http_view s = (ht_op_steps (\<lambda>_. []) ops (ht_new ''h'' 443 [] 1 0))\<lparr>hi_lastError := hs_lastError s\<rparr>"
  unfolding Let_def by (rule hs_refines_http [unfolded Let_def, THEN conjunct1]) simp_all

section \<open>Certificates\<close>

definition has_certificates :: "https_server \<Rightarrow> bool" where
  "has_certificates s \<longleftrightarrow> hz_certificateFile s \<noteq> [] \<and> hz_privateKeyFile s \<noteq> []"

definition server_certified :: "https_server \<Rightarrow> bool" where
  "server_certified s \<longleftrightarrow>
     (case hz_server s of None \<Rightarrow> True
      | Some v \<Rightarrow> sz_certificateFile v \<noteq> [] \<and> sz_privateKeyFile v \<noteq> [])"

lemma certified_updates:
  assumes "server_certified s"
  shows "server_certified (hs_resetStartState s)"
    "server_certified (hs_resolveStartIfPending b p e s)"
    "server_certified (hs_setLastError e s)" "server_certified (hs_updateHeartbeat now s)"
    "server_certified (s\<lparr>hz_base := w\<rparr>)" "server_certified (s\<lparr>hz_server := None\<rparr>)"
    "server_certified (hs_set x s)" "server_certified (snd (hs_addResource p' m h s))"
    "server_certified (snd (hs_setDefaultResource m h s))" "server_certified (setCertificateFiles c k v s)"
proof -
  show "server_certified (hs_set x s)"
    using assms by (cases x) (auto simp: hs_config_defs server_certified_def)
qed (use assms in \<open>auto simp: server_certified_def hs_resetStartState_def hs_resolveStartIfPending_def
    hs_setLastError_def hs_updateHeartbeat_def hs_addResource_def hs_setDefaultResource_def
    setCertificateFiles_def Let_def split: option.splits\<close>)

lemma certified_preRun: "server_certified s \<Longrightarrow> server_certified (snd (hs_preRun thrown s))"
  by (auto simp: hs_preRun_def intro!: certified_updates split: option.splits)
    (auto simp: server_certified_def)

lemma certified_run:
  assumes "server_certified s" and "\<And>v. server_certified v \<Longrightarrow> server_certified (lz_meanwhile zs v)"
  shows "server_certified (snd (hs_run zs now s))"
  by (auto simp: hs_run_def Let_def intro!: certified_updates assms split: option.splits cpp_exn.splits)

lemma certified_ops:
  assumes "server_certified s"
  shows "server_certified (hs_step sc (Op_startThread created now) s)" "server_certified (hs_requestStop s)"
    "server_certified (fst (snd (hs_handleRequest sc i now rq rs s)))"
    "server_certified (snd (hs_handleError h now rq v m s))"
  using assms
  by (auto simp: hs_startThread_def hs_waitUntilListening_def hs_requestStop_def hs_stopTriggered_def
      hs_handleRequest_def hs_handleError_def Let_def intro!: certified_updates
      split: option.splits bool.splits prod.splits)

lemma certified_steps:
  "server_certified s \<Longrightarrow> server_certified (hs_step sc x s)"
  "server_certified s \<Longrightarrow> server_certified (hs_steps sc xs s)"
proof (induction sc x s and sc xs s rule: hs_step_hs_steps.induct)
  case (5 sc created now s)
  then show ?case by (rule certified_ops(1))
next
  case (8 sc port now ops thrown s)
  show ?case
    unfolding hs_step.simps by (rule certified_run [OF 8(2)]) (use 8 in simp)
next
  case (12 sc x xs s)
  show ?case
    unfolding hs_steps.simps by (rule 12(2) [OF 12(1) [OF 12(3)]])
qed (unfold hs_step.simps hs_steps.simps,
    (assumption | rule certified_updates certified_preRun certified_ops)+)

text \<open>C36: No sequence of operations, settings that take the files away included, brings the HTTPS server to
  hold a library server without certificate and key; a preparation without them fails and, when the
  start is still pending, reports it as failed with the message that names the cause.\<close>

theorem hs_never_without_certificate:
  "let s = hs_steps sc ops (hs_new name port c k v addr pool t0) in
   (case hz_server s of None \<Rightarrow> True
    | Some sv \<Rightarrow> sz_certificateFile sv \<noteq> [] \<and> sz_privateKeyFile sv \<noteq> [])
   \<and> (case hs_preRun thrown s of (ok, s') \<Rightarrow>
        (if has_certificates s then ok = (thrown = None)
         else \<not> ok \<and> hz_startResolved s' \<and> hs_lastError s' = ''HTTPS server requires certificate and private key files''
           \<and> (if hz_startResolved s then True else \<not> hz_startSucceeded s' \<and> hs_listeningPort s' = 0)))"
proof -
  have "server_certified (hs_new name port c k v addr pool t0)"
    by (simp add: server_certified_def hs_new_def)
  from certified_steps(2) [OF this, of sc ops] show ?thesis
    by (auto simp: server_certified_def Let_def hs_preRun_def has_certificates_def hs_lastError_def
        hs_listeningPort_def hs_resolveStartIfPending_def split: option.splits)
qed

end
