(* ===== verification/HttpClient.thy ===== *)
theory HttpClient
  imports HttpText
begin

text \<open>
  \<open>cHTTPClient\<close> (\<open>cHTTPClient.h\<close>, \<open>cHTTPClient.cpp\<close>): one request through libcurl. The client keeps no
  state of its own; what it does is to turn a request into a sequence of \<open>curl_easy_setopt\<close> calls, to
  collect what libcurl hands to its two callbacks, and to report the outcome. libcurl is the parameter
  \<open>curl\<close>: what its calls return, and which callbacks a transfer makes. Texts are passed to libcurl as
  C strings, which end at the first NUL.
\<close>

section \<open>Data\<close>

record st_Header =
  hd_name :: string
  hd_value :: string

type_synonym td_Headers = "st_Header list"

definition Header :: "string \<Rightarrow> string \<Rightarrow> st_Header" where
  "Header name value = \<lparr>hd_name = name, hd_value = value\<rparr>"

datatype enm_Method = M_Get | M_Post | M_Put | M_Patch | M_Delete | M_Head

record hc_Request =
  hq_url :: string
  hq_method :: enm_Method
  hq_headers :: td_Headers
  hq_body :: string
  hq_userAgent :: string
  hq_contentType :: string
  hq_accept :: string
  hq_basicAuthUser :: string
  hq_basicAuthPassword :: string
  hq_bearerToken :: string
  hq_caInfoPath :: string
  hq_connectTimeout :: int
  hq_timeout :: int
  hq_maxRedirects :: int
  hq_followRedirects :: bool
  hq_verifyPeer :: bool
  hq_verifyHost :: bool
  hq_acceptCompressedResponse :: bool

definition hc_request :: hc_Request where
  "hc_request =
     \<lparr>hq_url = [], hq_method = M_Get, hq_headers = [], hq_body = [],
      hq_userAgent = ''HotBits/cHTTPClient'', hq_contentType = [], hq_accept = [],
      hq_basicAuthUser = [], hq_basicAuthPassword = [], hq_bearerToken = [], hq_caInfoPath = [],
      hq_connectTimeout = 10000, hq_timeout = 180000, hq_maxRedirects = 10, hq_followRedirects = True,
      hq_verifyPeer = True, hq_verifyHost = True, hq_acceptCompressedResponse = True\<rparr>"

record hc_Response =
  hp_statusCode :: int
  hp_curlCode :: int
  hp_body :: string
  hp_headers :: td_Headers
  hp_rawHeaders :: string
  hp_effectiveUrl :: string
  hp_errorMessage :: string
  hp_elapsed :: int

definition hc_response :: hc_Response where
  "hc_response =
     \<lparr>hp_statusCode = 0, hp_curlCode = 0, hp_body = [], hp_headers = [], hp_rawHeaders = [],
      hp_effectiveUrl = [], hp_errorMessage = [], hp_elapsed = 0\<rparr>"

section \<open>libcurl\<close>

text \<open>The options the code sets (the \<open>CURLOPT_\<close> prefix left out) and the codes it names.\<close>

datatype curl_option =
    ERRORBUFFER | URL string | NOSIGNAL int | CONNECTTIMEOUT_MS int | TIMEOUT_MS int
  | FOLLOWLOCATION int | MAXREDIRS int | SSL_VERIFYPEER int | SSL_VERIFYHOST int
  | WRITEFUNCTION | WRITEDATA | HEADERFUNCTION | HEADERDATA | USERAGENT string
  | ACCEPT_ENCODING string | CAINFO string | HTTPAUTH int | XOAUTH2_BEARER string
  | USERNAME string | PASSWORD string | HTTPHEADER "string list" | POST int
  | CUSTOMREQUEST string | NOBODY int | HTTPGET int | POSTFIELDS string | POSTFIELDSIZE_LARGE int

definition CURLE_OK :: int where "CURLE_OK = 0"
definition CURLE_FAILED_INIT :: int where "CURLE_FAILED_INIT = 2"
definition CURLE_URL_MALFORMAT :: int where "CURLE_URL_MALFORMAT = 3"
definition CURLAUTH_BASIC :: int where "CURLAUTH_BASIC = 1"
definition CURLAUTH_BEARER :: int where "CURLAUTH_BEARER = 64"

text \<open>A callback of a transfer: the bytes at the pointer it is given (\<open>None\<close> for null), and the two
  factors of their number.\<close>

datatype curl_event =
    Ev_header "string option" u64 u64
  | Ev_body "string option" u64 u64

record curl_transfer =
  ct_events :: "curl_event list"
  ct_result :: int
  ct_errorBuffer :: string
  ct_elapsed :: int
  ct_responseCode :: "int option"
  ct_effectiveUrl :: "string option"

record curl =
  curl_global_init :: int
  curl_easy_init :: bool
  curl_easy_strerror :: "int \<Rightarrow> string"
  curl_slist_alloc :: "string \<Rightarrow> bool"
  curl_easy_perform :: "curl_option list \<Rightarrow> curl_transfer"

definition c_str :: "string \<Rightarrow> string" where
  "c_str s = takeWhile (\<lambda>c. c \<noteq> CHR 0x00) s"

section \<open>Text helpers\<close>

function hc_trim_begin :: "nat \<Rightarrow> string \<Rightarrow> nat" where
  "hc_trim_begin begin' s =
     (if begin' < length s \<and> c_isspace (s ! begin') then hc_trim_begin (Suc begin') s else begin')"
  by pat_completeness auto
termination by (relation "measure (\<lambda>(b, s). length s - b)") auto

declare hc_trim_begin.simps [simp del]

fun hc_trim_end :: "nat \<Rightarrow> nat \<Rightarrow> string \<Rightarrow> nat" where
  "hc_trim_end begin' 0 s = 0"
| "hc_trim_end begin' (Suc end1) s =
     (if begin' < Suc end1 \<and> c_isspace (s ! end1) then hc_trim_end begin' end1 s else Suc end1)"

definition hc_trimCopy :: "string \<Rightarrow> string" where
  "hc_trimCopy s =
     (let begin' = hc_trim_begin 0 s; end' = hc_trim_end begin' (length s) s
      in take (end' - begin') (drop begin' s))"

function hc_iequals_loop :: "nat \<Rightarrow> string \<Rightarrow> string \<Rightarrow> bool" where
  "hc_iequals_loop i lhs rhs =
     (if i < length lhs then
        if c_tolower (lhs ! i) \<noteq> c_tolower (rhs ! i) then False
        else hc_iequals_loop (Suc i) lhs rhs
      else True)"
  by pat_completeness auto
termination by (relation "measure (\<lambda>(i, l, r). length l - i)") auto

declare hc_iequals_loop.simps [simp del]

definition hc_iequals :: "string \<Rightarrow> string \<Rightarrow> bool" where
  "hc_iequals lhs rhs \<longleftrightarrow> (if length lhs \<noteq> length rhs then False else hc_iequals_loop 0 lhs rhs)"

definition hc_hasHeader :: "td_Headers \<Rightarrow> string \<Rightarrow> bool" where
  "hc_hasHeader headers name \<longleftrightarrow> list_ex (\<lambda>header. hc_iequals (hd_name header) name) headers"

text \<open>The list is the \<open>curl_slist\<close>, empty for a null pointer; when libcurl cannot allocate, the pointer
  becomes null.\<close>

definition appendHeader :: "curl \<Rightarrow> st_Header \<Rightarrow> string list \<Rightarrow> string list" where
  "appendHeader cu header curlHeaders =
     (if hd_name header = [] then curlHeaders
      else let rawHeader = hd_name header @ '': '' @ hd_value header in
           if curl_slist_alloc cu (c_str rawHeader) then curlHeaders @ [c_str rawHeader] else [])"

fun methodToString :: "enm_Method \<Rightarrow> string" where
  "methodToString M_Post = ''POST''"
| "methodToString M_Put = ''PUT''"
| "methodToString M_Patch = ''PATCH''"
| "methodToString M_Delete = ''DELETE''"
| "methodToString M_Head = ''HEAD''"
| "methodToString M_Get = ''GET''"

section \<open>Global initialisation\<close>

text \<open>\<open>g_curlInitFlag\<close> and \<open>g_curlInitResult\<close>: \<open>None\<close> until the first call. The result is the error
  message, if initialisation had failed.\<close>

type_synonym curl_global = "int option"

definition ensureCurlGlobalInit :: "curl \<Rightarrow> curl_global \<Rightarrow> (string + unit) \<times> curl_global" where
  "ensureCurlGlobalInit cu g =
     (let g_curlInitResult = (case g of None \<Rightarrow> curl_global_init cu | Some r \<Rightarrow> r);
          g' = Some g_curlInitResult
      in if g_curlInitResult \<noteq> CURLE_OK then (Inl (curl_easy_strerror cu g_curlInitResult), g')
         else (Inr (), g'))"

section \<open>Callbacks\<close>

definition find_char :: "char \<Rightarrow> string \<Rightarrow> nat option" where
  "find_char c s =
     (let i = length (takeWhile (\<lambda>x. x \<noteq> c) s) in if i < length s then Some i else None)"

definition writeBodyCallback :: "string option \<Rightarrow> u64 \<Rightarrow> u64 \<Rightarrow> hc_Response \<Rightarrow> u64 \<times> hc_Response" where
  "writeBodyCallback data size' count' response =
     (case data of
        None \<Rightarrow> (0, response)
      | Some bytes \<Rightarrow>
          (size' * count', response\<lparr>hp_body := hp_body response @ take (unat (size' * count')) bytes\<rparr>))"

definition writeHeaderCallback :: "string option \<Rightarrow> u64 \<Rightarrow> u64 \<Rightarrow> hc_Response \<Rightarrow> u64 \<times> hc_Response" where
  "writeHeaderCallback data size' count' response =
     (case data of
        None \<Rightarrow> (0, response)
      | Some bytes \<Rightarrow>
          let totalBytes = size' * count';
              line = take (unat totalBytes) bytes;
              r1 = (if 5 \<le> length line \<and> take 5 line = ''HTTP/''
                    then response\<lparr>hp_headers := [], hp_rawHeaders := []\<rparr> else response);
              r2 = r1\<lparr>hp_rawHeaders := hp_rawHeaders r1 @ line\<rparr>;
              r3 = (case find_char CHR '':'' line of
                      None \<Rightarrow> r2
                    | Some separator \<Rightarrow>
                        r2\<lparr>hp_headers := hp_headers r2 @
                             [Header (hc_trimCopy (take separator line))
                                     (hc_trimCopy (drop (separator + 1) line))]\<rparr>)
          in (totalBytes, r3))"

fun curl_event_step :: "curl_event \<Rightarrow> hc_Response \<Rightarrow> hc_Response" where
  "curl_event_step (Ev_header d s c) response = snd (writeHeaderCallback d s c response)"
| "curl_event_step (Ev_body d s c) response = snd (writeBodyCallback d s c response)"

section \<open>The response\<close>

definition hc_ok :: "hc_Response \<Rightarrow> bool" where
  "hc_ok r \<longleftrightarrow> hp_curlCode r = CURLE_OK \<and> 200 \<le> hp_statusCode r \<and> hp_statusCode r < 300"

fun headerValue_loop :: "td_Headers \<Rightarrow> string \<Rightarrow> string" where
  "headerValue_loop [] name = []"
| "headerValue_loop (header # headers) name =
     (if hc_iequals (hd_name header) name then hd_value header else headerValue_loop headers name)"

definition headerValue :: "hc_Response \<Rightarrow> string \<Rightarrow> string" where
  "headerValue r name = headerValue_loop (hp_headers r) name"

section \<open>The request\<close>

definition applyMethod :: "hc_Request \<Rightarrow> curl_option list" where
  "applyMethod request =
     (case hq_method request of
        M_Post \<Rightarrow> [POST 1]
      | M_Put \<Rightarrow> [CUSTOMREQUEST (methodToString M_Put)]
      | M_Patch \<Rightarrow> [CUSTOMREQUEST (methodToString M_Patch)]
      | M_Delete \<Rightarrow> [CUSTOMREQUEST (methodToString M_Delete)]
      | M_Head \<Rightarrow> [NOBODY 1, CUSTOMREQUEST (methodToString M_Head)]
      | M_Get \<Rightarrow> [HTTPGET 1])"

definition requestHeaders :: "hc_Request \<Rightarrow> td_Headers" where
  "requestHeaders request =
     (let h0 = hq_headers request;
          h1 = (if hq_contentType request \<noteq> [] \<and> \<not> hc_hasHeader h0 ''Content-Type''
                then h0 @ [Header ''Content-Type'' (hq_contentType request)] else h0);
          h2 = (if hq_accept request \<noteq> [] \<and> \<not> hc_hasHeader h1 ''Accept''
                then h1 @ [Header ''Accept'' (hq_accept request)] else h1)
      in h2)"

text \<open>The calls of \<open>curl_easy_setopt\<close>, in order.\<close>

definition hc_setopts :: "curl \<Rightarrow> hc_Request \<Rightarrow> curl_option list" where
  "hc_setopts cu request =
     [ERRORBUFFER, URL (c_str (hq_url request)), NOSIGNAL 1,
      CONNECTTIMEOUT_MS (hq_connectTimeout request), TIMEOUT_MS (hq_timeout request),
      FOLLOWLOCATION (if hq_followRedirects request then 1 else 0), MAXREDIRS (hq_maxRedirects request),
      SSL_VERIFYPEER (if hq_verifyPeer request then 1 else 0),
      SSL_VERIFYHOST (if hq_verifyHost request then 2 else 0),
      WRITEFUNCTION, WRITEDATA, HEADERFUNCTION, HEADERDATA]
     @ (if hq_userAgent request \<noteq> [] then [USERAGENT (c_str (hq_userAgent request))] else [])
     @ (if hq_acceptCompressedResponse request then [ACCEPT_ENCODING []] else [])
     @ (if hq_caInfoPath request \<noteq> [] then [CAINFO (c_str (hq_caInfoPath request))] else [])
     @ (if hq_bearerToken request \<noteq> [] then
          [HTTPAUTH CURLAUTH_BEARER, XOAUTH2_BEARER (c_str (hq_bearerToken request))]
        else if hq_basicAuthUser request \<noteq> [] then
          [HTTPAUTH CURLAUTH_BASIC, USERNAME (c_str (hq_basicAuthUser request)),
           PASSWORD (c_str (hq_basicAuthPassword request))]
        else [])
     @ (let list = fold (appendHeader cu) (requestHeaders request) [] in
        if list \<noteq> [] then [HTTPHEADER list] else [])
     @ applyMethod request
     @ (if hq_body request \<noteq> [] then
          [POSTFIELDS (hq_body request), POSTFIELDSIZE_LARGE (int (length (hq_body request)))]
        else [])"

definition perform :: "curl \<Rightarrow> hc_Request \<Rightarrow> curl_global \<Rightarrow> hc_Response \<times> curl_global" where
  "perform cu request g =
     (if hq_url request = [] then
        (hc_response\<lparr>hp_errorMessage := ''Request URL is empty'', hp_curlCode := CURLE_URL_MALFORMAT\<rparr>, g)
      else
        case ensureCurlGlobalInit cu g of
          (Inl message, g') \<Rightarrow>
            (hc_response\<lparr>hp_errorMessage := message, hp_curlCode := the g'\<rparr>, g')
        | (Inr _, g') \<Rightarrow>
            if \<not> curl_easy_init cu then
              (hc_response\<lparr>hp_errorMessage := ''curl_easy_init failed'', hp_curlCode := CURLE_FAILED_INIT\<rparr>, g')
            else
              let transfer = curl_easy_perform cu (hc_setopts cu request);
                  curlResult = ct_result transfer;
                  r1 = fold curl_event_step (ct_events transfer) hc_response;
                  r2 = r1\<lparr>hp_elapsed := ct_elapsed transfer, hp_curlCode := curlResult\<rparr>;
                  r3 = (if curlResult \<noteq> CURLE_OK then
                          r2\<lparr>hp_errorMessage :=
                            (if c_str (ct_errorBuffer transfer) \<noteq> [] then c_str (ct_errorBuffer transfer)
                             else curl_easy_strerror cu curlResult)\<rparr>
                        else r2);
                  r4 = (case ct_responseCode transfer of None \<Rightarrow> r3 | Some code \<Rightarrow> r3\<lparr>hp_statusCode := code\<rparr>);
                  r5 = (case ct_effectiveUrl transfer of None \<Rightarrow> r4 | Some url \<Rightarrow> r4\<lparr>hp_effectiveUrl := url\<rparr>)
              in (r5, g'))"

definition hc_get :: "curl \<Rightarrow> string \<Rightarrow> td_Headers \<Rightarrow> curl_global \<Rightarrow> hc_Response \<times> curl_global" where
  "hc_get cu url headers = perform cu (hc_request\<lparr>hq_url := url, hq_method := M_Get, hq_headers := headers\<rparr>)"

definition hc_post ::
  "curl \<Rightarrow> string \<Rightarrow> string \<Rightarrow> td_Headers \<Rightarrow> string \<Rightarrow> curl_global \<Rightarrow> hc_Response \<times> curl_global" where
  "hc_post cu url body headers contentType =
     perform cu (hc_request\<lparr>hq_url := url, hq_method := M_Post, hq_headers := headers, hq_body := body,
                            hq_contentType := contentType\<rparr>)"

definition hc_put ::
  "curl \<Rightarrow> string \<Rightarrow> string \<Rightarrow> td_Headers \<Rightarrow> string \<Rightarrow> curl_global \<Rightarrow> hc_Response \<times> curl_global" where
  "hc_put cu url body headers contentType =
     perform cu (hc_request\<lparr>hq_url := url, hq_method := M_Put, hq_headers := headers, hq_body := body,
                            hq_contentType := contentType\<rparr>)"

definition hc_patch ::
  "curl \<Rightarrow> string \<Rightarrow> string \<Rightarrow> td_Headers \<Rightarrow> string \<Rightarrow> curl_global \<Rightarrow> hc_Response \<times> curl_global" where
  "hc_patch cu url body headers contentType =
     perform cu (hc_request\<lparr>hq_url := url, hq_method := M_Patch, hq_headers := headers, hq_body := body,
                            hq_contentType := contentType\<rparr>)"

definition hc_del :: "curl \<Rightarrow> string \<Rightarrow> td_Headers \<Rightarrow> curl_global \<Rightarrow> hc_Response \<times> curl_global" where
  "hc_del cu url headers = perform cu (hc_request\<lparr>hq_url := url, hq_method := M_Delete, hq_headers := headers\<rparr>)"

definition hc_head :: "curl \<Rightarrow> string \<Rightarrow> td_Headers \<Rightarrow> curl_global \<Rightarrow> hc_Response \<times> curl_global" where
  "hc_head cu url headers = perform cu (hc_request\<lparr>hq_url := url, hq_method := M_Head, hq_headers := headers\<rparr>)"

end
