(* ===== verification/HttpClientProofs.thy ===== *)
theory HttpClientProofs
  imports HttpClient
begin

text \<open>
  The HTTP client: its index loops are the trimming and the comparison of the servers' helpers; what the
  header callback makes of a response's lines, redirects included; what is asked of libcurl for a
  request; how a transfer's outcome is reported.
\<close>

section \<open>The text helpers\<close>

lemma hc_trim_begin_eq: "b \<le> length s \<Longrightarrow> hc_trim_begin b s = b + length (takeWhile c_isspace (drop b s))"
proof (induction b s rule: hc_trim_begin.induct)
  case (1 b s)
  show ?case
  proof (cases "b < length s")
    case True
    then have "drop b s = s ! b # drop (Suc b) s" by (rule Cons_nth_drop_Suc [symmetric])
    then show ?thesis using 1 True by (subst hc_trim_begin.simps) simp
  qed (use 1 in \<open>subst hc_trim_begin.simps, simp\<close>)
qed

lemma hc_trim_begin_le: "hc_trim_begin 0 s \<le> length s"
  using hc_trim_begin_eq [of 0 s] length_takeWhile_le [of c_isspace s] by simp

lemma drop_hc_trim_begin: "drop (hc_trim_begin 0 s) s = dropWhile c_isspace s"
  using hc_trim_begin_eq [of 0 s] by (simp add: dropWhile_eq_drop)

lemma hc_trim_end_eq:
  "b \<le> e \<Longrightarrow> e \<le> length s \<Longrightarrow>
   take (hc_trim_end b e s - b) (drop b s) = rev (dropWhile c_isspace (rev (take (e - b) (drop b s))))"
proof (induction b e s rule: hc_trim_end.induct)
  case (2 b e s)
  show ?case
  proof (cases "b < Suc e")
    case True
    then have "take (Suc e - b) (drop b s) = take (e - b) (drop b s) @ [s ! e]"
      using 2(3) by (simp add: Suc_diff_le take_Suc_conv_app_nth)
    then show ?thesis using 2 True by auto
  qed (use 2 in simp)
qed simp

lemma hc_trimCopy_eq: "hc_trimCopy = trimCopy"
proof (rule ext)
  fix s
  have "take (length s - hc_trim_begin 0 s) (drop (hc_trim_begin 0 s) s) = drop (hc_trim_begin 0 s) s"
    by simp
  then show "hc_trimCopy s = trimCopy s"
    using hc_trim_end_eq [OF hc_trim_begin_le [of s] order_refl] drop_hc_trim_begin [of s]
    by (simp add: hc_trimCopy_def trimCopy_def Let_def)
qed

lemma hc_iequals_eq: "hc_iequals = iequals"
proof -
  have "hc_iequals_loop i l r = iequals_loop i l r" for i l r
    by (induction i l r rule: hc_iequals_loop.induct)
      (subst hc_iequals_loop.simps, subst iequals_loop.simps, simp)
  then show ?thesis by (simp add: fun_eq_iff hc_iequals_def iequals_def)
qed

lemma hc_hasHeader_iff:
  "hc_hasHeader headers n \<longleftrightarrow> (\<exists>h \<in> set headers. map c_tolower (hd_name h) = map c_tolower n)"
  by (simp add: hc_hasHeader_def list_ex_iff hc_iequals_eq iequals_iff)

lemma trimCopy_Cons_space: "c_isspace c \<Longrightarrow> trimCopy (c # v) = trimCopy v"
  by (simp add: trimCopy_def)

lemma trimCopy_snoc_space: "c_isspace c \<Longrightarrow> trimCopy (v @ [c]) = trimCopy v"
  by (cases "\<exists>x \<in> set v. \<not> c_isspace x") (auto simp: trimCopy_def dropWhile_append dest: set_dropWhileD)

lemma c_isspace_basic [simp]: "c_isspace CHR '' ''" "c_isspace CR" "c_isspace LF"
  by (simp_all add: c_isspace_def CR_def LF_def)

lemma trimCopy_header_value: "trimCopy (CHR '' '' # v @ CRLF) = trimCopy v"
  using trimCopy_snoc_space [of LF "v @ [CR]"] trimCopy_snoc_space [of CR v]
  by (simp add: trimCopy_Cons_space)

section \<open>Header lines\<close>

text \<open>libcurl gives the header callback one complete line at a time, in one item of its length.\<close>

definition Ev_line :: "string \<Rightarrow> curl_event" where
  "Ev_line l = Ev_header (Some l) 1 (of_nat (length l))"

definition header_line :: "string \<times> string \<Rightarrow> string" where
  "header_line h = fst h @ '': '' @ snd h @ CRLF"

definition header_ok :: "string \<times> string \<Rightarrow> bool" where
  "header_ok h \<longleftrightarrow> CHR '':'' \<notin> set (fst h) \<and> CHR ''/'' \<notin> set (fst h) \<and> length (header_line h) < 2 ^ 64"

definition status_ok :: "string \<Rightarrow> bool" where
  "status_ok l \<longleftrightarrow> take 5 l = ''HTTP/'' \<and> CHR '':'' \<notin> set l \<and> length l < 2 ^ 64"

lemma line_bytes: "length l < 2 ^ 64 \<Longrightarrow> take (unat ((1::u64) * of_nat (length l))) l = l"
  by (simp add: unat_of_nat take_bit_nat_eq_self)

lemma find_char_absent: "c \<notin> set s \<Longrightarrow> find_char c s = None"
  by (induction s) (auto simp: find_char_def Let_def)

lemma find_char_first: "c \<notin> set a \<Longrightarrow> find_char c (a @ c # b) = Some (length a)"
proof -
  assume "c \<notin> set a"
  then have "takeWhile (\<lambda>x. x \<noteq> c) (a @ c # b) = a"
    by (subst takeWhile_append2) auto
  then show ?thesis by (simp add: find_char_def)
qed

lemma step_status:
  assumes "status_ok l"
  shows "curl_event_step (Ev_line l) r = r\<lparr>hp_headers := [], hp_rawHeaders := l\<rparr>"
proof -
  have "5 \<le> length l"
  proof -
    have "length (take 5 l) = length ''HTTP/''"
      using assms unfolding status_ok_def by (simp only:)
    then show ?thesis by simp
  qed
  moreover have "take (unat ((1::u64) * of_nat (length l))) l = l" "find_char CHR '':'' l = None"
    using assms line_bytes find_char_absent unfolding status_ok_def by blast+
  ultimately show ?thesis
    using assms by (simp add: Ev_line_def writeHeaderCallback_def status_ok_def Let_def)
qed

lemma not_HTTP: "CHR '':'' \<notin> set n \<Longrightarrow> CHR ''/'' \<notin> set n \<Longrightarrow> take 5 (n @ '': '' @ s) \<noteq> ''HTTP/''"
proof
  assume n: "CHR '':'' \<notin> set n" "CHR ''/'' \<notin> set n" and t: "take 5 (n @ '': '' @ s) = ''HTTP/''"
  show False
  proof (cases "length n \<le> 4")
    case True
    have "CHR '':'' \<in> set (take 5 (n @ '': '' @ s))"
      using True by (cases "5 - length n") auto
    then show False unfolding t by simp
  next
    case False
    then have "take 5 (n @ '': '' @ s) = take 5 n" by simp
    then have "CHR ''/'' \<in> set (take 5 n)" unfolding t [symmetric] using t by simp
    then show False using n(2) in_set_takeD by metis
  qed
qed

lemma step_header:
  assumes "header_ok h"
  shows "curl_event_step (Ev_line (header_line h)) r =
    r\<lparr>hp_headers := hp_headers r @ [Header (trimCopy (fst h)) (trimCopy (snd h))],
      hp_rawHeaders := hp_rawHeaders r @ header_line h\<rparr>"
proof -
  let ?l = "header_line h"
  have f: "find_char CHR '':'' ?l = Some (length (fst h))"
    using assms find_char_first [of "CHR '':''" "fst h" "CHR '' '' # snd h @ CRLF"]
    by (simp add: header_ok_def header_line_def)
  have b: "take (unat ((1::u64) * of_nat (length ?l))) ?l = ?l"
    using assms line_bytes unfolding header_ok_def by blast
  have t: "take 5 ?l \<noteq> ''HTTP/''"
    using assms not_HTTP unfolding header_ok_def header_line_def by blast
  have s: "take (length (fst h)) ?l = fst h"
    "drop (length (fst h) + 1) ?l = CHR '' '' # snd h @ CRLF"
    by (simp_all add: header_line_def)
  show ?thesis
    unfolding Ev_line_def curl_event_step.simps writeHeaderCallback_def option.case b Let_def f s
      hc_trimCopy_eq trimCopy_header_value
    using t by simp
qed

lemma step_blank: "curl_event_step (Ev_line CRLF) r = r\<lparr>hp_rawHeaders := hp_rawHeaders r @ CRLF\<rparr>"
  by (simp add: Ev_line_def writeHeaderCallback_def find_char_absent CR_def LF_def Let_def)

lemma step_headers:
  "list_all header_ok hs \<Longrightarrow>
   fold curl_event_step (map (\<lambda>h. Ev_line (header_line h)) hs) r =
     r\<lparr>hp_headers := hp_headers r @ map (\<lambda>h. Header (trimCopy (fst h)) (trimCopy (snd h))) hs,
       hp_rawHeaders := hp_rawHeaders r @ concat (map header_line hs)\<rparr>"
  by (induction hs arbitrary: r) (simp_all add: step_header)

text \<open>A response's head as libcurl delivers it.\<close>

definition head_lines :: "string \<Rightarrow> (string \<times> string) list \<Rightarrow> string list" where
  "head_lines status hs = status # map header_line hs @ [CRLF]"

lemma step_head:
  assumes "status_ok status" and "list_all header_ok hs"
  shows "fold curl_event_step (map Ev_line (head_lines status hs)) r =
    r\<lparr>hp_headers := map (\<lambda>h. Header (trimCopy (fst h)) (trimCopy (snd h))) hs,
      hp_rawHeaders := concat (head_lines status hs)\<rparr>"
  using step_headers [OF assms(2), of "r\<lparr>hp_headers := [], hp_rawHeaders := status\<rparr>"]
  by (simp add: head_lines_def step_status [OF assms(1)] step_blank comp_def)

lemma headerValue_loop_find:
  "headerValue_loop hs name =
     (case find (\<lambda>h. map c_tolower (hd_name h) = map c_tolower name) hs of
        None \<Rightarrow> [] | Some h \<Rightarrow> hd_value h)"
  by (induction hs) (auto simp: hc_iequals_eq iequals_iff)

section \<open>Properties\<close>

lemma find_map_fst:
  "find P (map f xs) = map_option f (find (P \<circ> f) xs)"
  by (induction xs) auto

text \<open>After any sequence of callbacks (redirects and interim responses included) the headers that the
  client reports are those of the last response head alone, in order, names and values without the
  white space around them; the raw text is that head, and \<open>headerValue\<close> gives the value of the first
  header of a name, in any letter case, or the empty text.\<close>

theorem hc_last_head_wins:
  assumes "status_ok status" and "list_all header_ok hs"
  shows "let r = fold curl_event_step (es @ map Ev_line (head_lines status hs)) r0 in
    hp_headers r = map (\<lambda>(n, v). Header (trimCopy n) (trimCopy v)) hs
    \<and> hp_rawHeaders r = concat (head_lines status hs)
    \<and> headerValue r name =
        (case find (\<lambda>(n, v). map c_tolower (trimCopy n) = map c_tolower name) hs of
           None \<Rightarrow> [] | Some (n, v) \<Rightarrow> trimCopy v)"
  using assms
  by (auto simp: step_head headerValue_def headerValue_loop_find find_map_fst comp_def Header_def
      case_prod_unfold Let_def split: option.splits)

theorem hc_last_head_wins_witness:
  "let r = fold curl_event_step
      ([Ev_line ''HTTP/1.1 302 Found'', Ev_line (header_line (''Location'', ''/b''))]
        @ map Ev_line (head_lines ''HTTP/1.1 200 OK'' [(''Server'', ''s''), (''ETag'', '' x '')])) hc_response
   in hp_headers r = [Header ''Server'' ''s'', Header ''ETag'' ''x''] \<and> headerValue r ''etag'' = ''x''
      \<and> headerValue r ''location'' = []"
proof -
  have ok: "status_ok ''HTTP/1.1 200 OK''" "list_all header_ok [(''Server'', ''s''), (''ETag'', '' x '')]"
    by (simp_all add: status_ok_def header_ok_def header_line_def)
  have t: "trimCopy ''Server'' = ''Server''" "trimCopy ''s'' = ''s''" "trimCopy ''ETag'' = ''ETag''"
    "trimCopy '' x '' = ''x''"
    by code_simp+
  have f: "find (\<lambda>(n, v). map c_tolower (trimCopy n) = map c_tolower ''etag'')
      [(''Server'', ''s''), (''ETag'', '' x '')] = Some (''ETag'', '' x '')"
    "find (\<lambda>(n, v). map c_tolower (trimCopy n) = map c_tolower ''location'')
      [(''Server'', ''s''), (''ETag'', '' x '')] = None"
    by code_simp+
  note w = hc_last_head_wins [OF ok, unfolded Let_def,
      of "[Ev_line ''HTTP/1.1 302 Found'', Ev_line (header_line (''Location'', ''/b''))]" hc_response]
  show ?thesis
    unfolding Let_def
    using w [THEN conjunct1] w [of "''etag''", THEN conjunct2, THEN conjunct2]
      w [of "''location''", THEN conjunct2, THEN conjunct2]
    unfolding f option.case prod.case t by (simp only: list.map prod.case t simp_thms)
qed

text \<open>Which of the options carry what the next property is about.\<close>

fun is_tls :: "curl_option \<Rightarrow> bool" where
  "is_tls (SSL_VERIFYPEER x) = True"
| "is_tls (SSL_VERIFYHOST x) = True"
| "is_tls _ = False"

fun is_credential :: "curl_option \<Rightarrow> bool" where
  "is_credential (HTTPAUTH x) = True"
| "is_credential (XOAUTH2_BEARER x) = True"
| "is_credential (USERNAME x) = True"
| "is_credential (PASSWORD x) = True"
| "is_credential _ = False"

definition named :: "string \<Rightarrow> td_Headers \<Rightarrow> st_Header list" where
  "named n hs = filter (\<lambda>h. map c_tolower (hd_name h) = map c_tolower n) hs"

lemma filter_applyMethod [simp]:
  "filter is_tls (applyMethod rq) = []" "filter is_credential (applyMethod rq) = []"
  by (simp_all add: applyMethod_def split: enm_Method.splits)

lemma hc_hasHeader_named: "hc_hasHeader hs n \<longleftrightarrow> named n hs \<noteq> []"
  by (auto simp: hc_hasHeader_iff named_def filter_empty_conv)

lemma named_append [simp]: "named n (hs @ ks) = named n hs @ named n ks"
  by (simp add: named_def)

lemma named_Cons: "hs \<noteq> [] \<Longrightarrow> named n (h # hs) = named n [h] @ named n hs"
  by (simp add: named_def)

lemma named_fixed:
  "named ''Content-Type'' [Header ''Accept'' v] = []" "named ''Accept'' [Header ''Content-Type'' v] = []"
  "named ''Content-Type'' [Header ''Content-Type'' v] = [Header ''Content-Type'' v]"
  "named ''Accept'' [Header ''Accept'' v] = [Header ''Accept'' v]"
  by (simp_all add: named_def Header_def)

text \<open>Every request asks libcurl for peer and host verification exactly as its two flags say, once each
  (both on unless switched off); it carries the bearer token, or else the user and password, or else no
  credentials, never two kinds; and a \<open>Content-Type\<close> or \<open>Accept\<close> header that the caller gives, in any
  letter case, is not doubled or replaced by the request's field.\<close>

theorem hc_setopts_faithful:
  "filter is_tls (hc_setopts cu rq)
     = [SSL_VERIFYPEER (if hq_verifyPeer rq then 1 else 0), SSL_VERIFYHOST (if hq_verifyHost rq then 2 else 0)]
   \<and> filter is_credential (hc_setopts cu rq)
     = (if hq_bearerToken rq \<noteq> [] then [HTTPAUTH CURLAUTH_BEARER, XOAUTH2_BEARER (c_str (hq_bearerToken rq))]
        else if hq_basicAuthUser rq \<noteq> [] then
          [HTTPAUTH CURLAUTH_BASIC, USERNAME (c_str (hq_basicAuthUser rq)),
           PASSWORD (c_str (hq_basicAuthPassword rq))]
        else [])
   \<and> named ''Content-Type'' (requestHeaders rq)
     = (if named ''Content-Type'' (hq_headers rq) = [] \<and> hq_contentType rq \<noteq> []
        then [Header ''Content-Type'' (hq_contentType rq)] else named ''Content-Type'' (hq_headers rq))
   \<and> named ''Accept'' (requestHeaders rq)
     = (if named ''Accept'' (hq_headers rq) = [] \<and> hq_accept rq \<noteq> []
        then [Header ''Accept'' (hq_accept rq)] else named ''Accept'' (hq_headers rq))
   \<and> take (length (hq_headers rq)) (requestHeaders rq) = hq_headers rq"
proof (intro conjI)
  show "filter is_tls (hc_setopts cu rq)
     = [SSL_VERIFYPEER (if hq_verifyPeer rq then 1 else 0), SSL_VERIFYHOST (if hq_verifyHost rq then 2 else 0)]"
    by (simp add: hc_setopts_def Let_def)
  show "filter is_credential (hc_setopts cu rq)
     = (if hq_bearerToken rq \<noteq> [] then [HTTPAUTH CURLAUTH_BEARER, XOAUTH2_BEARER (c_str (hq_bearerToken rq))]
        else if hq_basicAuthUser rq \<noteq> [] then
          [HTTPAUTH CURLAUTH_BASIC, USERNAME (c_str (hq_basicAuthUser rq)),
           PASSWORD (c_str (hq_basicAuthPassword rq))]
        else [])"
    by (simp add: hc_setopts_def Let_def)
qed (simp_all add: requestHeaders_def hc_hasHeader_named named_fixed named_Cons Let_def)

text \<open>C35: A transfer that did not succeed is never reported as one: whatever libcurl does, \<open>ok()\<close> holds only
  if a transfer was made, libcurl called it a success and the status is 2xx; the error message is empty
  exactly if the code is \<open>CURLE_OK\<close>; and global initialisation, once done, is never repeated, its failure
  being reported to every later request.\<close>

theorem hc_perform_reports:
  assumes "\<And>code. code \<noteq> CURLE_OK \<Longrightarrow> curl_easy_strerror cu code \<noteq> []"
  shows "(hp_errorMessage (fst (perform cu rq g)) = []) = (hp_curlCode (fst (perform cu rq g)) = CURLE_OK)
    \<and> (hc_ok (fst (perform cu rq g)) \<longrightarrow>
         hq_url rq \<noteq> [] \<and> curl_easy_init cu \<and> snd (perform cu rq g) = Some CURLE_OK
         \<and> ct_result (curl_easy_perform cu (hc_setopts cu rq)) = CURLE_OK
         \<and> (\<exists>code. ct_responseCode (curl_easy_perform cu (hc_setopts cu rq)) = Some code
              \<and> 200 \<le> code \<and> code < 300))
    \<and> (\<forall>r. g = Some r \<longrightarrow> snd (perform cu rq g) = Some r
         \<and> (r \<noteq> CURLE_OK \<and> hq_url rq \<noteq> [] \<longrightarrow> hp_curlCode (fst (perform cu rq g)) = r))"
proof -
  have keep: "hp_errorMessage (fold curl_event_step es r) = hp_errorMessage r
      \<and> hp_statusCode (fold curl_event_step es r) = hp_statusCode r" for es r
  proof (induction es arbitrary: r)
    case (Cons e es)
    have "hp_errorMessage (curl_event_step e r) = hp_errorMessage r
        \<and> hp_statusCode (curl_event_step e r) = hp_statusCode r"
      by (cases e) (auto simp: writeHeaderCallback_def writeBodyCallback_def Let_def split: option.splits)
    with Cons show ?case by simp
  qed simp
  have c: "CURLE_URL_MALFORMAT \<noteq> CURLE_OK" "CURLE_FAILED_INIT \<noteq> CURLE_OK"
    by (simp_all add: CURLE_URL_MALFORMAT_def CURLE_FAILED_INIT_def CURLE_OK_def)
  show ?thesis
    using assms
    by (auto simp: perform_def ensureCurlGlobalInit_def hc_ok_def hc_response_def keep c Let_def
        split: option.splits if_splits)
qed

definition curl_refused :: curl where
  "curl_refused =
     \<lparr>curl_global_init = 0, curl_easy_init = True, curl_easy_strerror = (\<lambda>code. ''Could not connect''),
      curl_slist_alloc = (\<lambda>s. True),
      curl_easy_perform = (\<lambda>opts. \<lparr>ct_events = [], ct_result = 7, ct_errorBuffer = [], ct_elapsed = 3,
        ct_responseCode = Some 0, ct_effectiveUrl = None\<rparr>)\<rparr>"

theorem hc_perform_reports_witness:
  "hp_curlCode (fst (hc_get curl_refused ''http://h/'' [] None)) = 7
   \<and> hp_errorMessage (fst (hc_get curl_refused ''http://h/'' [] None)) \<noteq> []
   \<and> \<not> hc_ok (fst (hc_get curl_refused ''http://h/'' [] None))"
proof -
  let ?rq = "hc_request\<lparr>hq_url := ''http://h/'', hq_method := M_Get, hq_headers := []\<rparr>"
  have e: "\<And>code. code \<noteq> CURLE_OK \<Longrightarrow> curl_easy_strerror curl_refused code \<noteq> []"
    by (simp add: curl_refused_def)
  have r: "hp_curlCode (fst (perform curl_refused ?rq None)) = 7"
    "ct_result (curl_easy_perform curl_refused opts) = 7" for opts
    by (simp_all add: perform_def ensureCurlGlobalInit_def curl_refused_def CURLE_OK_def Let_def)
  show ?thesis
    using hc_perform_reports [OF e, of ?rq None] r unfolding hc_get_def
    by (auto simp: CURLE_OK_def)
qed

text \<open>A \<open>POST\<close> without a body sets \<open>CURLOPT_POST\<close> but neither the body nor its size.\<close>

lemma hc_post_empty_body:
  "hq_method rq = M_Post \<Longrightarrow> hq_body rq = [] \<Longrightarrow>
   POST 1 \<in> set (hc_setopts cu rq) \<and> POSTFIELDS b \<notin> set (hc_setopts cu rq)
   \<and> POSTFIELDSIZE_LARGE n \<notin> set (hc_setopts cu rq)"
  by (auto simp: hc_setopts_def applyMethod_def Let_def)

end
