(* ===== verification/HttpExchange.thy ===== *)
theory HttpExchange
  imports HttpServerProofs HttpClientProofs
begin

text \<open>
  The two ends of an HTTP exchange together: what \<open>cHTTPServer\<close> writes for an answer, cut into lines and
  chunks as libcurl hands it to its callbacks, is what \<open>cHTTPClient\<close> reports.
\<close>

text \<open>libcurl cuts a head after each line feed and the body wherever it likes.\<close>

fun lf_lines :: "string \<Rightarrow> string list" where
  "lf_lines [] = []"
| "lf_lines (c # cs) =
     (if c = LF then [c] # lf_lines cs
      else (case lf_lines cs of [] \<Rightarrow> [[c]] | l # ls \<Rightarrow> (c # l) # ls))"

definition Ev_chunk :: "string \<Rightarrow> curl_event" where
  "Ev_chunk l = Ev_body (Some l) 1 (of_nat (length l))"

definition sent_fields :: "td_Fields \<Rightarrow> string \<Rightarrow> (string \<times> string) list" where
  "sent_fields headers body =
     map (\<lambda>h. (fld_name h, fld_value h)) (filter (\<lambda>h. fld_name h \<noteq> []) headers)
     @ (if hasHeader headers ''Content-Length'' then [] else [(''Content-Length'', to_string (length body))])"

definition status_line :: "(u16 \<Rightarrow> string) \<Rightarrow> u16 \<Rightarrow> string" where
  "status_line status_code statusCode = ''HTTP/1.1 '' @ makeStatusLine status_code statusCode @ CRLF"

text \<open>A field as HTTP allows it: a name without white space, colon or slash, a value on one line.\<close>

definition field_ok :: "string \<times> string \<Rightarrow> bool" where
  "field_ok h \<longleftrightarrow>
     header_ok h \<and> list_all (\<lambda>c. 33 \<le> (of_char c :: nat) \<and> (of_char c :: nat) \<le> 126) (fst h)
     \<and> list_all (\<lambda>c. c \<noteq> CR \<and> c \<noteq> LF \<and> c \<noteq> CHR 0x00) (snd h)"

lemma field_ok_LF: "field_ok h \<Longrightarrow> LF \<notin> set (fst h) \<and> LF \<notin> set (snd h)"
proof -
  assume h: "field_ok h"
  have "(of_char LF :: nat) < 33" by (simp add: LF_def)
  moreover have "\<forall>c \<in> set (fst h). 33 \<le> (of_char c :: nat)" and "\<forall>c \<in> set (snd h). c \<noteq> LF"
    using h unfolding field_ok_def list_all_iff by blast+
  ultimately show ?thesis by (metis not_le)
qed

lemma lf_lines_line: "LF \<notin> set l \<Longrightarrow> lf_lines (l @ LF # s) = (l @ [LF]) # lf_lines s"
  by (induction l) auto

lemma lf_lines_concat_append:
  "(\<And>l. l \<in> set ls \<Longrightarrow> \<exists>k. l = k @ [LF] \<and> LF \<notin> set k) \<Longrightarrow> lf_lines (concat ls @ s) = ls @ lf_lines s"
proof (induction ls)
  case (Cons l ls)
  then obtain k where "l = k @ [LF]" "LF \<notin> set k" by (meson list.set_intros(1))
  then show ?case using Cons by (simp add: lf_lines_line)
qed simp

lemma concat_lf_lines [simp]: "concat (lf_lines s) = s"
proof (induction s)
  case (Cons c cs)
  show ?case
  proof (cases "lf_lines cs")
    case Nil
    with Cons.IH have "cs = []" by (metis concat.simps(1))
    with Nil show ?thesis by simp
  next
    case (Cons l ls)
    with Cons.IH have "l @ concat ls = cs" by (metis concat.simps(2))
    with Cons show ?thesis by simp
  qed
qed simp

lemma writeHeaders_concat:
  "writeHeaders hs = concat (map header_line (map (\<lambda>h. (fld_name h, fld_value h)) (filter (\<lambda>h. fld_name h \<noteq> []) hs)))"
  by (induction hs) (simp_all add: header_line_def)

lemma writeResponse_head:
  "writeResponse sc (Some []) code body headers
     = Some (concat (head_lines (status_line sc code) (sent_fields headers body)) @ body)"
  by (simp add: writeResponse_def head_lines_def sent_fields_def status_line_def writeHeaders_concat
      header_line_def)

lemma lf_lines_head:
  assumes "LF \<notin> set (makeStatusLine sc code)" and "list_all field_ok hs"
  shows "lf_lines (concat (head_lines (status_line sc code) hs) @ s) = head_lines (status_line sc code) hs @ lf_lines s"
proof (rule lf_lines_concat_append)
  fix l
  assume "l \<in> set (head_lines (status_line sc code) hs)"
  then consider "l = status_line sc code" | h where "h \<in> set hs" "l = header_line h" | "l = CRLF"
    by (auto simp: head_lines_def)
  then show "\<exists>k. l = k @ [LF] \<and> LF \<notin> set k"
  proof cases
    case 1
    then show ?thesis
      using assms(1) by (intro exI [of _ "''HTTP/1.1 '' @ makeStatusLine sc code @ [CR]"])
        (simp add: status_line_def LF_def CR_def)
  next
    case (2 h)
    then have "field_ok h" using assms(2) by (simp add: list_all_iff)
    with 2 show ?thesis
      using field_ok_LF [of h] by (intro exI [of _ "fst h @ '': '' @ snd h @ [CR]"])
        (simp add: header_line_def LF_def CR_def)
  next
    case 3
    then show ?thesis by (intro exI [of _ "[CR]"]) (simp add: LF_def CR_def)
  qed
qed

lemma step_chunks:
  "list_all (\<lambda>ch. length ch < 2 ^ 64) chunks \<Longrightarrow>
   fold curl_event_step (map Ev_chunk chunks) r = r\<lparr>hp_body := hp_body r @ concat chunks\<rparr>"
  by (induction chunks arbitrary: r) (simp_all add: Ev_chunk_def writeBodyCallback_def line_bytes [simplified])

lemma trimCopy_to_string [simp]: "trimCopy (to_string n) = to_string n"
proof -
  have "\<not> c_isspace c" if "c \<in> set (to_string n)" for c
    using to_string_digits [OF that] by (simp add: c_isspace_def)
  then have "dropWhile c_isspace (to_string n) = to_string n"
    "dropWhile c_isspace (rev (to_string n)) = rev (to_string n)"
    by (simp_all add: dropWhile_eq_self_iff hd_rev)
  then show ?thesis by (simp add: trimCopy_def)
qed

definition sent_head :: "(u16 \<Rightarrow> string) \<Rightarrow> u16 \<Rightarrow> string \<Rightarrow> td_Fields \<Rightarrow> string" where
  "sent_head sc code body headers = concat (head_lines (status_line sc code) (sent_fields headers body))"

section \<open>What libcurl makes of an answer\<close>

text \<open>
  libcurl is a parameter; this is what its documentation says of a transfer that it reports as a success.
  It gives the header callback each line of the head, the empty line at its end included, and the body
  callback the body, in pieces of its choosing. There is no body when \<open>CURLOPT_NOBODY\<close> is set or with a
  status of 204 or 304; the body is what \<open>Content-Length\<close> says, whatever else the server writes, and without
  one it lasts until the connection ends. \<open>None\<close> is where nothing is said here: a body in a transfer coding
  or, when \<open>CURLOPT_ACCEPT_ENCODING\<close> is set, in a content coding is handed over decoded, and a head with
  several lengths, with a length that is no number or with one that the body falls short of is an error.
\<close>

fun head_of :: "string list \<Rightarrow> (string list \<times> string list) option" where
  "head_of [] = None"
| "head_of (l # ls) =
     (if l = CRLF \<or> l = [LF] then Some ([l], ls)
      else (case head_of ls of None \<Rightarrow> None | Some (head, rest) \<Rightarrow> Some (l # head, rest)))"

definition line_field :: "string \<Rightarrow> (string \<times> string) option" where
  "line_field l =
     (case find_char CHR '':'' l of None \<Rightarrow> None | Some i \<Rightarrow> Some (take i l, trimCopy (drop (i + 1) l)))"

definition field_values :: "string \<Rightarrow> string list \<Rightarrow> string list" where
  "field_values name ls =
     map snd (filter (\<lambda>f. map c_tolower (fst f) = map c_tolower name) (List.map_filter line_field ls))"

definition status_of :: "string \<Rightarrow> nat" where
  "status_of l = dec_value (take 3 (drop 9 l))"

definition is_number :: "string \<Rightarrow> bool" where
  "is_number v \<longleftrightarrow> v \<noteq> [] \<and> list_all (\<lambda>c. 48 \<le> (of_char c :: nat) \<and> (of_char c :: nat) \<le> 57) v"

definition framed :: "string list \<Rightarrow> string \<Rightarrow> string option" where
  "framed lengths rest =
     (case lengths of
        [] \<Rightarrow> Some rest
      | [v] \<Rightarrow> if is_number v \<and> dec_value v \<le> length rest then Some (take (dec_value v) rest) else None
      | _ \<Rightarrow> None)"

definition body_bytes :: "curl_option list \<Rightarrow> string list \<Rightarrow> string \<Rightarrow> string option" where
  "body_bytes opts head rest =
     (if NOBODY 1 \<in> set opts \<or> status_of (hd head) \<in> {204, 304} then Some []
      else if field_values ''Transfer-Encoding'' head \<noteq> []
        \<or> ACCEPT_ENCODING [] \<in> set opts \<and> field_values ''Content-Encoding'' head \<noteq> [] then None
      else framed (field_values ''Content-Length'' head) rest)"

text \<open>The answers after which libcurl is done: not an interim one, not a redirection it follows, and not 417,
  after which it sends the request once more.\<close>

definition is_final :: "curl_option list \<Rightarrow> string list \<Rightarrow> bool" where
  "is_final opts head \<longleftrightarrow>
     200 \<le> status_of (hd head) \<and> status_of (hd head) \<noteq> 417
     \<and> \<not> (FOLLOWLOCATION 1 \<in> set opts \<and> status_of (hd head) div 100 = 3 \<and> field_values ''Location'' head \<noteq> [])"

definition curl_reads :: "curl_option list \<Rightarrow> string \<Rightarrow> curl_transfer \<Rightarrow> bool" where
  "curl_reads opts wire transfer \<longleftrightarrow>
     (case head_of (lf_lines wire) of
        None \<Rightarrow> True
      | Some (head, rest) \<Rightarrow>
          (case body_bytes opts head (concat rest) of
             None \<Rightarrow> True
           | Some body \<Rightarrow>
               ct_result transfer = CURLE_OK \<and> is_final opts head \<longrightarrow>
                 ct_responseCode transfer = Some (int (status_of (hd head)))
                 \<and> (\<exists>chunks. concat chunks = body \<and> list_all (\<lambda>ch. length ch < 2 ^ 64) chunks
                      \<and> ct_events transfer = map Ev_line head @ map Ev_chunk chunks)))"

text \<open>An answer of a handler that this is said of: a final status that the library's table knows by its number
  or not at all, fields as HTTP allows them, no coding that the writer does not do, and, when the handler
  gives a \<open>Content-Length\<close> of its own, one number that the body does not fall short of.\<close>

definition own_values :: "string \<Rightarrow> td_Fields \<Rightarrow> string list" where
  "own_values name headers =
     map (\<lambda>h. trimCopy (fld_value h)) (filter (\<lambda>h. iequals (fld_name h) name) headers)"

definition answer_ok :: "(u16 \<Rightarrow> string) \<Rightarrow> u16 \<times> string \<times> td_Fields \<Rightarrow> bool" where
  "answer_ok sc answer \<longleftrightarrow>
     (case answer of
        (code, body, headers) \<Rightarrow>
          200 \<le> unat code \<and> unat code \<noteq> 417 \<and> take 3 (makeStatusLine sc code) = to_string (unat code)
          \<and> LF \<notin> set (makeStatusLine sc code) \<and> status_ok (status_line sc code)
          \<and> list_all field_ok (sent_fields headers body)
          \<and> \<not> hasHeader headers ''Transfer-Encoding'' \<and> framed (own_values ''Content-Length'' headers) body \<noteq> None)"

text \<open>The body that the client is to report: none for \<open>HEAD\<close>, 204 and 304, and as much of the handler's body as
  the handler's own \<open>Content-Length\<close> says, if there is one.\<close>

definition reported_body :: "enm_Method \<Rightarrow> u16 \<Rightarrow> td_Fields \<Rightarrow> string \<Rightarrow> string" where
  "reported_body method code headers body =
     (if method = M_Head \<or> code = 204 \<or> code = 304 then []
      else the (framed (own_values ''Content-Length'' headers) body))"

definition received :: "td_Fields \<Rightarrow> string \<Rightarrow> td_Headers" where
  "received headers body = map (\<lambda>h. Header (trimCopy (fst h)) (trimCopy (snd h))) (sent_fields headers body)"

text \<open>The request of the client for which \<open>perform\<close> reaches libcurl, and takes this answer as it is: it follows
  no redirection on it, and asks for no coding that the handler then claims to use.\<close>

definition client_asks :: "curl \<Rightarrow> hc_Request \<Rightarrow> curl_global \<Rightarrow> u16 \<Rightarrow> td_Fields \<Rightarrow> bool" where
  "client_asks cu q g code headers \<longleftrightarrow>
     hq_url q \<noteq> [] \<and> curl_easy_init cu \<and> (case g of None \<Rightarrow> curl_global_init cu | Some r \<Rightarrow> r) = CURLE_OK
     \<and> \<not> (hq_followRedirects q \<and> unat code div 100 = 3 \<and> hasHeader headers ''Location'')
     \<and> \<not> (hq_acceptCompressedResponse q \<and> hasHeader headers ''Content-Encoding'')"

lemma head_of_append:
  "list_all (\<lambda>l. l \<noteq> CRLF \<and> l \<noteq> [LF]) ls \<Longrightarrow> head_of (ls @ CRLF # rest) = Some (ls @ [CRLF], rest)"
  by (induction ls) auto

lemma line_field_header:
  assumes "header_ok h"
  shows "line_field (header_line h) = Some (fst h, trimCopy (snd h))"
proof -
  have "find_char CHR '':'' (header_line h) = Some (length (fst h))"
    using assms find_char_first [of "CHR '':''" "fst h" "CHR '' '' # snd h @ CRLF"]
    by (simp add: header_ok_def header_line_def)
  then show ?thesis
    using trimCopy_header_value [of "snd h"] by (simp add: line_field_def header_line_def)
qed

lemma map_filter_header_lines:
  "list_all header_ok hs \<Longrightarrow>
   List.map_filter line_field (map header_line hs) = map (\<lambda>h. (fst h, trimCopy (snd h))) hs"
  by (induction hs) (simp_all add: List.map_filter_simps line_field_header)

lemma map_filter_append: "List.map_filter f (xs @ ys) = List.map_filter f xs @ List.map_filter f ys"
  by (simp add: List.map_filter_def)

lemma field_values_head:
  assumes "status_ok status" and "list_all header_ok hs"
  shows "field_values name (head_lines status hs)
    = map (\<lambda>h. trimCopy (snd h)) (filter (\<lambda>h. map c_tolower (fst h) = map c_tolower name) hs)"
proof -
  have "line_field status = None" "line_field CRLF = None"
    using assms(1) by (simp_all add: line_field_def status_ok_def find_char_absent CR_def LF_def)
  then have "List.map_filter line_field (head_lines status hs) = map (\<lambda>h. (fst h, trimCopy (snd h))) hs"
    using map_filter_header_lines [OF assms(2)]
    by (simp add: head_lines_def List.map_filter_simps map_filter_append)
  then show ?thesis by (simp add: field_values_def filter_map comp_def)
qed

lemma field_values_sent:
  assumes "status_ok status" and "list_all header_ok (sent_fields headers body)" and "name \<noteq> []"
  shows "field_values name (head_lines status (sent_fields headers body))
    = own_values name headers
      @ (if map c_tolower ''Content-Length'' = map c_tolower name \<and> \<not> hasHeader headers ''Content-Length''
         then [to_string (length body)] else [])"
proof -
  have "filter (\<lambda>h. map c_tolower (fld_name h) = map c_tolower name) (filter (\<lambda>h. fld_name h \<noteq> []) headers)
      = filter (\<lambda>h. map c_tolower (fld_name h) = map c_tolower name) headers"
    using assms(3) by (auto intro!: filter_cong)
  then show ?thesis
    unfolding field_values_head [OF assms(1,2)]
    by (simp add: sent_fields_def own_values_def filter_map comp_def iequals_iff)
qed

lemma own_values_hasHeader: "own_values name headers = [] \<longleftrightarrow> \<not> hasHeader headers name"
  by (auto simp: own_values_def hasHeader_def list_ex_iff filter_empty_conv)

lemma is_number_to_string [simp]: "is_number (to_string n)"
  using to_string_digits by (auto simp: is_number_def list_all_iff)

lemma length_to_string_3: "100 \<le> n \<Longrightarrow> 3 \<le> length (to_string n)"
proof -
  assume "100 \<le> n"
  then have "\<not> n < 10" "\<not> n div 10 < 10" by simp_all
  then have "to_string n = to_string (n div 10 div 10) @ [char_of (48 + n div 10 mod 10)] @ [char_of (48 + n mod 10)]"
    by (subst to_string.simps, subst to_string.simps) simp
  moreover have "1 \<le> length (to_string (n div 10 div 10))" by (simp add: Suc_le_eq)
  ultimately show ?thesis by simp
qed

lemma status_of_line:
  assumes "200 \<le> unat code" and "take 3 (makeStatusLine sc code) = to_string (unat code)"
  shows "status_of (status_line sc code) = unat code"
proof -
  have "3 \<le> length (take 3 (makeStatusLine sc code))"
    unfolding assms(2) using assms(1) by (intro length_to_string_3) simp
  then have "3 \<le> length (makeStatusLine sc code)" by simp
  then show ?thesis using assms(2) by (simp add: status_of_def status_line_def)
qed

lemma setopts_asks:
  "NOBODY 1 \<in> set (hc_setopts cu q) \<longleftrightarrow> hq_method q = M_Head"
  "ACCEPT_ENCODING [] \<in> set (hc_setopts cu q) \<longleftrightarrow> hq_acceptCompressedResponse q"
  "FOLLOWLOCATION 1 \<in> set (hc_setopts cu q) \<longleftrightarrow> hq_followRedirects q"
  by (auto simp: hc_setopts_def applyMethod_def Let_def split: enm_Method.splits)

definition sent_lines :: "(u16 \<Rightarrow> string) \<Rightarrow> u16 \<Rightarrow> string \<Rightarrow> td_Fields \<Rightarrow> string list" where
  "sent_lines sc code body headers = head_lines (status_line sc code) (sent_fields headers body)"

lemma answer_okD:
  assumes "answer_ok sc (code, body, headers)"
  shows "status_ok (status_line sc code)" "list_all header_ok (sent_fields headers body)"
    and "status_of (status_line sc code) = unat code" "200 \<le> unat code" "unat code \<noteq> 417"
    and "\<not> hasHeader headers ''Transfer-Encoding''"
  using assms by (auto simp: answer_ok_def list_all_iff field_ok_def intro: status_of_line)

text \<open>libcurl finds the end of the head where the writer put it.\<close>

lemma sent_head_of:
  assumes "answer_ok sc (code, body, headers)"
  shows "head_of (lf_lines (sent_head sc code body headers @ body)) = Some (sent_lines sc code body headers, lf_lines body)"
proof -
  have "header_line h \<noteq> CRLF \<and> header_line h \<noteq> [LF]" for h
    by (cases "fst h") (auto simp: header_line_def CR_def)
  moreover have "status_line sc code \<noteq> CRLF \<and> status_line sc code \<noteq> [LF]"
    by (simp add: status_line_def CR_def LF_def)
  ultimately have "head_of (sent_lines sc code body headers @ lf_lines body)
      = Some (sent_lines sc code body headers, lf_lines body)"
    using head_of_append [of "status_line sc code # map header_line (sent_fields headers body)" "lf_lines body"]
    by (simp add: sent_lines_def head_lines_def list_all_iff)
  moreover have "lf_lines (sent_head sc code body headers @ body) = sent_lines sc code body headers @ lf_lines body"
    using assms unfolding answer_ok_def sent_head_def sent_lines_def by (auto intro: lf_lines_head)
  ultimately show ?thesis by simp
qed

text \<open>What it takes for the body is what the client is to report.\<close>

lemma sent_body_bytes:
  assumes "answer_ok sc (code, body, headers)" and "client_asks cu q g code headers"
  shows "body_bytes (hc_setopts cu q) (sent_lines sc code body headers) body
    = Some (reported_body (hq_method q) code headers body)"
proof -
  note ok = answer_okD [OF assms(1)]
  note fv = field_values_sent [OF ok(1,2), folded sent_lines_def]
  have names: "map c_tolower ''Content-Length'' \<noteq> map c_tolower ''Transfer-Encoding''"
    "map c_tolower ''Content-Length'' \<noteq> map c_tolower ''Content-Encoding''"
    by code_simp+
  have te: "field_values ''Transfer-Encoding'' (sent_lines sc code body headers) = []"
    using fv [of "''Transfer-Encoding''"] names(1) ok(6) own_values_hasHeader [of "''Transfer-Encoding''" headers]
    by simp
  have ce: "\<not> (hq_acceptCompressedResponse q \<and> field_values ''Content-Encoding'' (sent_lines sc code body headers) \<noteq> [])"
    using fv [of "''Content-Encoding''"] names(2) assms(2) own_values_hasHeader [of "''Content-Encoding''" headers]
    by (auto simp: client_asks_def)
  have "framed (own_values ''Content-Length'' headers) body \<noteq> None" using assms(1) by (simp add: answer_ok_def)
  then have cl: "framed (field_values ''Content-Length'' (sent_lines sc code body headers)) body
      = Some (the (framed (own_values ''Content-Length'' headers) body))"
    using fv [of "''Content-Length''"] own_values_hasHeader [of "''Content-Length''" headers]
    by (cases "hasHeader headers ''Content-Length''") (auto simp: framed_def)
  have code: "unat code = 204 \<longleftrightarrow> code = 204" "unat code = 304 \<longleftrightarrow> code = 304"
    by (auto simp: unat_arith_simps)
  show ?thesis
    using te ce cl ok(3) code
    by (auto simp: body_bytes_def setopts_asks reported_body_def sent_lines_def head_lines_def)
qed

lemma sent_is_final:
  assumes "answer_ok sc (code, body, headers)" and "client_asks cu q g code headers"
  shows "is_final (hc_setopts cu q) (sent_lines sc code body headers)"
proof -
  note ok = answer_okD [OF assms(1)]
  have "map c_tolower ''Content-Length'' \<noteq> map c_tolower ''Location''" by code_simp
  then have "field_values ''Location'' (sent_lines sc code body headers) = own_values ''Location'' headers"
    using field_values_sent [OF ok(1,2), of "''Location''", folded sent_lines_def] by simp
  then show ?thesis
    using ok(3,4,5) assms(2) own_values_hasHeader [of "''Location''" headers]
    by (auto simp: is_final_def setopts_asks client_asks_def sent_lines_def head_lines_def)
qed

text \<open>What the client's callbacks make of it.\<close>

lemma client_reads_head:
  assumes "answer_ok sc (code, body, headers)" and "list_all (\<lambda>ch. length ch < 2 ^ 64) chunks"
  shows "fold curl_event_step (map Ev_line (sent_lines sc code body headers) @ map Ev_chunk chunks) hc_response
    = hc_response\<lparr>hp_headers := received headers body, hp_rawHeaders := sent_head sc code body headers,
        hp_body := concat chunks\<rparr>"
  unfolding sent_lines_def sent_head_def received_def fold_append comp_def
    step_head [OF answer_okD(1,2) [OF assms(1)]] step_chunks [OF assms(2)]
  by (simp add: hc_response_def)

lemma client_performs:
  assumes ok: "answer_ok sc (code, body, headers)" and asks: "client_asks cu q g code headers"
    and reads: "curl_reads (hc_setopts cu q) (sent_head sc code body headers @ body) (curl_easy_perform cu (hc_setopts cu q))"
    and success: "ct_result (curl_easy_perform cu (hc_setopts cu q)) = CURLE_OK"
  shows "let r = fst (perform cu q g)
    in hp_curlCode r = CURLE_OK \<and> hp_errorMessage r = [] \<and> hp_statusCode r = int (unat code)
       \<and> hp_headers r = received headers body \<and> hp_rawHeaders r = sent_head sc code body headers
       \<and> hp_body r = reported_body (hq_method q) code headers body"
proof -
  let ?t = "curl_easy_perform cu (hc_setopts cu q)"
  have st: "status_of (hd (sent_lines sc code body headers)) = unat code"
    using answer_okD(3) [OF ok] by (simp add: sent_lines_def head_lines_def)
  obtain chunks where c: "concat chunks = reported_body (hq_method q) code headers body"
    "list_all (\<lambda>ch. length ch < 2 ^ 64) chunks" "ct_responseCode ?t = Some (int (unat code))"
    "ct_events ?t = map Ev_line (sent_lines sc code body headers) @ map Ev_chunk chunks"
    using reads success sent_is_final [OF ok asks]
    unfolding curl_reads_def sent_head_of [OF ok] option.case prod.case concat_lf_lines
      sent_body_bytes [OF ok asks] st by blast
  have "fold curl_event_step (ct_events ?t) hc_response
      = hc_response\<lparr>hp_headers := received headers body, hp_rawHeaders := sent_head sc code body headers,
          hp_body := reported_body (hq_method q) code headers body\<rparr>"
    unfolding c(4) client_reads_head [OF ok c(2)] c(1) by (rule refl)
  then show ?thesis
    using asks success c(3)
    by (auto simp: perform_def ensureCurlGlobalInit_def client_asks_def Let_def hc_response_def
        split: option.splits)
qed


text \<open>A libcurl to which a given text is the answer, whatever it is asked: it hands over the head's lines and
  the body in two pieces.\<close>

definition curl_given :: "string \<Rightarrow> curl" where
  "curl_given wire =
     \<lparr>curl_global_init = 0, curl_easy_init = True, curl_easy_strerror = (\<lambda>code. ''failed''),
      curl_slist_alloc = (\<lambda>s. True),
      curl_easy_perform = (\<lambda>opts.
        (case head_of (lf_lines wire) of
           None \<Rightarrow> \<lparr>ct_events = [], ct_result = 52, ct_errorBuffer = [], ct_elapsed = 0,
                     ct_responseCode = None, ct_effectiveUrl = None\<rparr>
         | Some (head, rest) \<Rightarrow>
             \<lparr>ct_events = map Ev_line head @ (case body_bytes opts head (concat rest) of
                 None \<Rightarrow> [] | Some body \<Rightarrow> [Ev_chunk (take 2 body), Ev_chunk (drop 2 body)]),
              ct_result = CURLE_OK, ct_errorBuffer = [], ct_elapsed = 0,
              ct_responseCode = Some (int (status_of (hd head))), ct_effectiveUrl = None\<rparr>))\<rparr>"

lemma curl_given_reads:
  assumes "length wire < 2 ^ 64"
  shows "curl_reads opts wire (curl_easy_perform (curl_given wire) opts)"
proof (cases "head_of (lf_lines wire)")
  case (Some hr)
  obtain head rest where hr: "hr = (head, rest)" by fastforce
  have "length (concat rest) \<le> length wire"
  proof -
    have "head_of ls = Some (h, r) \<Longrightarrow> concat ls = concat h @ concat r" for ls h r
      by (induction ls arbitrary: h) (auto split: if_splits option.splits)
    from arg_cong [OF this [OF Some [unfolded hr]], of length] show ?thesis by simp
  qed
  moreover have "length body \<le> length (concat rest)" if "body_bytes opts head (concat rest) = Some body" for body
    using that by (auto simp: body_bytes_def framed_def split: if_splits list.splits)
  ultimately have "length body < 2 ^ 64" if "body_bytes opts head (concat rest) = Some body" for body
    using that assms by fastforce
  then show ?thesis
    unfolding curl_reads_def Some hr option.case prod.case
    by (auto simp: curl_given_def Some hr split: option.splits intro!: exI [of _ "[take 2 _, drop 2 _]"])
qed (simp add: curl_reads_def)


end
