(* ===== verification/HttpServerV2.thy ===== *)
theory HttpServerV2
  imports HttpServer
begin

text \<open>
  \<open>cHTTPServer_V2\<close> (\<open>cHTTPServer_V2.h\<close>, \<open>cHTTPServer_V2.cpp\<close>): the thin wrapper that owns an asio
  \<open>io_context\<close> and runs it on its own threads. The class lets its user configure the library's server
  directly; it takes over the server's \<open>on_error\<close> slot while it runs. asio's contexts are numbered; of
  each the model keeps the tasks posted to it and whether it was stopped. What happens inside
  \<open>io->run()\<close> (handlers, the start callback, other threads) is an argument.

  \<open>cHTTPSServer_V2\<close> is the same code with certificate files and other texts: the operations are stated
  on any extension of the record, with the protocol's name in the texts as a parameter \<open>proto\<close>;
  \<open>HttpsServerV2\<close> instantiates them.
\<close>

section \<open>State\<close>

type_synonym v2_handler = "lib_request option \<Rightarrow> int \<Rightarrow> string \<Rightarrow> cpp_exn option"

text \<open>What the slot \<open>m_server.on_error\<close> and the member \<open>m_userOnError\<close> can hold: nothing, a function of
  the user, or the lambda that \<open>preRun\<close> puts there. That lambda captures \<open>this\<close> alone.\<close>

datatype v2_on_error = OE_none | OE_user v2_handler | OE_wrapper

datatype io_task = Task_server_stop | Task_context_stop nat

record http_server_v2 =
  v2_base :: base_worker
  v2_port :: u16
  v2_address :: string
  v2_pool_size :: nat
  v2_io_service :: "nat option"
  v2_on_error :: v2_on_error
  v2_io :: "nat option"
  v2_ioThreads :: nat
  v2_userOnError :: v2_on_error
  v2_ioThreadCount :: nat
  v2_listeningPort :: u16
  v2_startResolved :: bool
  v2_startSucceeded :: bool
  v2_lastError :: string
  asio_next :: nat
  asio_posted :: "nat \<Rightarrow> io_task list"
  asio_stopped :: "nat \<Rightarrow> bool"

text \<open>The library's defaults for the server's configuration that the class reads: no address, a pool of
  one thread, no \<open>on_error\<close>.\<close>

definition v2_new :: "string \<Rightarrow> u16 \<Rightarrow> nat \<Rightarrow> int \<Rightarrow> http_server_v2" where
  "v2_new name port ioThreadCount' now =
     \<lparr>v2_base = bw_new name now, v2_port = port, v2_address = [], v2_pool_size = 1, v2_io_service = None,
      v2_on_error = OE_none, v2_io = None, v2_ioThreads = 0, v2_userOnError = OE_none,
      v2_ioThreadCount = (if ioThreadCount' = 0 then 1 else ioThreadCount'), v2_listeningPort = 0,
      v2_startResolved = False, v2_startSucceeded = False, v2_lastError = [], asio_next = 0,
      asio_posted = (\<lambda>_. []), asio_stopped = (\<lambda>_. False)\<rparr>"

section \<open>Configuration\<close>

definition v2_isRunning :: "'a http_server_v2_scheme \<Rightarrow> bool" where
  "v2_isRunning s \<longleftrightarrow> isRunning (v2_base s)"

definition v2_ioContext :: "'a http_server_v2_scheme \<Rightarrow> nat option" where
  "v2_ioContext s = v2_io s"

definition setIOThreadCount :: "nat \<Rightarrow> 'a http_server_v2_scheme \<Rightarrow> 'a http_server_v2_scheme" where
  "setIOThreadCount n s =
     (if v2_isRunning s then s else s\<lparr>v2_ioThreadCount := (if n = 0 then 1 else n)\<rparr>)"

definition ioThreadCount :: "'a http_server_v2_scheme \<Rightarrow> nat" where
  "ioThreadCount s = v2_ioThreadCount s"

definition v2_configuredPort :: "'a http_server_v2_scheme \<Rightarrow> u16" where
  "v2_configuredPort s = v2_port s"

definition v2_bindAddress :: "'a http_server_v2_scheme \<Rightarrow> string" where
  "v2_bindAddress s = v2_address s"

definition v2_getListeningPort :: "'a http_server_v2_scheme \<Rightarrow> u16" where
  "v2_getListeningPort s = v2_listeningPort s"

definition v2_getLastError :: "'a http_server_v2_scheme \<Rightarrow> string" where
  "v2_getLastError s = v2_lastError s"

section \<open>The start latch and the last error\<close>

definition v2_resetStartState :: "'a http_server_v2_scheme \<Rightarrow> 'a http_server_v2_scheme" where
  "v2_resetStartState s =
     s\<lparr>v2_listeningPort := 0, v2_startResolved := False, v2_startSucceeded := False, v2_lastError := []\<rparr>"

definition v2_resolveStartIfPending ::
  "bool \<Rightarrow> u16 \<Rightarrow> string \<Rightarrow> 'a http_server_v2_scheme \<Rightarrow> 'a http_server_v2_scheme" where
  "v2_resolveStartIfPending success port errorMessage s =
     (if v2_startResolved s then
        (if errorMessage \<noteq> [] then s\<lparr>v2_lastError := errorMessage\<rparr> else s)
      else s\<lparr>v2_startResolved := True, v2_startSucceeded := success,
             v2_listeningPort := (if success then port else 0), v2_lastError := errorMessage\<rparr>)"

definition v2_setLastError :: "string \<Rightarrow> 'a http_server_v2_scheme \<Rightarrow> 'a http_server_v2_scheme" where
  "v2_setLastError errorMessage s = s\<lparr>v2_lastError := errorMessage\<rparr>"

interpretation v2_latch: start_latch v2_resetStartState v2_resolveStartIfPending v2_startResolved
  v2_startSucceeded v2_listeningPort v2_lastError
  by unfold_locales (simp_all add: v2_resetStartState_def v2_resolveStartIfPending_def)

definition v2_updateHeartbeat :: "int \<Rightarrow> 'a http_server_v2_scheme \<Rightarrow> 'a http_server_v2_scheme" where
  "v2_updateHeartbeat now s = s\<lparr>v2_base := updateHeartbeat 1000000 now (v2_base s)\<rparr>"

section \<open>Preparation and errors\<close>

text \<open>\<open>thrown\<close>: the exception that making the \<open>io_context\<close> ends with, if any.\<close>

definition v2_preRun ::
  "string \<Rightarrow> cpp_exn option \<Rightarrow> 'a http_server_v2_scheme \<Rightarrow> bool \<times> 'a http_server_v2_scheme" where
  "v2_preRun proto thrown s =
     (case thrown of
        None \<Rightarrow>
          let io = asio_next s in
          (True, s\<lparr>asio_next := Suc io, v2_io := Some io, v2_userOnError := v2_on_error s,
                   v2_io_service := Some io, v2_pool_size := 1, v2_on_error := OE_wrapper\<rparr>)
      | Some (StdException what) \<Rightarrow> (False, v2_resolveStartIfPending False 0 what s)
      | Some OtherException \<Rightarrow>
          (False, v2_resolveStartIfPending False 0 (''Failed to initialize '' @ proto @ '' server'') s))"

text \<open>A call of an \<open>on_error\<close> function: the exception it ends with, if any, and the server. The lambda of
  \<open>preRun\<close> reads \<open>m_userOnError\<close> when it is called, and calls what it finds there; \<open>None\<close> is a call that
  does not return.\<close>

partial_function (option) v2_call_on_error ::
  "v2_on_error \<Rightarrow> int \<Rightarrow> lib_request option \<Rightarrow> int \<Rightarrow> string \<Rightarrow> 'a http_server_v2_scheme
     \<Rightarrow> (cpp_exn option \<times> 'a http_server_v2_scheme) option" where
  "v2_call_on_error h now request value' message s =
     (case h of
        OE_none \<Rightarrow> Some (None, s)
      | OE_user f \<Rightarrow> Some (f request value' message, s)
      | OE_wrapper \<Rightarrow>
          let s1 = v2_setLastError message (v2_updateHeartbeat now s) in
          v2_call_on_error (v2_userOnError s1) now request value' message s1)"

section \<open>Stopping\<close>

definition asio_post :: "nat \<Rightarrow> io_task \<Rightarrow> 'a http_server_v2_scheme \<Rightarrow> 'a http_server_v2_scheme" where
  "asio_post io t s = s\<lparr>asio_posted := (asio_posted s)(io := asio_posted s io @ [t])\<rparr>"

text \<open>The flag tells whether \<open>stop()\<close> of the library's server is called on the spot; what it throws is
  swallowed.\<close>

definition v2_stopTriggered ::
  "string \<Rightarrow> 'a http_server_v2_scheme \<Rightarrow> bool \<times> 'a http_server_v2_scheme" where
  "v2_stopTriggered proto s =
     (case v2_ioContext s of
        None \<Rightarrow> (True, s)
      | Some io \<Rightarrow>
          (False, v2_resolveStartIfPending False 0 (proto @ '' server stop requested'')
             (asio_post io (Task_context_stop io) (asio_post io Task_server_stop s))))"

definition v2_requestStop :: "string \<Rightarrow> 'a http_server_v2_scheme \<Rightarrow> 'a http_server_v2_scheme" where
  "v2_requestStop proto s =
     (case requestStop (v2_base s) of
        (shouldTriggerStop, b) \<Rightarrow>
          if shouldTriggerStop then snd (v2_stopTriggered proto (s\<lparr>v2_base := b\<rparr>)) else s\<lparr>v2_base := b\<rparr>)"

section \<open>Running\<close>

text \<open>One thread's \<open>io->run()\<close>: what happens while it runs, and the exception it ends with, if any.\<close>

record 's io_run =
  ir_meanwhile :: "'s \<Rightarrow> 's"
  ir_thrown :: "cpp_exn option"

definition asio_stop :: "nat \<Rightarrow> 'a http_server_v2_scheme \<Rightarrow> 'a http_server_v2_scheme" where
  "asio_stop io s = s\<lparr>asio_stopped := (asio_stopped s)(io := True)\<rparr>"

definition v2_runIo ::
  "string \<Rightarrow> nat \<Rightarrow> 'a http_server_v2_scheme io_run \<Rightarrow> 'a http_server_v2_scheme \<Rightarrow> 'a http_server_v2_scheme" where
  "v2_runIo proto io r s =
     (let s1 = ir_meanwhile r s in
      case ir_thrown r of
        None \<Rightarrow> s1
      | Some (StdException what) \<Rightarrow> v2_requestStop proto (asio_stop io (v2_setLastError what s1))
      | Some OtherException \<Rightarrow>
          v2_requestStop proto (asio_stop io (v2_setLastError ''Unhandled io_context exception'' s1)))"

text \<open>How the body of a worker ends: the process is gone (a joinable \<open>std::thread\<close> was destroyed), or the
  function ended with an exception or without.\<close>

datatype 's ended = Terminated | Ended "cpp_exn + unit" 's

text \<open>The loop that creates the extra threads, from \<open>index\<close> on: \<open>fails\<close> is the index at which
  \<open>std::thread\<close> throws, if it does.\<close>

function v2_spawn ::
  "nat \<Rightarrow> (nat \<times> cpp_exn) option \<Rightarrow> 'a http_server_v2_scheme \<Rightarrow> cpp_exn option \<times> 'a http_server_v2_scheme" where
  "v2_spawn index fails s =
     (if index < v2_ioThreadCount s then
        case fails of
          Some (n, e) \<Rightarrow>
            if n = index then (Some e, s)
            else v2_spawn (Suc index) fails (s\<lparr>v2_ioThreads := Suc (v2_ioThreads s)\<rparr>)
        | None \<Rightarrow> v2_spawn (Suc index) fails (s\<lparr>v2_ioThreads := Suc (v2_ioThreads s)\<rparr>)
      else (None, s))"
  by pat_completeness auto
termination by (relation "measure (\<lambda>(i, f, s). v2_ioThreadCount s - i)") auto

declare v2_spawn.simps [simp del]

text \<open>\<open>processWork\<close>. \<open>runs\<close> are the \<open>io->run()\<close> calls of all the threads, in the order they end; the
  joins return when all have.\<close>

definition v2_processWork ::
  "string \<Rightarrow> (nat \<times> cpp_exn) option \<Rightarrow> 'a http_server_v2_scheme io_run list \<Rightarrow> 'a http_server_v2_scheme
     \<Rightarrow> 'a http_server_v2_scheme ended" where
  "v2_processWork proto fails runs s =
     (case v2_ioContext s of
        None \<Rightarrow> Ended (Inr ()) s
      | Some io \<Rightarrow>
          if v2_ioThreads s \<noteq> 0 then Terminated
          else case v2_spawn 1 fails s of
                 (Some e, s1) \<Rightarrow> Ended (Inl e) s1
               | (None, s1) \<Rightarrow>
                   let s2 = fold (v2_runIo proto io) runs s1 in Ended (Inr ()) (s2\<lparr>v2_ioThreads := 0\<rparr>))"

text \<open>The callback given to \<open>m_server.start\<close>, which the library runs on the context once it listens.\<close>

definition v2_callback :: "int \<Rightarrow> u16 \<Rightarrow> 'a http_server_v2_scheme \<Rightarrow> 'a http_server_v2_scheme" where
  "v2_callback now port s = v2_resolveStartIfPending True port [] (v2_updateHeartbeat now s)"

text \<open>\<open>run\<close>; \<open>start_thrown\<close> is the exception \<open>m_server.start\<close> ends with, if any.\<close>

definition v2_run_catch ::
  "string \<Rightarrow> cpp_exn \<Rightarrow> 'a http_server_v2_scheme \<Rightarrow> 'a http_server_v2_scheme ended" where
  "v2_run_catch proto e s =
     (case e of
        StdException what \<Rightarrow> Ended (Inl e) (v2_resolveStartIfPending False 0 what s)
      | OtherException \<Rightarrow>
          Ended (Inl e) (v2_resolveStartIfPending False 0 (''Unhandled '' @ proto @ '' server exception'') s))"

definition v2_run ::
  "string \<Rightarrow> cpp_exn option \<Rightarrow> (nat \<times> cpp_exn) option \<Rightarrow> 'a http_server_v2_scheme io_run list
     \<Rightarrow> 'a http_server_v2_scheme \<Rightarrow> 'a http_server_v2_scheme ended" where
  "v2_run proto start_thrown fails runs s =
     (case start_thrown of
        Some e \<Rightarrow> v2_run_catch proto e s
      | None \<Rightarrow>
          case v2_processWork proto fails runs s of
            Terminated \<Rightarrow> Terminated
          | Ended (Inl e) s1 \<Rightarrow> v2_run_catch proto e s1
          | Ended (Inr _) s1 \<Rightarrow>
              let s2 = v2_resolveStartIfPending False 0
                (if stopRequested (v2_base s1) then proto @ '' server stopped''
                 else proto @ '' server exited unexpectedly'') s1
              in Ended (Inr ()) (s2\<lparr>v2_on_error := v2_userOnError s2, v2_io_service := None,
                                    v2_userOnError := OE_none, v2_io := None\<rparr>))"

section \<open>Starting\<close>

definition v2_waitUntilListening ::
  "int \<Rightarrow> 'a http_server_v2_scheme wake list \<Rightarrow> 'a http_server_v2_scheme
     \<Rightarrow> (bool \<times> 'a http_server_v2_scheme) option" where
  "v2_waitUntilListening timeout wakes s =
     (if timeout = 0 then Some (True, s)
      else (case cv_wait_for v2_startResolved s wakes of
              None \<Rightarrow> None
            | Some (completed, s1) \<Rightarrow>
                if \<not> completed then Some (False, s1) else Some (v2_startSucceeded s1, s1)))"

definition v2_startThread ::
  "nat option \<Rightarrow> int \<Rightarrow> int \<Rightarrow> 'a http_server_v2_scheme wake list \<Rightarrow> 'a http_server_v2_scheme
     \<Rightarrow> (bool \<times> 'a http_server_v2_scheme) option" where
  "v2_startThread created now timeout wakes s =
     (let s1 = v2_resetStartState s in
      case startThread created now 0 [] (v2_base s1) of
        None \<Rightarrow> None
      | Some (False, b) \<Rightarrow> Some (False, s1\<lparr>v2_base := b\<rparr>)
      | Some (True, b) \<Rightarrow> v2_waitUntilListening timeout wakes (s1\<lparr>v2_base := b\<rparr>))"

definition v2_startThread_ms ::
  "nat option \<Rightarrow> int \<Rightarrow> u16 \<Rightarrow> 'a http_server_v2_scheme wake list \<Rightarrow> 'a http_server_v2_scheme
     \<Rightarrow> (bool \<times> 'a http_server_v2_scheme) option" where
  "v2_startThread_ms created now timeout wakes s = v2_startThread created now (uint timeout) wakes s"

text \<open>Starting follows the contract.\<close>

interpretation v2_start: latched_server v2_resetStartState v2_resolveStartIfPending v2_startResolved v2_startSucceeded
  v2_listeningPort v2_lastError v2_base "\<lambda>b. v2_base_update (\<lambda>_. b)" v2_waitUntilListening v2_startThread
proof unfold_locales
  fix t ws s ok s'
  assume "t \<noteq> 0" and "v2_waitUntilListening t ws s = Some (ok, s')"
  then show "ok = (v2_startResolved s' \<and> v2_startSucceeded s')"
    by (auto simp: v2_waitUntilListening_def dest!: cv_wait_for_result split: option.splits if_splits)
qed (auto simp: v2_resetStartState_def v2_waitUntilListening_def v2_startThread_def Let_def split: option.splits)

end
