(* ===== verification/HttpServerV2Proofs.thy ===== *)
theory HttpServerV2Proofs
  imports HttpServerV2
begin

text \<open>
  The wrapper server: the \<open>on_error\<close> slot it borrows from its user, the tasks a stop posts, and the
  start latch. Everything is shown for any extension of the record, so for the HTTPS copy too.
\<close>

section \<open>The \<open>on_error\<close> slot\<close>

lemma v2_call_simps [simp]:
  "v2_call_on_error OE_none now rq v m s = Some (None, s)"
  "v2_call_on_error (OE_user f) now rq v m s = Some (f rq v m, s)"
  by (subst v2_call_on_error.simps, simp)+

lemma v2_call_wrapper:
  "v2_call_on_error OE_wrapper now rq v m s =
     (let s1 = v2_setLastError m (v2_updateHeartbeat now s) in
      v2_call_on_error (v2_userOnError s1) now rq v m s1)"
  by (subst v2_call_on_error.simps) simp

lemma v2_call_partial:
  assumes "v2_call_on_error h now rq v m s = Some y"
  shows "\<not> (h = OE_wrapper \<and> v2_userOnError s = OE_wrapper)"
proof (rule v2_call_on_error.raw_induct
    [where P = "\<lambda>h now rq v m s y. \<not> (h = OE_wrapper \<and> v2_userOnError s = OE_wrapper)", OF _ assms])
  fix f :: "v2_on_error \<Rightarrow> int \<Rightarrow> lib_request option \<Rightarrow> int \<Rightarrow> string \<Rightarrow> 'a http_server_v2_scheme
      \<Rightarrow> (cpp_exn option \<times> 'a http_server_v2_scheme) option" and h now rq v m s y
  assume ih: "\<And>h now rq v m s y. f h now rq v m s = Some y
      \<Longrightarrow> \<not> (h = OE_wrapper \<and> v2_userOnError s = OE_wrapper)"
    and body: "(case h of OE_none \<Rightarrow> Some (None, s) | OE_user g \<Rightarrow> Some (g rq v m, s)
      | OE_wrapper \<Rightarrow> let s1 = v2_setLastError m (v2_updateHeartbeat now s)
          in f (v2_userOnError s1) now rq v m s1) = Some y"
  let ?s1 = "v2_setLastError m (v2_updateHeartbeat now s)"
  have u: "v2_userOnError ?s1 = v2_userOnError s"
    by (simp add: v2_setLastError_def v2_updateHeartbeat_def)
  show "\<not> (h = OE_wrapper \<and> v2_userOnError s = OE_wrapper)"
  proof
    assume h: "h = OE_wrapper \<and> v2_userOnError s = OE_wrapper"
    with body have "f OE_wrapper now rq v m ?s1 = Some y" by (simp add: u Let_def)
    from ih [OF this] show False using h u by simp
  qed
qed

lemma v2_call_diverges:
  "v2_userOnError s = OE_wrapper \<Longrightarrow> v2_call_on_error OE_wrapper now rq v m s = None"
  using v2_call_partial [of OE_wrapper now rq v m s] by (cases "v2_call_on_error OE_wrapper now rq v m s") auto

lemma v2_preRun_ok [simp]:
  "v2_preRun proto None s =
     (True, s\<lparr>asio_next := Suc (asio_next s), v2_io := Some (asio_next s), v2_userOnError := v2_on_error s,
              v2_io_service := Some (asio_next s), v2_pool_size := 1, v2_on_error := OE_wrapper\<rparr>)"
  by (simp add: v2_preRun_def Let_def)

text \<open>A preparation on top of another, without a run that ended normally in between.\<close>

lemma v2_prepared_twice:
  assumes "v2_on_error s = OE_wrapper"
  shows "v2_call_on_error (v2_on_error (snd (v2_preRun proto None s))) now rq v m (snd (v2_preRun proto None s)) = None"
  by (simp add: assms v2_call_diverges)

section \<open>What keeps the slots\<close>

lemma v2_resolve_slots [simp]:
  "v2_userOnError (v2_resolveStartIfPending b p e s) = v2_userOnError s"
  "v2_on_error (v2_resolveStartIfPending b p e s) = v2_on_error s"
  "v2_io (v2_resolveStartIfPending b p e s) = v2_io s"
  "v2_base (v2_resolveStartIfPending b p e s) = v2_base s"
  "v2_ioThreads (v2_resolveStartIfPending b p e s) = v2_ioThreads s"
  "asio_posted (v2_resolveStartIfPending b p e s) = asio_posted s"
  by (simp_all add: v2_resolveStartIfPending_def)

lemma v2_resolve_resolved [simp]: "v2_startResolved (v2_resolveStartIfPending b p e s)"
  by (simp add: v2_resolveStartIfPending_def)

lemma v2_requestStop_user [simp]: "v2_userOnError (v2_requestStop proto s) = v2_userOnError s"
  by (auto simp: v2_requestStop_def v2_stopTriggered_def asio_post_def split: prod.splits option.splits)

lemma v2_runIo_user:
  assumes "v2_userOnError (ir_meanwhile r s) = v2_userOnError s"
  shows "v2_userOnError (v2_runIo proto io r s) = v2_userOnError s"
  using assms
  by (auto simp: v2_runIo_def asio_stop_def v2_setLastError_def Let_def split: option.splits cpp_exn.splits)

lemma v2_runIos_user:
  assumes "\<And>r u. r \<in> set runs \<Longrightarrow> v2_userOnError (ir_meanwhile r u) = v2_userOnError u"
  shows "v2_userOnError (fold (v2_runIo proto io) runs s) = v2_userOnError s"
  using assms by (induction runs arbitrary: s) (simp_all add: v2_runIo_user)

lemma v2_spawn_user [simp]: "v2_userOnError (snd (v2_spawn i fails s)) = v2_userOnError s"
proof (induction i fails s rule: v2_spawn.induct)
  case (1 i fails s)
  then show ?case by (subst v2_spawn.simps) (auto split: option.splits)
qed

lemma v2_spawn_count:
  "v2_spawn i None s =
     (None, s\<lparr>v2_ioThreads := v2_ioThreads s + (v2_ioThreadCount s - i)\<rparr>)"
proof (induction i "None :: (nat \<times> cpp_exn) option" s rule: v2_spawn.induct)
  case (1 i s)
  then show ?case by (subst v2_spawn.simps) auto
qed

lemma v2_spawn_fails:
  "i \<le> n \<Longrightarrow> n < v2_ioThreadCount s \<Longrightarrow>
   v2_spawn i (Some (n, e)) s = (Some e, s\<lparr>v2_ioThreads := v2_ioThreads s + (n - i)\<rparr>)"
proof (induction i "Some (n, e)" s rule: v2_spawn.induct)
  case (1 i s)
  then show ?case by (subst v2_spawn.simps) auto
qed

text \<open>C28: While the wrapper server runs it stands in front of its user's error handler and gives it back: in
  a prepared server every error is recorded and then passed to the user's handler, whose outcome is the
  outcome; and when the run ends normally the library's slot holds the user's handler again, and no
  context is left.\<close>

theorem v2_on_error_roundtrip:
  assumes "v2_on_error s \<noteq> OE_wrapper"
    and "\<And>r u. r \<in> set runs \<Longrightarrow> v2_userOnError (ir_meanwhile r u) = v2_userOnError u"
    and "v2_run proto None fails runs (snd (v2_preRun proto None s)) = Ended (Inr ()) s'"
  shows "v2_call_on_error (v2_on_error (snd (v2_preRun proto None s))) now rq v m (snd (v2_preRun proto None s))
      = Some ((case v2_on_error s of OE_user f \<Rightarrow> f rq v m | _ \<Rightarrow> None),
              v2_setLastError m (v2_updateHeartbeat now (snd (v2_preRun proto None s))))
    \<and> v2_on_error s' = v2_on_error s \<and> v2_userOnError s' = OE_none \<and> v2_io s' = None \<and> v2_ioThreads s' = 0"
proof (intro conjI)
  let ?s = "snd (v2_preRun proto None s)"
  have u: "v2_userOnError ?s = v2_on_error s" "v2_io ?s = Some (asio_next s)" by simp_all
  then have w: "v2_userOnError (v2_setLastError m (v2_updateHeartbeat now ?s)) = v2_on_error s"
    by (simp add: v2_setLastError_def v2_updateHeartbeat_def)
  have "v2_call_on_error OE_wrapper now rq v m ?s = Some
      ((case v2_on_error s of OE_user f \<Rightarrow> f rq v m | _ \<Rightarrow> None), v2_setLastError m (v2_updateHeartbeat now ?s))"
    unfolding v2_call_wrapper Let_def w using assms(1) by (cases "v2_on_error s") simp_all
  then show "v2_call_on_error (v2_on_error ?s) now rq v m ?s = Some
      ((case v2_on_error s of OE_user f \<Rightarrow> f rq v m | _ \<Rightarrow> None), v2_setLastError m (v2_updateHeartbeat now ?s))"
    by simp
  obtain s1 where p: "v2_processWork proto fails runs ?s = Ended (Inr ()) s1"
    and s': "s' = (let s2 = v2_resolveStartIfPending False 0
          (if stopRequested (v2_base s1) then proto @ '' server stopped''
           else proto @ '' server exited unexpectedly'') s1
        in s2\<lparr>v2_on_error := v2_userOnError s2, v2_io_service := None, v2_userOnError := OE_none, v2_io := None\<rparr>)"
    using assms(3)
    by (auto simp: v2_run_def v2_run_catch_def Let_def simp del: v2_preRun_ok
        split: ended.splits sum.splits cpp_exn.splits)
  obtain s2 where sp: "v2_spawn 1 fails ?s = (None, s2)"
      "s1 = (fold (v2_runIo proto (asio_next s)) runs s2)\<lparr>v2_ioThreads := 0\<rparr>"
    using p unfolding v2_processWork_def v2_ioContext_def u(2) option.case
    by (auto simp del: v2_preRun_ok split: if_splits prod.splits option.splits)
  have "v2_userOnError s2 = v2_on_error s"
    using v2_spawn_user [of 1 fails ?s] sp(1) u(1) by (simp del: v2_preRun_ok v2_spawn_user)
  then have "v2_userOnError s1 = v2_on_error s" "v2_ioThreads s1 = 0"
    unfolding sp(2) using v2_runIos_user [OF assms(2), where proto=proto] by simp_all
  then show "v2_on_error s' = v2_on_error s" "v2_userOnError s' = OE_none" "v2_io s' = None"
    "v2_ioThreads s' = 0"
    by (simp_all add: s' Let_def)
qed

definition v2_demo :: http_server_v2 where
  "v2_demo = (v2_new ''h'' 80 2 0)\<lparr>v2_on_error := OE_user (\<lambda>rq v m. Some OtherException)\<rparr>"

theorem v2_on_error_roundtrip_witness:
  "\<exists>s'. v2_run ''HTTP'' None None
        [\<lparr>ir_meanwhile = v2_callback 5 80, ir_thrown = None\<rparr>,
         \<lparr>ir_meanwhile = (\<lambda>u. u), ir_thrown = Some (StdException ''x'')\<rparr>]
        (snd (v2_preRun ''HTTP'' None v2_demo)) = Ended (Inr ()) s'
      \<and> v2_on_error s' = v2_on_error v2_demo \<and> v2_io s' = None"
proof -
  let ?runs = "[\<lparr>ir_meanwhile = v2_callback 5 80, ir_thrown = None\<rparr>,
         \<lparr>ir_meanwhile = (\<lambda>u. u), ir_thrown = Some (StdException ''x'')\<rparr>] :: http_server_v2 io_run list"
  have n: "v2_on_error v2_demo \<noteq> OE_wrapper" by (simp add: v2_demo_def)
  have k: "\<And>r u. r \<in> set ?runs \<Longrightarrow> v2_userOnError (ir_meanwhile r u) = v2_userOnError u"
    by (auto simp: v2_callback_def v2_updateHeartbeat_def)
  obtain s' where "v2_run ''HTTP'' None None ?runs (snd (v2_preRun ''HTTP'' None v2_demo)) = Ended (Inr ()) s'"
    by (simp add: v2_run_def v2_processWork_def v2_ioContext_def v2_spawn_count v2_demo_def v2_new_def Let_def)
  with v2_on_error_roundtrip [OF n k this] show ?thesis by blast
qed

text \<open>A start that is interrupted leaves the slot borrowed, and the next start then puts the wrapper's
  lambda in front of itself, so that the first error reported to the server never returns. Two
  interruptions do this. A stop that arrives before \<open>preRun\<close> has made the context: that stop does not
  resolve the start either, although the worker will not enter \<open>run\<close>, so a waiting \<open>startThread\<close> sleeps
  to the end of its timeout. And a \<open>run\<close> that ends with an exception, such as a port in use.\<close>

theorem v2_interrupted_start:
  assumes "v2_io s = None" and "m_state (v2_base s) = St_Starting" and "\<not> v2_startResolved s"
  shows "(let s1 = snd (v2_preRun proto None (v2_requestStop proto s)); s2 = snd (v2_preRun proto None s1) in
      stopRequested (v2_base s1) \<and> \<not> v2_startResolved s1
      \<and> v2_call_on_error (v2_on_error s2) now rq v m s2 = None)
    \<and> (case v2_run proto (Some e) fails runs (snd (v2_preRun proto None s)) of
         Terminated \<Rightarrow> False
       | Ended r s3 \<Rightarrow>
           (let s4 = snd (v2_preRun proto None s3) in
            r = Inl e \<and> v2_startResolved s3 \<and> \<not> v2_startSucceeded s3
            \<and> v2_call_on_error (v2_on_error s4) now rq v m s4 = None))"
proof
  have "v2_requestStop proto s = s\<lparr>v2_base := snd (requestStop (v2_base s))\<rparr>"
    using assms(1,2)
    by (simp add: v2_requestStop_def v2_stopTriggered_def v2_ioContext_def requestStop_def Let_def)
  then show "let s1 = snd (v2_preRun proto None (v2_requestStop proto s)); s2 = snd (v2_preRun proto None s1) in
      stopRequested (v2_base s1) \<and> \<not> v2_startResolved s1
      \<and> v2_call_on_error (v2_on_error s2) now rq v m s2 = None"
    using assms(2,3) by (simp add: Let_def v2_call_diverges requestStop_def stopRequested_def)
  show "case v2_run proto (Some e) fails runs (snd (v2_preRun proto None s)) of
         Terminated \<Rightarrow> False
       | Ended r s3 \<Rightarrow>
           (let s4 = snd (v2_preRun proto None s3) in
            r = Inl e \<and> v2_startResolved s3 \<and> \<not> v2_startSucceeded s3
            \<and> v2_call_on_error (v2_on_error s4) now rq v m s4 = None)"
    using assms(3)
    by (auto simp: v2_run_def v2_run_catch_def Let_def v2_call_diverges v2_resolveStartIfPending_def
        split: cpp_exn.splits)
qed

definition v2_starting :: http_server_v2 where
  "v2_starting = (v2_new ''h'' 80 1 0)\<lparr>v2_base := setState St_Starting (bw_new ''h'' 0)\<rparr>"

theorem v2_interrupted_start_witness:
  "\<exists>s. v2_on_error s = OE_wrapper \<and> \<not> v2_startResolved s \<and> stopRequested (v2_base s)
     \<and> s = snd (v2_preRun ''HTTP'' None (v2_requestStop ''HTTP'' v2_starting))"
proof -
  have "v2_io v2_starting = None" "m_state (v2_base v2_starting) = St_Starting"
    "\<not> v2_startResolved v2_starting"
    by (simp_all add: v2_starting_def v2_new_def setState_def)
  from v2_interrupted_start [OF this, THEN conjunct1, of "''HTTP''"] show ?thesis
    by (auto simp: Let_def)
qed

text \<open>Stopping posts, for every call of \<open>stopTriggered\<close>, the server's stop before the context's stop, and
  never stops the server on the calling thread while a context exists.\<close>

lemma v2_stop_posts_in_order:
  assumes "v2_io s = Some io"
  shows "asio_posted (fold (\<lambda>_ u. snd (v2_stopTriggered proto u)) (replicate n ()) s) io
      = asio_posted s io @ concat (replicate n [Task_server_stop, Task_context_stop io])
    \<and> \<not> fst (v2_stopTriggered proto s)"
proof
  show "\<not> fst (v2_stopTriggered proto s)"
    using assms by (simp add: v2_stopTriggered_def v2_ioContext_def)
  show "asio_posted (fold (\<lambda>_ u. snd (v2_stopTriggered proto u)) (replicate n ()) s) io
      = asio_posted s io @ concat (replicate n [Task_server_stop, Task_context_stop io])"
    using assms
  proof (induction n arbitrary: s)
    case (Suc n)
    let ?s = "snd (v2_stopTriggered proto s)"
    have "asio_posted ?s io = asio_posted s io @ [Task_server_stop, Task_context_stop io]" "v2_io ?s = Some io"
      using Suc(2) by (simp_all add: v2_stopTriggered_def v2_ioContext_def asio_post_def)
    with Suc(1) [of ?s] show ?case by simp
  qed simp
qed

text \<open>When the second of the extra threads cannot be created the first is left joinable in the vector,
  and the next run ends the process.\<close>

lemma v2_spawn_failure:
  assumes "v2_io s = Some io" and "v2_ioThreads s = 0" and "2 < v2_ioThreadCount s"
  shows "\<exists>s1. v2_run proto None (Some (2, e)) runs s = Ended (Inl e) s1 \<and> v2_ioThreads s1 = 1
    \<and> v2_run proto None fails runs' (snd (v2_preRun proto None s1)) = Terminated"
  using assms
  by (auto simp: v2_run_def v2_processWork_def v2_ioContext_def v2_spawn_fails v2_run_catch_def
      split: cpp_exn.splits)

text \<open>Whatever happens during it, a run that ends has resolved the start.\<close>

lemma v2_run_resolves:
  "v2_run proto thrown fails runs s = Ended r s' \<Longrightarrow> v2_startResolved s'"
  by (auto simp: v2_run_def v2_run_catch_def Let_def split: option.splits ended.splits sum.splits cpp_exn.splits)

end
