(* ===== verification/HttpsServerV2.thy ===== *)
theory HttpsServerV2
  imports HttpServerV2Proofs
begin

text \<open>
  \<open>cHTTPSServer_V2\<close> (\<open>cHTTPSServer_V2.h\<close>, \<open>cHTTPSServer_V2.cpp\<close>): the wrapper around the library's TLS
  server. The class is a copy of \<open>cHTTPServer_V2\<close> that keeps the names of the certificate files and hands
  them to the library in its constructor; so its record extends the other's, and each of its methods is
  the other's operation on the extension, with HTTPS in the texts.
\<close>

record https_server_v2 = http_server_v2 +
  w2_certificateFile :: string
  w2_privateKeyFile :: string
  w2_verifyFile :: string

text \<open>\<open>thrown\<close>: the exception the library's server ends its construction with, if any.\<close>

definition w2_new ::
  "cpp_exn option \<Rightarrow> string \<Rightarrow> u16 \<Rightarrow> string \<Rightarrow> string \<Rightarrow> string \<Rightarrow> nat \<Rightarrow> int \<Rightarrow> cpp_exn + https_server_v2" where
  "w2_new thrown name port certificateFile privateKeyFile verifyFile ioThreadCount' now =
     (case thrown of
        Some e \<Rightarrow> Inl e
      | None \<Rightarrow>
          Inr (http_server_v2.extend (v2_new name port ioThreadCount' now)
            \<lparr>w2_certificateFile = certificateFile, w2_privateKeyFile = privateKeyFile,
             w2_verifyFile = verifyFile\<rparr>))"

definition w2_getCertificateFile :: "https_server_v2 \<Rightarrow> string" where
  "w2_getCertificateFile s = w2_certificateFile s"

definition w2_getPrivateKeyFile :: "https_server_v2 \<Rightarrow> string" where
  "w2_getPrivateKeyFile s = w2_privateKeyFile s"

definition w2_getVerifyFile :: "https_server_v2 \<Rightarrow> string" where
  "w2_getVerifyFile s = w2_verifyFile s"

definition w2_ioContext :: "https_server_v2 \<Rightarrow> nat option" where
  "w2_ioContext s = v2_io s"

definition w2_ioThreadCount :: "https_server_v2 \<Rightarrow> nat" where
  "w2_ioThreadCount s = v2_ioThreadCount s"

definition w2_configuredPort :: "https_server_v2 \<Rightarrow> u16" where
  "w2_configuredPort s = v2_port s"

definition w2_bindAddress :: "https_server_v2 \<Rightarrow> string" where
  "w2_bindAddress s = v2_address s"

definition w2_getListeningPort :: "https_server_v2 \<Rightarrow> u16" where
  "w2_getListeningPort s = v2_listeningPort s"

definition w2_getLastError :: "https_server_v2 \<Rightarrow> string" where
  "w2_getLastError s = v2_lastError s"

definition w2_setLastError :: "string \<Rightarrow> https_server_v2 \<Rightarrow> https_server_v2" where
  "w2_setLastError errorMessage s = s\<lparr>v2_lastError := errorMessage\<rparr>"

definition w2_setIOThreadCount :: "nat \<Rightarrow> https_server_v2 \<Rightarrow> https_server_v2" where
  "w2_setIOThreadCount n s =
     (if v2_isRunning s then s else s\<lparr>v2_ioThreadCount := (if n = 0 then 1 else n)\<rparr>)"

definition w2_resetStartState :: "https_server_v2 \<Rightarrow> https_server_v2" where
  "w2_resetStartState s =
     s\<lparr>v2_listeningPort := 0, v2_startResolved := False, v2_startSucceeded := False, v2_lastError := []\<rparr>"

definition w2_resolveStartIfPending :: "bool \<Rightarrow> u16 \<Rightarrow> string \<Rightarrow> https_server_v2 \<Rightarrow> https_server_v2" where
  "w2_resolveStartIfPending success port errorMessage s =
     (if v2_startResolved s then
        (if errorMessage \<noteq> [] then s\<lparr>v2_lastError := errorMessage\<rparr> else s)
      else s\<lparr>v2_startResolved := True, v2_startSucceeded := success,
             v2_listeningPort := (if success then port else 0), v2_lastError := errorMessage\<rparr>)"

interpretation w2_latch: start_latch w2_resetStartState w2_resolveStartIfPending v2_startResolved
  v2_startSucceeded v2_listeningPort v2_lastError
  by unfold_locales (simp_all add: w2_resetStartState_def w2_resolveStartIfPending_def)

definition w2_preRun :: "cpp_exn option \<Rightarrow> https_server_v2 \<Rightarrow> bool \<times> https_server_v2" where
  "w2_preRun = v2_preRun ''HTTPS''"

definition w2_stopTriggered :: "https_server_v2 \<Rightarrow> bool \<times> https_server_v2" where
  "w2_stopTriggered = v2_stopTriggered ''HTTPS''"

definition w2_processWork ::
  "(nat \<times> cpp_exn) option \<Rightarrow> https_server_v2 io_run list \<Rightarrow> https_server_v2 \<Rightarrow> https_server_v2 ended" where
  "w2_processWork = v2_processWork ''HTTPS''"

definition w2_run ::
  "cpp_exn option \<Rightarrow> (nat \<times> cpp_exn) option \<Rightarrow> https_server_v2 io_run list \<Rightarrow> https_server_v2
     \<Rightarrow> https_server_v2 ended" where
  "w2_run = v2_run ''HTTPS''"

definition w2_waitUntilListening ::
  "int \<Rightarrow> https_server_v2 wake list \<Rightarrow> https_server_v2 \<Rightarrow> (bool \<times> https_server_v2) option" where
  "w2_waitUntilListening = v2_waitUntilListening"

definition w2_startThread ::
  "nat option \<Rightarrow> int \<Rightarrow> int \<Rightarrow> https_server_v2 wake list \<Rightarrow> https_server_v2
     \<Rightarrow> (bool \<times> https_server_v2) option" where
  "w2_startThread = v2_startThread"

definition w2_startThread_ms ::
  "nat option \<Rightarrow> int \<Rightarrow> u16 \<Rightarrow> https_server_v2 wake list \<Rightarrow> https_server_v2
     \<Rightarrow> (bool \<times> https_server_v2) option" where
  "w2_startThread_ms created now timeout wakes s = w2_startThread created now (uint timeout) wakes s"

lemma w2_latch_is_v2:
  "w2_resetStartState = v2_resetStartState" "w2_resolveStartIfPending = v2_resolveStartIfPending"
  by (simp_all add: fun_eq_iff w2_resetStartState_def v2_resetStartState_def
      w2_resolveStartIfPending_def v2_resolveStartIfPending_def)

interpretation w2_start: latched_server w2_resetStartState w2_resolveStartIfPending v2_startResolved
  v2_startSucceeded v2_listeningPort v2_lastError v2_base "\<lambda>b. v2_base_update (\<lambda>_. b)"
  w2_waitUntilListening w2_startThread
  unfolding w2_latch_is_v2 w2_waitUntilListening_def w2_startThread_def
  by (rule v2_start.latched_server_axioms)

text \<open>The configured files stay what the constructor was given.\<close>

definition w2_files :: "https_server_v2 \<Rightarrow> string \<times> string \<times> string" where
  "w2_files s = (w2_certificateFile s, w2_privateKeyFile s, w2_verifyFile s)"

lemma w2_updates_files [simp]:
  "w2_files (v2_resolveStartIfPending b p e s) = w2_files s"
  "w2_files (v2_resetStartState s) = w2_files s" "w2_files (v2_setLastError e s) = w2_files s"
  "w2_files (asio_post io t s) = w2_files s" "w2_files (asio_stop io s) = w2_files s"
  by (simp_all add: w2_files_def v2_resolveStartIfPending_def v2_resetStartState_def v2_setLastError_def
      asio_post_def asio_stop_def)

lemma w2_requestStop_files [simp]: "w2_files (v2_requestStop proto s) = w2_files s"
proof -
  have "w2_files (u\<lparr>v2_base := b\<rparr>) = w2_files u" for u b by (simp add: w2_files_def)
  then show ?thesis
    by (auto simp: v2_requestStop_def v2_stopTriggered_def split: prod.splits option.splits)
qed

lemma w2_preRun_files: "w2_files (snd (w2_preRun thrown s)) = w2_files s"
  by (auto simp: w2_preRun_def v2_preRun_def Let_def split: option.splits cpp_exn.splits)
    (simp add: w2_files_def)

end
