(* ===== verification/SimpleContainerThreads.thy ===== *)
theory SimpleContainerThreads
  imports SimpleContainer
begin

text \<open>
  Any number of threads on one \<open>simple_container_V2\<close> (\<open>simple_container_V2.h\<close>): its critical sections,
  the notifications sent after them, and the threads that wait in the timed \<open>grab\<close>. A waiting thread
  is known by the number of items it asked for. It is asleep in \<open>wait_for\<close>, or woken and about to take
  the lock and test the predicate again; a woken thread carries whether its timeout has passed.
  \<open>sct_notify\<close> counts the threads that have left the critical section of an \<open>insert\<close> and have not yet
  called \<open>notify_one\<close>. The steps are labelled with what the properties restrict.
\<close>

section \<open>State and steps\<close>

record 'a sct =
  sct_obj :: "'a simple_container"
  sct_asleep :: "nat multiset"
  sct_woken :: "(nat \<times> bool) multiset"
  sct_notify :: nat
  sct_in :: "'a multiset"
  sct_out :: "'a multiset"
  sct_gone :: "'a multiset"

definition sct_init :: "'a sct" where
  "sct_init = \<lparr>sct_obj = sc_new, sct_asleep = {#}, sct_woken = {#}, sct_notify = 0,
               sct_in = {#}, sct_out = {#}, sct_gone = {#}\<rparr>"

text \<open>\<open>notify_one\<close> wakes one of the sleepers, whichever the system picks (here: one that asked for
  \<open>limit\<close> items); with none asleep it does nothing. \<open>notify_all\<close> wakes all.\<close>

definition sct_wake :: "nat \<Rightarrow> bool \<Rightarrow> 'a sct \<Rightarrow> 'a sct" where
  "sct_wake limit late s =
     s\<lparr>sct_asleep := sct_asleep s - {#limit#}, sct_woken := add_mset (limit, late) (sct_woken s)\<rparr>"

definition sc_notify_one :: "nat \<Rightarrow> 'a sct \<Rightarrow> 'a sct" where
  "sc_notify_one limit s = (if sct_asleep s = {#} then s else sct_wake limit False s)"

definition sc_notify_all :: "'a sct \<Rightarrow> 'a sct" where
  "sc_notify_all s =
     s\<lparr>sct_asleep := {#}, sct_woken := sct_woken s + image_mset (\<lambda>limit. (limit, False)) (sct_asleep s)\<rparr>"

text \<open>The wait of the timed \<open>grab\<close>, from where the lock is held: the predicate, and what follows it.
  \<open>late\<close> says that the timeout has passed.\<close>

definition sct_test :: "nat \<Rightarrow> bool \<Rightarrow> 'a sct \<Rightarrow> 'a sct" where
  "sct_test limit late s =
     (if m_items (sct_obj s) \<noteq> [] then
        (case grabItemsUnlocked limit (sct_obj s) of
           (r, c) \<Rightarrow> s\<lparr>sct_obj := c, sct_out := sct_out s + mset r\<rparr>)
      else if late then s
      else s\<lparr>sct_asleep := add_mset limit (sct_asleep s)\<rparr>)"

datatype sct_label = Lab_insert nat | Lab_wait nat | Lab_other

inductive sct_step :: "'a sct \<Rightarrow> sct_label \<Rightarrow> 'a sct \<Rightarrow> bool" where
  sct_insert: "sct_step s (Lab_insert 1)
     (s\<lparr>sct_obj := snd (sc_insert x b (sct_obj s)), sct_notify := Suc (sct_notify s),
        sct_in := add_mset x (sct_in s)\<rparr>)"
| sct_insert_many: "xs \<noteq> [] \<Longrightarrow> sct_step s (Lab_insert (length xs))
     (s\<lparr>sct_obj := snd (sc_insert_copy xs b (sct_obj s)), sct_notify := Suc (sct_notify s),
        sct_in := sct_in s + mset xs\<rparr>)"
| sct_notified: "sct_notify s = Suc n \<Longrightarrow> sct_asleep s = {#} \<or> limit \<in># sct_asleep s \<Longrightarrow>
     sct_step s Lab_other (sc_notify_one limit (s\<lparr>sct_notify := n\<rparr>))"
| sct_call_notify_one: "sct_asleep s = {#} \<or> limit \<in># sct_asleep s \<Longrightarrow>
     sct_step s Lab_other (sc_notify_one limit s)"
| sct_call_notify_all: "sct_step s Lab_other (sc_notify_all s)"
| sct_begin: "sct_step s (Lab_wait limit) (sct_test limit False s)"
| sct_timeout_or_spurious: "limit \<in># sct_asleep s \<Longrightarrow> sct_step s Lab_other (sct_wake limit late s)"
| sct_retest: "(limit, late) \<in># sct_woken s \<Longrightarrow>
     sct_step s Lab_other (sct_test limit late (s\<lparr>sct_woken := sct_woken s - {#(limit, late)#}\<rparr>))"
| sct_grab: "sc_grab limit (sct_obj s) = (r, c) \<Longrightarrow>
     sct_step s Lab_other (s\<lparr>sct_obj := c, sct_out := sct_out s + mset r\<rparr>)"
| sct_grab_select: "sc_grab_select limit fn offset (sct_obj s) (st :: nat) = (Inr r, c, st') \<Longrightarrow>
     sct_step s Lab_other (s\<lparr>sct_obj := c, sct_out := sct_out s + mset r\<rparr>)"
| sct_grab_throws: "sc_grab_select limit fn offset (sct_obj s) (st :: nat) = (Inl e, c, st') \<Longrightarrow>
     sct_step s Lab_other
       (s\<lparr>sct_obj := c, sct_gone := sct_gone s + (mset (m_items (sct_obj s)) - mset (m_items c))\<rparr>)"
| sct_clear: "sct_step s Lab_other
     (s\<lparr>sct_obj := sc_clear (sct_obj s), sct_gone := sct_gone s + mset (m_items (sct_obj s))\<rparr>)"

inductive sct_reachable :: "(sct_label \<Rightarrow> bool) \<Rightarrow> 'a sct \<Rightarrow> bool" for ok where
  sct_start: "sct_reachable ok sct_init"
| sct_next: "sct_reachable ok s \<Longrightarrow> sct_step s l t \<Longrightarrow> ok l \<Longrightarrow> sct_reachable ok t"

text \<open>The wait of one thread, its interruptions applied one after another, is the timed \<open>grab\<close>.\<close>

lemma sct_test_is_timed_grab:
  "m_items c \<noteq> [] \<Longrightarrow> sc_grab_timed limit c wakes = Some (grabItemsUnlocked limit c)"
  "m_items c = [] \<Longrightarrow> sc_grab_timed limit c (Notified f # wakes) = sc_grab_timed limit (f c) wakes"
  "m_items c = [] \<Longrightarrow> sc_grab_timed limit c (TimedOut f # wakes) =
     Some (if m_items (f c) \<noteq> [] then grabItemsUnlocked limit (f c) else ([], f c))"
  by (simp_all add: sc_grab_timed_def)

section \<open>Conservation\<close>

definition sct_conserved :: "'a sct \<Rightarrow> bool" where
  "sct_conserved s \<longleftrightarrow> sct_in s = sct_out s + sct_gone s + mset (m_items (sct_obj s))"

lemma mset_take_drop [simp]: "mset (take n xs) + mset (drop n xs) = mset xs"
  by (simp flip: mset_append)

lemma sct_test_conserved: "sct_conserved s \<Longrightarrow> sct_conserved (sct_test limit late s)"
  using mset_take_drop [of "min limit (length (m_items (sct_obj s)))" "m_items (sct_obj s)"]
  by (auto simp: sct_conserved_def sct_test_def grabItemsUnlocked_def Let_def ac_simps simp del: mset_take_drop)

lemma sc_notify_same [simp]:
  "sct_obj (sc_notify_one limit s) = sct_obj s" "sct_in (sc_notify_one limit s) = sct_in s"
  "sct_out (sc_notify_one limit s) = sct_out s" "sct_gone (sc_notify_one limit s) = sct_gone s"
  by (simp_all add: sc_notify_one_def sct_wake_def)

lemma sct_select_conserves:
  "sc_conserved (mset (m_items c)) (sc_grab_select limit fn offset c st)"
proof (cases "fn = None \<or> limit = 0")
  case True
  then show ?thesis by (auto simp: sc_grab_select_def sc_conserved_def split: option.splits)
next
  case False
  then obtain f where "fn = Some f" "limit \<noteq> 0" by auto
  then show ?thesis
    using sc_select_loop_conserves [of "[]" "take offset (m_items c)" "drop offset (m_items c)" f limit st]
    by (simp add: sc_grab_select_def advanceIteratorUnlocked_def Let_def)
qed

lemma sct_step_conserved: "sct_step s l t \<Longrightarrow> sct_conserved s \<Longrightarrow> sct_conserved t"
proof (induction rule: sct_step.induct)
  case (sct_retest limit late s)
  then show ?case by (intro sct_test_conserved) (simp add: sct_conserved_def)
next
  case (sct_begin s limit)
  then show ?case by (rule sct_test_conserved)
next
  case (sct_grab limit s r c)
  then show ?case
    using mset_take_drop [of "min limit (length (m_items (sct_obj s)))" "m_items (sct_obj s)"]
    by (auto simp: sct_conserved_def sc_grab_def grabItemsUnlocked_def Let_def ac_simps simp del: mset_take_drop)
next
  case (sct_grab_select limit fn offset s st r c st')
  then show ?case
    using sct_select_conserves [of "sct_obj s" limit fn offset st]
    by (simp add: sct_conserved_def sc_conserved_def ac_simps)
next
  case (sct_grab_throws limit fn offset s st e c st')
  then have "mset (m_items c) \<subseteq># mset (m_items (sct_obj s))"
    using sct_select_conserves [of "sct_obj s" limit fn offset st] by (simp add: sc_conserved_def)
  then obtain K where "mset (m_items (sct_obj s)) = mset (m_items c) + K"
    by (auto simp: mset_subset_eq_exists_conv)
  with sct_grab_throws.prems show ?case by (simp add: sct_conserved_def ac_simps)
qed (auto simp: sct_conserved_def sc_insert_def insertItemUnlocked_def sc_insert_copy_def
    insertManyUnlocked_def sc_notify_all_def sct_wake_def sc_clear_def)

section \<open>Wake-ups\<close>

text \<open>As many wake-ups are under way as there are items: notifications to be sent, and threads woken.\<close>

definition sct_awake :: "'a sct \<Rightarrow> bool" where
  "sct_awake s \<longleftrightarrow>
     sct_asleep s \<noteq> {#} \<longrightarrow> length (m_items (sct_obj s)) \<le> sct_notify s + size (sct_woken s)"

definition sct_positive :: "'a sct \<Rightarrow> bool" where
  "sct_positive s \<longleftrightarrow> 0 \<notin># sct_asleep s \<and> (0, False) \<notin># sct_woken s \<and> (0, True) \<notin># sct_woken s"

fun sct_single :: "sct_label \<Rightarrow> bool" where
  "sct_single (Lab_insert n) = (n = 1)"
| "sct_single (Lab_wait limit) = (0 < limit)"
| "sct_single Lab_other = True"

lemma sct_select_shrinks:
  "sc_grab_select limit fn offset c st = (r, c', st') \<Longrightarrow> length (m_items c') \<le> length (m_items c)"
  using sct_select_conserves [of c limit fn offset st]
  by (cases r) (auto simp: sc_conserved_def dest: size_mset_mono arg_cong [of _ _ size])

lemma sct_test_awake:
  assumes "0 < limit" and "length (m_items (sct_obj s)) \<le> Suc (sct_notify s + size (sct_woken s))
      \<or> sct_asleep s = {#}"
  shows "sct_awake (sct_test limit late s)"
  using assms by (auto simp: sct_awake_def sct_test_def grabItemsUnlocked_def Let_def)

lemma sct_step_positive: "sct_step s l t \<Longrightarrow> sct_single l \<Longrightarrow> sct_positive s \<Longrightarrow> sct_positive t"
  by (induction rule: sct_step.induct)
     (auto simp: sct_positive_def sct_test_def sc_notify_one_def sc_notify_all_def sct_wake_def
       split: prod.splits dest: in_diffD intro!: gr0I)

lemma sct_step_awake:
  "sct_step s l t \<Longrightarrow> sct_single l \<Longrightarrow> sct_positive s \<Longrightarrow> sct_awake s \<Longrightarrow> sct_awake t"
proof (induction rule: sct_step.induct)
  case (sct_begin s limit)
  then show ?case by (intro sct_test_awake) (auto simp: sct_awake_def)
next
  case (sct_retest limit late s)
  then have "0 < limit" by (cases late) (auto simp: sct_positive_def intro: gr0I)
  moreover have "size (sct_woken s) = Suc (size (sct_woken s - {#(limit, late)#}))"
    using sct_retest.hyps by (simp add: size_Suc_Diff1)
  ultimately show ?case
    using sct_retest.prems by (intro sct_test_awake) (auto simp: sct_awake_def)
next
  case (sct_grab_select limit fn offset s st r c st')
  then show ?case using sct_select_shrinks [OF sct_grab_select.hyps] by (auto simp: sct_awake_def)
next
  case (sct_grab_throws limit fn offset s st e c st')
  then show ?case using sct_select_shrinks [OF sct_grab_throws.hyps] by (auto simp: sct_awake_def)
qed (auto simp: sct_awake_def sc_insert_def insertItemUnlocked_def sc_insert_copy_def insertManyUnlocked_def
    sc_notify_one_def sc_notify_all_def sct_wake_def sc_clear_def sc_grab_def grabItemsUnlocked_def Let_def)

lemma sct_reachable_inv:
  "sct_reachable sct_single s \<Longrightarrow> sct_positive s \<and> sct_awake s"
proof (induction rule: sct_reachable.induct)
  case sct_start
  show ?case by (simp add: sct_init_def sct_positive_def sct_awake_def)
next
  case (sct_next s l t)
  then show ?case using sct_step_positive sct_step_awake by blast
qed

lemma sct_reachable_conserved: "sct_reachable ok s \<Longrightarrow> sct_conserved s"
proof (induction rule: sct_reachable.induct)
  case sct_start
  show ?case by (simp add: sct_init_def sct_conserved_def sc_new_def)
next
  case (sct_next s l t)
  then show ?case using sct_step_conserved by blast
qed

section \<open>Properties\<close>

text \<open>C10: With items inserted one at a time, no thread sleeps in the timed \<open>grab\<close> past an item: in every
  interleaving, while a thread that asked for at least one item is asleep, there are at least as many
  wake-ups under way (\<open>notify_one\<close> calls still to be made, and threads woken) as there are items in the
  container. So once nothing is under way, a sleeper means an empty container. And every item inserted
  is in the container, was returned by a \<open>grab\<close>, or was cleared or lost to a throwing selection.\<close>

theorem sct_no_lost_wakeup:
  assumes "sct_reachable sct_single s" and "sct_asleep s \<noteq> {#}"
  shows "sc_size (sct_obj s) \<le> sct_notify s + size (sct_woken s)
    \<and> sct_in s = sct_out s + sct_gone s + mset (m_items (sct_obj s))"
  using sct_reachable_inv [OF assms(1)] sct_reachable_conserved [OF assms(1)] assms(2)
  by (simp add: sct_awake_def sct_conserved_def sc_size_def)

theorem sct_no_lost_wakeup_witness:
  "\<exists>s :: nat sct. sct_reachable sct_single s \<and> sct_asleep s = {#1#} \<and> m_items (sct_obj s) = [7]
     \<and> sc_size (sct_obj s) \<le> sct_notify s + size (sct_woken s)"
proof -
  let ?s1 = "sct_test 1 False (sct_init :: nat sct)"
  let ?s2 = "?s1\<lparr>sct_obj := snd (sc_insert 7 True (sct_obj ?s1)), sct_notify := Suc (sct_notify ?s1),
                 sct_in := add_mset 7 (sct_in ?s1)\<rparr>"
  have "sct_reachable sct_single ?s1"
    by (rule sct_next [OF sct_start sct_begin]) simp
  then have r: "sct_reachable sct_single ?s2"
    by (rule sct_next [OF _ sct_insert]) simp
  have f: "sct_asleep ?s2 = {#1#}" "m_items (sct_obj ?s2) = [7]"
    by (simp_all add: sct_test_def sct_init_def sc_new_def sc_insert_def insertItemUnlocked_def)
  show ?thesis
    using sct_no_lost_wakeup [OF r] r f by (intro exI [of _ ?s2]) simp
qed

text \<open>C11: A batch of items is announced once: two threads wait for one item each, a batch of two or more is
  inserted, one thread is woken and takes the first item, and the other sleeps on, with the rest of the
  batch in the container, no notification to come and no thread woken, until its timeout.\<close>

theorem sct_batch_strands_waiter:
  fixes x y :: 'a
  shows "\<exists>s. sct_reachable (\<lambda>l. l \<noteq> Lab_wait 0) s \<and> sct_asleep s = {#1#} \<and> m_items (sct_obj s) = y # ys
     \<and> sct_out s = {#x#} \<and> sct_notify s = 0 \<and> sct_woken s = {#}"
proof -
  let ?ok = "\<lambda>l. l \<noteq> Lab_wait 0"
  let ?s1 = "sct_test 1 False (sct_test 1 False sct_init) :: 'a sct"
  let ?s2 = "?s1\<lparr>sct_obj := snd (sc_insert_copy (x # y # ys) True (sct_obj ?s1)),
                 sct_notify := Suc (sct_notify ?s1), sct_in := sct_in ?s1 + mset (x # y # ys)\<rparr>"
  let ?s3 = "sc_notify_one 1 (?s2\<lparr>sct_notify := 0\<rparr>)"
  let ?s4 = "sct_test 1 False (?s3\<lparr>sct_woken := sct_woken ?s3 - {#(1, False)#}\<rparr>)"
  note unf = sct_test_def sct_init_def sc_new_def sc_insert_copy_def insertManyUnlocked_def
    sc_notify_one_def sct_wake_def grabItemsUnlocked_def
  have "sct_reachable ?ok (sct_test 1 False sct_init :: 'a sct)"
    by (rule sct_next [OF sct_start sct_begin]) simp
  then have "sct_reachable ?ok ?s1"
    by (rule sct_next [OF _ sct_begin]) simp
  then have "sct_reachable ?ok ?s2"
    by (rule sct_next [OF _ sct_insert_many]) simp_all
  then have "sct_reachable ?ok ?s3"
    by (rule sct_next [OF _ sct_notified]) (simp_all add: unf)
  then have r: "sct_reachable ?ok ?s4"
    by (rule sct_next [OF _ sct_retest]) (simp_all add: unf)
  then show ?thesis
    by (intro exI [of _ ?s4]) (simp add: unf)
qed

end
