(* ===== verification/ContainerTests.thy ===== *)
theory ContainerTests
  imports SimpleContainer
begin

text \<open>
  The repository's own tests of \<open>simple_container_V2\<close>, \<open>examples/cTestSimpleContainer_V2.cpp\<close>, run on the
  model: a definition per \<open>TEST_CASE\<close>, with the list of what its \<open>REQUIRE\<close>s evaluate to, in order. The
  deque, the list and the vector of the tests are the one sequence of the model, so a check made for
  each of them is made once for each here too. A timed \<open>grab\<close> takes what happens while it sleeps; the
  clock is not modelled, so the check of the elapsed time is left out; the checks of a result's size and
  elements are one where the result can also be an exception.
\<close>

definition single_insert_and_grab :: "bool list" where
  "single_insert_and_grab =
     (let items = snd (sc_insert (2 :: int) True (snd (sc_insert 1 True sc_new)));
          (grab, rest) = sc_grab 10 items in
      replicate 3 (sc_size items = 2) @ replicate 3 (sc_empty rest) @ replicate 3 (length grab = 2)
      @ concat (replicate 3 [grab ! 0 = 1, grab ! 1 = 2]))"

text \<open>An \<open>int\<close> that is moved from keeps its value.\<close>

definition batch_insert :: "bool list" where
  "batch_insert =
     (let (_, moved, items) = sc_insert_move id [1, 2, 3 :: int] True sc_new;
          copied = [4, 5];
          (_, items') = sc_insert_copy copied True items;
          (all, _) = sc_grab 10 items' in
      [moved = [], sc_size items = 3, length copied = 2, sc_size items' = 5, length all = 5,
       all ! 0 = 1, all ! 1 = 2, all ! 2 = 3, all ! 3 = 4, all ! 4 = 5])"

definition timed_grab_returns_empty :: "bool option" where
  "timed_grab_returns_empty =
     map_option (\<lambda>(result, _). result = []) (sc_grab_timed 1 (sc_new :: int simple_container) [TimedOut id])"

text \<open>The producer inserts before the wait begins, or during it.\<close>

definition timed_grab_unblocks :: "bool \<Rightarrow> bool list option" where
  "timed_grab_unblocks early =
     (let produce = (\<lambda>items. snd (sc_insert (99 :: int) True items)) in
      map_option (\<lambda>(result, items). [length result = 1, hd result = 99, sc_empty items])
        (if early then sc_grab_timed 1 (produce sc_new) []
         else sc_grab_timed 1 sc_new [Notified produce]))"

definition snapshot_supports_offsets :: "bool list" where
  "snapshot_supports_offsets =
     (let items = fold (\<lambda>x c. snd (sc_insert x True c)) [''alpha'', ''beta'', ''gamma''] sc_new;
          snapshot = sc_snapshot 2 1 items in
      [sc_size items = 3, length snapshot = 2, snapshot ! 0 = ''beta'', snapshot ! 1 = ''gamma''])"

definition grab_honors_stop_and_requeue :: "bool list" where
  "grab_honors_stop_and_requeue =
     (let (_, _, items) = sc_insert_move id [1, 2, 3, 4 :: int] True sc_new;
          (result, items', _) = sc_grab_select 10
            (Some (sc_pure (\<lambda>value. if value \<le> 2 then Sel_grab else if value = 3 then Sel_stop_and_requeue
                                    else Sel_skip))) 0 items ();
          reordered = sc_snapshot size_max 0 items' in
      [result = Inr [], sc_size items' = 4, length reordered = 4,
       reordered ! 0 = 3, reordered ! 1 = 4, reordered ! 2 = 1, reordered ! 3 = 2])"

definition grab_supports_stop_and_offset :: "bool list" where
  "grab_supports_stop_and_offset =
     (let items = fold (\<lambda>x c. snd (sc_insert x True c)) [1, 2, 3, 4, 5 :: int] sc_new;
          (result, items', _) = sc_grab_select 10
            (Some (sc_pure (\<lambda>value. if value mod 2 = 0 then Sel_grab else if value = 5 then Sel_stop
                                    else Sel_skip))) 1 items ();
          (remaining, _) = sc_grab 10 items' in
      [result = Inr [2, 4], length remaining = 3, remaining ! 0 = 1, remaining ! 1 = 3, remaining ! 2 = 5])"

lemma requeue_grab:
  "sc_grab_select 10 (Some (sc_pure (\<lambda>value. if value \<le> 2 then Sel_grab
     else if value = 3 then Sel_stop_and_requeue else Sel_skip))) 0 \<lparr>m_items = [1, 2, 3, 4 :: int]\<rparr> ()
   = (Inr [], \<lparr>m_items = [3, 4, 1, 2]\<rparr>, ())"
  by (simp add: sc_defs sc_pure_def)

lemma sc_snapshot_all: "length (m_items c) \<le> limit \<Longrightarrow> sc_snapshot limit 0 c = m_items c"
  by (simp add: sc_snapshot_def advanceIteratorUnlocked_def sc_snapshot_loop_take)

text \<open>Every check of the test file holds of the model, with one exception: a container that was moved into
  the batch \<open>insert\<close> is not empty afterwards, because its elements are moved one by one.\<close>

theorem container_tests:
  "single_insert_and_grab = replicate 15 True
   \<and> batch_insert = False # replicate 9 True
   \<and> timed_grab_returns_empty = Some True
   \<and> timed_grab_unblocks early = Some (replicate 3 True)
   \<and> snapshot_supports_offsets = replicate 4 True
   \<and> grab_honors_stop_and_requeue = replicate 7 True
   \<and> grab_supports_stop_and_offset = replicate 5 True"
proof (intro conjI)
  show "single_insert_and_grab = replicate 15 True" by code_simp
  show "batch_insert = False # replicate 9 True" by code_simp
  show "timed_grab_returns_empty = Some True" by code_simp
  show "timed_grab_unblocks early = Some (replicate 3 True)" 
    by (cases early) (simp_all add: timed_grab_unblocks_def sc_defs Let_def numeral_3_eq_3)
  show "snapshot_supports_offsets = replicate 4 True" by code_simp
  show "grab_honors_stop_and_requeue = replicate 7 True"
  proof -
    have seven: "replicate 7 True = [True, True, True, True, True, True, True]" by code_simp
    have snap: "sc_snapshot size_max 0 \<lparr>m_items = [3, 4, 1, 2 :: int]\<rparr> = [3, 4, 1, 2]"
      by (simp add: sc_snapshot_all size_max_def)
    show ?thesis unfolding seven
      by (simp add: grab_honors_stop_and_requeue_def sc_insert_move_def insertManyUnlocked_move_def sc_new_def
          requeue_grab snap sc_size_def nth_Cons')
  qed
  show "grab_supports_stop_and_offset = replicate 5 True" by code_simp
qed

end
