(* ===== verification/GrpcWorker.thy ===== *)
theory GrpcWorker
  imports BaseWorker
begin

text \<open>
  \<open>cGenericGrpcWorker\<close> (\<open>cGenericGrpcWorker.h\<close>) and its specialisation \<open>cGrpcServerWorker\<close>
  (\<open>cGrpcServerWorker.h\<close>): a worker thread that polls a gRPC completion queue, with one heap object
  (\<open>CallData\<close>) per accepted call. Heap objects are numbered in the order they are made, and the number
  is the tag; using one that is not alive is the outcome \<open>Undefined\<close>. gRPC is a parameter: what the
  builder returns, and the list of what \<open>AsyncNext\<close> returns, each entry with what happens beside it.
  \<open>cq_lawful\<close> states what gRPC documents of a completion queue: an event belongs to an operation that was
  submitted and has had no event, and the queue reports its shutdown only once it was shut down and
  every operation has had its event.
\<close>

section \<open>State\<close>

datatype enm_RpcStatus = CREATE | PROCESS | FINISH

text \<open>A \<open>grpc::Status\<close> is a code and a message.\<close>

datatype grpc_status = GStatus nat string

definition grpc_OK :: grpc_status where "grpc_OK = GStatus 0 []"
definition grpc_INTERNAL :: nat where "grpc_INTERNAL = 13"

text \<open>\<open>m_cq\<close> and \<open>m_server\<close>: null, or whether \<open>Shutdown()\<close> was called on it. \<open>gw_pending\<close> are the tags of
  the operations that gRPC has not yet answered; \<open>gw_finished\<close> and \<open>gw_deleted\<close> record, in order, the
  calls of \<open>Finish\<close> and of \<open>delete\<close>.\<close>

record 'r grpc_worker =
  gw_base :: base_worker
  gw_serverAddress :: string
  gw_lastError :: string
  gw_boundPort :: int
  gw_cq :: "bool option"
  gw_server :: "bool option"
  gw_calls :: "nat \<Rightarrow> enm_RpcStatus option"
  gw_next :: nat
  gw_pending :: "nat list"
  gw_finished :: "(nat \<times> grpc_status \<times> 'r) list"
  gw_deleted :: "nat list"

definition gw_new :: "string \<Rightarrow> string \<Rightarrow> int \<Rightarrow> 'r grpc_worker" where
  "gw_new name server_address now =
     \<lparr>gw_base = bw_new name now, gw_serverAddress = server_address, gw_lastError = [], gw_boundPort = 0,
      gw_cq = None, gw_server = None, gw_calls = (\<lambda>_. None), gw_next = 0, gw_pending = [],
      gw_finished = [], gw_deleted = []\<rparr>"

definition serverAddress :: "'r grpc_worker \<Rightarrow> string" where
  "serverAddress s = gw_serverAddress s"

definition boundPort :: "'r grpc_worker \<Rightarrow> int" where
  "boundPort s = gw_boundPort s"

definition gw_getLastError :: "'r grpc_worker \<Rightarrow> string" where
  "gw_getLastError s = gw_lastError s"

section \<open>Preparation\<close>

text \<open>What the builder does: an exception before the queue is made, or the queue and then an exception, a
  null server, or a server with the port it selected.\<close>

datatype grpc_build =
    Build_throws cpp_exn
  | Build_cq_throws cpp_exn
  | Build_null
  | Build_server int

definition gw_startup_failed :: "cpp_exn \<Rightarrow> string" where
  "gw_startup_failed e =
     (case e of StdException what \<Rightarrow> ''gRPC server startup failed: '' @ what
      | OtherException \<Rightarrow> ''gRPC server startup failed: unknown exception'')"

definition gw_preRun :: "grpc_build \<Rightarrow> 'r grpc_worker \<Rightarrow> bool \<times> 'r grpc_worker" where
  "gw_preRun b s =
     (case b of
        Build_throws e \<Rightarrow> (False, s\<lparr>gw_lastError := gw_startup_failed e\<rparr>)
      | Build_cq_throws e \<Rightarrow> (False, s\<lparr>gw_cq := Some False, gw_lastError := gw_startup_failed e\<rparr>)
      | Build_null \<Rightarrow>
          (False, s\<lparr>gw_cq := Some False, gw_server := None,
                    gw_lastError := ''BuildAndStart() returned a null server''\<rparr>)
      | Build_server selectedPort \<Rightarrow>
          (True, s\<lparr>gw_cq := Some False, gw_server := Some False, gw_boundPort := selectedPort,
                   gw_lastError := []\<rparr>))"

section \<open>Calls\<close>

text \<open>\<open>Proceed\<close> in the state \<open>CREATE\<close>: arm the listener.\<close>

definition cd_arm :: "nat \<Rightarrow> 'r grpc_worker \<Rightarrow> 'r grpc_worker" where
  "cd_arm this s =
     s\<lparr>gw_calls := (gw_calls s)(this \<mapsto> PROCESS), gw_pending := gw_pending s @ [this]\<rparr>"

definition cd_new :: "'r grpc_worker \<Rightarrow> 'r grpc_worker" where
  "cd_new s =
     (let this = gw_next s in
      cd_arm this (s\<lparr>gw_next := Suc this, gw_calls := (gw_calls s)(this \<mapsto> CREATE)\<rparr>))"

definition cd_delete :: "nat \<Rightarrow> 'r grpc_worker \<Rightarrow> 'r grpc_worker" where
  "cd_delete this s =
     s\<lparr>gw_calls := (gw_calls s)(this := None), gw_deleted := gw_deleted s @ [this]\<rparr>"

text \<open>What the business logic does with a request: how it ends, and the reply it leaves.\<close>

definition cd_status :: "cpp_exn + grpc_status \<Rightarrow> grpc_status" where
  "cd_status outcome =
     (case outcome of
        Inr status \<Rightarrow> status
      | Inl (StdException what) \<Rightarrow>
          GStatus grpc_INTERNAL (''Unhandled exception in OnExecuteRpc: '' @ what)
      | Inl OtherException \<Rightarrow> GStatus grpc_INTERNAL ''Unhandled exception in OnExecuteRpc'')"

definition cd_Proceed ::
  "nat \<Rightarrow> (cpp_exn + grpc_status) \<times> 'r \<Rightarrow> 'r grpc_worker \<Rightarrow> 'r grpc_worker option" where
  "cd_Proceed this rpc s =
     (case gw_calls s this of
        None \<Rightarrow> None
      | Some CREATE \<Rightarrow> Some (cd_arm this s)
      | Some PROCESS \<Rightarrow>
          let s1 = (if continueRunning (gw_base s) then cd_new s else s);
              status = cd_status (fst rpc)
          in Some (s1\<lparr>gw_calls := (gw_calls s1)(this \<mapsto> FINISH),
                      gw_finished := gw_finished s1 @ [(this, status, snd rpc)],
                      gw_pending := gw_pending s1 @ [this]\<rparr>)
      | Some FINISH \<Rightarrow> Some (cd_delete this s))"

section \<open>Stopping\<close>

definition gw_stopTriggered :: "'r grpc_worker \<Rightarrow> 'r grpc_worker" where
  "gw_stopTriggered s =
     (let s1 = (if gw_server s \<noteq> None then s\<lparr>gw_server := Some True\<rparr> else s)
      in if gw_cq s1 \<noteq> None then s1\<lparr>gw_cq := Some True\<rparr> else s1)"

definition gw_requestStop :: "'r grpc_worker \<Rightarrow> 'r grpc_worker" where
  "gw_requestStop s =
     (case requestStop (gw_base s) of
        (shouldTriggerStop, b) \<Rightarrow>
          if shouldTriggerStop then gw_stopTriggered (s\<lparr>gw_base := b\<rparr>) else s\<lparr>gw_base := b\<rparr>)"

section \<open>The loop\<close>

datatype cq_event = TIMEOUT | SHUTDOWN | GOT_EVENT nat bool

text \<open>One round of the loop: whether another thread requests a stop before the event is handled, the
  event, the time, and what the business logic does if it is called.\<close>

record 'r cq_input =
  ci_stop :: bool
  ci_event :: cq_event
  ci_now :: int
  ci_rpc :: "(cpp_exn + grpc_status) \<times> 'r"

datatype 's loop_outcome = Undefined | Polling 's | Left_loop 's

definition gw_updateHeartbeat :: "int \<Rightarrow> 'r grpc_worker \<Rightarrow> 'r grpc_worker" where
  "gw_updateHeartbeat now s = s\<lparr>gw_base := updateHeartbeat 1000000 now (gw_base s)\<rparr>"

definition cq_before :: "'r cq_input \<Rightarrow> 'r grpc_worker \<Rightarrow> 'r grpc_worker" where
  "cq_before i s = (if ci_stop i then gw_requestStop s else s)"

definition gw_round :: "'r cq_input \<Rightarrow> 'r grpc_worker \<Rightarrow> 'r grpc_worker loop_outcome" where
  "gw_round i s =
     (let s0 = gw_updateHeartbeat (ci_now i) (cq_before i s) in
      case ci_event i of
        TIMEOUT \<Rightarrow> Polling s0
      | SHUTDOWN \<Rightarrow> Left_loop s0
      | GOT_EVENT call ok \<Rightarrow>
          let s1 = s0\<lparr>gw_pending := remove1 call (gw_pending s0)\<rparr> in
          if \<not> ok then (if gw_calls s1 call = None then Undefined else Polling (cd_delete call s1))
          else (case cd_Proceed call (ci_rpc i) s1 of None \<Rightarrow> Undefined | Some s2 \<Rightarrow> Polling s2))"

fun gw_loop :: "'r cq_input list \<Rightarrow> 'r grpc_worker \<Rightarrow> 'r grpc_worker loop_outcome" where
  "gw_loop [] s = Polling s"
| "gw_loop (i # is) s =
     (case gw_round i s of Undefined \<Rightarrow> Undefined | Polling s' \<Rightarrow> gw_loop is s' | Left_loop s' \<Rightarrow> Left_loop s')"

definition gw_run :: "'r cq_input list \<Rightarrow> 'r grpc_worker \<Rightarrow> 'r grpc_worker loop_outcome" where
  "gw_run inputs s = (if gw_cq s = None then Undefined else gw_loop inputs (cd_new s))"

text \<open>What gRPC documents.\<close>

fun cq_lawful :: "'r cq_input list \<Rightarrow> 'r grpc_worker \<Rightarrow> bool" where
  "cq_lawful [] s \<longleftrightarrow> True"
| "cq_lawful (i # is) s \<longleftrightarrow>
     (case ci_event i of
        TIMEOUT \<Rightarrow> True
      | SHUTDOWN \<Rightarrow> gw_pending (cq_before i s) = [] \<and> gw_cq (cq_before i s) = Some True
      | GOT_EVENT call ok \<Rightarrow> call \<in> set (gw_pending (cq_before i s)))
     \<and> (case gw_round i s of Polling s' \<Rightarrow> cq_lawful is s' | _ \<Rightarrow> True)"

section \<open>The analytics service\<close>

record MetricRequest =
  device_id :: string
  reading_value :: string
  timestamp :: string

record MetricResponse =
  mr_success :: bool
  mr_message :: string

text \<open>\<open>OnExecuteRpc\<close>: what is printed (the numbers as \<open>operator<<\<close> shows them), the reply and the status.\<close>

definition OnExecuteRpc :: "string \<Rightarrow> MetricRequest \<Rightarrow> string \<times> MetricResponse \<times> grpc_status" where
  "OnExecuteRpc worker_name request =
     (''['' @ worker_name @ ''] Processing metric from device: '' @ device_id request
        @ '' | reading: '' @ reading_value request @ '' | timestamp: '' @ timestamp request @ [CHR 0x0A],
      \<lparr>mr_success = True, mr_message = ''Metric written safely via Worker loop.''\<rparr>,
      grpc_OK)"

lemmas gw_defs =
  cd_arm_def cd_new_def cd_delete_def cd_Proceed_def gw_updateHeartbeat_def

end
