(* ===== verification/GrpcWorkerProofs.thy ===== *)
theory GrpcWorkerProofs
  imports GrpcWorker
begin

text \<open>
  The gRPC worker against a lawful completion queue: ownership of the \<open>CallData\<close> objects, one answer per
  call, the listener, and the drain after a stop.
\<close>

section \<open>The ownership invariant\<close>

text \<open>Every object ever made is alive or was deleted, once; the live ones are exactly those with an
  operation under way, in \<open>PROCESS\<close> before their answer and in \<open>FINISH\<close> after it.\<close>

definition gw_inv :: "'r grpc_worker \<Rightarrow> bool" where
  "gw_inv s \<longleftrightarrow>
     distinct (gw_pending s) \<and> set (gw_pending s) = dom (gw_calls s)
     \<and> dom (gw_calls s) \<union> set (gw_deleted s) = {..<gw_next s} \<and> dom (gw_calls s) \<inter> set (gw_deleted s) = {}
     \<and> distinct (gw_deleted s) \<and> distinct (map fst (gw_finished s))
     \<and> (\<forall>c. gw_calls s c \<noteq> Some CREATE)
     \<and> (\<forall>c. gw_calls s c = Some PROCESS \<longrightarrow> c \<notin> fst ` set (gw_finished s))
     \<and> (\<forall>c. gw_calls s c = Some FINISH \<longrightarrow> c \<in> fst ` set (gw_finished s))
     \<and> fst ` set (gw_finished s) \<subseteq> {..<gw_next s}"

text \<open>The parts of the state that the invariant is about.\<close>

lemma gw_inv_cong:
  "gw_pending s = gw_pending t \<Longrightarrow> gw_calls s = gw_calls t \<Longrightarrow> gw_deleted s = gw_deleted t \<Longrightarrow>
   gw_next s = gw_next t \<Longrightarrow> gw_finished s = gw_finished t \<Longrightarrow> gw_inv s = gw_inv t"
  by (simp add: gw_inv_def)

lemma cq_before_heap [simp]:
  "gw_pending (cq_before i s) = gw_pending s" "gw_calls (cq_before i s) = gw_calls s"
  "gw_deleted (cq_before i s) = gw_deleted s" "gw_next (cq_before i s) = gw_next s"
  "gw_finished (cq_before i s) = gw_finished s"
  by (auto simp: cq_before_def gw_requestStop_def gw_stopTriggered_def Let_def split: prod.splits)

lemma gw_heartbeat_heap [simp]:
  "gw_pending (gw_updateHeartbeat now s) = gw_pending s" "gw_calls (gw_updateHeartbeat now s) = gw_calls s"
  "gw_deleted (gw_updateHeartbeat now s) = gw_deleted s" "gw_next (gw_updateHeartbeat now s) = gw_next s"
  "gw_finished (gw_updateHeartbeat now s) = gw_finished s"
  "gw_cq (gw_updateHeartbeat now s) = gw_cq s"
  "continueRunning (gw_base (gw_updateHeartbeat now s)) = continueRunning (gw_base s)"
  by (simp_all add: gw_updateHeartbeat_def updateHeartbeat_def continueRunning_def stopRequested_def)

lemma gw_inv_call_less: "gw_inv s \<Longrightarrow> gw_calls s c = Some st \<Longrightarrow> c < gw_next s"
  unfolding gw_inv_def by (metis UnI1 domI lessThan_iff)

lemma gw_inv_new: "gw_inv s \<Longrightarrow> gw_inv (cd_new s)"
proof -
  assume i: "gw_inv s"
  then have f: "gw_next s \<notin> dom (gw_calls s)" "gw_next s \<notin> set (gw_deleted s)"
    "gw_next s \<notin> fst ` set (gw_finished s)" "{..<Suc (gw_next s)} = insert (gw_next s) {..<gw_next s}"
    unfolding gw_inv_def by (blast, blast, blast, simp add: lessThan_Suc)
  show ?thesis
    using i f
    unfolding gw_inv_def cd_new_def cd_arm_def Let_def
    by (auto simp: less_Suc_eq)
qed

lemma gw_inv_finish:
  assumes "gw_inv s" and "gw_calls s c = Some PROCESS"
  shows "gw_inv (s\<lparr>gw_calls := (gw_calls s)(c \<mapsto> FINISH),
                   gw_finished := gw_finished s @ [(c, st, reply)],
                   gw_pending := remove1 c (gw_pending s) @ [c]\<rparr>)"
proof -
  have "c < gw_next s" by (rule gw_inv_call_less [OF assms])
  then show ?thesis
    using assms unfolding gw_inv_def by (auto simp: domIff)
qed

lemma gw_inv_delete:
  assumes "gw_inv s" and "gw_calls s c = Some st"
  shows "gw_inv (cd_delete c (s\<lparr>gw_pending := remove1 c (gw_pending s)\<rparr>))"
proof -
  have "c < gw_next s" by (rule gw_inv_call_less [OF assms])
  then show ?thesis
    using assms unfolding gw_inv_def cd_delete_def by (auto simp: domIff)
qed

text \<open>A lawful round keeps the invariant and is never undefined.\<close>

lemma cd_new_fields [simp]:
  "gw_calls (cd_new s) = (gw_calls s)(gw_next s \<mapsto> PROCESS)"
  "gw_pending (cd_new s) = gw_pending s @ [gw_next s]" "gw_next (cd_new s) = Suc (gw_next s)"
  "gw_finished (cd_new s) = gw_finished s" "gw_deleted (cd_new s) = gw_deleted s"
  "gw_base (cd_new s) = gw_base s" "gw_cq (cd_new s) = gw_cq s"
  by (simp_all add: cd_new_def cd_arm_def Let_def)

lemma gw_inv_Proceed:
  assumes "gw_inv s" and "c \<in> set (gw_pending s)"
  shows "\<exists>s'. cd_Proceed c rpc (s\<lparr>gw_pending := remove1 c (gw_pending s)\<rparr>) = Some s' \<and> gw_inv s'"
proof -
  let ?s = "s\<lparr>gw_pending := remove1 c (gw_pending s)\<rparr>"
  obtain st where st: "gw_calls s c = Some st" "st \<noteq> CREATE"
    using assms unfolding gw_inv_def by (metis domD)
  then consider "st = PROCESS" | "st = FINISH" by (cases st) auto
  then show ?thesis
  proof cases
    case 1
    let ?t = "if continueRunning (gw_base s) then cd_new s else s"
    let ?u = "?t\<lparr>gw_calls := (gw_calls ?t)(c \<mapsto> FINISH),
        gw_finished := gw_finished ?t @ [(c, cd_status (fst rpc), snd rpc)],
        gw_pending := remove1 c (gw_pending ?t) @ [c]\<rparr>"
    have "c \<noteq> gw_next s" using gw_inv_call_less [OF assms(1) st(1)] by simp
    with 1 st have t: "gw_inv ?t" "gw_calls ?t c = Some PROCESS"
      using assms(1) gw_inv_new by auto
    have "\<exists>s'. cd_Proceed c rpc ?s = Some s' \<and> gw_pending s' = gw_pending ?u \<and> gw_calls s' = gw_calls ?u
        \<and> gw_deleted s' = gw_deleted ?u \<and> gw_next s' = gw_next ?u \<and> gw_finished s' = gw_finished ?u"
      using st 1 assms(2) by (simp add: cd_Proceed_def remove1_append Let_def)
    then show ?thesis
      using gw_inv_finish [OF t] gw_inv_cong by blast
  next
    case 2
    then show ?thesis
      using st gw_inv_delete [OF assms(1) st(1)] by (simp add: cd_Proceed_def)
  qed
qed

lemma gw_inv_round:
  assumes "gw_inv s" and "cq_lawful (i # is) s"
  shows "(\<exists>s'. gw_round i s = Polling s' \<and> gw_inv s' \<and> cq_lawful is s')
    \<or> (\<exists>s'. gw_round i s = Left_loop s' \<and> gw_inv s' \<and> gw_pending s' = [])"
proof -
  let ?s0 = "gw_updateHeartbeat (ci_now i) (cq_before i s)"
  have i0: "gw_inv ?s0" using assms(1) by (subst gw_inv_cong [where t = s]) simp_all
  show ?thesis
  proof (cases "ci_event i")
    case TIMEOUT
    then show ?thesis using assms(2) i0 by (simp add: gw_round_def Let_def)
  next
    case SHUTDOWN
    then show ?thesis using assms(2) i0 by (simp add: gw_round_def Let_def)
  next
    case (GOT_EVENT c ok)
    then have c: "c \<in> set (gw_pending ?s0)" using assms(2) by simp
    obtain st where st: "gw_calls ?s0 c = Some st"
      using i0 c unfolding gw_inv_def by (metis domD)
    have "\<exists>s'. gw_round i s = Polling s' \<and> gw_inv s'"
    proof (cases ok)
      case True
      then obtain s' where "cd_Proceed c (ci_rpc i) (?s0\<lparr>gw_pending := remove1 c (gw_pending ?s0)\<rparr>) = Some s'"
        "gw_inv s'"
        using gw_inv_Proceed [OF i0 c] by blast
      then show ?thesis
        unfolding gw_round_def Let_def GOT_EVENT using True by simp
    next
      case False
      have "gw_round i s = Polling (cd_delete c (?s0\<lparr>gw_pending := remove1 c (gw_pending ?s0)\<rparr>))"
        unfolding gw_round_def Let_def GOT_EVENT using False st by simp
      then show ?thesis using gw_inv_delete [OF i0 st] by blast
    qed
    then show ?thesis using assms(2) by auto
  qed
qed

lemma gw_inv_loop:
  "gw_inv s \<Longrightarrow> cq_lawful is s \<Longrightarrow>
   (case gw_loop is s of Undefined \<Rightarrow> False | Polling s' \<Rightarrow> gw_inv s'
    | Left_loop s' \<Rightarrow> gw_inv s' \<and> gw_pending s' = [])"
proof (induction "is" s rule: gw_loop.induct)
  case (2 i "is" s)
  from gw_inv_round [OF 2(2,3)] show ?case using 2(1) by auto
qed simp

section \<open>Ownership and answers\<close>

lemma gw_inv_prepared: "gw_inv (snd (gw_preRun b (gw_new name address now)))"
  by (auto simp: gw_inv_def gw_preRun_def gw_new_def split: grpc_build.splits)

text \<open>C23: With a completion queue that keeps its documented promises the worker never uses or deletes a dead
  \<open>CallData\<close>, deletes none twice and answers no call twice, whatever the business logic does, whenever a
  stop is requested and whether operations succeed; and when it leaves its loop every object it ever
  made has been deleted.\<close>

theorem gw_run_safe:
  assumes "gw_inv s" and "gw_cq s \<noteq> None" and "cq_lawful inputs (cd_new s)"
  shows "case gw_run inputs s of
      Undefined \<Rightarrow> False
    | Polling s' \<Rightarrow> distinct (gw_deleted s') \<and> distinct (map fst (gw_finished s'))
    | Left_loop s' \<Rightarrow> distinct (gw_deleted s') \<and> distinct (map fst (gw_finished s'))
        \<and> gw_calls s' = (\<lambda>_. None) \<and> set (gw_deleted s') = {..<gw_next s'}"
proof -
  have "gw_inv u \<Longrightarrow> distinct (gw_deleted u) \<and> distinct (map fst (gw_finished u))
      \<and> (gw_pending u = [] \<longrightarrow> gw_calls u = (\<lambda>_. None) \<and> set (gw_deleted u) = {..<gw_next u})" for u :: "'a grpc_worker"
    unfolding gw_inv_def by (auto simp: fun_eq_iff)
  with gw_inv_loop [OF gw_inv_new [OF assms(1)] assms(3)] assms(2) show ?thesis
    by (auto simp: gw_run_def split: loop_outcome.splits)
qed

definition gw_ready :: "string grpc_worker" where
  "gw_ready = (let s = snd (gw_preRun (Build_server 5000) (gw_new ''g'' ''0.0.0.0:0'' 0))
     in s\<lparr>gw_base := setState St_Running (gw_base s)\<rparr>)"

definition gw_inputs :: "string cq_input list" where
  "gw_inputs =
     (let e = \<lambda>stop ev. \<lparr>ci_stop = stop, ci_event = ev, ci_now = 1, ci_rpc = (Inl (StdException ''x''), ''r'')\<rparr>
      in [e False (GOT_EVENT 0 True), e False TIMEOUT, e True (GOT_EVENT 1 False), e False (GOT_EVENT 0 True),
          e False SHUTDOWN])"

theorem gw_run_safe_witness:
  "\<exists>s'. gw_run gw_inputs gw_ready = Left_loop s' \<and> gw_calls s' = (\<lambda>_. None) \<and> set (gw_deleted s') = {0, 1}"
proof -
  have r: "gw_ready = \<lparr>gw_base = setState St_Running (bw_new ''g'' 0), gw_serverAddress = ''0.0.0.0:0'',
      gw_lastError = [], gw_boundPort = 5000, gw_cq = Some False, gw_server = Some False,
      gw_calls = (\<lambda>_. None), gw_next = 0, gw_pending = [], gw_finished = [], gw_deleted = []\<rparr>"
    by (simp add: gw_ready_def gw_preRun_def gw_new_def)
  note d = gw_inputs_def gw_round_def cq_before_def gw_requestStop_def requestStop_def gw_stopTriggered_def
    gw_updateHeartbeat_def updateHeartbeat_def cd_Proceed_def cd_new_def cd_arm_def cd_delete_def
    continueRunning_def stopRequested_def setState_def bw_new_def Let_def
  have i: "gw_inv gw_ready" by (simp add: r gw_inv_def)
  have q: "gw_cq gw_ready \<noteq> None" by (simp add: r)
  have l: "cq_lawful gw_inputs (cd_new gw_ready)"
    by (simp add: r d del: not_None_eq)
  have "\<exists>s'. gw_run gw_inputs gw_ready = Left_loop s' \<and> gw_next s' = 2"
    by (simp add: gw_run_def r d del: not_None_eq)
  then show ?thesis
    using gw_run_safe [OF i q l] by (auto simp: numeral_2_eq_2 lessThan_Suc)
qed

section \<open>The drain after a stop\<close>

definition call_weight :: "enm_RpcStatus option \<Rightarrow> nat" where
  "call_weight st = (case st of Some PROCESS \<Rightarrow> 2 | Some FINISH \<Rightarrow> 1 | _ \<Rightarrow> 0)"

definition gw_weight :: "'r grpc_worker \<Rightarrow> nat" where
  "gw_weight s = (\<Sum>c \<in> set (gw_pending s). call_weight (gw_calls s c))"

fun is_got :: "'r cq_input \<Rightarrow> bool" where
  "is_got i = (case ci_event i of GOT_EVENT c ok \<Rightarrow> True | _ \<Rightarrow> False)"

lemma continue_before: "\<not> continueRunning (gw_base s) \<Longrightarrow> \<not> continueRunning (gw_base (cq_before i s))"
  by (auto simp: cq_before_def gw_requestStop_def gw_stopTriggered_def requestStop_def continueRunning_def
      stopRequested_def Let_def)

lemma gw_weight_split:
  assumes "gw_inv s" and "c \<in> set (gw_pending s)"
  shows "gw_weight s = call_weight (gw_calls s c) + (\<Sum>x \<in> set (gw_pending s) - {c}. call_weight (gw_calls s x))"
  unfolding gw_weight_def by (rule sum.remove) (use assms in auto)

lemma gw_weight_eq:
  "gw_pending s = p \<Longrightarrow> gw_calls s = f \<Longrightarrow> gw_weight s = (\<Sum>c \<in> set p. call_weight (f c))"
  by (simp add: gw_weight_def)

lemma gw_weight_delete:
  assumes "gw_inv u"
  shows "gw_weight (cd_delete c (u\<lparr>gw_pending := remove1 c (gw_pending u)\<rparr>))
    = (\<Sum>x \<in> set (gw_pending u) - {c}. call_weight (gw_calls u x))"
proof -
  have "set (remove1 c (gw_pending u)) = set (gw_pending u) - {c}"
    using assms by (simp add: gw_inv_def)
  moreover have "(\<Sum>x \<in> set (gw_pending u) - {c}. call_weight (((gw_calls u)(c := None)) x))
      = (\<Sum>x \<in> set (gw_pending u) - {c}. call_weight (gw_calls u x))"
    by (rule sum.cong) auto
  ultimately show ?thesis
    by (subst gw_weight_eq [where p = "remove1 c (gw_pending u)" and f = "(gw_calls u)(c := None)"])
      (simp_all add: cd_delete_def)
qed

lemma gw_weight_finish:
  assumes "gw_inv u"
  shows "gw_weight (u\<lparr>gw_pending := remove1 c (gw_pending u), gw_calls := (gw_calls u)(c \<mapsto> FINISH),
      gw_finished := f, gw_pending := remove1 c (gw_pending u) @ [c]\<rparr>)
    = 1 + (\<Sum>x \<in> set (gw_pending u) - {c}. call_weight (gw_calls u x))"
proof -
  let ?f = "(gw_calls u)(c \<mapsto> FINISH)"
  have "set (remove1 c (gw_pending u) @ [c]) = insert c (set (gw_pending u) - {c})"
    using assms by (auto simp: gw_inv_def)
  moreover have "(\<Sum>x \<in> insert c (set (gw_pending u) - {c}). call_weight (?f x))
      = call_weight (?f c) + (\<Sum>x \<in> set (gw_pending u) - {c}. call_weight (?f x))"
    by (rule sum.insert) simp_all
  moreover have "(\<Sum>x \<in> set (gw_pending u) - {c}. call_weight (?f x))
      = (\<Sum>x \<in> set (gw_pending u) - {c}. call_weight (gw_calls u x))"
    by (rule sum.cong) auto
  moreover have "call_weight (?f c) = 1" by (simp add: call_weight_def)
  ultimately show ?thesis
    by (subst gw_weight_eq [where p = "remove1 c (gw_pending u) @ [c]" and f = ?f]) (simp, simp, simp only:)
qed

lemma gw_round_weight:
  assumes "gw_inv s" and "\<not> continueRunning (gw_base s)" and "cq_lawful (i # is) s"
    and "gw_round i s = Polling s'"
  shows "(if is_got i then 1 else 0) + gw_weight s' \<le> gw_weight s \<and> \<not> continueRunning (gw_base s')"
proof -
  let ?s0 = "gw_updateHeartbeat (ci_now i) (cq_before i s)"
  have n: "\<not> continueRunning (gw_base ?s0)" using continue_before [OF assms(2)] by simp
  have i0: "gw_inv ?s0" using assms(1) by (subst gw_inv_cong [where t = s]) simp_all
  have w0: "gw_weight ?s0 = gw_weight s" by (simp add: gw_weight_def)
  show ?thesis
  proof (cases "ci_event i")
    case (GOT_EVENT c ok)
    then have c: "c \<in> set (gw_pending ?s0)" using assms(3) by simp
    obtain st where st: "gw_calls ?s0 c = Some st" "st \<noteq> CREATE"
      using i0 c unfolding gw_inv_def by (metis domD)
    have d: "distinct (gw_pending ?s0)" using i0 by (simp add: gw_inv_def)
    let ?r = "\<Sum>x \<in> set (gw_pending ?s0) - {c}. call_weight (gw_calls ?s0 x)"
    let ?s1 = "?s0\<lparr>gw_pending := remove1 c (gw_pending ?s0)\<rparr>"
    note sp = gw_weight_split [OF i0 c]
    note del = gw_weight_delete [OF i0] and fin = gw_weight_finish [OF i0]
    show ?thesis
    proof (cases "ok \<and> st = PROCESS")
      case True
      then have "s' = ?s1\<lparr>gw_calls := (gw_calls ?s1)(c \<mapsto> FINISH),
          gw_finished := gw_finished ?s1 @ [(c, cd_status (fst (ci_rpc i)), snd (ci_rpc i))],
          gw_pending := gw_pending ?s1 @ [c]\<rparr>"
        using assms(4) st n unfolding gw_round_def Let_def GOT_EVENT
        by (simp add: cd_Proceed_def)
      then have "gw_weight s' = 1 + ?r" "gw_base s' = gw_base ?s0" using fin by simp_all
      then show ?thesis using sp w0 st True n GOT_EVENT by (simp add: call_weight_def)
    next
      case False
      have "s' = cd_delete c ?s1"
        using assms(4) st False unfolding gw_round_def Let_def GOT_EVENT
        by (cases st) (auto simp: cd_Proceed_def split: if_splits)
      then have "gw_weight s' = ?r" "gw_base s' = gw_base ?s0" using del by (simp_all add: cd_delete_def)
      then show ?thesis using sp w0 st n GOT_EVENT
        by (cases st) (simp_all add: call_weight_def)
    qed
  qed (use assms(4) n w0 in \<open>auto simp: gw_round_def Let_def\<close>)
qed

text \<open>After a stop request the queue drains: every event a lawful queue then delivers brings a call
  nearer to its end, so at most two events per call under way are delivered before all are deleted and
  the queue has nothing left to report but its shutdown.\<close>

theorem gw_drains:
  assumes "gw_inv s" and "\<not> continueRunning (gw_base s)" and "cq_lawful inputs s"
    and "gw_loop inputs s = Polling s'"
  shows "length (filter is_got inputs) + gw_weight s' \<le> gw_weight s
    \<and> gw_weight s \<le> 2 * length (gw_pending s)"
proof
  show "length (filter is_got inputs) + gw_weight s' \<le> gw_weight s"
    using assms
  proof (induction inputs s rule: gw_loop.induct)
    case (2 i "is" s)
    from 2(5) obtain t where t: "gw_round i s = Polling t" "gw_loop is t = Polling s'"
      by (auto split: loop_outcome.splits)
    have g: "gw_inv t" "cq_lawful is t"
      using gw_inv_round [OF 2(2,4)] t(1) by auto
    note w = gw_round_weight [OF 2(2,3,4) t(1)]
    have "length (filter is_got is) + gw_weight s' \<le> gw_weight t"
      using 2(1) [OF t(1) g(1) conjunct2 [OF w] g(2) t(2)] .
    moreover have "length (filter is_got (i # is)) = (if is_got i then 1 else 0) + length (filter is_got is)"
      by (simp del: is_got.simps)
    ultimately show ?case using w by linarith
  qed simp
  have "gw_weight s \<le> (\<Sum>c \<in> set (gw_pending s). 2)"
    unfolding gw_weight_def by (rule sum_mono) (simp add: call_weight_def split: option.splits enm_RpcStatus.splits)
  then show "gw_weight s \<le> 2 * length (gw_pending s)"
    using card_length [of "gw_pending s"] by simp
qed

definition gw_stopping :: "string grpc_worker" where
  "gw_stopping = gw_requestStop (cd_new gw_ready)"

theorem gw_drains_witness:
  "\<exists>s'. gw_loop [\<lparr>ci_stop = False, ci_event = GOT_EVENT 0 True, ci_now = 1, ci_rpc = (Inr grpc_OK, [])\<rparr>] gw_stopping
      = Polling s' \<and> 1 + gw_weight s' \<le> gw_weight gw_stopping"
proof -
  let ?is = "[\<lparr>ci_stop = False, ci_event = GOT_EVENT 0 True, ci_now = 1, ci_rpc = (Inr grpc_OK, [])\<rparr>]
    :: string cq_input list"
  have r: "gw_stopping = \<lparr>gw_base = (setState St_Stopping (bw_new ''g'' 0))\<lparr>m_stopRequested := True\<rparr>,
      gw_serverAddress = ''0.0.0.0:0'', gw_lastError = [], gw_boundPort = 5000, gw_cq = Some True,
      gw_server = Some True, gw_calls = [0 \<mapsto> PROCESS], gw_next = 1, gw_pending = [0],
      gw_finished = [], gw_deleted = []\<rparr>"
    by (simp add: gw_stopping_def gw_ready_def gw_preRun_def gw_new_def cd_new_def cd_arm_def
        gw_requestStop_def requestStop_def gw_stopTriggered_def setState_def bw_new_def Let_def
        del: not_None_eq)
  have i: "gw_inv gw_stopping" by (auto simp: r gw_inv_def)
  have n: "\<not> continueRunning (gw_base gw_stopping)"
    by (simp add: r continueRunning_def stopRequested_def)
  have l: "cq_lawful ?is gw_stopping"
    by (simp add: r gw_round_def cq_before_def Let_def split: option.splits)
  obtain s' where "gw_loop ?is gw_stopping = Polling s'"
    by (simp add: r gw_round_def cq_before_def gw_updateHeartbeat_def cd_Proceed_def Let_def)
  with gw_drains [OF i n l this] show ?thesis by auto
qed

section \<open>The listener\<close>

definition listeners :: "'r grpc_worker \<Rightarrow> nat set" where
  "listeners s = {c. gw_calls s c = Some PROCESS}"

fun undisturbed :: "'r cq_input \<Rightarrow> bool" where
  "undisturbed i \<longleftrightarrow> \<not> ci_stop i \<and> (case ci_event i of GOT_EVENT c ok \<Rightarrow> ok | _ \<Rightarrow> True)"

text \<open>One listener, and as many objects made as calls answered, but for it.\<close>

definition gw_listening :: "nat \<Rightarrow> 'r grpc_worker \<Rightarrow> bool" where
  "gw_listening n s \<longleftrightarrow>
     (\<exists>l. listeners s = {l}) \<and> gw_next s = n + length (gw_finished s) \<and> continueRunning (gw_base s)"

lemma gw_round_listening:
  assumes "gw_inv s" and "gw_listening n s" and "undisturbed i" and "gw_round i s = Polling s'"
  shows "gw_listening n s'"
proof -
  have b: "cq_before i s = s" using assms(3) by (simp add: cq_before_def)
  let ?s0 = "gw_updateHeartbeat (ci_now i) s"
  show ?thesis
  proof (cases "ci_event i")
    case TIMEOUT
    then show ?thesis
      using assms(2,4) by (auto simp: gw_round_def b gw_listening_def listeners_def Let_def)
  next
    case SHUTDOWN
    then show ?thesis using assms(4) by (simp add: gw_round_def Let_def)
  next
    case (GOT_EVENT c ok)
    then have "ok" using assms(3) by simp
    let ?s1 = "?s0\<lparr>gw_pending := remove1 c (gw_pending ?s0)\<rparr>"
    have p: "cd_Proceed c (ci_rpc i) ?s1 = Some s'"
      using assms(4) \<open>ok\<close> unfolding gw_round_def Let_def GOT_EVENT b
      by (simp split: option.splits)
    obtain l where l: "listeners s = {l}" using assms(2) by (auto simp: gw_listening_def)
    have k: "continueRunning (gw_base ?s0)" using assms(2) by (simp add: gw_listening_def)
    consider "gw_calls s c = Some PROCESS" | "gw_calls s c = Some FINISH"
      using p assms(1) by (cases "gw_calls s c"; cases "the (gw_calls s c)") (auto simp: cd_Proceed_def gw_inv_def)
    then show ?thesis
    proof cases
      case 1
      then have "c = l" using l by (auto simp: listeners_def)
      have less: "l < gw_next s" using gw_inv_call_less [OF assms(1), of l PROCESS] l by (auto simp: listeners_def)
      have "gw_calls s' = (gw_calls s)(gw_next s \<mapsto> PROCESS, c \<mapsto> FINISH)" "gw_next s' = Suc (gw_next s)"
        "length (gw_finished s') = Suc (length (gw_finished s))" "gw_base s' = gw_base ?s0"
        using p 1 k by (auto simp: cd_Proceed_def Let_def)
      moreover have "listeners s' = {gw_next s}"
        using l less calculation(1) unfolding \<open>c = l\<close> listeners_def by auto
      ultimately show ?thesis using assms(2) k by (simp add: gw_listening_def)
    next
      case 2
      then have "gw_calls s' = (gw_calls s)(c := None)" "gw_next s' = gw_next s"
        "gw_finished s' = gw_finished s" "gw_base s' = gw_base ?s0"
        using p by (auto simp: cd_Proceed_def cd_delete_def)
      moreover have "listeners s' = {l}"
      proof -
        have "gw_calls s l = Some PROCESS" using l unfolding listeners_def by blast
        then have "l \<noteq> c" using 2 by auto
        with l calculation(1) 2 show ?thesis unfolding listeners_def set_eq_iff by auto
      qed
      ultimately show ?thesis using assms(2) k by (simp add: gw_listening_def)
    qed
  qed
qed

text \<open>C37: Until a stop is requested or an operation fails, the worker always has exactly one listener armed,
  every request received so far has been answered, business logic that throws included, and no other
  object was made.\<close>

theorem gw_listens:
  assumes "gw_inv s" and "gw_pending s = []" and "gw_cq s \<noteq> None" and "continueRunning (gw_base s)"
    and "cq_lawful inputs (cd_new s)" and "list_all undisturbed inputs" and "gw_run inputs s = Polling s'"
  shows "(\<exists>l. {c. gw_calls s' c = Some PROCESS} = {l})
    \<and> gw_next s' + length (gw_finished s) = gw_next s + 1 + length (gw_finished s')"
proof -
  have "\<forall>c. gw_calls s c = None"
    using assms(1,2) by (auto simp: gw_inv_def)
  then have l: "listeners (cd_new s) = {gw_next s}" by (auto simp: listeners_def)
  obtain n where n: "n + length (gw_finished s) = gw_next s + 1 \<or> gw_next s + 1 < length (gw_finished s)"
    by (meson le_add_diff_inverse2 not_less)
  have "length (gw_finished s) \<le> gw_next s"
  proof -
    have "length (gw_finished s) = card (fst ` set (gw_finished s))"
      using assms(1) by (metis distinct_card gw_inv_def length_map list.set_map)
    also have "\<dots> \<le> card {..<gw_next s}"
      using assms(1) by (intro card_mono) (auto simp: gw_inv_def)
    finally show ?thesis by simp
  qed
  with n have n: "n + length (gw_finished s) = gw_next s + 1" by simp
  have start: "gw_listening n (cd_new s)"
    using l n assms(4) by (simp add: gw_listening_def)
  have "gw_loop inputs u = Polling s' \<Longrightarrow> gw_inv u \<Longrightarrow> cq_lawful inputs u \<Longrightarrow> list_all undisturbed inputs \<Longrightarrow>
      gw_listening n u \<Longrightarrow> gw_listening n s'" for u
  proof (induction inputs u rule: gw_loop.induct)
    case (2 i "is" u)
    from 2(2) obtain t where t: "gw_round i u = Polling t" "gw_loop is t = Polling s'"
      by (auto split: loop_outcome.splits)
    have g: "gw_inv t" "cq_lawful is t" using gw_inv_round [OF 2(3,4)] t(1) by auto
    have k: "undisturbed i" "list_all undisturbed is" using 2(5) by (simp_all del: undisturbed.simps)
    show ?case
      by (rule 2(1) [OF t(1) t(2) g k(2) gw_round_listening [OF 2(3,6) k(1) t(1)]])
  qed simp
  moreover have "gw_loop inputs (cd_new s) = Polling s'"
    using assms(3,7) by (simp add: gw_run_def del: not_None_eq)
  ultimately have "gw_listening n s'"
    using assms(5,6) gw_inv_new [OF assms(1)] start by blast
  then show ?thesis using n by (auto simp: gw_listening_def listeners_def)
qed

theorem gw_listens_witness:
  "\<exists>s'. gw_run [\<lparr>ci_stop = False, ci_event = GOT_EVENT 0 True, ci_now = 1, ci_rpc = (Inl OtherException, [])\<rparr>]
      gw_ready = Polling s' \<and> (\<exists>l. {c. gw_calls s' c = Some PROCESS} = {l})"
proof -
  let ?is = "[\<lparr>ci_stop = False, ci_event = GOT_EVENT 0 True, ci_now = 1, ci_rpc = (Inl OtherException, [])\<rparr>]
    :: string cq_input list"
  have r: "gw_ready = \<lparr>gw_base = setState St_Running (bw_new ''g'' 0), gw_serverAddress = ''0.0.0.0:0'',
      gw_lastError = [], gw_boundPort = 5000, gw_cq = Some False, gw_server = Some False,
      gw_calls = (\<lambda>_. None), gw_next = 0, gw_pending = [], gw_finished = [], gw_deleted = []\<rparr>"
    by (simp add: gw_ready_def gw_preRun_def gw_new_def)
  have i: "gw_inv gw_ready" "gw_pending gw_ready = []" "gw_cq gw_ready \<noteq> None"
    "continueRunning (gw_base gw_ready)" "list_all undisturbed ?is"
    by (simp_all add: r gw_inv_def continueRunning_def stopRequested_def setState_def bw_new_def)
  have l: "cq_lawful ?is (cd_new gw_ready)"
    by (simp add: r gw_round_def cq_before_def split: option.splits)
  obtain s' where s': "gw_run ?is gw_ready = Polling s'"
    by (simp add: gw_run_def r gw_round_def cq_before_def gw_updateHeartbeat_def cd_Proceed_def Let_def)
  from gw_listens [OF i(1-4) l i(5) this] s' show ?thesis by blast
qed

text \<open>The port of an earlier run is still reported when the worker is not running.\<close>

lemma boundPort_kept:
  "boundPort (gw_requestStop s) = boundPort s"
  "boundPort (snd (gw_preRun Build_null s)) = boundPort s"
  by (auto simp: boundPort_def gw_requestStop_def gw_stopTriggered_def gw_preRun_def Let_def
      split: prod.splits)

end
