(* ===== verification/AsyncServer.thy ===== *)
theory AsyncServer
  imports GrpcWorkerProofs
begin

text \<open>
  \<open>AsyncServer\<close> (\<open>examples/gRPC/gRPCAsyServerExample1.cpp\<close>), which its source calls the plain reference
  of what the engine in \<open>cGenericGrpcWorker.h\<close> abstracts away: the same \<open>CallData\<close> state machine without
  a worker around it, and a \<open>main\<close> that runs it on a thread and shuts it down on a signal. The first part
  is the server, and the proof that the engine does on every event what this server does; the second
  is the interleaving of \<open>main\<close> with the event-loop thread. gRPC is a parameter as in \<open>GrpcWorker\<close>.
\<close>

section \<open>The server\<close>

record async_server =
  as_cq :: "bool option"
  as_server :: "bool option"
  as_calls :: "nat \<Rightarrow> enm_RpcStatus option"
  as_next :: nat
  as_pending :: "nat list"
  as_finished :: "(nat \<times> grpc_status \<times> MetricResponse) list"
  as_deleted :: "nat list"

definition as_init :: async_server where
  "as_init = \<lparr>as_cq = None, as_server = None, as_calls = (\<lambda>_. None), as_next = 0, as_pending = [],
              as_finished = [], as_deleted = []\<rparr>"

definition as_arm :: "nat \<Rightarrow> async_server \<Rightarrow> async_server" where
  "as_arm this s = s\<lparr>as_calls := (as_calls s)(this \<mapsto> PROCESS), as_pending := as_pending s @ [this]\<rparr>"

definition as_new :: "async_server \<Rightarrow> async_server" where
  "as_new s =
     (let this = as_next s in
      as_arm this (s\<lparr>as_next := Suc this, as_calls := (as_calls s)(this \<mapsto> CREATE)\<rparr>))"

definition as_delete :: "nat \<Rightarrow> async_server \<Rightarrow> async_server" where
  "as_delete this s = s\<lparr>as_calls := (as_calls s)(this := None), as_deleted := as_deleted s @ [this]\<rparr>"

definition as_reply :: MetricResponse where
  "as_reply = \<lparr>mr_success = True, mr_message = ''Async processing complete.''\<rparr>"

definition as_Proceed :: "nat \<Rightarrow> async_server \<Rightarrow> async_server option" where
  "as_Proceed this s =
     (case as_calls s this of
        None \<Rightarrow> None
      | Some CREATE \<Rightarrow> Some (as_arm this s)
      | Some PROCESS \<Rightarrow>
          (let s1 = as_new s in
           Some (s1\<lparr>as_calls := (as_calls s1)(this \<mapsto> FINISH),
                    as_finished := as_finished s1 @ [(this, grpc_OK, as_reply)],
                    as_pending := as_pending s1 @ [this]\<rparr>))
      | Some FINISH \<Rightarrow> Some (as_delete this s))"

definition as_Shutdown :: "async_server \<Rightarrow> async_server" where
  "as_Shutdown s =
     (let s1 = (if as_server s \<noteq> None then s\<lparr>as_server := Some True\<rparr> else s)
      in if as_cq s1 \<noteq> None then s1\<lparr>as_cq := Some True\<rparr> else s1)"

text \<open>\<open>Next\<close> answers with a tag, or false once the queue is shut down and drained.\<close>

datatype as_event = As_next nat bool | As_shutdown

definition as_round :: "as_event \<Rightarrow> async_server \<Rightarrow> async_server loop_outcome" where
  "as_round e s =
     (case e of
        As_shutdown \<Rightarrow> Left_loop s
      | As_next tag ok \<Rightarrow>
          let s1 = s\<lparr>as_pending := remove1 tag (as_pending s)\<rparr> in
          if \<not> ok then (if as_calls s1 tag = None then Undefined else Polling (as_delete tag s1))
          else (case as_Proceed tag s1 of None \<Rightarrow> Undefined | Some s2 \<Rightarrow> Polling s2))"

fun as_loop :: "as_event list \<Rightarrow> async_server \<Rightarrow> async_server loop_outcome" where
  "as_loop [] s = Polling s"
| "as_loop (e # es) s =
     (case as_round e s of Undefined \<Rightarrow> Undefined | Polling s' \<Rightarrow> as_loop es s' | Left_loop s' \<Rightarrow> Left_loop s')"

definition as_HandleRpcs :: "as_event list \<Rightarrow> async_server \<Rightarrow> async_server loop_outcome" where
  "as_HandleRpcs events s = as_loop events (as_new s)"

text \<open>\<open>Run\<close> throws when no server could be made.\<close>

definition as_Run :: "bool \<Rightarrow> as_event list \<Rightarrow> async_server \<Rightarrow> (cpp_exn \<times> async_server) + async_server loop_outcome" where
  "as_Run built events s =
     (let s1 = s\<lparr>as_cq := Some False, as_server := (if built then Some False else None)\<rparr> in
      if as_server s1 = None then Inl (StdException ''OS failed to bind 0.0.0.0:50051'', s1)
      else Inr (as_HandleRpcs events s1))"

section \<open>The engine refines it\<close>

text \<open>The engine's state seen as the plain server's, and its inputs as the plain server's events: a time-out
  of \<open>AsyncNext\<close> is no event.\<close>

definition as_view :: "MetricResponse grpc_worker \<Rightarrow> async_server" where
  "as_view s =
     \<lparr>as_cq = gw_cq s, as_server = gw_server s, as_calls = gw_calls s, as_next = gw_next s,
      as_pending = gw_pending s, as_finished = gw_finished s, as_deleted = gw_deleted s\<rparr>"

fun as_outcome :: "MetricResponse grpc_worker loop_outcome \<Rightarrow> async_server loop_outcome" where
  "as_outcome Undefined = Undefined"
| "as_outcome (Polling s) = Polling (as_view s)"
| "as_outcome (Left_loop s) = Left_loop (as_view s)"

fun as_events :: "'r cq_input list \<Rightarrow> as_event list" where
  "as_events [] = []"
| "as_events (i # is) =
     (case ci_event i of
        TIMEOUT \<Rightarrow> as_events is
      | SHUTDOWN \<Rightarrow> As_shutdown # as_events is
      | GOT_EVENT tag ok \<Rightarrow> As_next tag ok # as_events is)"

text \<open>The business logic of the plain server, and no stop.\<close>

definition as_like :: "MetricResponse cq_input \<Rightarrow> bool" where
  "as_like i \<longleftrightarrow> \<not> ci_stop i \<and> ci_rpc i = (Inr grpc_OK, as_reply)"

lemma as_view_simps [simp]:
  "as_cq (as_view s) = gw_cq s" "as_server (as_view s) = gw_server s" "as_calls (as_view s) = gw_calls s"
  "as_next (as_view s) = gw_next s" "as_pending (as_view s) = gw_pending s"
  "as_finished (as_view s) = gw_finished s" "as_deleted (as_view s) = gw_deleted s"
  by (simp_all add: as_view_def)

lemma as_view_new: "as_view (cd_new s) = as_new (as_view s)"
  and as_view_delete: "as_view (cd_delete c s) = as_delete c (as_view s)"
  and as_view_arm: "as_view (cd_arm c s) = as_arm c (as_view s)"
  by (simp_all add: as_view_def cd_new_def as_new_def cd_arm_def as_arm_def cd_delete_def as_delete_def Let_def)

lemma as_view_stop: "as_view (gw_stopTriggered s) = as_Shutdown (as_view s)"
  by (simp add: as_view_def gw_stopTriggered_def as_Shutdown_def Let_def del: not_None_eq)

lemma as_view_heartbeat [simp]: "as_view (gw_updateHeartbeat now s) = as_view s"
  by (simp add: as_view_def gw_updateHeartbeat_def)

lemma as_view_Proceed:
  assumes "continueRunning (gw_base s)" and "rpc = (Inr grpc_OK, as_reply)"
  shows "map_option as_view (cd_Proceed c rpc s) = as_Proceed c (as_view s)"
  using assms
  by (auto simp: cd_Proceed_def as_Proceed_def as_view_arm as_view_delete cd_status_def Let_def
      split: option.split enm_RpcStatus.split)
     (simp add: as_view_def cd_new_def as_new_def cd_arm_def as_arm_def Let_def)

lemma cd_Proceed_base: "cd_Proceed c rpc s = Some t \<Longrightarrow> gw_base t = gw_base s"
  by (auto simp: cd_Proceed_def cd_arm_def cd_delete_def cd_new_def Let_def
      split: option.splits enm_RpcStatus.splits if_splits)

lemma as_view_round:
  assumes "as_like i" and "continueRunning (gw_base s)"
  shows "as_outcome (gw_round i s) =
      (case ci_event i of
         TIMEOUT \<Rightarrow> Polling (as_view s)
       | SHUTDOWN \<Rightarrow> as_round As_shutdown (as_view s)
       | GOT_EVENT c ok \<Rightarrow> as_round (As_next c ok) (as_view s))"
proof -
  have b: "cq_before i s = s" and r: "ci_rpc i = (Inr grpc_OK, as_reply)"
    using assms(1) by (auto simp: as_like_def cq_before_def)
  show ?thesis
  proof (cases "ci_event i")
    case (GOT_EVENT c ok)
    let ?s0 = "gw_updateHeartbeat (ci_now i) s"
    let ?s1 = "?s0\<lparr>gw_pending := remove1 c (gw_pending s)\<rparr>"
    have v: "as_view ?s1 = (as_view s)\<lparr>as_pending := remove1 c (gw_pending s)\<rparr>"
      by (simp add: as_view_def gw_updateHeartbeat_def)
    have k: "continueRunning (gw_base ?s1)" using assms(2) by simp
    have c: "gw_calls ?s0 = gw_calls s" by (simp add: gw_updateHeartbeat_def)
    show ?thesis
      using as_view_Proceed [OF k r, of c]
      by (auto simp: gw_round_def as_round_def GOT_EVENT b Let_def v c as_view_delete split: option.split)
  qed (simp_all add: gw_round_def as_round_def b Let_def)
qed

lemma as_round_running:
  "as_like i \<Longrightarrow> continueRunning (gw_base s) \<Longrightarrow> gw_round i s = Polling t \<Longrightarrow> continueRunning (gw_base t)"
  by (auto simp: gw_round_def as_like_def cq_before_def Let_def cd_delete_def
      split: cq_event.splits if_splits option.splits dest!: cd_Proceed_base)

text \<open>C27: Until a stop is requested, the engine that runs the plain server's business logic does, event for
  event, what the plain server does: the same listeners are armed, the same calls answered with the
  same replies in the same order, the same objects deleted, the same uses of a dead object; the
  time-outs of \<open>AsyncNext\<close> are invisible. And stopping does the same to the server and the queue.\<close>

theorem engine_refines_async_server:
  assumes "list_all as_like inputs" and "continueRunning (gw_base s)" and "gw_cq s \<noteq> None"
  shows "as_outcome (gw_run inputs s) = as_HandleRpcs (as_events inputs) (as_view s)
    \<and> as_view (gw_stopTriggered s) = as_Shutdown (as_view s)"
proof -
  have "as_outcome (gw_loop inputs u) = as_loop (as_events inputs) (as_view u)"
    if "list_all as_like inputs" "continueRunning (gw_base u)" for u
    using that
  proof (induction inputs u rule: gw_loop.induct)
    case (2 i "is" u)
    then have l: "as_like i" "list_all as_like is" by simp_all
    note v = as_view_round [OF l(1) 2(3)]
    show ?case
    proof (cases "gw_round i u")
      case (Polling t)
      note IH = 2(1) [OF Polling l(2) as_round_running [OF l(1) 2(3) Polling]]
      show ?thesis using v [symmetric] Polling IH by (cases "ci_event i") auto
    qed (use v [symmetric] in \<open>cases "ci_event i"; auto\<close>)+
  qed simp
  moreover have "continueRunning (gw_base (cd_new s))"
    using assms(2) by simp
  ultimately show ?thesis
    using assms(1,3) by (simp add: gw_run_def as_HandleRpcs_def as_view_new as_view_stop del: not_None_eq)
qed

definition as_engine :: "MetricResponse grpc_worker" where
  "as_engine = snd (gw_preRun (Build_server 50051) (gw_new ''engine'' ''0.0.0.0:50051'' 0))"

theorem engine_refines_async_server_witness:
  "\<exists>t. as_outcome (gw_run
         [\<lparr>ci_stop = False, ci_event = TIMEOUT, ci_now = 5, ci_rpc = (Inr grpc_OK, as_reply)\<rparr>,
          \<lparr>ci_stop = False, ci_event = GOT_EVENT 0 True, ci_now = 9, ci_rpc = (Inr grpc_OK, as_reply)\<rparr>]
         as_engine) = Polling t
     \<and> as_HandleRpcs [As_next 0 True] (as_view as_engine) = Polling t
     \<and> as_finished t = [(0, grpc_OK, as_reply)]"
proof -
  let ?is = "[\<lparr>ci_stop = False, ci_event = TIMEOUT, ci_now = 5, ci_rpc = (Inr grpc_OK, as_reply)\<rparr>,
          \<lparr>ci_stop = False, ci_event = GOT_EVENT 0 True, ci_now = 9, ci_rpc = (Inr grpc_OK, as_reply)\<rparr>]
      :: MetricResponse cq_input list"
  have l: "list_all as_like ?is" by (simp add: as_like_def)
  have e: "continueRunning (gw_base as_engine)" "gw_cq as_engine \<noteq> None"
    by (simp_all add: as_engine_def gw_preRun_def gw_new_def bw_new_def continueRunning_def stopRequested_def)
  have v: "as_view as_engine = as_init\<lparr>as_cq := Some False, as_server := Some False\<rparr>"
    by (simp add: as_view_def as_engine_def gw_preRun_def gw_new_def as_init_def)
  obtain t where t: "as_HandleRpcs [As_next 0 True] (as_view as_engine) = Polling t"
      "as_finished t = [(0, grpc_OK, as_reply)]"
    by (simp add: v as_HandleRpcs_def as_new_def as_arm_def as_init_def as_round_def as_Proceed_def Let_def)
  then show ?thesis
    using engine_refines_async_server [OF l e] by simp
qed

section \<open>The program around it\<close>

text \<open>\<open>main\<close> and the event-loop thread. The event loop is at the start of \<open>Run\<close>, has made the queue, has
  made the server and loops, has left the loop, or has died of the exception that \<open>Run\<close> throws out of
  the thread's function, which ends the process. \<open>main\<close> polls the signal flag, calls \<open>Shutdown\<close> in its
  two halves, joins, and returns. The loop ends once its queue was shut down; that every operation is
  answered by then is the subject of the first part.\<close>

datatype am_loop = Ev_enter | Ev_built_queue | Ev_looping | Ev_returned | Ev_terminated

datatype am_main = Am_polling | Am_shut_server | Am_shut_queue | Am_joining | Am_exited

record async_main =
  am_signal :: bool
  am_main :: am_main
  am_loop :: am_loop
  am_cq :: "bool option"
  am_server :: "bool option"

definition am_init :: async_main where
  "am_init = \<lparr>am_signal = False, am_main = Am_polling, am_loop = Ev_enter, am_cq = None, am_server = None\<rparr>"

definition shut :: "bool option \<Rightarrow> bool option" where
  "shut p = (if p \<noteq> None then Some True else None)"

inductive am_step :: "async_main \<Rightarrow> async_main \<Rightarrow> bool" where
  am_SignalHandler: "am_step s (s\<lparr>am_signal := True\<rparr>)"
| am_AddCompletionQueue: "am_loop s = Ev_enter \<Longrightarrow>
     am_step s (s\<lparr>am_loop := Ev_built_queue, am_cq := Some False\<rparr>)"
| am_BuildAndStart: "am_loop s = Ev_built_queue \<Longrightarrow>
     am_step s (s\<lparr>am_loop := Ev_looping, am_server := Some False\<rparr>)"
| am_bind_failed: "am_loop s = Ev_built_queue \<Longrightarrow> am_step s (s\<lparr>am_loop := Ev_terminated\<rparr>)"
| am_loop_ends: "am_loop s = Ev_looping \<Longrightarrow> am_cq s = Some True \<Longrightarrow> am_step s (s\<lparr>am_loop := Ev_returned\<rparr>)"
| am_sees_signal: "am_main s = Am_polling \<Longrightarrow> am_signal s \<Longrightarrow> am_step s (s\<lparr>am_main := Am_shut_server\<rparr>)"
| am_shuts_server: "am_main s = Am_shut_server \<Longrightarrow>
     am_step s (s\<lparr>am_main := Am_shut_queue, am_server := shut (am_server s)\<rparr>)"
| am_shuts_queue: "am_main s = Am_shut_queue \<Longrightarrow>
     am_step s (s\<lparr>am_main := Am_joining, am_cq := shut (am_cq s)\<rparr>)"
| am_joined: "am_main s = Am_joining \<Longrightarrow> am_loop s = Ev_returned \<Longrightarrow> am_step s (s\<lparr>am_main := Am_exited\<rparr>)"

text \<open>\<open>main\<close> waits for a loop whose queue it did not shut down.\<close>

definition am_hung :: "async_main \<Rightarrow> bool" where
  "am_hung s \<longleftrightarrow> am_main s = Am_joining \<and> am_cq s \<noteq> Some True \<and> am_loop s \<noteq> Ev_returned"

lemma am_hung_step: "am_step s t \<Longrightarrow> am_hung s \<Longrightarrow> am_hung t"
  by (induction rule: am_step.induct) (auto simp: am_hung_def)

lemma am_hung_forever: "am_step\<^sup>*\<^sup>* s t \<Longrightarrow> am_hung s \<Longrightarrow> am_hung t"
  by (induction rule: rtranclp_induct) (auto intro: am_hung_step)

text \<open>A signal that arrives before the event-loop thread has made the completion queue hangs the program:
  \<open>Shutdown\<close> finds two null pointers, \<open>main\<close> joins, the thread then sets up a server whose queue nobody
  will shut down, and from that state no sequence of steps leads to the end of \<open>main\<close>.\<close>

theorem early_signal_hangs:
  "\<exists>s. am_step\<^sup>*\<^sup>* am_init s \<and> am_loop s = Ev_looping \<and> am_server s = Some False \<and> am_cq s = Some False
     \<and> (\<nexists>t. am_step\<^sup>*\<^sup>* s t \<and> am_main t = Am_exited)"
proof -
  let ?a = "am_init\<lparr>am_signal := True\<rparr>"
  let ?b = "?a\<lparr>am_main := Am_shut_server\<rparr>"
  let ?c = "?a\<lparr>am_main := Am_shut_queue\<rparr>"
  let ?d = "?a\<lparr>am_main := Am_joining\<rparr>"
  let ?e = "?d\<lparr>am_loop := Ev_built_queue, am_cq := Some False\<rparr>"
  let ?f = "?d\<lparr>am_loop := Ev_looping, am_cq := Some False, am_server := Some False\<rparr>"
  have s1: "am_step am_init ?a" by (rule am_SignalHandler)
  have s2: "am_step ?a ?b" by (rule am_sees_signal) (simp_all add: am_init_def)
  have s3: "am_step ?b ?c"
    using am_shuts_server [of ?b] by (simp add: am_init_def shut_def)
  have s4: "am_step ?c ?d"
    using am_shuts_queue [of ?c] by (simp add: am_init_def shut_def)
  have s5: "am_step ?d ?e" by (rule am_AddCompletionQueue) (simp add: am_init_def)
  have s6: "am_step ?e ?f"
    using am_BuildAndStart [of ?e] by (simp add: am_init_def)
  have "am_step\<^sup>*\<^sup>* am_init ?f"
    by (rule converse_rtranclp_into_rtranclp, rule s1,
        rule converse_rtranclp_into_rtranclp, rule s2,
        rule converse_rtranclp_into_rtranclp, rule s3,
        rule converse_rtranclp_into_rtranclp, rule s4,
        rule converse_rtranclp_into_rtranclp, rule s5,
        rule r_into_rtranclp, rule s6)
  moreover have "am_hung ?f" by (simp add: am_hung_def am_init_def)
  then have "\<nexists>t. am_step\<^sup>*\<^sup>* ?f t \<and> am_main t = Am_exited"
    using am_hung_forever [of ?f] by (auto simp: am_hung_def)
  ultimately show ?thesis by (intro exI [of _ ?f]) (simp add: am_init_def)
qed

text \<open>With a signal after the event loop has started, \<open>main\<close> can always get to its end.\<close>

definition am_safe :: "async_main \<Rightarrow> bool" where
  "am_safe s \<longleftrightarrow>
     (am_loop s = Ev_looping \<or> am_loop s = Ev_returned) \<and> am_cq s \<noteq> None
     \<and> (am_main s = Am_joining \<longrightarrow> am_cq s = Some True)"

lemma am_safe_step: "am_step s t \<Longrightarrow> am_safe s \<Longrightarrow> am_safe t"
  by (induction rule: am_step.induct) (auto simp: am_safe_def shut_def)

lemma am_safe_exits:
  assumes "am_safe s"
  shows "\<exists>t. am_step\<^sup>*\<^sup>* s t \<and> am_main t = Am_exited"
proof -
  have join: "\<exists>t. am_step\<^sup>*\<^sup>* u t \<and> am_main t = Am_exited" if "am_safe u" "am_main u = Am_joining" for u
  proof (cases "am_loop u = Ev_returned")
    case True
    with that show ?thesis using am_joined [of u] by (intro exI [of _ "u\<lparr>am_main := Am_exited\<rparr>"]) auto
  next
    case False
    let ?v = "u\<lparr>am_loop := Ev_returned\<rparr>"
    have "am_step u ?v" using that False by (intro am_loop_ends) (auto simp: am_safe_def)
    moreover have "am_step ?v (?v\<lparr>am_main := Am_exited\<rparr>)" using that(2) by (intro am_joined) simp_all
    ultimately show ?thesis
      by (intro exI [of _ "?v\<lparr>am_main := Am_exited\<rparr>"])
         (simp add: converse_rtranclp_into_rtranclp [OF _ r_into_rtranclp])
  qed
  have queue: "\<exists>t. am_step\<^sup>*\<^sup>* u t \<and> am_main t = Am_exited" if "am_safe u" "am_main u = Am_shut_queue" for u
    using join [OF am_safe_step [OF am_shuts_queue [OF that(2)] that(1)]] am_shuts_queue [OF that(2)]
    by (auto intro: converse_rtranclp_into_rtranclp)
  have server: "\<exists>t. am_step\<^sup>*\<^sup>* u t \<and> am_main t = Am_exited" if "am_safe u" "am_main u = Am_shut_server" for u
    using queue [OF am_safe_step [OF am_shuts_server [OF that(2)] that(1)]] am_shuts_server [OF that(2)]
    by (auto intro: converse_rtranclp_into_rtranclp)
  have seen: "\<exists>t. am_step\<^sup>*\<^sup>* u t \<and> am_main t = Am_exited"
    if "am_safe u" "am_main u = Am_polling" "am_signal u" for u
    using server [OF am_safe_step [OF am_sees_signal [OF that(2,3)] that(1)]] am_sees_signal [OF that(2,3)]
    by (auto intro: converse_rtranclp_into_rtranclp)
  have poll: "\<exists>t. am_step\<^sup>*\<^sup>* u t \<and> am_main t = Am_exited" if "am_safe u" "am_main u = Am_polling" for u
    using seen [OF am_safe_step [OF am_SignalHandler that(1)]] that(2) am_SignalHandler [of u]
    by (auto intro: converse_rtranclp_into_rtranclp)
  show ?thesis
    using assms join queue server poll by (cases "am_main s") auto
qed

end
