(* ===== verification/LegacyTcp.thy ===== *)
theory LegacyTcp
  imports TcpClient TcpServer
begin

text \<open>
  The first generation of the TCP classes, \<open>TCPClient\<close> (\<open>cTCPClient.h\<close>) and \<open>TCPServer\<close>
  (\<open>cTCPServer.h\<close>). Their base class \<open>cBaseWorker\<close> is not in the repository: what \<open>continueRunning()\<close>
  answers is a parameter, read from the world. \<open>read\<close> and \<open>write\<close> on a socket are \<open>recv\<close> and \<open>send\<close>
  without flags. \<open>m_socket\<close> is shared between threads without synchronisation: \<open>le_other\<close> is what the
  other threads do to it and to the world before each look at it. Loops take fuel.
\<close>

record 'w legacy_env =
  le_kernel :: "'w kernel"
  le_continue :: "'w \<Rightarrow> bool"
  le_other :: "fd \<Rightarrow> 'w \<Rightarrow> fd \<times> 'w"
  le_cerr :: "string \<Rightarrow> 'w \<Rightarrow> 'w"
  le_inet_pton :: "string \<Rightarrow> int \<times> byte list"
  le_bind :: "fd \<Rightarrow> byte list \<Rightarrow> 'w \<Rightarrow> int \<times> 'w"
  le_listen :: "fd \<Rightarrow> int \<Rightarrow> 'w \<Rightarrow> int \<times> 'w"
  le_accept :: "fd \<Rightarrow> 'w \<Rightarrow> fd \<times> 'w"
  le_receiveCallback :: "(byte list \<Rightarrow> 'w \<Rightarrow> 'w) option"
  le_sendCallback :: "('w \<Rightarrow> byte list option \<times> 'w) option"
  le_detach :: "fd \<Rightarrow> 'w \<Rightarrow> 'w"

section \<open>The client\<close>

record legacy_client =
  lc_serverAddress :: string
  lc_port :: int
  lc_socket :: fd

definition lc_new :: "string \<Rightarrow> int \<Rightarrow> legacy_client" where
  "lc_new serverAddress port = \<lparr>lc_serverAddress = serverAddress, lc_port = port, lc_socket = -1\<rparr>"

definition lc_destroy :: "'w kernel \<Rightarrow> legacy_client \<Rightarrow> 'w \<Rightarrow> 'w" where
  "lc_destroy K c w = (if lc_socket c \<noteq> -1 then snd (k_close K (lc_socket c) w) else w)"

text \<open>\<open>htons\<close> of an \<open>int\<close> keeps its low 16 bits.\<close>

definition lc_preRun :: "'w legacy_env \<Rightarrow> legacy_client \<Rightarrow> 'w \<Rightarrow> bool \<times> legacy_client \<times> 'w" where
  "lc_preRun E c w =
     (case k_socket (le_kernel E) AF_INET SOCK_STREAM 0 w of
        (s, w1) \<Rightarrow>
          let c1 = c\<lparr>lc_socket := s\<rparr> in
          if s < 0 then (False, c1, le_cerr E ''Error opening socket'' w1)
          else
            (case le_inet_pton E (lc_serverAddress c1) of
               (r, addr) \<Rightarrow>
                 if r \<le> 0 then (False, c1, le_cerr E ''Invalid address/ Address not supported'' w1)
                 else
                   (case k_connect (le_kernel E) s (sockaddr_in_bytes (word_of_int (lc_port c1)) addr) w1 of
                      (r', w2) \<Rightarrow>
                        if r' < 0 then (False, c1, le_cerr E ''Connection Failed'' w2) else (True, c1, w2))))"

definition lc_stopTriggered :: "'w kernel \<Rightarrow> legacy_client \<Rightarrow> 'w \<Rightarrow> legacy_client \<times> 'w" where
  "lc_stopTriggered K c w = (c\<lparr>lc_socket := -1\<rparr>, snd (k_close K (lc_socket c) w))"

fun readServerResponses :: "nat \<Rightarrow> 'w legacy_env \<Rightarrow> fd \<Rightarrow> 'w \<Rightarrow> (fd \<times> 'w) option" where
  "readServerResponses 0 E s0 w0 = None"
| "readServerResponses (Suc n) E s0 w0 =
     (case le_other E s0 w0 of
        (s, w) \<Rightarrow>
          if \<not> le_continue E w then Some (s, w)
          else
            (case k_recv (le_kernel E) s 256 w of
               (None, w1) \<Rightarrow> Some (s, w1)
             | (Some [], w1) \<Rightarrow> Some (s, w1)
             | (Some (b # bs), w1) \<Rightarrow>
                 (case le_receiveCallback E of
                    None \<Rightarrow> readServerResponses n E s w1
                  | Some callback \<Rightarrow> readServerResponses n E s (callback (b # bs) w1))))"

text \<open>The buffer of the send callback: null, or the bytes it points to (of the size it reports).\<close>

fun sendDataToServer :: "nat \<Rightarrow> 'w legacy_env \<Rightarrow> fd \<Rightarrow> 'w \<Rightarrow> (fd \<times> 'w) option" where
  "sendDataToServer 0 E s0 w0 = None"
| "sendDataToServer (Suc n) E s0 w0 =
     (case le_other E s0 w0 of
        (s, w) \<Rightarrow>
          if \<not> le_continue E w then Some (s, w)
          else
            (case (case le_sendCallback E of None \<Rightarrow> (None, w) | Some callback \<Rightarrow> callback w) of
               (None, w1) \<Rightarrow> sendDataToServer n E s w1
             | (Some [], w1) \<Rightarrow> sendDataToServer n E s w1
             | (Some (b # bs), w1) \<Rightarrow>
                 (case k_send (le_kernel E) s (b # bs) 0 w1 of
                    (r, w2) \<Rightarrow>
                      if r \<le> 0 then Some (s, le_cerr E ''Error sending data to server'' w2)
                      else sendDataToServer n E s w2)))"

section \<open>The server\<close>

record legacy_server =
  ls_port :: int
  ls_serverSocket :: fd

definition ls_new :: "int \<Rightarrow> legacy_server" where
  "ls_new port = \<lparr>ls_port = port, ls_serverSocket = -1\<rparr>"

definition ls_destroy :: "'w kernel \<Rightarrow> legacy_server \<Rightarrow> 'w \<Rightarrow> 'w" where
  "ls_destroy K s w = (if ls_serverSocket s \<noteq> -1 then snd (k_close K (ls_serverSocket s) w) else w)"

definition ls_preRun :: "'w legacy_env \<Rightarrow> legacy_server \<Rightarrow> 'w \<Rightarrow> bool \<times> legacy_server \<times> 'w" where
  "ls_preRun E s w =
     (case k_socket (le_kernel E) AF_INET SOCK_STREAM 0 w of
        (fd', w1) \<Rightarrow>
          let s1 = s\<lparr>ls_serverSocket := fd'\<rparr> in
          if fd' < 0 then (False, s1, le_cerr E ''Error opening socket'' w1)
          else
            (case le_bind E fd' (ts_sockaddr (word_of_int (ls_port s1)) INADDR_ANY) w1 of
               (r, w2) \<Rightarrow>
                 if r < 0 then (False, s1, le_cerr E ''Error binding socket'' w2)
                 else (True, s1, snd (le_listen E fd' 5 w2))))"

text \<open>Every accepted client gets a detached thread, \<open>le_detach\<close>.\<close>

fun ls_run :: "nat \<Rightarrow> 'w legacy_env \<Rightarrow> fd \<Rightarrow> 'w \<Rightarrow> (fd \<times> 'w) option" where
  "ls_run 0 E s0 w0 = None"
| "ls_run (Suc n) E s0 w0 =
     (case le_other E s0 w0 of
        (s, w) \<Rightarrow>
          if \<not> le_continue E w then Some (s, w)
          else
            (case le_accept E s w of
               (clientSocket, w1) \<Rightarrow>
                 if clientSocket < 0 then
                   ls_run n E s (if le_continue E w1 then le_cerr E ''Error on accept'' w1 else w1)
                 else ls_run n E s (le_detach E clientSocket w1)))"

definition ls_stopTriggered :: "'w kernel \<Rightarrow> legacy_server \<Rightarrow> 'w \<Rightarrow> legacy_server \<times> 'w" where
  "ls_stopTriggered K s w = (s\<lparr>ls_serverSocket := -1\<rparr>, snd (k_close K (ls_serverSocket s) w))"

fun ls_client_loop :: "nat \<Rightarrow> 'w legacy_env \<Rightarrow> fd \<Rightarrow> 'w \<Rightarrow> 'w option" where
  "ls_client_loop 0 E s w = None"
| "ls_client_loop (Suc n) E s w =
     (if \<not> le_continue E w then Some w
      else
        (case k_recv (le_kernel E) s 256 w of
           (None, w1) \<Rightarrow> Some w1
         | (Some [], w1) \<Rightarrow> Some w1
         | (Some (b # bs), w1) \<Rightarrow>
             (case le_receiveCallback E of
                None \<Rightarrow> ls_client_loop n E s w1
              | Some callback \<Rightarrow> ls_client_loop n E s (callback (b # bs) w1))))"

definition ls_handleClient :: "nat \<Rightarrow> 'w legacy_env \<Rightarrow> fd \<Rightarrow> 'w \<Rightarrow> 'w option" where
  "ls_handleClient fuel E clientSocket w =
     map_option (\<lambda>w'. snd (k_close (le_kernel E) clientSocket w')) (ls_client_loop fuel E clientSocket w)"

section \<open>What the second generation repaired\<close>

text \<open>The client's thread gives its callback a prefix of the stream, and with more turns than bytes it
  ends, with the descriptor closed.\<close>

definition le_callback_law ::
  "'w legacy_env \<Rightarrow> ('w \<Rightarrow> fd \<Rightarrow> byte list) \<Rightarrow> ('w \<Rightarrow> byte list) \<Rightarrow> (byte list \<Rightarrow> 'w \<Rightarrow> 'w) \<Rightarrow> bool" where
  "le_callback_law E inbox seen callback \<longleftrightarrow>
     (\<forall>bs w. inbox (callback bs w) = inbox w \<and> seen (callback bs w) = seen w @ bs)
     \<and> (\<forall>s n w. seen (snd (k_recv (le_kernel E) s n w)) = seen w)"

lemma ls_client_loop_delivers:
  assumes "recv_law (le_kernel E) inbox" and "le_callback_law E inbox seen callback"
    and "le_receiveCallback E = Some callback" and "length (inbox w s) < fuel"
  shows "\<exists>w' k. ls_client_loop fuel E s w = Some w' \<and> seen w' = seen w @ take k (inbox w s)"
  using assms(4)
proof (induction fuel arbitrary: w)
  case (Suc n)
  obtain r w1 where r: "k_recv (le_kernel E) s 256 w = (r, w1)" by fastforce
  have seen1: "seen w1 = seen w"
    using assms(2) r unfolding le_callback_law_def by (metis snd_conv)
  note rl = recv_lawD [OF assms(1) r]
  show ?case
  proof (cases "le_continue E w \<and> (\<exists>b bs. r = Some (b # bs))")
    case False
    then have "ls_client_loop (Suc n) E s w = Some (if le_continue E w then w1 else w)"
      using r by (auto split: option.splits list.splits)
    then show ?thesis using seen1 by (intro exI [of _ "if le_continue E w then w1 else w"] exI [of _ 0]) auto
  next
    case True
    then obtain b bs where b: "r = Some (b # bs)" by blast
    then have i: "inbox w s = (b # bs) @ inbox w1 s" using rl by simp
    let ?w2 = "callback (b # bs) w1"
    have w2: "inbox ?w2 = inbox w1" "seen ?w2 = seen w @ b # bs"
      using assms(2) seen1 unfolding le_callback_law_def by simp_all
    then have "length (inbox ?w2 s) < n" using i Suc(2) by simp
    from Suc(1) [OF this] obtain w' k where
      w': "ls_client_loop n E s ?w2 = Some w'" "seen w' = seen ?w2 @ take k (inbox ?w2 s)" by blast
    have "ls_client_loop (Suc n) E s w = Some w'" using True b r assms(3) w'(1) by simp
    moreover have "seen w' = seen w @ take (Suc (length bs) + k) (inbox w s)"
      using w'(2) w2 i by simp
    ultimately show ?thesis by blast
  qed
qed simp

text \<open>A partial \<open>write\<close> loses the rest of the buffer: what the kernel did not take is never sent.\<close>

lemma sendDataToServer_drops_rest:
  assumes "send_law (le_kernel E) wire" and "le_other E s w = (s, w)" and "le_continue E w"
    and "le_sendCallback E = Some callback" and "callback w = (Some (b # bs), w1)" and "wire w1 s = wire w s"
    and "k_send (le_kernel E) s (b # bs) 0 w1 = (r, w2)" and "0 < r"
  shows "sendDataToServer (Suc n) E s w = sendDataToServer n E s w2
    \<and> wire w2 s = wire w s @ take (nat r) (b # bs)"
  using assms send_lawD(2) [OF assms(1,7)] by simp

text \<open>A failed \<open>preRun\<close> leaves its descriptor open, and the next one forgets it.\<close>

lemma lc_preRun_leaks:
  assumes "socket_law (le_kernel E) opened" and "\<And>m w. opened (le_cerr E m w) = opened w"
    and "lc_preRun E c w = (False, c1, w1)" and "0 \<le> lc_socket c1"
    and "lc_preRun E c1 w1 = (ok, c2, w2)"
  shows "lc_socket c1 \<in> opened w2 \<and> lc_socket c2 \<noteq> lc_socket c1"
proof -
  obtain s u where s: "k_socket (le_kernel E) AF_INET SOCK_STREAM 0 w = (s, u)" by fastforce
  obtain s' u' where s': "k_socket (le_kernel E) AF_INET SOCK_STREAM 0 w1 = (s', u')" by fastforce
  note o = socket_law_socket [OF assms(1) s] and o' = socket_law_socket [OF assms(1) s']
  have c1: "lc_socket c1 = s"
    using assms(3) s by (auto simp: lc_preRun_def Let_def split: if_splits prod.splits)
  have ow1: "opened w1 = insert s (opened w)"
    using assms(3,4) s o c1 socket_law_same(3) [OF assms(1)] assms(2)
    by (auto simp: lc_preRun_def Let_def split: if_splits prod.splits)
  have c2: "lc_socket c2 = s'"
    using assms(5) s' by (auto simp: lc_preRun_def Let_def split: if_splits prod.splits)
  have "opened w2 = opened u'"
    using assms(5) s' socket_law_same(3) [OF assms(1)] assms(2)
    by (auto simp: lc_preRun_def Let_def split: if_splits prod.splits)
  moreover have "opened w1 \<subseteq> opened u'"
    using o' by (cases "0 \<le> s'") auto
  moreover have "s' \<noteq> s"
    using o'(1) ow1 assms(4) c1 by (cases "0 \<le> s'") auto
  ultimately show ?thesis using c1 c2 ow1 by auto
qed

end
