(* ===== verification/LegacyTcpThreads.thy ===== *)
theory LegacyTcpThreads
  imports LegacyTcp
begin

text \<open>
  \<open>TCPClient::run\<close> of the first generation (\<open>cTCPClient.h\<close>): the worker thread makes a reader and a sender
  thread and joins them in that order, while another thread may call \<open>stopTriggered\<close>. A step is one
  test of \<open>continueRunning()\<close>, one load of \<open>m_socket\<close>, one callback or one system call. \<open>std::thread\<close>
  is assumed not to throw. The system calls return: a \<open>read\<close> that blocks is a step that is not taken.
\<close>

section \<open>State and steps\<close>

datatype lr_reader = Rd_none | Rd_test | Rd_load | Rd_read fd | Rd_done

datatype lr_sender = Sd_none | Sd_test | Sd_ask | Sd_load "byte list" | Sd_write fd "byte list" | Sd_done

datatype lr_main = Run_entered | Run_reading | Run_joinRead | Run_joinSend | Run_returned

datatype lr_stopper = Stop_idle | Stop_closing fd | Stop_closed

record 'w legacy_run =
  lr_socket :: fd
  lr_world :: 'w
  lr_rd :: lr_reader
  lr_sd :: lr_sender
  lr_main :: lr_main
  lr_stopper :: lr_stopper

definition lr_enter :: "fd \<Rightarrow> 'w \<Rightarrow> 'w legacy_run" where
  "lr_enter s w = \<lparr>lr_socket = s, lr_world = w, lr_rd = Rd_none, lr_sd = Sd_none, lr_main = Run_entered,
                   lr_stopper = Stop_idle\<rparr>"

text \<open>One step of the reader; \<open>None\<close> when it has none to take.\<close>

definition lr_reader_step :: "'w legacy_env \<Rightarrow> 'w legacy_run \<Rightarrow> 'w legacy_run option" where
  "lr_reader_step E s =
     (case lr_rd s of
        Rd_none \<Rightarrow> None
      | Rd_test \<Rightarrow> Some (s\<lparr>lr_rd := (if le_continue E (lr_world s) then Rd_load else Rd_done)\<rparr>)
      | Rd_load \<Rightarrow> Some (s\<lparr>lr_rd := Rd_read (lr_socket s)\<rparr>)
      | Rd_read fd' \<Rightarrow>
          (case k_recv (le_kernel E) fd' 256 (lr_world s) of
             (None, w) \<Rightarrow> Some (s\<lparr>lr_world := w, lr_rd := Rd_done\<rparr>)
           | (Some [], w) \<Rightarrow> Some (s\<lparr>lr_world := w, lr_rd := Rd_done\<rparr>)
           | (Some (b # bs), w) \<Rightarrow>
               Some (s\<lparr>lr_world := (case le_receiveCallback E of None \<Rightarrow> w | Some callback \<Rightarrow> callback (b # bs) w),
                       lr_rd := Rd_test\<rparr>))
      | Rd_done \<Rightarrow> None)"

definition lr_sender_step :: "'w legacy_env \<Rightarrow> 'w legacy_run \<Rightarrow> 'w legacy_run option" where
  "lr_sender_step E s =
     (case lr_sd s of
        Sd_none \<Rightarrow> None
      | Sd_test \<Rightarrow> Some (s\<lparr>lr_sd := (if le_continue E (lr_world s) then Sd_ask else Sd_done)\<rparr>)
      | Sd_ask \<Rightarrow>
          (case (case le_sendCallback E of None \<Rightarrow> (None, lr_world s) | Some callback \<Rightarrow> callback (lr_world s)) of
             (Some (b # bs), w) \<Rightarrow> Some (s\<lparr>lr_world := w, lr_sd := Sd_load (b # bs)\<rparr>)
           | (_, w) \<Rightarrow> Some (s\<lparr>lr_world := w, lr_sd := Sd_test\<rparr>))
      | Sd_load bytes \<Rightarrow> Some (s\<lparr>lr_sd := Sd_write (lr_socket s) bytes\<rparr>)
      | Sd_write fd' bytes \<Rightarrow>
          (case k_send (le_kernel E) fd' bytes 0 (lr_world s) of
             (r, w) \<Rightarrow>
               if r \<le> 0 then Some (s\<lparr>lr_world := le_cerr E ''Error sending data to server'' w, lr_sd := Sd_done\<rparr>)
               else Some (s\<lparr>lr_world := w, lr_sd := Sd_test\<rparr>))
      | Sd_done \<Rightarrow> None)"

text \<open>\<open>run\<close>: both threads are made, then joined one after the other.\<close>

definition lr_run_step :: "'w legacy_run \<Rightarrow> 'w legacy_run option" where
  "lr_run_step s =
     (case lr_main s of
        Run_entered \<Rightarrow> Some (s\<lparr>lr_rd := Rd_test, lr_main := Run_reading\<rparr>)
      | Run_reading \<Rightarrow> Some (s\<lparr>lr_sd := Sd_test, lr_main := Run_joinRead\<rparr>)
      | Run_joinRead \<Rightarrow> if lr_rd s = Rd_done then Some (s\<lparr>lr_main := Run_joinSend\<rparr>) else None
      | Run_joinSend \<Rightarrow> if lr_sd s = Sd_done then Some (s\<lparr>lr_main := Run_returned\<rparr>) else None
      | Run_returned \<Rightarrow> None)"

text \<open>\<open>stopTriggered\<close>, called by another thread: \<open>close(m_socket)\<close>, then \<open>m_socket = -1\<close>.\<close>

definition lr_stop_step :: "'w legacy_env \<Rightarrow> 'w legacy_run \<Rightarrow> 'w legacy_run option" where
  "lr_stop_step E s =
     (case lr_stopper s of
        Stop_idle \<Rightarrow> Some (s\<lparr>lr_stopper := Stop_closing (lr_socket s)\<rparr>)
      | Stop_closing fd' \<Rightarrow>
          Some (s\<lparr>lr_world := snd (k_close (le_kernel E) fd' (lr_world s)), lr_stopper := Stop_closed, lr_socket := -1\<rparr>)
      | Stop_closed \<Rightarrow> None)"

text \<open>The worker's three threads; and with them the stopping thread, and what the rest of the program does
  to the world, which may request the stop but never takes it back.\<close>

inductive lr_thread_step :: "'w legacy_env \<Rightarrow> 'w legacy_run \<Rightarrow> 'w legacy_run \<Rightarrow> bool" for E where
  lr_by_reader: "lr_reader_step E s = Some t \<Longrightarrow> lr_thread_step E s t"
| lr_by_sender: "lr_sender_step E s = Some t \<Longrightarrow> lr_thread_step E s t"
| lr_by_run: "lr_run_step s = Some t \<Longrightarrow> lr_thread_step E s t"

inductive lr_step :: "'w legacy_env \<Rightarrow> 'w legacy_run \<Rightarrow> 'w legacy_run \<Rightarrow> bool" for E where
  lr_thread: "lr_thread_step E s t \<Longrightarrow> lr_step E s t"
| lr_stop: "lr_stop_step E s = Some t \<Longrightarrow> lr_step E s t"
| lr_outside: "(le_continue E w \<longrightarrow> le_continue E (lr_world s)) \<Longrightarrow> lr_step E s (s\<lparr>lr_world := w\<rparr>)"

inductive lr_reachable :: "'w legacy_env \<Rightarrow> 'w legacy_run \<Rightarrow> bool" for E where
  lr_start: "lr_reachable E (lr_enter s w)"
| lr_next: "lr_reachable E s \<Longrightarrow> lr_step E s t \<Longrightarrow> lr_reachable E t"

inductive_cases lr_thread_stepE: "lr_thread_step E s t"
inductive_simps lr_thread_step_simp: "lr_thread_step E s t"

section \<open>The join\<close>

definition lr_inv :: "'w legacy_run \<Rightarrow> bool" where
  "lr_inv s \<longleftrightarrow>
     (case lr_main s of
        Run_entered \<Rightarrow> lr_rd s = Rd_none \<and> lr_sd s = Sd_none
      | Run_reading \<Rightarrow> lr_rd s \<noteq> Rd_none \<and> lr_sd s = Sd_none
      | Run_joinRead \<Rightarrow> lr_rd s \<noteq> Rd_none \<and> lr_sd s \<noteq> Sd_none
      | Run_joinSend \<Rightarrow> lr_rd s = Rd_done \<and> lr_sd s \<noteq> Sd_none
      | Run_returned \<Rightarrow> lr_rd s = Rd_done \<and> lr_sd s = Sd_done)"

lemma lr_thread_step_inv: "lr_thread_step E s t \<Longrightarrow> lr_inv s \<Longrightarrow> lr_inv t"
  by (erule lr_thread_stepE)
     (auto simp: lr_inv_def lr_reader_step_def lr_sender_step_def lr_run_step_def
       split: lr_main.splits lr_reader.splits lr_sender.splits prod.splits option.splits list.splits if_splits)

lemma lr_step_inv: "lr_step E s t \<Longrightarrow> lr_inv s \<Longrightarrow> lr_inv t"
proof (induction rule: lr_step.induct)
  case (lr_stop s t)
  then show ?case
    by (auto simp: lr_stop_step_def lr_inv_def split: lr_stopper.splits lr_main.splits)
next
  case (lr_thread s t)
  then show ?case by (rule lr_thread_step_inv)
next
  case (lr_outside w s)
  then show ?case by (cases "lr_main s") (simp_all add: lr_inv_def)
qed

lemma lr_reachable_inv: "lr_reachable E s \<Longrightarrow> lr_inv s"
proof (induction rule: lr_reachable.induct)
  case (lr_start s w)
  show ?case by (simp add: lr_inv_def lr_enter_def)
next
  case (lr_next s t)
  then show ?case by (blast intro: lr_step_inv)
qed

lemma lr_reader_steps: "lr_rd s \<noteq> Rd_none \<Longrightarrow> lr_rd s \<noteq> Rd_done \<Longrightarrow> \<exists>t. lr_reader_step E s = Some t"
  by (cases "lr_rd s") (simp_all add: lr_reader_step_def split: prod.split option.split list.split)

lemma lr_sender_steps: "lr_sd s \<noteq> Sd_none \<Longrightarrow> lr_sd s \<noteq> Sd_done \<Longrightarrow> \<exists>t. lr_sender_step E s = Some t"
  by (cases "lr_sd s") (simp_all add: lr_sender_step_def split: prod.split option.split list.split)

lemma lr_progress:
  assumes "lr_inv s" and "lr_main s \<noteq> Run_returned"
  shows "\<exists>t. lr_thread_step E s t"
proof (cases "lr_main s")
  case Run_joinRead
  then show ?thesis
    using assms(1) lr_reader_steps [of s E]
    by (cases "lr_rd s = Rd_done") (auto simp: lr_thread_step_simp lr_run_step_def lr_inv_def)
next
  case Run_joinSend
  then show ?thesis
    using assms(1) lr_sender_steps [of s E]
    by (cases "lr_sd s = Sd_done") (auto simp: lr_thread_step_simp lr_run_step_def lr_inv_def)
qed (use assms(2) in \<open>auto simp: lr_thread_step_simp lr_run_step_def\<close>)

section \<open>The end\<close>

text \<open>Nothing the threads call takes a stop request back.\<close>

definition le_sticky :: "'w legacy_env \<Rightarrow> bool" where
  "le_sticky E \<longleftrightarrow>
     (\<forall>w. \<not> le_continue E w \<longrightarrow>
        (\<forall>s n. \<not> le_continue E (snd (k_recv (le_kernel E) s n w)))
        \<and> (\<forall>s bs fl. \<not> le_continue E (snd (k_send (le_kernel E) s bs fl w)))
        \<and> (\<forall>m. \<not> le_continue E (le_cerr E m w))
        \<and> (\<forall>cb bs. le_receiveCallback E = Some cb \<longrightarrow> \<not> le_continue E (cb bs w))
        \<and> (\<forall>cb. le_sendCallback E = Some cb \<longrightarrow> \<not> le_continue E (snd (cb w))))"

text \<open>How many steps are left once the stop is requested.\<close>

fun rd_left :: "lr_reader \<Rightarrow> nat" where
  "rd_left Rd_none = 0" | "rd_left Rd_test = 1" | "rd_left Rd_load = 3" | "rd_left (Rd_read s) = 2" | "rd_left Rd_done = 0"

fun sd_left :: "lr_sender \<Rightarrow> nat" where
  "sd_left Sd_none = 0" | "sd_left Sd_test = 1" | "sd_left Sd_ask = 4" | "sd_left (Sd_load bs) = 3"
| "sd_left (Sd_write s bs) = 2" | "sd_left Sd_done = 0"

fun run_left :: "lr_main \<Rightarrow> nat" where
  "run_left Run_entered = 6" | "run_left Run_reading = 4" | "run_left Run_joinRead = 2"
| "run_left Run_joinSend = 1" | "run_left Run_returned = 0"

definition lr_left :: "'w legacy_run \<Rightarrow> nat" where
  "lr_left s = rd_left (lr_rd s) + sd_left (lr_sd s) + run_left (lr_main s)"

lemma le_stickyD:
  assumes "le_sticky E" and "\<not> le_continue E w"
  shows "k_recv (le_kernel E) s n w = (r, w1) \<Longrightarrow> \<not> le_continue E w1"
    and "k_send (le_kernel E) s bs fl w = (i, w2) \<Longrightarrow> \<not> le_continue E w2"
    and "\<not> le_continue E (le_cerr E m w)"
    and "le_receiveCallback E = Some rcb \<Longrightarrow> \<not> le_continue E (rcb bs w)"
    and "le_sendCallback E = Some scb \<Longrightarrow> scb w = (buffer, w3) \<Longrightarrow> \<not> le_continue E w3"
  using assms unfolding le_sticky_def by (metis snd_conv)+

lemma lr_step_left:
  assumes "lr_thread_step E s t" and "lr_inv s" and "le_sticky E" and "\<not> le_continue E (lr_world s)"
  shows "lr_left t < lr_left s \<and> \<not> le_continue E (lr_world t)"
proof -
  note sticky = le_stickyD [OF assms(3)]
  from assms(1) show ?thesis
  proof (cases rule: lr_thread_step.cases)
    case lr_by_reader
    then show ?thesis
      using assms(4)
      by (cases "lr_rd s")
         (auto simp: lr_reader_step_def lr_left_def dest: sticky(1)
           split: prod.splits option.splits list.splits if_splits, metis sticky(1,4))
  next
    case lr_by_sender
    then show ?thesis
      using assms(4)
      by (cases "lr_sd s")
         (auto simp: lr_sender_step_def lr_left_def dest: sticky(2,5)
           split: prod.splits option.splits list.splits if_splits, metis sticky(2,3))
  next
    case lr_by_run
    then show ?thesis
      using assms(2,4)
      by (cases "lr_main s") (auto simp: lr_run_step_def lr_left_def lr_inv_def split: if_splits)
  qed
qed

lemma lr_steps_left:
  "(lr_thread_step E ^^ n) s t \<Longrightarrow> lr_inv s \<Longrightarrow> le_sticky E \<Longrightarrow> \<not> le_continue E (lr_world s) \<Longrightarrow>
   n + lr_left t \<le> lr_left s \<and> lr_inv t \<and> \<not> le_continue E (lr_world t)"
proof (induction n arbitrary: t)
  case (Suc n)
  then obtain u where u: "(lr_thread_step E ^^ n) s u" "lr_thread_step E u t" by auto
  have i: "n + lr_left u \<le> lr_left s" "lr_inv u" "\<not> le_continue E (lr_world u)"
    using Suc.IH [OF u(1) Suc.prems(2-4)] by simp_all
  show ?case
    using i lr_step_left [OF u(2) i(2) Suc.prems(3) i(3)] lr_thread_step_inv [OF u(2) i(2)] by simp
qed simp

text \<open>After a stop request \<open>run\<close> of the first generation's client ends, whatever the scheduling: from every
  reachable state its threads take at most 9 more steps between them, they can always take one until
  \<open>run\<close> has returned, and once it has both threads have ended.\<close>

theorem lr_run_ends:
  assumes "lr_reachable E s" and "le_sticky E" and "\<not> le_continue E (lr_world s)"
    and "(lr_thread_step E ^^ n) s t"
  shows "n \<le> 9 \<and> (if lr_main t = Run_returned then lr_rd t = Rd_done \<and> lr_sd t = Sd_done
                   else \<exists>u. lr_thread_step E t u)"
proof -
  note inv = lr_reachable_inv [OF assms(1)]
  have l: "n + lr_left t \<le> lr_left s" and t: "lr_inv t"
    using lr_steps_left [OF assms(4) inv assms(2,3)] by simp_all
  have "rd_left (lr_rd s) \<le> 3" by (cases "lr_rd s") simp_all
  moreover have "sd_left (lr_sd s) \<le> 4" by (cases "lr_sd s") simp_all
  ultimately have "lr_left s \<le> 9"
    using inv by (cases "lr_main s") (auto simp: lr_left_def lr_inv_def)
  with l have "n \<le> 9" by simp
  moreover have "if lr_main t = Run_returned then lr_rd t = Rd_done \<and> lr_sd t = Sd_done
      else \<exists>u. lr_thread_step E t u"
    using t lr_progress [OF t, of E] by (auto simp: lr_inv_def)
  ultimately show ?thesis by blast
qed

definition lr_lb_env :: "lb legacy_env" where
  "lr_lb_env =
     \<lparr>le_kernel = lb_kernel, le_continue = (\<lambda>w. lb_open w \<noteq> {}), le_other = Pair, le_cerr = (\<lambda>m w. w),
      le_inet_pton = (\<lambda>a. (1, [127, 0, 0, 1])), le_bind = (\<lambda>s a w. (0, w)), le_listen = (\<lambda>s n w. (0, w)),
      le_accept = (\<lambda>s w. (-1, w)), le_receiveCallback = None,
      le_sendCallback = Some (\<lambda>w. (Some [104, 105], w)), le_detach = (\<lambda>s w. w)\<rparr>"

theorem lr_run_ends_witness:
  "\<exists>s t. lr_reachable lr_lb_env s \<and> lr_rd s = Rd_load \<and> \<not> le_continue lr_lb_env (lr_world s)
     \<and> (lr_thread_step lr_lb_env ^^ 1) s t \<and> lr_rd t = Rd_read 3 \<and> (\<exists>u. lr_thread_step lr_lb_env t u)"
proof -
  let ?w = "(lb_start [] [1, 2])\<lparr>lb_open := {3}\<rparr>"
  let ?a0 = "lr_enter 3 ?w"
  let ?a1 = "?a0\<lparr>lr_rd := Rd_test, lr_main := Run_reading\<rparr>"
  let ?a2 = "?a1\<lparr>lr_rd := Rd_load\<rparr>"
  let ?s = "?a2\<lparr>lr_world := lb_start [] [1, 2]\<rparr>"
  let ?t = "?s\<lparr>lr_rd := Rd_read 3\<rparr>"
  have c: "le_continue lr_lb_env ?w" "\<not> le_continue lr_lb_env (lb_start [] [1, 2])"
    by (simp_all add: lr_lb_env_def lb_start_def)
  have "lr_step lr_lb_env ?a0 ?a1"
    by (intro lr_thread lr_by_run) (simp add: lr_run_step_def lr_enter_def)
  moreover have "lr_step lr_lb_env ?a1 ?a2"
    using c(1) by (intro lr_thread lr_by_reader) (simp add: lr_reader_step_def lr_enter_def)
  moreover have "lr_step lr_lb_env ?a2 ?s"
    by (rule lr_outside) (simp add: c(2))
  ultimately have r: "lr_reachable lr_lb_env ?s"
    by (meson lr_start lr_next)
  have k: "le_sticky lr_lb_env"
    by (auto simp: le_sticky_def lr_lb_env_def lb_defs split: list.splits lb_reply.splits)
  have t: "(lr_thread_step lr_lb_env ^^ 1) ?s ?t"
    by (auto simp: lr_reader_step_def lr_enter_def intro!: lr_by_reader)
  have n: "\<not> le_continue lr_lb_env (lr_world ?s)" using c(2) by simp
  have m: "lr_main ?t \<noteq> Run_returned" "lr_rd ?s = Rd_load" "lr_rd ?t = Rd_read 3"
    by (simp_all add: lr_enter_def)
  show ?thesis
    using lr_run_ends [OF r k n t] r n t m by (intro exI [of _ ?s] exI [of _ ?t]) simp
qed

end
