(* ===== verification/Destruction.thy ===== *)
theory Destruction
  imports TcpClient TcpServer HttpServer HttpsServer HttpsServerV2 GrpcWorker
begin

text \<open>
  Stopping and destroying the workers. \<open>stopThread\<close> is inherited from \<open>cBaseWorker_V2\<close> and calls the
  derived class's \<open>stopTriggered\<close>; the destructors of the two TCP workers, the four HTTP servers and the
  gRPC worker all begin with it, with the default timeout, and ignore its answer. Here is that call on
  a derived object, the contract of its answer as a locale, and the seven destructors. The destructor
  of the base class, which joins the thread, runs after the derived members are gone: \<open>bw_destroy\<close>.
\<close>

section \<open>Stopping a derived worker\<close>

text \<open>\<open>cBaseWorker_V2::stopThread\<close> on an object with a base worker inside: \<open>request\<close> is \<open>requestStop\<close> with the
  derived hook, \<open>base\<close> and \<open>map_base\<close> read and change the base part.\<close>

definition stopThread_of ::
  "('s \<Rightarrow> 's) \<Rightarrow> ('s \<Rightarrow> base_worker) \<Rightarrow> ((base_worker \<Rightarrow> base_worker) \<Rightarrow> 's \<Rightarrow> 's) \<Rightarrow> int \<Rightarrow> 's wake list
     \<Rightarrow> 's \<Rightarrow> (bool \<times> 's) option" where
  "stopThread_of request base map_base waitForStopTimeout wakes s =
     (let s1 = request s in
      if waitForStopTimeout = 0 then Some (True, map_base joinFinishedThread s1)
      else (case cv_wait_for (\<lambda>u. m_state (base u) = St_Stopped) s1 wakes of
              None \<Rightarrow> None
            | Some (False, s2) \<Rightarrow> Some (False, s2)
            | Some (True, s2) \<Rightarrow> Some (True, map_base joinFinishedThread s2)))"

text \<open>On a base worker alone, whose hook does nothing, this is \<open>stopThread\<close> of the base class.\<close>

lemma stopThread_of_base: "stopThread_of (\<lambda>w. snd (requestStop w)) id id t wakes w = stopThread t wakes w"
  by (simp add: stopThread_of_def stopThread_def waitForStopped_def Let_def cong: option.case_cong prod.case_cong bool.case_cong)

text \<open>What the answer means, whatever the other threads do during the wait: a call that waits and answers
  true leaves the thread finished and joined; one that answers false has timed out and leaves it
  unfinished.\<close>

definition stop_answer :: "('s \<Rightarrow> base_worker) \<Rightarrow> 's wake list \<Rightarrow> (bool \<times> 's) option \<Rightarrow> bool" where
  "stop_answer base wakes r \<longleftrightarrow>
     (case r of
        None \<Rightarrow> \<not> (\<exists>x \<in> set wakes. is_timeout x)
      | Some (ok, s) \<Rightarrow>
          (if ok then stopped (base s) \<and> m_thread (base s) = None
           else \<not> stopped (base s) \<and> (\<exists>x \<in> set wakes. is_timeout x)))"

locale stoppable =
  fixes request :: "'s \<Rightarrow> 's"
    and base :: "'s \<Rightarrow> base_worker"
    and map_base :: "(base_worker \<Rightarrow> base_worker) \<Rightarrow> 's \<Rightarrow> 's"
  assumes base_map: "base (map_base f s) = f (base s)"
    and base_request: "base (request s) = snd (requestStop (base s))"
begin

lemma stop_contract:
  assumes "t \<noteq> 0"
  shows "stop_answer base wakes (stopThread_of request base map_base t wakes s)"
proof (cases "cv_wait_for (\<lambda>u. m_state (base u) = St_Stopped) (request s) wakes")
  case None
  then have "\<not> (\<exists>x \<in> set wakes. is_timeout x)"
    using cv_wait_for_returns [of wakes "\<lambda>u. m_state (base u) = St_Stopped" "request s"] by auto
  then show ?thesis using None assms by (simp add: stopThread_of_def stop_answer_def)
next
  case (Some r)
  obtain b s2 where r: "r = (b, s2)" by fastforce
  have c: "cv_wait_for (\<lambda>u. m_state (base u) = St_Stopped) (request s) wakes = Some (b, s2)"
    using Some r by simp
  show ?thesis
  proof (cases b)
    case True
    then have "m_state (base s2) = St_Stopped" using cv_wait_for_result [OF c] by simp
    then show ?thesis
      using c True assms by (simp add: stopThread_of_def stop_answer_def base_map joinFinishedThread_def
          takeFinishedThread_def stopped_def getState_def)
  next
    case False
    then have "m_state (base s2) \<noteq> St_Stopped" using cv_wait_for_result [OF c] by simp
    moreover have "\<exists>x \<in> set wakes. is_timeout x" using cv_wait_for_untimed [OF c] False by blast
    ultimately show ?thesis
      using c False assms by (simp add: stopThread_of_def stop_answer_def stopped_def getState_def)
  qed
qed

text \<open>The request is made before the wait: the flag is set in every state the others see, so long as none
  of them starts the worker again.\<close>

lemma stop_requests: "m_stopRequested (base (request s))"
  by (simp add: base_request requestStop_def Let_def)

lemma stop_flag_stays:
  assumes "stopThread_of request base map_base t wakes s = Some (ok, s')" and "t \<noteq> 0"
    and "\<forall>w \<in> set wakes. \<forall>u. m_stopRequested (base u) \<longrightarrow> m_stopRequested (base (wake_effect w u))"
  shows "m_stopRequested (base s')"
proof -
  obtain b s2 where r: "cv_wait_for (\<lambda>u. m_state (base u) = St_Stopped) (request s) wakes = Some (b, s2)"
    and s': "s' = (if b then map_base joinFinishedThread s2 else s2)"
    using assms(1,2) by (auto simp: stopThread_of_def split: option.splits bool.splits)
  have "m_stopRequested (base s2)"
    by (rule cv_wait_for_invariant [OF r, of "\<lambda>u. m_stopRequested (base u)"])
      (use assms(3) stop_requests in auto)
  then show ?thesis
    unfolding s' by (simp add: base_map joinFinishedThread_def takeFinishedThread_def)
qed

end

text \<open>\<open>cBaseWorker_V2::startThread\<close> on a derived object that does not override it.\<close>

definition startThread_of ::
  "('s \<Rightarrow> base_worker) \<Rightarrow> ((base_worker \<Rightarrow> base_worker) \<Rightarrow> 's \<Rightarrow> 's) \<Rightarrow> nat option \<Rightarrow> int \<Rightarrow> int \<Rightarrow> 's wake list
     \<Rightarrow> 's \<Rightarrow> (bool \<times> 's) option" where
  "startThread_of base map_base created now waitForStartTimeout wakes s =
     (let s1 = map_base joinFinishedThread s in
      case startThread_locked created (base s1) of
        Refused \<Rightarrow> Some (False, s1)
      | Threw b \<Rightarrow> Some (False, map_base (\<lambda>_. setState St_Stopped b) s1)
      | Created b \<Rightarrow>
          (let s2 = map_base (\<lambda>_. resetHeartbeat now b) s1 in
           if waitForStartTimeout = 0 then Some (True, s2)
           else map_option (\<lambda>(ready, u). (ready \<and> m_state (base u) = St_Running, u))
             (cv_wait_for (\<lambda>u. m_state (base u) = St_Running \<or> m_state (base u) = St_Stopped) s2 wakes)))"

lemma startThread_of_base: "startThread_of id id created now t wakes w = startThread created now t wakes w"
  by (simp add: startThread_of_def startThread_def waitForStart_def Let_def split: start_outcome.split)

context stoppable begin

lemma start_of_answer:
  "case startThread_of base map_base created now t wakes s of
     None \<Rightarrow> \<not> (\<exists>x \<in> set wakes. is_timeout x)
   | Some (ok, s') \<Rightarrow> (ok \<longrightarrow> created \<noteq> None \<and> (t \<noteq> 0 \<longrightarrow> m_state (base s') = St_Running))"
proof (cases "startThread_locked created (base (map_base joinFinishedThread s))")
  case (Created b)
  let ?s2 = "map_base (\<lambda>_. resetHeartbeat now b) (map_base joinFinishedThread s)"
  have c: "created \<noteq> None"
    using Created by (auto simp: startThread_locked_def Let_def split: if_splits option.splits)
  show ?thesis
  proof (cases "cv_wait_for (\<lambda>u. m_state (base u) = St_Running \<or> m_state (base u) = St_Stopped) ?s2 wakes")
    case None
    then have "\<not> (\<exists>x \<in> set wakes. is_timeout x)"
      using cv_wait_for_returns [of wakes "\<lambda>u. m_state (base u) = St_Running \<or> m_state (base u) = St_Stopped" ?s2] by auto
    then show ?thesis using None Created c by (simp add: startThread_of_def Let_def)
  qed (use Created c in \<open>auto simp: startThread_of_def Let_def\<close>)
qed (simp_all add: startThread_of_def)

text \<open>A start leaves a worker whose thread is its own.\<close>

lemma start_of_owns:
  assumes "startThread_of base map_base created now t wakes s = Some (ok, s')" and "owns_thread (base s)"
    and "\<forall>x \<in> set wakes. \<forall>u. owns_thread (base u) \<longrightarrow> owns_thread (base (wake_effect x u))"
  shows "owns_thread (base s')"
proof (cases "startThread_locked created (base (map_base joinFinishedThread s))")
  case Refused
  then have "s' = map_base joinFinishedThread s" using assms(1) by (simp add: startThread_of_def)
  then show ?thesis
    using assms(2) by (auto simp: base_map owns_thread_def joinFinishedThread_def takeFinishedThread_def)
next
  case (Threw b)
  then show ?thesis using assms(1) by (auto simp: startThread_of_def Let_def base_map owns_thread_def setState_def)
next
  case (Created b)
  let ?s2 = "map_base (\<lambda>_. resetHeartbeat now b) (map_base joinFinishedThread s)"
  have "m_thread b \<noteq> None"
    using Created by (auto simp: startThread_locked_def Let_def split: if_splits option.splits)
  then have o: "owns_thread (base ?s2)" by (auto simp: base_map owns_thread_def resetHeartbeat_def)
  show ?thesis
  proof (cases "t = 0")
    case True
    then show ?thesis using assms(1) Created o by (simp add: startThread_of_def Let_def)
  next
    case False
    then obtain r where
      "cv_wait_for (\<lambda>u. m_state (base u) = St_Running \<or> m_state (base u) = St_Stopped) ?s2 wakes = Some (r, s')"
      using assms(1) Created by (auto simp: startThread_of_def Let_def)
    then show ?thesis
      by (rule cv_wait_for_invariant [of _ _ _ _ _ "\<lambda>u. owns_thread (base u)"]) (use o assms(3) in auto)
  qed
qed

end

text \<open>\<open>cBaseWorker_V2::stopThreadAndJoin\<close> on a derived object: when the timeout fires it takes the thread and
  joins it, however long that takes.\<close>

definition stopThreadAndJoin_of ::
  "('s \<Rightarrow> 's) \<Rightarrow> ('s \<Rightarrow> base_worker) \<Rightarrow> ((base_worker \<Rightarrow> base_worker) \<Rightarrow> 's \<Rightarrow> 's) \<Rightarrow> int \<Rightarrow> 's wake list
     \<Rightarrow> 's wake list \<Rightarrow> 's \<Rightarrow> 's option" where
  "stopThreadAndJoin_of request base map_base waitForStopTimeout wakes joinWakes s =
     (case stopThread_of request base map_base waitForStopTimeout wakes s of
        None \<Rightarrow> None
      | Some (True, s1) \<Rightarrow> Some s1
      | Some (False, s1) \<Rightarrow>
          (let s2 = map_base (\<lambda>b. snd (takeThread b)) s1 in
           if fst (takeThread (base s1)) = None then Some s2
           else map_option snd (cv_wait_for (\<lambda>u. m_state (base u) = St_Stopped) s2 joinWakes)))"

text \<open>Stopping what has stopped, and stopping for good.\<close>

context stoppable begin

lemma destroy_stopped:
  assumes "map_option snd (stopThread_of request base map_base t wakes s) = Some s'" and "stopped (base s)"
  shows "stopped (base s') \<and> m_thread (base s') = None"
proof -
  have "base (request s) = (base s)\<lparr>m_stopRequested := True\<rparr>"
    using assms(2) base_request [of s] by (simp add: requestStop_def stopped_def getState_def Let_def)
  then show ?thesis
    using assms by (auto simp: stopThread_of_def Let_def stopped_def getState_def base_map
        joinFinishedThread_def takeFinishedThread_def split: if_splits)
qed

lemma stop_and_join_joins:
  assumes "stopThreadAndJoin_of request base map_base t wakes joins s = Some s'" and "t \<noteq> 0"
    and "owns_thread (base s)"
    and "\<forall>x \<in> set wakes. \<forall>u. owns_thread (base u) \<longrightarrow> owns_thread (base (wake_effect x u))"
    and "\<forall>x \<in> set joins. \<not> is_timeout x
      \<and> (\<forall>u. m_thread (base u) = None \<longrightarrow> m_thread (base (wake_effect x u)) = None)"
  shows "stopped (base s') \<and> m_thread (base s') = None"
proof -
  have o: "owns_thread (base (request s))"
    using assms(3) by (auto simp: base_request owns_thread_def requestStop_def Let_def)
  obtain ok s1 where r: "stopThread_of request base map_base t wakes s = Some (ok, s1)"
    using assms(1) by (auto simp: stopThreadAndJoin_of_def split: option.splits)
  show ?thesis
  proof (cases ok)
    case True
    then show ?thesis
      using stop_contract [OF assms(2), of wakes s] r assms(1)
      by (simp add: stop_answer_def stopThreadAndJoin_of_def)
  next
    case False
    then have w: "cv_wait_for (\<lambda>u. m_state (base u) = St_Stopped) (request s) wakes = Some (False, s1)"
      using r assms(2) by (auto simp: stopThread_of_def Let_def split: option.splits bool.splits)
    have "owns_thread (base s1)"
      by (rule cv_wait_for_invariant [OF w, of "\<lambda>u. owns_thread (base u)"]) (use o assms(4) in auto)
    moreover have "\<not> m_state (base s1) = St_Stopped" using cv_wait_for_result [OF w] by simp
    ultimately have m: "m_thread (base s1) \<noteq> None" by (auto simp: owns_thread_def)
    let ?s2 = "map_base (\<lambda>b. snd (takeThread b)) s1"
    obtain b where j: "cv_wait_for (\<lambda>u. m_state (base u) = St_Stopped) ?s2 joins = Some (b, s')"
      using assms(1) r False m by (auto simp: stopThreadAndJoin_of_def takeThread_def Let_def)
    have "m_thread (base s') = None"
      by (rule cv_wait_for_invariant [OF j, of "\<lambda>u. m_thread (base u) = None"])
         (use m assms(5) in \<open>auto simp: base_map takeThread_def\<close>)
    moreover have "m_state (base s') = St_Stopped"
      using cv_wait_for_untimed [OF j] assms(5) by blast
    ultimately show ?thesis by (simp add: stopped_def getState_def)
  qed
qed

end

section \<open>The seven workers\<close>

definition tc_stopThread ::
  "'w kernel \<Rightarrow> int \<Rightarrow> (tcp_client \<times> 'w) wake list \<Rightarrow> tcp_client \<times> 'w \<Rightarrow> (bool \<times> tcp_client \<times> 'w) option" where
  "tc_stopThread K =
     stopThread_of (\<lambda>(c, w). tc_requestStop K c w) (\<lambda>(c, w). tc_base c) (\<lambda>f (c, w). (tc_base_update f c, w))"

definition ts_stopThread ::
  "'w kernel \<Rightarrow> int \<Rightarrow> (tcp_server \<times> 'w) wake list \<Rightarrow> tcp_server \<times> 'w \<Rightarrow> (bool \<times> tcp_server \<times> 'w) option" where
  "ts_stopThread K =
     stopThread_of (\<lambda>(s, w). ts_requestStop K s w) (\<lambda>(s, w). ts_base s) (\<lambda>f (s, w). (ts_base_update f s, w))"

interpretation tc_stop: stoppable "\<lambda>(c, w). tc_requestStop K c w" "\<lambda>(c, w). tc_base c"
  "\<lambda>f (c, w). (tc_base_update f c, w)" for K :: "'w kernel"
  by unfold_locales (auto simp: tc_requestStop_def tc_stopTriggered_def tc_closeSocket_def clearOutboundQueue_def
      Let_def split: prod.splits)

interpretation ts_stop: stoppable "\<lambda>(s, w). ts_requestStop K s w" "\<lambda>(s, w). ts_base s"
  "\<lambda>f (s, w). (ts_base_update f s, w)" for K :: "'w kernel"
  by unfold_locales (auto simp: ts_requestStop_def ts_stopTriggered_def ts_closeServerSocket_def
      ts_closeAllClientSockets_def Let_def split: prod.splits)

interpretation ht_stop: stoppable ht_requestStop hb_base hb_base_update
  by unfold_locales (auto simp: ht_requestStop_def ht_stopTriggered_def ht_resolveStartIfPending_def split: prod.splits)

interpretation hs_stop: stoppable hs_requestStop hz_base hz_base_update
  by unfold_locales (auto simp: hs_requestStop_def hs_stopTriggered_def hs_resolveStartIfPending_def split: prod.splits)

interpretation v2_stop: stoppable "v2_requestStop proto" v2_base v2_base_update for proto
  by unfold_locales (auto simp: v2_requestStop_def v2_stopTriggered_def v2_resolveStartIfPending_def asio_post_def
      split: prod.splits option.splits)

interpretation gw_stop: stoppable gw_requestStop gw_base gw_base_update
  by unfold_locales (auto simp: gw_requestStop_def gw_stopTriggered_def Let_def split: prod.splits)

definition ht_stopThread :: "int \<Rightarrow> http_server wake list \<Rightarrow> http_server \<Rightarrow> (bool \<times> http_server) option" where
  "ht_stopThread = stopThread_of ht_requestStop hb_base hb_base_update"

definition hs_stopThread :: "int \<Rightarrow> https_server wake list \<Rightarrow> https_server \<Rightarrow> (bool \<times> https_server) option" where
  "hs_stopThread = stopThread_of hs_requestStop hz_base hz_base_update"

definition v2_stopThread :: "int \<Rightarrow> http_server_v2 wake list \<Rightarrow> http_server_v2 \<Rightarrow> (bool \<times> http_server_v2) option" where
  "v2_stopThread = stopThread_of (v2_requestStop ''HTTP'') v2_base v2_base_update"

definition w2_stopThread :: "int \<Rightarrow> https_server_v2 wake list \<Rightarrow> https_server_v2 \<Rightarrow> (bool \<times> https_server_v2) option" where
  "w2_stopThread = stopThread_of (v2_requestStop ''HTTPS'') v2_base v2_base_update"

definition gw_stopThread :: "int \<Rightarrow> 'r grpc_worker wake list \<Rightarrow> 'r grpc_worker \<Rightarrow> (bool \<times> 'r grpc_worker) option" where
  "gw_stopThread = stopThread_of gw_requestStop gw_base gw_base_update"

section \<open>The destructors\<close>

text \<open>The bodies, up to the point where the derived members are destroyed. \<open>~TCPClient_V2\<close> and
  \<open>~TCPServer_V2\<close> have more to do.\<close>

definition tc_destroy ::
  "'w kernel \<Rightarrow> (tcp_client \<times> 'w) wake list \<Rightarrow> tcp_client \<times> 'w \<Rightarrow> (tcp_client \<times> 'w) option" where
  "tc_destroy K wakes cw =
     (case tc_stopThread K kDefaultWaitTimeout wakes cw of
        None \<Rightarrow> None
      | Some (_, c1, w1) \<Rightarrow>
          (case tc_closeSocket K c1 w1 of (c2, w2) \<Rightarrow> Some (clearOutboundQueue c2, w2)))"

definition ts_destroy ::
  "'w ts_env \<Rightarrow> (tcp_server \<times> 'w) wake list \<Rightarrow> tcp_server \<times> 'w \<Rightarrow> (tcp_server \<times> 'w) option" where
  "ts_destroy E wakes sw =
     (case ts_stopThread (se_kernel E) kDefaultWaitTimeout wakes sw of
        None \<Rightarrow> None
      | Some (_, s1, w1) \<Rightarrow>
          (case ts_closeServerSocket (se_kernel E) s1 w1 of (s2, w2) \<Rightarrow> Some (joinAndClearAllClients E s2 w2)))"

definition ht_destroy :: "http_server wake list \<Rightarrow> http_server \<Rightarrow> http_server option" where
  "ht_destroy wakes s = map_option snd (ht_stopThread kDefaultWaitTimeout wakes s)"

definition hs_destroy :: "https_server wake list \<Rightarrow> https_server \<Rightarrow> https_server option" where
  "hs_destroy wakes s = map_option snd (hs_stopThread kDefaultWaitTimeout wakes s)"

definition v2_destroy :: "http_server_v2 wake list \<Rightarrow> http_server_v2 \<Rightarrow> http_server_v2 option" where
  "v2_destroy wakes s = map_option snd (v2_stopThread kDefaultWaitTimeout wakes s)"

definition w2_destroy :: "https_server_v2 wake list \<Rightarrow> https_server_v2 \<Rightarrow> https_server_v2 option" where
  "w2_destroy wakes s = map_option snd (w2_stopThread kDefaultWaitTimeout wakes s)"

definition gw_destroy :: "'r grpc_worker wake list \<Rightarrow> 'r grpc_worker \<Rightarrow> 'r grpc_worker option" where
  "gw_destroy wakes s = map_option snd (gw_stopThread kDefaultWaitTimeout wakes s)"

section \<open>Properties\<close>

text \<open>What the body of a destructor leaves: the thread finished and joined, or, when the timeout fired, a
  thread that is still in its function while the members it uses are destroyed.\<close>

definition destroyed :: "('s \<Rightarrow> base_worker) \<Rightarrow> 's wake list \<Rightarrow> 's option \<Rightarrow> bool" where
  "destroyed base wakes r \<longleftrightarrow>
     (case r of
        None \<Rightarrow> \<not> (\<exists>x \<in> set wakes. is_timeout x)
      | Some s \<Rightarrow> if stopped (base s) then m_thread (base s) = None else (\<exists>x \<in> set wakes. is_timeout x))"

lemma stop_answer_destroyed: "stop_answer base wakes r \<Longrightarrow> destroyed base wakes (map_option snd r)"
  by (auto simp: stop_answer_def destroyed_def split: option.splits if_splits)

lemma default_wait [simp]: "kDefaultWaitTimeout \<noteq> 0"
  by (simp add: kDefaultWaitTimeout_def)

lemma tc_destroy_destroyed: "destroyed (\<lambda>(c, w). tc_base c) wakes (tc_destroy K wakes cw)"
  using tc_stop.stop_contract [OF default_wait, where K = K and wakes = wakes and s = cw]
  by (auto simp: tc_destroy_def tc_stopThread_def stop_answer_def destroyed_def tc_closeSocket_def
      clearOutboundQueue_def Let_def split: option.splits prod.splits if_splits)


text \<open>The second way: a server in the middle of a request that outlasts the timeout is destroyed under its
  own thread. The base class joins that thread only afterwards.\<close>

lemma ht_destroy_under_thread:
  assumes "m_state (hb_base s) = St_Running" and "m_thread (hb_base s) = Some t"
  shows "\<exists>s'. ht_destroy [TimedOut id] s = Some s' \<and> m_thread (hb_base s') = Some t \<and> \<not> stopped (hb_base s')
    \<and> bw_destroy [] (hb_base s') = None"
proof -
  have r: "hb_base (ht_requestStop s) = (hb_base s)\<lparr>m_stopRequested := True, m_state := St_Stopping\<rparr>"
    using assms(1) ht_stop.base_request [of s] by (simp add: requestStop_def Let_def)
  then have "ht_destroy [TimedOut id] s = Some (ht_requestStop s)"
    by (simp add: ht_destroy_def ht_stopThread_def stopThread_of_def kDefaultWaitTimeout_def Let_def)
  then show ?thesis
    using r assms(2) by (simp add: stopped_def getState_def bw_destroy_def joinThread_def takeThread_def
        requestStop_def Let_def)
qed

end
