(* ===== verification/TcpExchange.thy ===== *)
theory TcpExchange
  imports TcpSyncClientProofs TcpClientThreads TcpServerProofs
begin

text \<open>
  A client and a server of the library on the two ends of a connection: the bytes that \<open>cTCPSyncClient_V2\<close>
  or \<open>TCPClient_V2\<close> puts on it, read by the thread of a \<open>TCPServer_V2\<close> session. The network is the hypothesis
  that what the server's socket has to give is what the client's connection has taken, or a part of it
  from its start; that is what TCP promises.
\<close>

section \<open>A session that nothing disturbs\<close>

text \<open>What other threads do leaves the session and the server running; the callback does not throw; the
  connection fails with nothing but a signal, and reports its end only after its last byte.\<close>

definition session_open :: "nat \<Rightarrow> fd \<Rightarrow> tcp_server \<Rightarrow> bool" where
  "session_open i x s \<longleftrightarrow>
     continueRunning (ts_base s) \<and> 0 \<le> x \<and> (case ts_session i s of None \<Rightarrow> False | Some c \<Rightarrow> cs_socket c = x)"

definition undisturbed_law :: "'w ts_env \<Rightarrow> ('w \<Rightarrow> fd \<Rightarrow> byte list) \<Rightarrow> nat \<Rightarrow> fd \<Rightarrow> bool" where
  "undisturbed_law E inbox i x \<longleftrightarrow>
     (\<forall>s w s' w'. se_other E s w = (s', w') \<longrightarrow> session_open i x s \<longrightarrow> session_open i x s') \<and>
     (\<forall>cb bs info w r w'. se_dataCallback E = Some cb \<longrightarrow> cb bs info w = (r, w') \<longrightarrow> r = Inr ()) \<and>
     (\<forall>n w r w'. k_recv (se_kernel E) x n w = (r, w') \<longrightarrow>
        (r = None \<longrightarrow> k_errno (se_kernel E) w' = EINTR) \<and> (r = Some [] \<longrightarrow> 0 < n \<longrightarrow> inbox w' x = []))"

lemma undisturbed_lawD:
  assumes "undisturbed_law E inbox i x"
  shows "se_other E s w = (s', w') \<Longrightarrow> session_open i x s \<Longrightarrow> session_open i x s'"
    and "se_dataCallback E = Some cb \<Longrightarrow> cb bs info w = (r, w') \<Longrightarrow> r = Inr ()"
    and "k_recv (se_kernel E) x n w = (None, w') \<Longrightarrow> k_errno (se_kernel E) w' = EINTR"
    and "k_recv (se_kernel E) x n w = (Some [], w') \<Longrightarrow> 0 < n \<Longrightarrow> inbox w' x = []"
  using assms unfolding undisturbed_law_def by blast+

lemma session_open_heartbeat [simp]: "session_open i x (ts_updateHeartbeat E s w) = session_open i x s"
  by (simp add: session_open_def) (simp add: ts_updateHeartbeat_def updateHeartbeat_def continueRunning_def stopRequested_def)

lemma ts_client_loop_all:
  assumes recv: "recv_law (se_kernel E) inbox" and eintr: "eintr_law (se_kernel E) eintr"
    and law: "handler_law E inbox eintr seen" and cb: "se_dataCallback E = Some cb"
    and calm: "undisturbed_law E inbox i x"
  shows "length (inbox w x) + eintr w < n \<Longrightarrow> session_open i x s \<Longrightarrow>
    \<exists>s' w'. ts_client_loop n E i s w = Some (s', w') \<and> seen w' = seen w @ inbox w x \<and> session_open i x s'"
proof (induction n arbitrary: s w)
  case (Suc n)
  let ?K = "se_kernel E"
  obtain s1 w1 where o: "se_other E s w = (s1, w1)" by fastforce
  note ol = handler_lawD(1) [OF law o]
  have open1: "session_open i x s1" using undisturbed_lawD(1) [OF calm o] Suc.prems(2) .
  then obtain c where c: "continueRunning (ts_base s1)" "ts_session i s1 = Some c" "cs_socket c = x" "0 \<le> x"
    by (auto simp: session_open_def split: option.splits)
  obtain t u where m: "se_other E s1 w1 = (t, u)" by fastforce
  note ml = handler_lawD(1) [OF law m]
  have open2: "session_open i x t" using undisturbed_lawD(1) [OF calm m] open1 .
  obtain a w2 where r: "k_recv ?K x ts_kReadBufferSize u = (a, w2)" by fastforce
  note l = recv_lawD [OF recv r] and e = eintr_law_recv [OF eintr r]
  have sn: "seen w2 = seen w" using handler_lawD(3) [OF law, of x ts_kReadBufferSize u] r ol ml by simp
  consider "a = None" | "a = Some []" | b bs where "a = Some (b # bs)" by (metis list.exhaust option.exhaust)
  then show ?case
  proof cases
    case 1
    have k: "k_errno ?K w2 = EINTR" using undisturbed_lawD(3) [OF calm] r 1 by simp
    have "length (inbox w2 x) + eintr w2 < n" "inbox w2 x = inbox w x"
      using e(2) [OF 1 k] l 1 ol ml Suc.prems(1) by auto
    then have "\<exists>s' w'. ts_client_loop n E i t w2 = Some (s', w') \<and> seen w' = seen w @ inbox w x \<and> session_open i x s'"
      using Suc.IH [of w2 t] open2 sn by simp
    then show ?thesis using o m r c 1 k by simp
  next
    case 2
    have "inbox w x = []" using l 2 ol ml undisturbed_lawD(4) [OF calm] r by (simp add: ts_kReadBufferSize_def)
    then show ?thesis using o m r c 2 sn open2 by simp
  next
    case (3 b bs)
    obtain q w3 where q: "cb (b # bs) (cs_info c) w2 = (q, w3)" by fastforce
    then have "q = Inr ()" using undisturbed_lawD(2) [OF calm cb] by simp
    note k = handler_lawD(2) [OF law cb q]
    have in2: "inbox w x = (b # bs) @ inbox w3 x" using l 3 ol ml k by simp
    let ?s2 = "ts_updateHeartbeat E t w2"
    have "length (inbox w3 x) + eintr w3 < n" using in2 k e(1) ol ml Suc.prems(1) by simp
    then obtain s' w' where "ts_client_loop n E i ?s2 w3 = Some (s', w')"
      "seen w' = seen w3 @ inbox w3 x" "session_open i x s'"
      using Suc.IH [of w3 ?s2] open2 by auto
    moreover have "ts_client_loop (Suc n) E i s w = ts_client_loop n E i ?s2 w3"
      using o m r c 3 q cb \<open>q = Inr ()\<close> by (simp add: Let_def split: unit.splits)
    ultimately show ?thesis using in2 k sn by simp
  qed
qed simp

lemma session_open_socket:
  assumes "session_open i x s"
  obtains c where "ts_session i s = Some c" "cs_socket c = x"
  using assms by (auto simp: session_open_def split: option.splits)

lemma handleClient_seen:
  assumes law: "handler_law E inbox eintr seen" and l: "ts_client_loop n E i s w = Some (s1, w1)"
  shows "\<exists>s' w'. handleClient n E i s w = Some (s', w') \<and> seen w' = seen w1
    \<and> (\<forall>d \<in> set (ts_all s'). cs_id d = i \<longrightarrow> cs_socket d < 0 \<and> cs_completed d)"
proof -
  obtain s2 w2 where cl: "ts_closeSession (se_kernel E) i s1 w1 = (s2, w2)" by fastforce
  have "seen w2 = seen w1"
    using cl handler_lawD(4) [OF law] by (auto simp: ts_closeSession_def split: option.splits)
  moreover have "\<forall>d \<in> set (ts_all s2). cs_id d = i \<longrightarrow> cs_socket d < 0"
    using ts_closeSession_closed [OF cl] by blast
  moreover have "handleClient n E i s w = Some (ts_update i (cs_completed_update (\<lambda>_. True)) s2, w2)"
    using l cl by (simp add: handleClient_def)
  ultimately show ?thesis using cs_update_completed [of "ts_all s2" i] unfolding ts_all_update [symmetric] by metis
qed

section \<open>The synchronous client against the server\<close>

lemma sy_sendAll_success:
  assumes law: "send_law K wire" and ok: "sy_sendAll fuel K (Some payload) (length payload) c w = Some (IO_Success, c', w')"
  shows "wire w' (sy_socket c) = wire w (sy_socket c) @ payload"
proof (cases "payload = []")
  case False
  then have "sy_isConnected c" "sy_send_loop fuel K payload 0 (clearLastError c) w = Some (IO_Success, c', w')"
    using ok by (auto simp: sy_sendAll_def split: if_splits)
  from sy_send_loop_wire [OF law this(2)] show ?thesis by auto
qed (use ok in \<open>auto simp: sy_sendAll_def\<close>)

text \<open>A payload that \<open>sendAll\<close> of the synchronous client has answered \<open>Success\<close> for reaches the data callback
  of the server's session whole, in order and once, whatever the two kernels split or interrupt, when
  the network hands the session what the client's connection took since the call and nothing disturbs
  the session; the session then ends closed and completed.\<close>

theorem sync_payload_reaches_callback:
  assumes "send_law K wire"
    and "sy_sendAll n K (Some payload) (length payload) c w = Some (IO_Success, c', w')"
    and network: "wire w (sy_socket c) @ inbox u x = wire w' (sy_socket c)"
    and "recv_law (se_kernel E) inbox" and "eintr_law (se_kernel E) eintr"
    and "handler_law E inbox eintr seen" and "se_dataCallback E = Some cb"
    and "undisturbed_law E inbox i x" and "session_open i x s"
    and "length payload + eintr u < fuel"
  shows "\<exists>s' u'. handleClient fuel E i s u = Some (s', u') \<and> seen u' = seen u @ payload
    \<and> (\<forall>d \<in> set (ts_all s'). cs_id d = i \<longrightarrow> cs_socket d < 0 \<and> cs_completed d)"
proof -
  have "inbox u x = payload" using sy_sendAll_success [OF assms(1,2)] network by simp
  with ts_client_loop_all [OF assms(4-8), of u fuel s] assms(9,10) handleClient_seen [OF assms(6)]
  show ?thesis by metis
qed

section \<open>The threaded client against the server\<close>

definition cl_drained :: "cl_sys \<Rightarrow> bool" where
  "cl_drained s \<longleftrightarrow> 0 \<le> cl_socket s \<and> cl_queue s = [] \<and> cl_writer s = Wr_check"


section \<open>Instances\<close>

text \<open>A network that fails with signals only: an entry of the script is either a signal or the size of the
  next chunk.\<close>

definition calm_recv :: "fd \<Rightarrow> nat \<Rightarrow> lb \<Rightarrow> byte list option \<times> lb" where
  "calm_recv x n w =
     (case lb_pop w of
        (LbUpTo m, w') \<Rightarrow>
          (Some (take (min (Suc m) n) (lb_inbox w')), w'\<lparr>lb_inbox := drop (min (Suc m) n) (lb_inbox w')\<rparr>)
      | (_, w') \<Rightarrow> (None, w'\<lparr>lb_errno := EINTR\<rparr>))"

definition calm_env :: "lb ts_env" where
  "calm_env = ts_lb_handler\<lparr>se_kernel := lb_kernel\<lparr>k_recv := calm_recv\<rparr>\<rparr>"

abbreviation calm_turns :: "lb \<Rightarrow> nat" where
  "calm_turns w \<equiv> length (lb_script w)"

lemmas calm_defs = calm_env_def calm_recv_def ts_lb_handler_def ts_lb_env_def lb_defs

lemma calm_recv_law: "recv_law (se_kernel calm_env) (\<lambda>w s. lb_inbox w)"
  by (auto simp: recv_law_def calm_defs split: list.splits lb_reply.splits)

lemma calm_eintr_law: "eintr_law (se_kernel calm_env) calm_turns"
  by (auto simp: eintr_law_def calm_defs Let_def split: list.splits lb_reply.splits)

lemma calm_handler_law: "handler_law calm_env (\<lambda>w s. lb_inbox w) calm_turns (\<lambda>w. lb_wire w 0)"
  by (auto simp: handler_law_def calm_defs lb_wire_def ts_closeSocketValue_def ts_calm_def cs_calm_def
      intro!: list_all2_refl split: list.splits lb_reply.splits)

lemma calm_undisturbed: "undisturbed_law calm_env (\<lambda>w s. lb_inbox w) i x"
  by (auto simp: undisturbed_law_def calm_defs split: list.splits lb_reply.splits)

lemma calm_callback: "se_dataCallback calm_env = Some (\<lambda>bs info w. (Inr (), w\<lparr>lb_sent := lb_sent w @ [(0, bs)]\<rparr>))"
  by (simp add: calm_env_def ts_lb_handler_def)

text \<open>A running server with one session, number 0, on descriptor 4.\<close>

definition calm_server :: tcp_server where
  "calm_server = ts_lb_session\<lparr>ts_base := setState St_Running (bw_new ''s'' 0)\<rparr>"

lemma calm_server_session: "\<exists>c. ts_session 0 calm_server = Some c \<and> cs_socket c = 4"
  by (simp add: calm_server_def ts_lb_session_def ts_serve_def startClientSession_def ts_lb_env_def ts_lb_server_def
      ts_new_def ts_session_def Let_def)

lemma calm_server_open: "session_open 0 4 calm_server"
  using calm_server_session
  by (auto simp: session_open_def) (simp add: calm_server_def continueRunning_def stopRequested_def setState_def bw_new_def)

abbreviation calm_world :: "byte list \<Rightarrow> lb" where
  "calm_world bs \<equiv> lb_start [LbUpTo 1, LbFail EINTR] bs"

theorem sync_payload_reaches_callback_witness:
  "\<exists>s' u'. handleClient 6 calm_env 0 calm_server (calm_world [5, 6, 7]) = Some (s', u')
     \<and> lb_wire u' 0 = lb_wire (calm_world [5, 6, 7]) 0 @ [5, 6, 7]
     \<and> (\<forall>d \<in> set (ts_all s'). cs_id d = 0 \<longrightarrow> cs_socket d < 0 \<and> cs_completed d)"
proof -
  let ?w = "lb_start [LbUpTo 1, LbFail EINTR, LbUpTo 1, LbUpTo 1] []"
  let ?w' = "?w\<lparr>lb_script := [], lb_errno := EINTR, lb_sent := [(3, [5]), (3, [6]), (3, [7])]\<rparr>"
  have "sy_sendAll 6 lb_kernel (Some [5, 6, 7]) (length [5::byte, 6, 7]) sy_lb_client ?w
      = Some (IO_Success, clearLastError sy_lb_client, ?w')"
    by (simp add: sy_sendAll_def sy_lb_client_def sy_new_def sy_isConnected_def clearLastError_def lb_defs EINTR_def eval_nat_numeral)
  moreover have "lb_wire ?w (sy_socket sy_lb_client) @ lb_inbox (calm_world [5, 6, 7]) = lb_wire ?w' (sy_socket sy_lb_client)"
    by (simp add: lb_wire_def lb_start_def sy_lb_client_def)
  ultimately show ?thesis
    by (rule sync_payload_reaches_callback [OF lb_send_law _ _ calm_recv_law calm_eintr_law calm_handler_law
          calm_callback calm_undisturbed calm_server_open]) (simp add: lb_start_def)
qed

text \<open>A client that has sent the payload \<open>[1]\<close> and drained its queue.\<close>

lemma cl_drained_reachable:
  "\<exists>s. cl_reachable s \<and> cl_drained s \<and> cl_wire s = [1] \<and> cl_accepted s = [[1]] \<and> cl_kept s = [[1]]"
proof -
  have t: "cl_writer cl_taken = Wr_send [1] 1" "\<not> 1 < length [1::byte]" by (simp_all add: cl_taken_def)
  note r = cl_reach_step [OF cl_taken_reachable cl_send_done [OF t]]
  show ?thesis by (intro exI conjI, rule r) (simp_all add: cl_taken_def cl_drained_def cl_accepted_def)
qed


end
