(* ===== verification/HttpServerTypes.thy ===== *)
theory HttpServerTypes
  imports HttpServerProofs
begin

text \<open>
  The well-formedness of a \<open>cHTTPServer\<close> object, the part of its type that the class keeps and C++ does not
  state: what holds of the fields between any two critical sections, whoever calls what. \<open>ht_op\<close> are the
  operations of the class, public or called by the library and the base worker; what other threads do
  during a call that waits is a list of operations itself.
\<close>

section \<open>Well-formed routes, configurations and start latches\<close>

definition method_wf :: "string \<Rightarrow> bool" where
  "method_wf m \<longleftrightarrow> m \<noteq> [] \<and> normalizeMethod m = m"

definition routes_wf :: "http_server \<Rightarrow> bool" where
  "routes_wf s \<longleftrightarrow>
     ht_routes_ok s \<and>
     (\<forall>r \<in> set (hi_resources s). rt_pathRegex r \<noteq> [] \<and> method_wf (rt_method r)) \<and>
     (\<forall>r \<in> set (hi_defaultResources s). rt_pathRegex r = [] \<and> method_wf (rt_method r))"

definition server_wf :: "lib_server \<Rightarrow> bool" where
  "server_wf sv \<longleftrightarrow>
     1 \<le> sv_thread_pool_size sv \<and> 0 \<le> sv_timeout_request sv \<and> 0 \<le> sv_timeout_content sv \<and>
     1 \<le> sv_max_request_streambuf_size sv \<and>
     (\<forall>p m i. sv_resource sv p m = Some i \<longrightarrow>
        p \<noteq> [] \<and> method_wf m \<and> \<not> in_default i \<and> in_errorHandler i = sv_on_error sv) \<and>
     (\<forall>m i. sv_default_resource sv m = Some i \<longrightarrow>
        method_wf m \<and> in_default i \<and> in_errorHandler i = sv_on_error sv)"

definition latch_wf :: "http_server \<Rightarrow> bool" where
  "latch_wf s \<longleftrightarrow>
     (hi_startSucceeded s \<longrightarrow> hi_startResolved s) \<and> (\<not> hi_startSucceeded s \<longrightarrow> hi_listeningPort s = 0)"

definition http_server_wf :: "http_server \<Rightarrow> bool" where
  "http_server_wf s \<longleftrightarrow>
     routes_wf s \<and> ht_settings_ok s \<and> latch_wf s \<and>
     (case hi_server s of None \<Rightarrow> True | Some sv \<Rightarrow> server_wf sv)"

section \<open>The operations\<close>

datatype ht_op =
    Do_addResource string string "td_RequestHandler option"
  | Do_setDefaultResource string "td_RequestHandler option"
  | Do_set ht_setting
  | Do_preRun "cpp_exn option"
  | Do_run "u16 option" int "ht_op list" "cpp_exn option"
  | Do_handleRequest installed int "lib_request option" "string option"
  | Do_handleError "td_ErrorHandler option" int "lib_request option" int string
  | Do_requestStop
  | Do_stopTriggered
  | Do_startThread "nat option" int int "(bool \<times> ht_op list) list"
  | Do_base base_worker

text \<open>\<open>Do_base\<close> is whatever the base worker does to its own part of the object; a wake-up of
  \<open>Do_startThread\<close> carries what other threads have done, and whether the timeout is over.\<close>

abbreviation one_by_one :: "('s \<Rightarrow> 's) list \<Rightarrow> 's \<Rightarrow> 's" where
  "one_by_one \<equiv> fold (\<lambda>f. f)"

fun ht_do :: "(u16 \<Rightarrow> string) \<Rightarrow> ht_op \<Rightarrow> http_server \<Rightarrow> http_server" where
  "ht_do sc (Do_addResource p m h) s = snd (addResource p m h s)"
| "ht_do sc (Do_setDefaultResource m h) s = snd (setDefaultResource m h s)"
| "ht_do sc (Do_set x) s = ht_set x s"
| "ht_do sc (Do_preRun thrown) s = snd (ht_preRun thrown s)"
| "ht_do sc (Do_run port now ops thrown) s =
     snd (ht_run \<lparr>ls_port = port, ls_meanwhile = one_by_one (map (\<lambda>x. ht_do sc x) ops), ls_thrown = thrown\<rparr> now s)"
| "ht_do sc (Do_handleRequest i now request response) s = fst (snd (handleRequest sc i now request response s))"
| "ht_do sc (Do_handleError h now request n message) s = snd (handleError h now request n message s)"
| "ht_do sc Do_requestStop s = ht_requestStop s"
| "ht_do sc Do_stopTriggered s = snd (ht_stopTriggered s)"
| "ht_do sc (Do_startThread created now timeout wakes) s =
     (case ht_startThread created now timeout
             (map (\<lambda>(late, ops). (if late then TimedOut else Notified) (one_by_one (map (\<lambda>x. ht_do sc x) ops))) wakes) s of
        None \<Rightarrow> s
      | Some (ok, s') \<Rightarrow> s')"
| "ht_do sc (Do_base b) s = s\<lparr>hb_base := b\<rparr>"

section \<open>Every operation keeps it\<close>

lemma http_server_wfD:
  assumes "http_server_wf s"
  shows "routes_wf s" and "ht_settings_ok s" and "latch_wf s" and "hi_server s = Some sv \<Longrightarrow> server_wf sv"
  using assms by (auto simp: http_server_wf_def)

lemma routes_wf_cong:
  "hi_resources t = hi_resources s \<Longrightarrow> hi_defaultResources t = hi_defaultResources s \<Longrightarrow> routes_wf t = routes_wf s"
  by (simp add: routes_wf_def ht_routes_ok_def)

lemma settings_cong:
  "hi_threadPoolSize t = hi_threadPoolSize s \<Longrightarrow> hi_requestTimeoutSeconds t = hi_requestTimeoutSeconds s \<Longrightarrow>
   hi_contentTimeoutSeconds t = hi_contentTimeoutSeconds s \<Longrightarrow> hi_maxRequestSize t = hi_maxRequestSize s \<Longrightarrow>
   ht_settings_ok t = ht_settings_ok s"
  by (simp add: ht_settings_ok_def)

lemma latch_wf_cong:
  "hi_startResolved t = hi_startResolved s \<Longrightarrow> hi_startSucceeded t = hi_startSucceeded s \<Longrightarrow>
   hi_listeningPort t = hi_listeningPort s \<Longrightarrow> latch_wf t = latch_wf s"
  by (simp add: latch_wf_def)

lemma latch_wf_reset [simp]: "latch_wf (ht_resetStartState s)"
  by (simp add: latch_wf_def ht_resetStartState_def)

lemma latch_wf_resolve [intro]: "latch_wf s \<Longrightarrow> latch_wf (ht_resolveStartIfPending ok p e s)"
  by (simp add: latch_wf_def ht_resolveStartIfPending_def)

lemma http_server_wf_resolve [intro]: "http_server_wf s \<Longrightarrow> http_server_wf (ht_resolveStartIfPending ok p e s)"
proof -
  let ?t = "ht_resolveStartIfPending ok p e s"
  assume wf: "http_server_wf s"
  have "hi_resources ?t = hi_resources s" "hi_defaultResources ?t = hi_defaultResources s" "hi_server ?t = hi_server s"
    "hi_threadPoolSize ?t = hi_threadPoolSize s" "hi_requestTimeoutSeconds ?t = hi_requestTimeoutSeconds s"
    "hi_contentTimeoutSeconds ?t = hi_contentTimeoutSeconds s" "hi_maxRequestSize ?t = hi_maxRequestSize s"
    by (simp_all add: ht_resolveStartIfPending_def)
  with wf show ?thesis
    unfolding http_server_wf_def using routes_wf_cong [of ?t s] settings_cong [of ?t s] by auto
qed

lemma http_server_wf_base [simp]: "http_server_wf (s\<lparr>hb_base := b\<rparr>) = http_server_wf s"
  by (simp add: http_server_wf_def routes_wf_def ht_routes_ok_def ht_settings_ok_def latch_wf_def)

lemma http_server_wf_error [simp]: "http_server_wf (s\<lparr>hi_lastError := e\<rparr>) = http_server_wf s"
  by (simp add: http_server_wf_def routes_wf_def ht_routes_ok_def ht_settings_ok_def latch_wf_def)

lemma http_server_wf_no_server [intro]: "http_server_wf s \<Longrightarrow> http_server_wf (s\<lparr>hi_server := None\<rparr>)"
  by (simp add: http_server_wf_def routes_wf_def ht_routes_ok_def ht_settings_ok_def latch_wf_def)

lemma http_server_wf_reset [intro]: "http_server_wf s \<Longrightarrow> http_server_wf (ht_resetStartState s)"
  by (simp add: http_server_wf_def routes_wf_def ht_routes_ok_def ht_settings_ok_def latch_wf_def ht_resetStartState_def)

lemma find_SomeD: "find P xs = Some x \<Longrightarrow> x \<in> set xs \<and> P x"
  by (induction xs) (auto split: if_splits)

lemma set_upsert: "x \<in> set (upsert P f new xs) \<Longrightarrow> x = new \<or> x \<in> set xs \<or> (\<exists>y \<in> set xs. P y \<and> x = f y)"
  by (induction xs) (auto split: if_splits)

lemma http_server_wf_routes:
  assumes "http_server_wf s" and "routes_wf t"
    and "t = s\<lparr>hi_resources := rs, hi_defaultResources := ds\<rparr>"
  shows "http_server_wf t"
  using assms by (simp add: http_server_wf_def ht_settings_ok_def latch_wf_def)

lemma addResource_wf: "http_server_wf s \<Longrightarrow> http_server_wf (snd (addResource p m h s))"
proof -
  assume wf: "http_server_wf s"
  show ?thesis
  proof (cases "h = None \<or> p = [] \<or> normalizeMethod m = [] \<or> ht_isRunning s")
    case True
    then show ?thesis using wf by (auto simp: addResource_def Let_def split: option.splits)
  next
    case False
    then obtain g where g: "h = Some g" by auto
    let ?new = "\<lparr>rt_pathRegex = p, rt_method = normalizeMethod m, rt_handler = g\<rparr>"
    let ?P = "\<lambda>route. rt_pathRegex route = p \<and> rt_method route = normalizeMethod m"
    let ?rs = "upsert ?P (rt_handler_update (\<lambda>_. g)) ?new (hi_resources s)"
    have t: "snd (addResource p m h s) = s\<lparr>hi_resources := ?rs\<rparr>"
      using False g by (simp add: addResource_def Let_def)
    have "distinct (map (\<lambda>r. (rt_pathRegex r, rt_method r)) ?rs)"
      using wf [THEN http_server_wfD(1)] distinct_upsert [of "\<lambda>r. (rt_pathRegex r, rt_method r)" "hi_resources s" ?P
          "(p, normalizeMethod m)" "rt_handler_update (\<lambda>_. g)" ?new]
      by (simp add: routes_wf_def ht_routes_ok_def)
    moreover have "\<forall>r \<in> set ?rs. rt_pathRegex r \<noteq> [] \<and> method_wf (rt_method r)"
      using wf [THEN http_server_wfD(1)] False by (auto simp: routes_wf_def method_wf_def dest!: set_upsert)
    ultimately have "routes_wf (s\<lparr>hi_resources := ?rs\<rparr>)"
      using wf [THEN http_server_wfD(1)] by (simp add: routes_wf_def ht_routes_ok_def)
    from http_server_wf_routes [OF wf this, where rs = ?rs and ds = "hi_defaultResources s"] show ?thesis unfolding t by simp
  qed
qed

lemma setDefaultResource_wf: "http_server_wf s \<Longrightarrow> http_server_wf (snd (setDefaultResource m h s))"
proof -
  assume wf: "http_server_wf s"
  show ?thesis
  proof (cases "h = None \<or> normalizeMethod m = [] \<or> ht_isRunning s")
    case True
    then show ?thesis using wf by (auto simp: setDefaultResource_def Let_def split: option.splits)
  next
    case False
    then obtain g where g: "h = Some g" by auto
    let ?new = "\<lparr>rt_pathRegex = [], rt_method = normalizeMethod m, rt_handler = g\<rparr>"
    let ?P = "\<lambda>route. rt_method route = normalizeMethod m"
    let ?rs = "upsert ?P (rt_handler_update (\<lambda>_. g)) ?new (hi_defaultResources s)"
    have t: "snd (setDefaultResource m h s) = s\<lparr>hi_defaultResources := ?rs\<rparr>"
      using False g by (simp add: setDefaultResource_def Let_def)
    have "distinct (map rt_method ?rs)"
      using wf [THEN http_server_wfD(1)] distinct_upsert [of rt_method "hi_defaultResources s" ?P
          "normalizeMethod m" "rt_handler_update (\<lambda>_. g)" ?new]
      by (simp add: routes_wf_def ht_routes_ok_def)
    moreover have "\<forall>r \<in> set ?rs. rt_pathRegex r = [] \<and> method_wf (rt_method r)"
      using wf [THEN http_server_wfD(1)] False by (auto simp: routes_wf_def method_wf_def dest!: set_upsert)
    ultimately have "routes_wf (s\<lparr>hi_defaultResources := ?rs\<rparr>)"
      using wf [THEN http_server_wfD(1)] by (simp add: routes_wf_def ht_routes_ok_def)
    from http_server_wf_routes [OF wf this, where rs = "hi_resources s" and ds = ?rs] show ?thesis unfolding t by simp
  qed
qed

lemma ht_set_frame:
  "hi_resources (ht_set x s) = hi_resources s" "hi_defaultResources (ht_set x s) = hi_defaultResources s"
  "hi_server (ht_set x s) = hi_server s" "hi_startResolved (ht_set x s) = hi_startResolved s"
  "hi_startSucceeded (ht_set x s) = hi_startSucceeded s" "hi_listeningPort (ht_set x s) = hi_listeningPort s"
  by (cases x; simp add: ht_config_defs)+

lemma ht_set_wf: "http_server_wf s \<Longrightarrow> http_server_wf (ht_set x s)"
  unfolding http_server_wf_def
  using routes_wf_cong [of "ht_set x s" s] latch_wf_cong [of "ht_set x s" s] ht_set_ok [of s x] by (simp add: ht_set_frame)

lemma ht_preRun_wf: "http_server_wf s \<Longrightarrow> http_server_wf (snd (ht_preRun thrown s))"
proof (cases thrown)
  case None
  assume wf: "http_server_wf s"
  note r = wf [THEN http_server_wfD(1), unfolded routes_wf_def ht_routes_ok_def]
  have t: "snd (ht_preRun thrown s) = s\<lparr>hi_server := hi_server (snd (ht_preRun None s))\<rparr>"
    using None by (simp add: ht_preRun_def)
  let ?R = "installResources (hi_errorHandler s) (hi_resources s) (\<lambda>_ _. None)"
  let ?D = "installDefaults (hi_errorHandler s) (hi_defaultResources s) (\<lambda>_. None)"
  have "p \<noteq> [] \<and> method_wf m \<and> \<not> in_default i \<and> in_errorHandler i = hi_errorHandler s" if "?R p m = Some i" for p m i
    using that r by (auto simp: installResources_find split: option.splits dest!: find_SomeD)
  moreover have "method_wf m \<and> in_default i \<and> in_errorHandler i = hi_errorHandler s" if "?D m = Some i" for m i
    using that r by (auto simp: installDefaults_find split: option.splits dest!: find_SomeD)
  ultimately have "case hi_server (snd (ht_preRun None s)) of None \<Rightarrow> True | Some sv \<Rightarrow> server_wf sv"
    using wf [THEN http_server_wfD(2)] by (simp add: ht_preRun_def server_wf_def ht_settings_ok_def)
  then show ?thesis
    using wf unfolding t by (simp add: http_server_wf_def routes_wf_def ht_routes_ok_def ht_settings_ok_def latch_wf_def)
qed (auto simp: ht_preRun_def split: cpp_exn.splits)

lemma handleRequest_wf: "http_server_wf s \<Longrightarrow> http_server_wf (fst (snd (handleRequest sc i now request response s)))"
  by (simp add: handleRequest_def Let_def ht_updateHeartbeat_def ht_setLastError_def split: prod.split option.split)

lemma handleError_wf: "http_server_wf s \<Longrightarrow> http_server_wf (snd (handleError h now request n message s))"
  by (simp add: handleError_def Let_def ht_updateHeartbeat_def ht_setLastError_def split: option.split)

lemma ht_stopTriggered_wf: "http_server_wf s \<Longrightarrow> http_server_wf (snd (ht_stopTriggered s))"
  by (auto simp: ht_stopTriggered_def)

lemma ht_requestStop_wf: "http_server_wf s \<Longrightarrow> http_server_wf (ht_requestStop s)"
  by (auto simp: ht_requestStop_def ht_stopTriggered_def split: prod.split)

lemma ht_run_wf:
  assumes "http_server_wf s" and "\<And>u. http_server_wf u \<Longrightarrow> http_server_wf (ls_meanwhile start u)"
  shows "http_server_wf (snd (ht_run start now s))"
  using assms
  by (simp add: ht_run_def Let_def ht_updateHeartbeat_def http_server_wf_resolve http_server_wf_no_server
      split: option.split cpp_exn.split)

lemma ht_waitUntilListening_wf:
  assumes "ht_waitUntilListening timeout wakes s = Some (ok, t)" and "http_server_wf s"
    and "\<forall>w \<in> set wakes. \<forall>u. http_server_wf u \<longrightarrow> http_server_wf (wake_effect w u)"
  shows "http_server_wf t"
  using assms cv_wait_for_invariant [of hi_startResolved s wakes _ _ http_server_wf]
  by (auto simp: ht_waitUntilListening_def split: if_splits option.splits)

lemma ht_startThread_wf:
  assumes "ht_startThread created now timeout wakes s = Some (ok, t)" and "http_server_wf s"
    and "\<forall>w \<in> set wakes. \<forall>u. http_server_wf u \<longrightarrow> http_server_wf (wake_effect w u)"
  shows "http_server_wf t"
  using assms(1) http_server_wf_reset [OF assms(2)] ht_waitUntilListening_wf [OF _ _ assms(3)]
  by (auto simp: ht_startThread_def Let_def split: option.splits bool.splits)

lemma one_by_one_wf:
  "\<forall>f \<in> set fs. \<forall>u. P u \<longrightarrow> P (f u) \<Longrightarrow> P u \<Longrightarrow> P (one_by_one fs u)"
  by (induction fs arbitrary: u) auto

lemma ht_do_wf: "http_server_wf s \<Longrightarrow> http_server_wf (ht_do sc x s)"
proof (induction sc x s rule: ht_do.induct)
  case (5 sc port now ops thrown s)
  have "\<forall>f \<in> set (map (\<lambda>x. ht_do sc x) ops). \<forall>u. http_server_wf u \<longrightarrow> http_server_wf (f u)"
    using 5(1) by simp
  from one_by_one_wf [of _ http_server_wf, OF this] show ?case using 5(2) by (simp add: ht_run_wf)
next
  case (10 sc created now timeout wakes s)
  let ?ws = "map (\<lambda>(late, ops). (if late then TimedOut else Notified) (one_by_one (map (\<lambda>x. ht_do sc x) ops))) wakes"
  have "http_server_wf u \<Longrightarrow> http_server_wf (wake_effect w u)" if "w \<in> set ?ws" for w u
  proof -
    obtain late ops where o: "(late, ops) \<in> set wakes"
      "w = (if late then TimedOut else Notified) (one_by_one (map (\<lambda>x. ht_do sc x) ops))"
      using \<open>w \<in> set ?ws\<close> by auto
    have "\<forall>f \<in> set (map (\<lambda>x. ht_do sc x) ops). \<forall>u. http_server_wf u \<longrightarrow> http_server_wf (f u)"
      using 10(1) [OF o(1) refl] by simp
    from one_by_one_wf [of _ http_server_wf, OF this] show "http_server_wf u \<Longrightarrow> ?thesis" using o(2) by simp
  qed
  then show ?case using 10(2) ht_startThread_wf [of created now timeout ?ws s] by (auto split: option.split)
qed (simp_all add: addResource_wf setDefaultResource_wf ht_set_wf ht_preRun_wf handleRequest_wf handleError_wf
    ht_requestStop_wf ht_stopTriggered_wf)

text \<open>C15: Whatever is called on a \<open>cHTTPServer\<close>, with any arguments, in any order, from any thread and also while
  another call waits, the object stays well-formed: no two registrations share a key, every method is
  normalised and not empty, patterns are where they belong; at least one thread, no negative timeout, a
  positive request size, in the configuration and in the library's server alike, whose handlers all
  carry the error handler that it reports errors to; a start that succeeded is resolved, and a
  listening port is there only after one.\<close>

theorem http_server_stays_wf:
  "http_server_wf (fold (ht_do status_code) ops (ht_new name port bindAddress pool now))"
proof -
  have "http_server_wf (ht_new name port bindAddress pool now)"
    by (simp add: http_server_wf_def routes_wf_def ht_routes_ok_def ht_settings_ok_def latch_wf_def ht_new_def size_max_def)
  moreover have "http_server_wf s \<Longrightarrow> http_server_wf (fold (ht_do status_code) ops s)" for s
    by (induction ops arbitrary: s) (simp_all add: ht_do_wf)
  ultimately show ?thesis by blast
qed

end
