(* ===== verification/HttpServerThreads.thy ===== *)
theory HttpServerThreads
  imports HttpServer
begin

text \<open>
  One start of a \<open>cHTTPServer\<close> (\<open>cHTTPServer.cpp\<close> on \<open>cBaseWorker_V2.h\<close>) with everything that can run beside
  it: the thread that calls \<open>startThread\<close> and waits on the start latch, the worker thread in
  \<open>threadRunner\<close>, and any number of threads in \<open>requestStop\<close>. A step is one critical section of
  \<open>m_stateMutex\<close> or of \<open>m_impl->mutex\<close>, one call into the library, or one \<open>notify_all\<close>, which the code
  makes after it has left the critical section. The operations on the object are those of
  \<open>HttpServer\<close> and \<open>BaseWorker\<close>. A stopping thread is past the locked part of \<open>requestStop\<close>, before it
  reads the pointer to the library's server, between that and its call of \<open>stop()\<close>, or after it: these
  threads are counted. What the library does is open: it may call
  the start callback or not, hand requests and errors to the handlers, and \<open>start()\<close> may return or throw
  at any time. The start waits: its timeout is not zero.
\<close>

section \<open>State and steps\<close>

datatype hl_worker =
    Hw_none | Hw_preRun | Hw_check | Hw_setRunning | Hw_enter | Hw_starting | Hw_serving
  | Hw_returned | Hw_threw cpp_exn | Hw_reset | Hw_catch cpp_exn | Hw_setStopped | Hw_exited

datatype hl_starter = Hs_idle | Hs_base | Hs_catch | Hs_made | Hs_test | Hs_asleep | Hs_woken bool | Hs_answered bool

record hl_sys =
  hl_obj :: http_server
  hl_worker :: hl_worker
  hl_starter :: hl_starter
  hl_triggers :: nat
  hl_stopping :: nat
  hl_resolves :: nat
  hl_notify :: nat
  hl_listened :: "u16 option"

definition hl_init :: "http_server \<Rightarrow> hl_sys" where
  "hl_init s = \<lparr>hl_obj = s, hl_worker = Hw_none, hl_starter = Hs_idle, hl_triggers = 0, hl_stopping = 0,
                hl_resolves = 0, hl_notify = 0, hl_listened = None\<rparr>"

text \<open>\<open>resolveStartIfPending\<close>: only the call that decides the latch goes on to \<open>notify_all\<close>.\<close>

definition hl_resolve :: "bool \<Rightarrow> u16 \<Rightarrow> string \<Rightarrow> hl_sys \<Rightarrow> hl_sys" where
  "hl_resolve success port errorMessage s =
     s\<lparr>hl_notify := (if hi_startResolved (hl_obj s) then hl_notify s else Suc (hl_notify s)),
       hl_obj := ht_resolveStartIfPending success port errorMessage (hl_obj s)\<rparr>"

definition hl_base :: "base_worker \<Rightarrow> hl_sys \<Rightarrow> hl_sys" where
  "hl_base b s = s\<lparr>hl_obj := (hl_obj s)\<lparr>hb_base := b\<rparr>\<rparr>"

definition hl_what :: "string \<Rightarrow> cpp_exn \<Rightarrow> string" where
  "hl_what other e = (case e of StdException what \<Rightarrow> what | OtherException \<Rightarrow> other)"

text \<open>The starting thread.\<close>

inductive hl_starts :: "hl_sys \<Rightarrow> hl_sys \<Rightarrow> bool" where
  hl_reset: "hl_starter s = Hs_idle \<Longrightarrow>
     hl_starts s (s\<lparr>hl_obj := ht_resetStartState (hl_obj s), hl_starter := Hs_base\<rparr>)"
| hl_refused: "hl_starter s = Hs_base \<Longrightarrow>
     startThread_locked created (joinFinishedThread (hb_base (hl_obj s))) = Refused \<Longrightarrow>
     hl_starts s (hl_base (joinFinishedThread (hb_base (hl_obj s))) (s\<lparr>hl_starter := Hs_answered False\<rparr>))"
| hl_made: "hl_starter s = Hs_base \<Longrightarrow>
     startThread_locked (Some t) (joinFinishedThread (hb_base (hl_obj s))) = Created b \<Longrightarrow>
     hl_starts s (hl_base b (s\<lparr>hl_starter := Hs_made, hl_worker := Hw_preRun\<rparr>))"
| hl_not_made: "hl_starter s = Hs_base \<Longrightarrow>
     startThread_locked None (joinFinishedThread (hb_base (hl_obj s))) = Threw b \<Longrightarrow>
     hl_starts s (hl_base b (s\<lparr>hl_starter := Hs_catch\<rparr>))"
| hl_start_catch: "hl_starter s = Hs_catch \<Longrightarrow>
     hl_starts s (hl_base (setState St_Stopped (hb_base (hl_obj s))) (s\<lparr>hl_starter := Hs_answered False\<rparr>))"
| hl_heartbeat: "hl_starter s = Hs_made \<Longrightarrow>
     hl_starts s (hl_base (resetHeartbeat now (hb_base (hl_obj s))) (s\<lparr>hl_starter := Hs_test\<rparr>))"
| hl_ready: "hl_starter s = Hs_test \<or> hl_starter s = Hs_woken late \<Longrightarrow> hi_startResolved (hl_obj s) \<Longrightarrow>
     hl_starts s (s\<lparr>hl_starter := Hs_answered (hi_startSucceeded (hl_obj s))\<rparr>)"
| hl_sleep: "hl_starter s = Hs_test \<or> hl_starter s = Hs_woken False \<Longrightarrow> \<not> hi_startResolved (hl_obj s) \<Longrightarrow>
     hl_starts s (s\<lparr>hl_starter := Hs_asleep\<rparr>)"
| hl_timed_out: "hl_starter s = Hs_woken True \<Longrightarrow> \<not> hi_startResolved (hl_obj s) \<Longrightarrow>
     hl_starts s (s\<lparr>hl_starter := Hs_answered False\<rparr>)"
| hl_timeout_or_spurious: "hl_starter s = Hs_asleep \<Longrightarrow> hl_starts s (s\<lparr>hl_starter := Hs_woken late\<rparr>)"

text \<open>The worker thread.\<close>

inductive hl_works :: "hl_sys \<Rightarrow> hl_sys \<Rightarrow> bool" where
  hl_preRun_ok: "hl_worker s = Hw_preRun \<Longrightarrow> ht_preRun None (hl_obj s) = (ok, obj) \<Longrightarrow>
     hl_works s (s\<lparr>hl_obj := obj, hl_worker := Hw_check\<rparr>)"
| hl_preRun_failed: "hl_worker s = Hw_preRun \<Longrightarrow>
     hl_works s ((hl_resolve False 0 (hl_what ''Failed to initialize HTTP server'' e) s)
       \<lparr>hl_worker := Hw_reset\<rparr>)"
| hl_check_stop: "hl_worker s = Hw_check \<Longrightarrow> stopRequested (hb_base (hl_obj s)) \<Longrightarrow>
     hl_works s (s\<lparr>hl_worker := Hw_setStopped\<rparr>)"
| hl_check_go: "hl_worker s = Hw_check \<Longrightarrow> \<not> stopRequested (hb_base (hl_obj s)) \<Longrightarrow>
     hl_works s (s\<lparr>hl_worker := Hw_setRunning\<rparr>)"
| hl_set_running: "hl_worker s = Hw_setRunning \<Longrightarrow>
     hl_works s (hl_base (setState St_Running (hb_base (hl_obj s))) (s\<lparr>hl_worker := Hw_enter\<rparr>))"
| hl_no_server: "hl_worker s = Hw_enter \<Longrightarrow> hi_server (hl_obj s) = None \<Longrightarrow>
     hl_works s ((hl_resolve False 0 ''HTTP server is not initialized'' s)\<lparr>hl_worker := Hw_setStopped\<rparr>)"
| hl_start: "hl_worker s = Hw_enter \<Longrightarrow> hi_server (hl_obj s) \<noteq> None \<Longrightarrow>
     hl_works s (s\<lparr>hl_worker := Hw_starting\<rparr>)"
| hl_callback: "hl_worker s = Hw_starting \<Longrightarrow>
     hl_works s ((hl_resolve True port [] (s\<lparr>hl_obj := ht_updateHeartbeat now (hl_obj s)\<rparr>))
       \<lparr>hl_worker := Hw_serving, hl_listened := Some port\<rparr>)"
| hl_handles: "hl_worker s = Hw_serving \<Longrightarrow> handleRequest sc i now request response (hl_obj s) = (escaped, obj, r) \<Longrightarrow>
     hl_works s (s\<lparr>hl_obj := obj\<rparr>)"
| hl_reports_error: "hl_worker s = Hw_serving \<Longrightarrow>
     handleError handler now request code message (hl_obj s) = (escaped, obj) \<Longrightarrow> hl_works s (s\<lparr>hl_obj := obj\<rparr>)"
| hl_start_returns: "hl_worker s = Hw_starting \<or> hl_worker s = Hw_serving \<Longrightarrow>
     hl_works s (s\<lparr>hl_worker := Hw_returned\<rparr>)"
| hl_start_throws: "hl_worker s = Hw_starting \<or> hl_worker s = Hw_serving \<Longrightarrow>
     hl_works s (s\<lparr>hl_worker := Hw_threw e\<rparr>)"
| hl_after: "hl_worker s = Hw_returned \<Longrightarrow>
     hl_works s ((hl_resolve False 0 (if stopRequested (hb_base (hl_obj s)) then ''HTTP server stopped''
                                      else ''HTTP server exited unexpectedly'') s)\<lparr>hl_worker := Hw_reset\<rparr>)"
| hl_run_catch: "hl_worker s = Hw_threw e \<Longrightarrow>
     hl_works s ((hl_resolve False 0 (hl_what ''Unhandled HTTP server exception'' e) s)\<lparr>hl_worker := Hw_catch e\<rparr>)"
| hl_run_resets: "hl_worker s = Hw_reset \<Longrightarrow>
     hl_works s (s\<lparr>hl_obj := (hl_obj s)\<lparr>hi_server := None\<rparr>, hl_worker := Hw_setStopped\<rparr>)"
| hl_runner_catch: "hl_worker s = Hw_catch e \<Longrightarrow>
     hl_works s (hl_base ((hb_base (hl_obj s))\<lparr>m_lastUnhandledException := Some e\<rparr>)
       (s\<lparr>hl_worker := Hw_setStopped\<rparr>))"
| hl_set_stopped: "hl_worker s = Hw_setStopped \<Longrightarrow>
     hl_works s (hl_base (setState St_Stopped (hb_base (hl_obj s))) (s\<lparr>hl_worker := Hw_exited\<rparr>))"

text \<open>The threads that stop, and the notifications.\<close>

inductive hl_stops :: "hl_sys \<Rightarrow> hl_sys \<Rightarrow> bool" where
  hl_request: "requestStop (hb_base (hl_obj s)) = (trigger, b) \<Longrightarrow>
     hl_stops s (hl_base b (s\<lparr>hl_triggers := (if trigger then Suc (hl_triggers s) else hl_triggers s)\<rparr>))"
| hl_load: "hl_triggers s = Suc n \<Longrightarrow> hi_server (hl_obj s) \<noteq> None \<Longrightarrow>
     hl_stops s (s\<lparr>hl_triggers := n, hl_stopping := Suc (hl_stopping s)\<rparr>)"
| hl_load_null: "hl_triggers s = Suc n \<Longrightarrow> hi_server (hl_obj s) = None \<Longrightarrow>
     hl_stops s (s\<lparr>hl_triggers := n, hl_resolves := Suc (hl_resolves s)\<rparr>)"
| hl_library_stop: "hl_stopping s = Suc n \<Longrightarrow>
     hl_stops s (s\<lparr>hl_stopping := n, hl_resolves := Suc (hl_resolves s)\<rparr>)"
| hl_stop_resolves: "hl_resolves s = Suc n \<Longrightarrow>
     hl_stops s (hl_resolve False 0 ''HTTP server stop requested'' (s\<lparr>hl_resolves := n\<rparr>))"
| hl_notify_all: "hl_notify s = Suc n \<Longrightarrow>
     hl_stops s (s\<lparr>hl_notify := n,
       hl_starter := (if hl_starter s = Hs_asleep then Hs_woken False else hl_starter s)\<rparr>)"

inductive hl_step :: "hl_sys \<Rightarrow> hl_sys \<Rightarrow> bool" where
  hl_by_starter: "hl_starts s t \<Longrightarrow> hl_step s t"
| hl_by_worker: "hl_works s t \<Longrightarrow> hl_step s t"
| hl_by_others: "hl_stops s t \<Longrightarrow> hl_step s t"

inductive hl_reachable :: "hl_sys \<Rightarrow> bool" where
  hl_reach_init: "stopped (hb_base s) \<Longrightarrow> hl_reachable (hl_init s)"
| hl_reach_step: "hl_reachable s \<Longrightarrow> hl_step s t \<Longrightarrow> hl_reachable t"

section \<open>The invariant\<close>

lemma ht_resolve_fields [simp]:
  "hi_startResolved (ht_resolveStartIfPending b p e s)"
  "hb_base (ht_resolveStartIfPending b p e s) = hb_base s"
  "hi_startSucceeded (ht_resolveStartIfPending b p e s) = (if hi_startResolved s then hi_startSucceeded s else b)"
  "hi_listeningPort (ht_resolveStartIfPending b p e s) =
     (if hi_startResolved s then hi_listeningPort s else if b then p else 0)"
  by (simp_all add: ht_resolveStartIfPending_def)

lemma hl_base_fields [simp]:
  "hl_obj (hl_base b s) = (hl_obj s)\<lparr>hb_base := b\<rparr>" "hl_worker (hl_base b s) = hl_worker s"
  "hl_starter (hl_base b s) = hl_starter s" "hl_triggers (hl_base b s) = hl_triggers s"
  "hl_stopping (hl_base b s) = hl_stopping s"
  "hl_resolves (hl_base b s) = hl_resolves s" "hl_notify (hl_base b s) = hl_notify s"
  "hl_listened (hl_base b s) = hl_listened s"
  by (simp_all add: hl_base_def)

lemma hl_resolve_fields [simp]:
  "hl_obj (hl_resolve ok p e s) = ht_resolveStartIfPending ok p e (hl_obj s)"
  "hl_worker (hl_resolve ok p e s) = hl_worker s" "hl_starter (hl_resolve ok p e s) = hl_starter s"
  "hl_triggers (hl_resolve ok p e s) = hl_triggers s"
  "hl_stopping (hl_resolve ok p e s) = hl_stopping s" "hl_resolves (hl_resolve ok p e s) = hl_resolves s"
  "hl_notify (hl_resolve ok p e s) = (if hi_startResolved (hl_obj s) then hl_notify s else Suc (hl_notify s))"
  "hl_listened (hl_resolve ok p e s) = hl_listened s"
  by (simp_all add: hl_resolve_def)

text \<open>A handler touches the heartbeat and the error text.\<close>

lemma handleRequest_latch:
  "handleRequest sc i now request response s = (escaped, s', r) \<Longrightarrow>
   hi_startResolved s' = hi_startResolved s \<and> hi_startSucceeded s' = hi_startSucceeded s
   \<and> hi_listeningPort s' = hi_listeningPort s \<and> m_state (hb_base s') = m_state (hb_base s)
   \<and> m_stopRequested (hb_base s') = m_stopRequested (hb_base s)"
  by (auto simp: handleRequest_def Let_def ht_updateHeartbeat_def ht_setLastError_def updateHeartbeat_def
      split: prod.splits option.splits)

lemma handleError_latch:
  "handleError handler now request code message s = (escaped, s') \<Longrightarrow>
   hi_startResolved s' = hi_startResolved s \<and> hi_startSucceeded s' = hi_startSucceeded s
   \<and> hi_listeningPort s' = hi_listeningPort s \<and> m_state (hb_base s') = m_state (hb_base s)
   \<and> m_stopRequested (hb_base s') = m_stopRequested (hb_base s)"
  by (auto simp: handleError_def Let_def ht_updateHeartbeat_def ht_setLastError_def updateHeartbeat_def
      split: option.splits)

text \<open>Either the latch is decided, or the worker is still going to decide it, or a stopping thread is.\<close>

definition hl_settled :: "hl_sys \<Rightarrow> bool" where
  "hl_settled s \<longleftrightarrow> hi_startResolved (hl_obj s) \<or> 0 < hl_triggers s + hl_stopping s + hl_resolves s"

definition hl_worker_inv :: "hl_sys \<Rightarrow> bool" where
  "hl_worker_inv s \<longleftrightarrow>
     (case hl_worker s of
        Hw_preRun \<Rightarrow> (m_state (hb_base (hl_obj s)) = St_Starting \<or> m_state (hb_base (hl_obj s)) = St_Stopping)
                     \<and> (m_stopRequested (hb_base (hl_obj s)) \<longrightarrow> hl_settled s)
      | Hw_check \<Rightarrow> (m_state (hb_base (hl_obj s)) = St_Starting \<or> m_state (hb_base (hl_obj s)) = St_Stopping)
                     \<and> (m_stopRequested (hb_base (hl_obj s)) \<longrightarrow> hl_settled s)
      | Hw_serving \<Rightarrow> hi_startResolved (hl_obj s)
      | Hw_reset \<Rightarrow> hi_startResolved (hl_obj s)
      | Hw_catch e \<Rightarrow> hi_startResolved (hl_obj s)
      | Hw_setStopped \<Rightarrow> hl_settled s
      | Hw_exited \<Rightarrow> hl_settled s
      | _ \<Rightarrow> True)"

definition hl_starter_inv :: "hl_sys \<Rightarrow> bool" where
  "hl_starter_inv s \<longleftrightarrow>
     (case hl_starter s of
        Hs_idle \<Rightarrow> hl_worker s = Hw_none
      | Hs_base \<Rightarrow> hl_worker s = Hw_none
      | Hs_catch \<Rightarrow> hl_worker s = Hw_none
      | Hs_asleep \<Rightarrow> hl_worker s \<noteq> Hw_none \<and> (hi_startResolved (hl_obj s) \<longrightarrow> 0 < hl_notify s)
      | Hs_answered ok \<Rightarrow> (ok \<longrightarrow> hi_startResolved (hl_obj s) \<and> hi_startSucceeded (hl_obj s))
      | _ \<Rightarrow> hl_worker s \<noteq> Hw_none)"

definition hl_latch_inv :: "hl_sys \<Rightarrow> bool" where
  "hl_latch_inv s \<longleftrightarrow>
     (hl_starter s \<noteq> Hs_idle \<longrightarrow> hi_startSucceeded (hl_obj s) \<longrightarrow>
        hi_startResolved (hl_obj s) \<and> hl_listened s = Some (hi_listeningPort (hl_obj s))
        \<and> hl_worker s \<notin> {Hw_none, Hw_preRun, Hw_check, Hw_setRunning, Hw_enter, Hw_starting})"

definition hl_inv :: "hl_sys \<Rightarrow> bool" where
  "hl_inv s \<longleftrightarrow> hl_worker_inv s \<and> hl_starter_inv s \<and> hl_latch_inv s"

lemmas hl_inv_defs = hl_inv_def hl_worker_inv_def hl_starter_inv_def hl_latch_inv_def hl_settled_def

lemma hl_starts_inv: "hl_starts s t \<Longrightarrow> hl_inv s \<Longrightarrow> hl_inv t"
  by (induction rule: hl_starts.induct)
     (auto simp: hl_inv_defs ht_resetStartState_def startThread_locked_def resetHeartbeat_def setState_def Let_def
       split: if_splits hl_worker.splits)

lemma ht_preRun_ok_latch:
  "ht_preRun None s = (ok, s') \<Longrightarrow>
   hi_startResolved s' = hi_startResolved s \<and> hi_startSucceeded s' = hi_startSucceeded s
   \<and> hi_listeningPort s' = hi_listeningPort s \<and> hb_base s' = hb_base s"
  by (auto simp: ht_preRun_def)

lemma hl_works_inv: "hl_works s t \<Longrightarrow> hl_inv s \<Longrightarrow> hl_inv t"
proof (induction rule: hl_works.induct)
  case (hl_preRun_ok s ok obj)
  then show ?case
    using ht_preRun_ok_latch [OF hl_preRun_ok(2)]
    by (auto simp: hl_inv_defs split: hl_starter.splits)
next
  case (hl_handles s sc i now request response escaped obj r)
  then show ?case
    using handleRequest_latch [OF hl_handles(2)]
    by (auto simp: hl_inv_defs split: hl_starter.splits)
next
  case (hl_reports_error s handler now request code message escaped obj)
  then show ?case
    using handleError_latch [OF hl_reports_error(2)]
    by (auto simp: hl_inv_defs split: hl_starter.splits)
qed (auto simp: hl_inv_defs stopRequested_def setState_def ht_updateHeartbeat_def updateHeartbeat_def split: hl_starter.splits if_splits)

lemma hl_stops_inv: "hl_stops s t \<Longrightarrow> hl_inv s \<Longrightarrow> hl_inv t"
  by (induction rule: hl_stops.induct)
     (auto simp: hl_inv_defs requestStop_def Let_def split: hl_starter.splits hl_worker.splits if_splits)

lemma hl_step_inv [inv_intros]: "hl_step s t \<Longrightarrow> hl_inv s \<Longrightarrow> hl_inv t"
  by (erule hl_step.cases) (auto intro: hl_starts_inv hl_works_inv hl_stops_inv)

lemma hl_reachable_inv: "hl_reachable s \<Longrightarrow> hl_inv s"
proof (induction rule: hl_reachable.induct)
  case (hl_reach_init s)
  show ?case by (simp add: hl_inv_defs hl_init_def)
next
  case (hl_reach_step s t)
  then show ?case by (blast intro: inv_intros)
qed

section \<open>Properties\<close>

text \<open>C16: No start is waited for in vain, and no answer is wrong. In every interleaving of the starting thread,
  the worker thread and any number of stopping threads: while \<open>startThread\<close> is asleep on the latch,
  either the latch is decided and a \<open>notify_all\<close> is on its way, or a stopping thread has still to decide
  it, or the worker thread is still short of the end of \<open>run\<close>. A \<open>startThread\<close> that answered true did so
  after the library reported the port it listens on, and that is the port the server shows.\<close>

theorem hl_start_not_lost:
  assumes "hl_reachable s"
  shows "(hl_starter s = Hs_asleep \<longrightarrow>
            0 < hl_notify s \<or> 0 < hl_triggers s + hl_stopping s + hl_resolves s
            \<or> hl_worker s \<notin> {Hw_none, Hw_serving, Hw_reset, Hw_setStopped, Hw_exited})
    \<and> (hl_starter s = Hs_answered True \<longrightarrow>
            hl_listened s = Some (hi_listeningPort (hl_obj s)))"
  using hl_reachable_inv [OF assms]
  by (auto simp: hl_inv_defs split: hl_worker.splits)

text \<open>A way into the system, step by step.\<close>

lemma hl_then:
  "hl_reachable s \<Longrightarrow> hl_starts s t \<Longrightarrow> hl_reachable t"
  "hl_reachable s \<Longrightarrow> hl_works s t \<Longrightarrow> hl_reachable t"
  "hl_reachable s \<Longrightarrow> hl_stops s t \<Longrightarrow> hl_reachable t"
  by (blast intro: hl_reach_step hl_step.intros)+

definition hl_server :: http_server where
  "hl_server = ht_new ''h'' 8080 ''127.0.0.1'' 1 0"

definition hl_just_made :: hl_sys where
  "hl_just_made =
     (hl_init (ht_resetStartState hl_server))
       \<lparr>hl_obj := (ht_resetStartState hl_server)\<lparr>hb_base := (bw_new ''h'' 0)\<lparr>m_state := St_Starting, m_thread := Some 0\<rparr>\<rparr>,
        hl_starter := Hs_made, hl_worker := Hw_preRun\<rparr>"

lemma hl_just_made_reachable: "hl_reachable hl_just_made"
proof -
  have "hl_reachable (hl_init hl_server)"
    by (rule hl_reach_init) (simp add: hl_server_def ht_new_def bw_new_def stopped_def getState_def)
  from hl_then(1) [OF this hl_reset]
  have "hl_reachable ((hl_init hl_server)\<lparr>hl_obj := ht_resetStartState hl_server, hl_starter := Hs_base\<rparr>)"
    by (simp add: hl_init_def)
  from hl_then(1) [OF this hl_made, where t1 = 0]
  show ?thesis
    by (simp add: hl_just_made_def hl_init_def hl_base_def hl_server_def ht_new_def ht_resetStartState_def bw_new_def
        startThread_locked_def joinFinishedThread_def takeFinishedThread_def Let_def)
qed

theorem hl_start_not_lost_witness:
  "\<exists>s. hl_reachable s \<and> hl_starter s = Hs_asleep \<and> hl_worker s = Hw_reset \<and> hl_triggers s + hl_stopping s + hl_resolves s = 0
     \<and> 0 < hl_notify s"
proof -
  have "hl_reachable (hl_base (resetHeartbeat 0 (hb_base (hl_obj hl_just_made))) (hl_just_made\<lparr>hl_starter := Hs_test\<rparr>))"
    (is "hl_reachable ?a")
    by (rule hl_then(1) [OF hl_just_made_reachable hl_heartbeat]) (simp add: hl_just_made_def)
  then have "hl_reachable (?a\<lparr>hl_starter := Hs_asleep\<rparr>)" (is "hl_reachable ?b")
    by (rule hl_then(1) [OF _ hl_sleep]) (simp_all add: hl_just_made_def ht_resetStartState_def)
  then have r: "hl_reachable ((hl_resolve False 0 (hl_what ''Failed to initialize HTTP server'' OtherException) ?b)
      \<lparr>hl_worker := Hw_reset\<rparr>)" (is "hl_reachable ?c")
    by (rule hl_then(2) [OF _ hl_preRun_failed]) (simp add: hl_just_made_def)
  have f: "hl_starter ?c = Hs_asleep" "hl_worker ?c = Hw_reset" "hl_triggers ?c = 0" "hl_stopping ?c = 0" "hl_resolves ?c = 0"
    by (simp_all add: hl_just_made_def hl_init_def)
  show ?thesis
    using hl_start_not_lost [OF r] r f by (intro exI [of _ ?c]) simp
qed

text \<open>A stopping thread holds the pointer to the library's server while the worker is between its look at the
  stop flag and \<open>run\<close>.\<close>

lemma hl_stopping_reachable:
  "\<exists>s. hl_reachable s \<and> hl_worker s = Hw_setRunning \<and> hl_triggers s = 0 \<and> hl_stopping s = 1 \<and> hl_resolves s = 0
     \<and> stopRequested (hb_base (hl_obj s)) \<and> hi_server (hl_obj s) \<noteq> None \<and> \<not> hi_startResolved (hl_obj s)"
proof -
  let ?o = "snd (ht_preRun None (hl_obj hl_just_made))"
  let ?b = "(hb_base ?o)\<lparr>m_stopRequested := True, m_state := St_Stopping\<rparr>"
  have o: "hb_base ?o = (bw_new ''h'' 0)\<lparr>m_state := St_Starting, m_thread := Some 0\<rparr>" "hi_server ?o \<noteq> None"
    "\<not> hi_startResolved ?o"
    by (simp_all add: ht_preRun_def hl_just_made_def ht_resetStartState_def)
  have "hl_reachable (hl_just_made\<lparr>hl_obj := ?o, hl_worker := Hw_check\<rparr>)" (is "hl_reachable ?c")
    by (rule hl_then(2) [OF hl_just_made_reachable hl_preRun_ok [where ok = "fst (ht_preRun None (hl_obj hl_just_made))"]])
      (simp_all add: hl_just_made_def)
  then have g: "hl_reachable (?c\<lparr>hl_worker := Hw_setRunning\<rparr>)" (is "hl_reachable ?g")
    by (rule hl_then(2) [OF _ hl_check_go]) (simp_all add: o stopRequested_def bw_new_def)
  have q: "requestStop (hb_base (hl_obj ?g)) = (True, ?b)"
    by (simp add: o requestStop_def bw_new_def Let_def)
  have z: "hl_triggers ?g = 0" "hl_stopping ?g = 0" "hl_resolves ?g = 0" by (simp_all add: hl_just_made_def hl_init_def)
  then have "hl_reachable (hl_base ?b (?g\<lparr>hl_triggers := Suc 0\<rparr>))" (is "hl_reachable ?r")
    using hl_then(3) [OF g hl_request [OF q]] by (simp only: if_True)
  then have k: "hl_reachable (?r\<lparr>hl_triggers := 0, hl_stopping := Suc (hl_stopping ?r)\<rparr>)" (is "hl_reachable ?k")
    by (rule hl_then(3) [OF _ hl_load]) (use o(2) in \<open>simp_all del: not_None_eq\<close>)
  have "hl_worker ?k = Hw_setRunning" "hl_triggers ?k = 0" "hl_stopping ?k = 1" "hl_resolves ?k = 0"
    "stopRequested (hb_base (hl_obj ?k))" "hi_server (hl_obj ?k) \<noteq> None" "\<not> hi_startResolved (hl_obj ?k)"
    using z o(2,3) by (simp_all add: stopRequested_def del: not_None_eq)
  with k show ?thesis by blast
qed

text \<open>A stop can be over before the server starts, and the server starts all the same: when the request comes
  after \<open>threadRunner\<close> has read the stop flag and before \<open>run\<close> calls the library's \<open>start()\<close>, the
  library's \<open>stop()\<close> has been called, the start was reported as failed, no stopping thread has anything
  left to do, and the worker's next step is to call \<open>start()\<close>. Whether that call ever returns is then up
  to what the library makes of a \<open>stop()\<close> before a \<open>start()\<close>.\<close>

theorem hl_starts_after_stop:
  "\<exists>s t. hl_reachable s \<and> stopRequested (hb_base (hl_obj s)) \<and> hl_triggers s = 0 \<and> hl_stopping s = 0 \<and> hl_resolves s = 0
     \<and> hi_lastError (hl_obj s) = ''HTTP server stop requested'' \<and> hl_works s t \<and> hl_worker t = Hw_starting"
proof -
  obtain k where k: "hl_reachable k" "hl_worker k = Hw_setRunning" "hl_triggers k = 0" "hl_stopping k = Suc 0" "hl_resolves k = 0"
    "stopRequested (hb_base (hl_obj k))" "hi_server (hl_obj k) \<noteq> None" "\<not> hi_startResolved (hl_obj k)"
    using hl_stopping_reachable by (metis One_nat_def)
  let ?d = "hl_resolve False 0 ''HTTP server stop requested'' (k\<lparr>hl_stopping := 0, hl_resolves := 0\<rparr>)"
  let ?s = "hl_base (setState St_Running (hb_base (hl_obj ?d))) (?d\<lparr>hl_worker := Hw_enter\<rparr>)"
  have "hl_reachable (k\<lparr>hl_stopping := 0, hl_resolves := Suc 0\<rparr>)"
    using hl_then(3) [OF k(1) hl_library_stop [OF k(4)]] k(5) by simp
  from hl_then(3) [OF this hl_stop_resolves [of _ 0]] have "hl_reachable ?d" by simp
  then have s: "hl_reachable ?s" by (rule hl_then(2) [OF _ hl_set_running]) (simp add: k(2))
  have "hi_server (hl_obj ?s) \<noteq> None"
    using k(7) by (simp add: ht_resolveStartIfPending_def del: not_None_eq)
  then have t: "hl_works ?s (?s\<lparr>hl_worker := Hw_starting\<rparr>)" by (intro hl_start) simp_all
  have f: "stopRequested (hb_base (hl_obj ?s))" "hl_triggers ?s = 0" "hl_stopping ?s = 0" "hl_resolves ?s = 0"
    "hi_lastError (hl_obj ?s) = ''HTTP server stop requested''"
    using k(3,6,8) by (simp_all add: stopRequested_def setState_def ht_resolveStartIfPending_def)
  show ?thesis using s t f by (intro exI [of _ ?s] exI [of _ "?s\<lparr>hl_worker := Hw_starting\<rparr>"]) simp
qed

text \<open>\<open>stopTriggered\<close> reads the pointer to the library's server under the mutex and calls \<open>stop()\<close> on it after
  giving the mutex back: if \<open>start()\<close> returns by itself in between, \<open>run\<close> has destroyed the server and the
  stopping thread calls a method of a dead object.\<close>

theorem hl_stop_dangles:
  "\<exists>s. hl_reachable s \<and> hl_stopping s = 1 \<and> hi_server (hl_obj s) = None \<and> hl_worker s = Hw_setStopped"
proof -
  obtain k where k: "hl_reachable k" "hl_worker k = Hw_setRunning" "hl_stopping k = 1" "hi_server (hl_obj k) \<noteq> None"
    using hl_stopping_reachable by blast
  have "hl_reachable (hl_base (setState St_Running (hb_base (hl_obj k))) (k\<lparr>hl_worker := Hw_enter\<rparr>))" (is "hl_reachable ?e")
    by (rule hl_then(2) [OF k(1) hl_set_running [OF k(2)]])
  then have "hl_reachable (?e\<lparr>hl_worker := Hw_starting\<rparr>)" (is "hl_reachable ?g")
    by (rule hl_then(2) [OF _ hl_start]) (use k(4) in \<open>simp_all del: not_None_eq\<close>)
  then have "hl_reachable (?g\<lparr>hl_worker := Hw_returned\<rparr>)" (is "hl_reachable ?r")
    by (rule hl_then(2) [OF _ hl_start_returns]) simp
  from hl_then(2) [OF this hl_after] obtain u where u: "hl_reachable u" "hl_worker u = Hw_reset" "hl_stopping u = 1"
    using k(3) by auto
  have "hl_reachable (u\<lparr>hl_obj := (hl_obj u)\<lparr>hi_server := None\<rparr>, hl_worker := Hw_setStopped\<rparr>)"
    (is "hl_reachable ?d")
    by (rule hl_then(2) [OF u(1) hl_run_resets [OF u(2)]])
  then show ?thesis using u(3) by (intro exI [of _ ?d]) simp
qed

end
