(* ===== verification/HttpExamples.thy ===== *)
theory HttpExamples
  imports HttpExchange HttpsServerProofs Destruction
begin

text \<open>
  The example servers \<open>examples/httpServerTest.cpp\<close> and \<open>examples/httpsServerTest.cpp\<close>, from their
  registrations to the bytes that \<open>cHTTPClient\<close> reports, and their \<open>main\<close>. The library's dispatch by
  regular expression is not modelled: what is shown is what the entries of its tables do. Standard
  input, the messages on the console and the request that ends the waiting are left out; the paths of
  the certificate and the key are arguments.
\<close>

section \<open>From a handler to the client\<close>

text \<open>What \<open>cHTTPClient\<close> reports of the bytes that \<open>r\<close> put on the library's response: whatever client asks, when
  libcurl calls the transfer of these bytes a success.\<close>

definition client_gets :: "cResponse \<Rightarrow> u16 \<times> string \<times> td_Fields \<Rightarrow> bool" where
  "client_gets r answer \<longleftrightarrow>
     (case answer of
        (code, body, headers) \<Rightarrow>
          (case (case r of None \<Rightarrow> None | Some st \<Rightarrow> rs_response st) of
             None \<Rightarrow> False
           | Some wire \<Rightarrow>
               (\<forall>cu q g. client_asks cu q g code headers \<longrightarrow>
                  curl_reads (hc_setopts cu q) wire (curl_easy_perform cu (hc_setopts cu q)) \<longrightarrow>
                  ct_result (curl_easy_perform cu (hc_setopts cu q)) = CURLE_OK \<longrightarrow>
                  (let p = fst (perform cu q g)
                   in hp_errorMessage p = [] \<and> hp_statusCode p = int (unat code)
                      \<and> hp_headers p = received headers body
                      \<and> hp_body p = reported_body (hq_method q) code headers body))))"

lemma meets_client_gets:
  assumes "cr_meets sc (Some []) (Some (code, body, headers)) r" and "answer_ok sc (code, body, headers)"
  shows "client_gets r (code, body, headers)"
proof -
  obtain st where r: "r = Some st" "rs_response st = Some (sent_head sc code body headers @ body)"
    using assms(1) by (auto simp: cr_meets_def writeResponse_head sent_head_def split: option.splits)
  show ?thesis
    using client_performs [OF assms(2)]
    unfolding client_gets_def r option.case prod.case Let_def by blast
qed


section \<open>The routes of the example\<close>

definition text_plain :: td_Fields where
  "text_plain = [Field ''Content-Type'' ''text/plain; charset=utf-8'']"

definition ex_health :: td_RequestHandler where
  "ex_health request = ([Call_write 200 (''ok'' @ [LF]) text_plain], None)"

definition ex_echo :: td_RequestHandler where
  "ex_echo request = ([Call_write 200 (rq_body request) text_plain], None)"

definition ex_not_found :: td_RequestHandler where
  "ex_not_found request = ([Call_write 404 (''Route not found'' @ [LF]) text_plain], None)"

definition http_example :: "int \<Rightarrow> http_server" where
  "http_example now =
     (let server = ht_new ''TestHTTPServer'' 8080 ''0.0.0.0'' 1 now;
          server = snd (addResource ''^/health$'' ''GET'' (Some ex_health) server);
          server = snd (addResource ''^/echo$'' ''POST'' (Some ex_echo) server)
      in snd (setDefaultResource ''GET'' (Some ex_not_found) server))"

lemma normalize_ex [simp]: "normalizeMethod ''GET'' = ''GET''" "normalizeMethod ''POST'' = ''POST''"
  by code_simp+

lemma http_example_fields:
  "hi_resources (http_example now)
     = [\<lparr>rt_pathRegex = ''^/health$'', rt_method = ''GET'', rt_handler = ex_health\<rparr>,
        \<lparr>rt_pathRegex = ''^/echo$'', rt_method = ''POST'', rt_handler = ex_echo\<rparr>]"
  "hi_defaultResources (http_example now) = [\<lparr>rt_pathRegex = [], rt_method = ''GET'', rt_handler = ex_not_found\<rparr>]"
  "hi_errorHandler (http_example now) = None"
  by (simp_all add: http_example_def addResource_def setDefaultResource_def ht_new_def ht_isRunning_def bw_new_def
      isRunning_def getState_def Let_def)

lemma length_to_string: "length (to_string n) \<le> Suc n"
proof (induction n rule: to_string.induct)
  case (1 n)
  then show ?case by (cases "n < 10") (subst to_string.simps, simp)+
qed

lemma text_plain_names:
  "hasHeader text_plain ''Content-Length'' = False" "hasHeader text_plain ''Transfer-Encoding'' = False"
  "hasHeader text_plain ''Content-Encoding'' = False" "hasHeader text_plain ''Location'' = False"
  "own_values ''Content-Length'' text_plain = []"
  by code_simp+

lemma received_text:
  "received text_plain body =
     [Header ''Content-Type'' ''text/plain; charset=utf-8'', Header ''Content-Length'' (to_string (length body))]"
proof -
  have "trimCopy ''Content-Type'' = ''Content-Type''"
    "trimCopy ''text/plain; charset=utf-8'' = ''text/plain; charset=utf-8''"
    "trimCopy ''Content-Length'' = ''Content-Length''"
    by code_simp+
  then show ?thesis
    using text_plain_names(1) by (simp add: received_def sent_fields_def) (simp add: text_plain_def Field_def)
qed

lemma text_answer_ok:
  assumes "sc code = status" and "(code, status) \<in> {(200, ''200 OK''), (404, ''404 Not Found'')}"
    and "length body < 2 ^ 63"
  shows "answer_ok sc (code, body, text_plain)"
proof -
  have d: "CHR '':'' \<notin> set (to_string n)" "CHR ''/'' \<notin> set (to_string n)" "LF \<notin> set (to_string n)"
    "CR \<notin> set (to_string n)" "CHR 0x00 \<notin> set (to_string n)" for n
    using to_string_digits [of "CHR '':''" n] to_string_digits [of "CHR ''/''" n] to_string_digits [of LF n]
      to_string_digits [of CR n] to_string_digits [of "CHR 0x00" n]
    by (auto simp: LF_def CR_def)
  have v: "list_all (\<lambda>c. c \<noteq> CR \<and> c \<noteq> LF \<and> c \<noteq> CHR 0x00) (to_string n)" for n
    unfolding list_all_iff using d(3,4,5) [of n] by blast
  have "length (header_line (''Content-Length'', to_string (length body))) < 2 ^ 64"
    using length_to_string [of "length body"] assms(3) by (simp add: header_line_def)
  then have "field_ok (''Content-Length'', to_string (length body))"
    using d v by (simp add: field_ok_def header_ok_def)
  moreover have "field_ok (''Content-Type'', ''text/plain; charset=utf-8'')"
    by (simp add: field_ok_def header_ok_def header_line_def LF_def CR_def)
  ultimately have f: "list_all field_ok (sent_fields text_plain body)"
    using text_plain_names(1) by (simp add: sent_fields_def) (simp add: text_plain_def Field_def)
  have n: "to_string 200 = ''200''" "to_string 404 = ''404''" by code_simp+
  have "LF \<notin> set status \<and> status \<noteq> [] \<and> CHR '':'' \<notin> set status \<and> length status < 20
      \<and> take 3 status = to_string (unat code) \<and> 200 \<le> unat code \<and> unat code \<noteq> 417"
    using assms(2) n by (auto simp: LF_def)
  then have "LF \<notin> set (makeStatusLine sc code)" "status_ok (status_line sc code)"
    "take 3 (makeStatusLine sc code) = to_string (unat code)" "200 \<le> unat code" "unat code \<noteq> 417"
    using assms(1) by (auto simp: makeStatusLine_def status_line_def status_ok_def CR_def LF_def)
  with f text_plain_names show ?thesis by (simp add: answer_ok_def framed_def)
qed

text \<open>What a table entry of the library does with a request.\<close>

definition entry_serves :: "(u16 \<Rightarrow> string) \<Rightarrow> installed option \<Rightarrow> lib_request \<Rightarrow> u16 \<Rightarrow> string \<Rightarrow> bool" where
  "entry_serves sc entry rq code body \<longleftrightarrow>
     (case entry of
        None \<Rightarrow> False
      | Some i \<Rightarrow> \<forall>now s. client_gets (snd (snd (handleRequest sc i now (Some rq) (Some []) s))) (code, body, text_plain))"

lemma entry_serves_text:
  assumes "in_handler i = (\<lambda>request. ([Call_write code (f request) text_plain], None))"
    and "sc code = status" and "(code, status) \<in> {(200, ''200 OK''), (404, ''404 Not Found'')}"
    and "f (makeRequestSnapshot (Some rq)) = body" and "length body < 2 ^ 63"
  shows "entry_serves sc (Some i) rq code body"
proof -
  have "handler_answer i (makeRequestSnapshot (Some rq)) = (code, body, text_plain)"
    using assms(1,4) by (simp add: handler_answer_def)
  then show ?thesis
    unfolding entry_serves_def
    using handleRequest_meets [of i "Some rq" sc "[]"] text_answer_ok [of sc code status body] assms
    by (auto intro!: meets_client_gets)
qed

text \<open>The example server: with the status lines that the library has for 200 and 404, the entries for
  \<open>/health\<close>, \<open>/echo\<close> and everything else answer so that the client reports \<open>ok\<close>, the request's own body, and
  \<open>Route not found\<close>, each with its two header fields; the server has no other entry.\<close>

theorem http_example_serves:
  assumes "sc 200 = ''200 OK''" and "sc 404 = ''404 Not Found''" and "length (lr_content rq) < 2 ^ 63"
  shows "case hi_server (snd (ht_preRun None (http_example now))) of
      None \<Rightarrow> False
    | Some sv \<Rightarrow>
        entry_serves sc (sv_resource sv ''^/health$'' ''GET'') rq 200 (''ok'' @ [LF])
        \<and> entry_serves sc (sv_resource sv ''^/echo$'' ''POST'') rq 200 (lr_content rq)
        \<and> entry_serves sc (sv_default_resource sv ''GET'') rq 404 (''Route not found'' @ [LF])
        \<and> {pm. sv_resource sv (fst pm) (snd pm) \<noteq> None} = {(''^/health$'', ''GET''), (''^/echo$'', ''POST'')}
        \<and> {m. sv_default_resource sv m \<noteq> None} = {''GET''}"
  using assms
  by (auto simp: ht_preRun_def http_example_fields ex_health_def [abs_def] ex_echo_def [abs_def]
      ex_not_found_def [abs_def] makeRequestSnapshot_def split: if_splits intro!: entry_serves_text)

section \<open>The same over TLS\<close>

definition exs_health :: td_RequestHandler where
  "exs_health request = ([Call_write 200 (''secure-ok'' @ [LF]) text_plain], None)"

definition exs_echo :: td_RequestHandler where
  "exs_echo request = ([Call_write 200 (rq_body request) text_plain], None)"

definition exs_not_found :: td_RequestHandler where
  "exs_not_found request = ([Call_write 404 (''Secure route not found'' @ [LF]) text_plain], None)"

definition https_example :: "string \<Rightarrow> string \<Rightarrow> int \<Rightarrow> https_server" where
  "https_example certificateFile privateKeyFile now =
     (let server = hs_new ''TestHTTPSServer'' 8443 certificateFile privateKeyFile [] [] 1 now;
          server = snd (hs_addResource ''^/health$'' ''GET'' (Some exs_health) server);
          server = snd (hs_addResource ''^/echo$'' ''POST'' (Some exs_echo) server)
      in snd (hs_setDefaultResource ''GET'' (Some exs_not_found) server))"

lemma https_example_fields:
  "hz_resources (https_example c k now)
     = [\<lparr>rt_pathRegex = ''^/health$'', rt_method = ''GET'', rt_handler = exs_health\<rparr>,
        \<lparr>rt_pathRegex = ''^/echo$'', rt_method = ''POST'', rt_handler = exs_echo\<rparr>]"
  "hz_defaultResources (https_example c k now) = [\<lparr>rt_pathRegex = [], rt_method = ''GET'', rt_handler = exs_not_found\<rparr>]"
  "hz_errorHandler (https_example c k now) = None"
  "hz_certificateFile (https_example c k now) = c" "hz_privateKeyFile (https_example c k now) = k"
  by (simp_all add: https_example_def hs_addResource_def hs_setDefaultResource_def hs_new_def hs_isRunning_def bw_new_def
      isRunning_def getState_def hs_text_agrees Let_def)

definition entry_serves_tls :: "(u16 \<Rightarrow> string) \<Rightarrow> installed option \<Rightarrow> lib_request \<Rightarrow> u16 \<Rightarrow> string \<Rightarrow> bool" where
  "entry_serves_tls sc entry rq code body \<longleftrightarrow>
     (case entry of
        None \<Rightarrow> False
      | Some i \<Rightarrow> \<forall>now s. client_gets (snd (snd (hs_handleRequest sc i now (Some rq) (Some []) s))) (code, body, text_plain))"

text \<open>The copy of the code that the HTTPS server runs answers the same.\<close>

lemma entry_serves_tls_text:
  assumes "in_handler i = (\<lambda>request. ([Call_write code (f request) text_plain], None))"
    and "sc code = status" and "(code, status) \<in> {(200, ''200 OK''), (404, ''404 Not Found'')}"
    and "f (makeRequestSnapshot (Some rq)) = body" and "length body < 2 ^ 63"
  shows "entry_serves_tls sc (Some i) rq code body"
proof -
  have "snd (snd (hs_handleRequest sc i now (Some rq) (Some []) s))
      = snd (snd (handleRequest sc i now (Some rq) (Some []) (ht_new [] 0 [] 1 0)))" for now s
    using answer_agrees [of i "Some rq"] assms(1) by simp
  then show ?thesis
    using entry_serves_text [of i code f sc status rq body] assms by (simp add: entry_serves_tls_def entry_serves_def)
qed

text \<open>The HTTPS example: with a certificate and a key given it serves its three routes, as the other one does;
  with an empty argument for either \<open>preRun\<close> fails and the library's server is never made.\<close>

theorem https_example_serves:
  assumes "sc 200 = ''200 OK''" and "sc 404 = ''404 Not Found''" and "length (lr_content rq) < 2 ^ 63"
  shows "case hz_server (snd (hs_preRun None (https_example c k now))) of
      None \<Rightarrow> c = [] \<or> k = []
    | Some sv \<Rightarrow>
        c \<noteq> [] \<and> k \<noteq> [] \<and> sz_certificateFile sv = c \<and> sz_privateKeyFile sv = k
        \<and> entry_serves_tls sc (sz_resource sv ''^/health$'' ''GET'') rq 200 (''secure-ok'' @ [LF])
        \<and> entry_serves_tls sc (sz_resource sv ''^/echo$'' ''POST'') rq 200 (lr_content rq)
        \<and> entry_serves_tls sc (sz_default_resource sv ''GET'') rq 404 (''Secure route not found'' @ [LF])"
proof (cases "c = [] \<or> k = []")
  case True
  then have "hz_server (snd (hs_preRun None (https_example c k now))) = hz_server (https_example c k now)"
    by (simp add: hs_preRun_def https_example_fields hs_resolveStartIfPending_def)
  moreover have "hz_server (https_example c k now) = None"
    by (simp add: https_example_def hs_addResource_def hs_setDefaultResource_def hs_new_def hs_isRunning_def Let_def)
  ultimately show ?thesis using True by simp
next
  case False
  then show ?thesis
    using assms
    by (auto simp: hs_preRun_def https_example_fields exs_health_def [abs_def] exs_echo_def [abs_def]
        exs_not_found_def [abs_def] makeRequestSnapshot_def intro!: entry_serves_tls_text)
qed

section \<open>The exit codes\<close>

text \<open>\<open>main\<close> of both: the exit code, and the server when its destructor has run. \<open>meanwhile\<close> is what the
  server's threads do until a line has been read.\<close>

definition server_main ::
  "('s \<Rightarrow> (bool \<times> 's) option) \<Rightarrow> ('s \<Rightarrow> 's) \<Rightarrow> ('s \<Rightarrow> (bool \<times> 's) option) \<Rightarrow> ('s \<Rightarrow> 's option) \<Rightarrow> 's \<Rightarrow> (int \<times> 's) option" where
  "server_main start meanwhile stop destroy server =
     (case start server of
        None \<Rightarrow> None
      | Some (False, s) \<Rightarrow> map_option (Pair 1) (destroy s)
      | Some (True, s) \<Rightarrow>
          (case stop (meanwhile s) of
             None \<Rightarrow> None
           | Some (False, s1) \<Rightarrow> map_option (Pair 1) (destroy s1)
           | Some (True, s1) \<Rightarrow> map_option (Pair 0) (destroy s1)))"

definition http_example_main ::
  "nat option \<Rightarrow> int \<Rightarrow> http_server wake list \<Rightarrow> (http_server \<Rightarrow> http_server) \<Rightarrow> http_server wake list
     \<Rightarrow> http_server wake list \<Rightarrow> (int \<times> http_server) option" where
  "http_example_main created now startWakes meanwhile stopWakes destroyWakes =
     server_main (ht_startThread_ms created now 5000 startWakes) meanwhile (ht_stopThread 5000 stopWakes)
       (ht_destroy destroyWakes) (http_example now)"

definition https_example_main ::
  "string \<Rightarrow> string \<Rightarrow> nat option \<Rightarrow> int \<Rightarrow> https_server wake list \<Rightarrow> (https_server \<Rightarrow> https_server)
     \<Rightarrow> https_server wake list \<Rightarrow> https_server wake list \<Rightarrow> (int \<times> https_server) option" where
  "https_example_main certificateFile privateKeyFile created now startWakes meanwhile stopWakes destroyWakes =
     server_main (hs_startThread_ms created now 5000 startWakes) meanwhile (hs_stopThread 5000 stopWakes)
       (hs_destroy destroyWakes) (https_example certificateFile privateKeyFile now)"

text \<open>What the exit code says.\<close>

definition exit_answer ::
  "('s \<Rightarrow> base_worker) \<Rightarrow> nat option \<Rightarrow> 's wake list \<Rightarrow> 's wake list \<Rightarrow> 's wake list \<Rightarrow> (int \<times> 's) option \<Rightarrow> bool" where
  "exit_answer base created startWakes stopWakes destroyWakes r \<longleftrightarrow>
     (case r of
        None \<Rightarrow> \<not> (\<forall>ws \<in> {startWakes, stopWakes, destroyWakes}. \<exists>x \<in> set ws. is_timeout x)
      | Some (code, s) \<Rightarrow>
          if code = 0 then created \<noteq> None \<and> stopped (base s) \<and> m_thread (base s) = None
          else code = 1 \<and> (if stopped (base s) then m_thread (base s) = None
                           else \<exists>x \<in> set destroyWakes. is_timeout x))"

lemma server_main_exit:
  assumes start: "\<And>u. start u = None \<Longrightarrow> \<not> (\<exists>x \<in> set startWakes. is_timeout x)"
      "\<And>u s. start u = Some (True, s) \<Longrightarrow> created \<noteq> None"
    and stop: "\<And>u. stop_answer base stopWakes (stop u)"
    and destroy: "\<And>u. destroyed base destroyWakes (destroy u)"
    and again: "\<And>u u'. destroy u = Some u' \<Longrightarrow> stopped (base u) \<Longrightarrow> stopped (base u') \<and> m_thread (base u') = None"
  shows "exit_answer base created startWakes stopWakes destroyWakes (server_main start meanwhile stop destroy server)"
proof (cases "start server")
  case None
  then show ?thesis using start(1) by (simp add: server_main_def exit_answer_def)
next
  case (Some r)
  then obtain ok s where r: "start server = Some (ok, s)" by (cases r) auto
  show ?thesis
  proof (cases ok)
    case False
    then show ?thesis using r destroy [of s]
      by (cases "destroy s") (simp_all add: server_main_def exit_answer_def destroyed_def)
  next
    case True
    show ?thesis
    proof (cases "stop (meanwhile s)")
      case None
      then show ?thesis using r True stop [of "meanwhile s"]
        by (simp add: server_main_def exit_answer_def stop_answer_def)
    next
      case (Some q)
      obtain ok1 s1 where q: "q = (ok1, s1)" by fastforce
      have "ok1 \<Longrightarrow> stopped (base s1)" using Some q stop [of "meanwhile s"] by (simp add: stop_answer_def)
      moreover have "server_main start meanwhile stop destroy server
          = map_option (Pair (if ok1 then 0 else 1)) (destroy s1)"
        using r True Some q by (simp add: server_main_def)
      ultimately show ?thesis
        using start(2) [of server s] r True destroy [of s1] again [of s1]
        by (cases "destroy s1") (simp_all add: destroyed_def exit_answer_def)
    qed
  qed
qed

text \<open>\<open>main\<close> ends as soon as its three waits time out, whatever the server's threads do; it answers 0 only if
  a thread was made, and that thread has then ended and was joined; when it answers 1 the thread has
  ended and was joined as well, or outlasted the destructor's wait.\<close>

theorem server_examples_exit:
  "exit_answer hb_base created ws1 ws2 ws3 (http_example_main created now ws1 f ws2 ws3)
   \<and> exit_answer hz_base created zs1 zs2 zs3 (https_example_main c k created now zs1 g zs2 zs3)"
proof
  show "exit_answer hb_base created ws1 ws2 ws3 (http_example_main created now ws1 f ws2 ws3)"
    unfolding http_example_main_def
  proof (rule server_main_exit)
    fix u s
    show "ht_startThread_ms created now 5000 ws1 u = None \<Longrightarrow> \<not> (\<exists>x \<in> set ws1. is_timeout x)"
      using ht_start.start_contract [where created = created and now = now and t = 5000 and ws = ws1 and s = u]
      by (simp add: ht_startThread_ms_def)
    show "ht_startThread_ms created now 5000 ws1 u = Some (True, s) \<Longrightarrow> created \<noteq> None"
      using ht_start.start_contract [where created = created and now = now and t = 5000 and ws = ws1 and s = u]
      by (cases created) (simp_all add: ht_startThread_ms_def)
    show "stop_answer hb_base ws2 (ht_stopThread 5000 ws2 u)"
      unfolding ht_stopThread_def by (rule ht_stop.stop_contract) simp
    show "destroyed hb_base ws3 (ht_destroy ws3 u)"
      unfolding ht_destroy_def ht_stopThread_def by (intro stop_answer_destroyed ht_stop.stop_contract default_wait)
    show "ht_destroy ws3 u = Some s \<Longrightarrow> stopped (hb_base u) \<Longrightarrow> stopped (hb_base s) \<and> m_thread (hb_base s) = None"
      unfolding ht_destroy_def ht_stopThread_def by (rule ht_stop.destroy_stopped)
  qed
  show "exit_answer hz_base created zs1 zs2 zs3 (https_example_main c k created now zs1 g zs2 zs3)"
    unfolding https_example_main_def
  proof (rule server_main_exit)
    fix u s
    show "hs_startThread_ms created now 5000 zs1 u = None \<Longrightarrow> \<not> (\<exists>x \<in> set zs1. is_timeout x)"
      using hs_start.start_contract [where created = created and now = now and t = 5000 and ws = zs1 and s = u]
      by (simp add: hs_startThread_ms_def)
    show "hs_startThread_ms created now 5000 zs1 u = Some (True, s) \<Longrightarrow> created \<noteq> None"
      using hs_start.start_contract [where created = created and now = now and t = 5000 and ws = zs1 and s = u]
      by (cases created) (simp_all add: hs_startThread_ms_def)
    show "stop_answer hz_base zs2 (hs_stopThread 5000 zs2 u)"
      unfolding hs_stopThread_def by (rule hs_stop.stop_contract) simp
    show "destroyed hz_base zs3 (hs_destroy zs3 u)"
      unfolding hs_destroy_def hs_stopThread_def by (intro stop_answer_destroyed hs_stop.stop_contract default_wait)
    show "hs_destroy zs3 u = Some s \<Longrightarrow> stopped (hz_base u) \<Longrightarrow> stopped (hz_base s) \<and> m_thread (hz_base s) = None"
      unfolding hs_destroy_def hs_stopThread_def by (rule hs_stop.destroy_stopped)
  qed
qed

section \<open>Instances\<close>


theorem http_example_serves_witness:
  "case hi_server (snd (ht_preRun None (http_example 0))) of
      None \<Rightarrow> False
    | Some sv \<Rightarrow>
        entry_serves (\<lambda>c. if c = 200 then ''200 OK'' else ''404 Not Found'') (sv_resource sv ''^/echo$'' ''POST'')
          \<lparr>lr_method = ''POST'', lr_path = ''/echo'', lr_query_string = [], lr_http_version = ''1.1'', lr_content = ''hello'',
           lr_header = [], lr_query_fields = [], lr_path_match = [], lr_remote_endpoint = (None, 1),
           lr_local_endpoint = (None, 2)\<rparr> 200 ''hello''"
proof -
  let ?rq = "\<lparr>lr_method = ''POST'', lr_path = ''/echo'', lr_query_string = [], lr_http_version = ''1.1'',
    lr_content = ''hello'', lr_header = [], lr_query_fields = [], lr_path_match = [], lr_remote_endpoint = (None, 1),
    lr_local_endpoint = (None, 2)\<rparr>"
  show ?thesis
    using http_example_serves [of "\<lambda>c. if c = 200 then ''200 OK'' else ''404 Not Found''" ?rq 0]
    by (simp split: option.splits)
qed

end
