(* ===== verification/ExamplePrograms.thy ===== *)
theory ExamplePrograms
  imports ThreadQueue SimpleContainer
begin

text \<open>
  Two of the repository's example programs as clients of the verified containers:
  \<open>examples/threadQueueExample_V2.cpp\<close>, a producer and a consumer thread, in all interleavings, and
  \<open>examples/simpleContainerExample_V2.cpp\<close>. Sleeping is leaving the turn to the other thread; the console
  is the list of the lines printed.
\<close>

section \<open>The queue example\<close>

text \<open>The producer's \<open>i\<close> is what it pushes next: 6 is the final \<open>done\<close>, 7 that it has returned.\<close>

datatype qe_consumer = Qe_polling | Qe_joining | Qe_returned

record qe_sys =
  qe_queue :: "string cThreadQueue"
  qe_i :: nat
  qe_main :: qe_consumer
  qe_console :: "string list"
  qe_says_empty :: "bool option"

definition qe_init :: qe_sys where
  "qe_init = \<lparr>qe_queue = tq_new, qe_i = 1, qe_main = Qe_polling, qe_console = [], qe_says_empty = None\<rparr>"

definition qe_message :: "nat \<Rightarrow> string" where
  "qe_message i = (if i \<le> 5 then ''message-'' @ to_string i else ''done'')"

inductive qe_produce :: "qe_sys \<Rightarrow> qe_sys \<Rightarrow> bool" where
  qe_push: "qe_i s \<le> 5 \<Longrightarrow>
     qe_produce s (s\<lparr>qe_queue := tq_push (''message-'' @ to_string (qe_i s)) (qe_queue s), qe_i := qe_i s + 1\<rparr>)"
| qe_push_done: "qe_i s = 6 \<Longrightarrow>
     qe_produce s (s\<lparr>qe_queue := tq_push ''done'' (qe_queue s), qe_i := 7\<rparr>)"

inductive qe_consume :: "qe_sys \<Rightarrow> qe_sys \<Rightarrow> bool" where
  qe_nothing: "qe_main s = Qe_polling \<Longrightarrow> tq_tryGetFront (qe_queue s) = (None, q) \<Longrightarrow>
     qe_consume s (s\<lparr>qe_queue := q\<rparr>)"
| qe_item: "qe_main s = Qe_polling \<Longrightarrow> tq_tryGetFront (qe_queue s) = (Some item, q) \<Longrightarrow>
     qe_consume s (s\<lparr>qe_queue := q, qe_console := qe_console s @ [item],
                     qe_main := (if item = ''done'' then Qe_joining else Qe_polling)\<rparr>)"
| qe_join: "qe_main s = Qe_joining \<Longrightarrow> qe_i s = 7 \<Longrightarrow>
     qe_consume s (s\<lparr>qe_main := Qe_returned, qe_says_empty := Some (tq_empty True (qe_queue s))\<rparr>)"

definition qe_step :: "qe_sys \<Rightarrow> qe_sys \<Rightarrow> bool" where
  "qe_step s t \<longleftrightarrow> qe_produce s t \<or> qe_consume s t"

inductive qe_reachable :: "qe_sys \<Rightarrow> bool" where
  qe_start: "qe_reachable qe_init"
| qe_next: "qe_reachable s \<Longrightarrow> qe_step s t \<Longrightarrow> qe_reachable t"

text \<open>What is printed, followed by what is queued, is what has been pushed; a \<open>done\<close> was printed if and only
  if the consumer has stopped polling, and nothing was pushed after it.\<close>

definition qe_inv :: "qe_sys \<Rightarrow> bool" where
  "qe_inv s \<longleftrightarrow>
     tq_inv (qe_queue s) \<and> 1 \<le> qe_i s \<and> qe_i s \<le> 7 \<and>
     qe_console s @ m_queue (qe_queue s) = map qe_message [1..<qe_i s] \<and>
     (qe_main s = Qe_polling \<longleftrightarrow> ''done'' \<notin> set (qe_console s)) \<and>
     (qe_says_empty s = (if qe_main s = Qe_returned then Some True else None))"

lemma qe_message_done: "qe_message i = ''done'' \<longleftrightarrow> 5 < i"
  by (simp add: qe_message_def)

text \<open>Once \<open>done\<close> is printed, everything is.\<close>

lemma qe_done_last:
  assumes "c @ q = map qe_message [1..<i]" and "i \<le> 7" and "''done'' \<in> set c"
  shows "q = [] \<and> i = 7"
proof -
  obtain k where k: "k < length c" "c ! k = ''done''" using assms(3) by (meson in_set_conv_nth)
  have len: "length c + length q = i - 1" using assms(1) by (metis length_append length_map length_upt)
  have "c ! k = map qe_message [1..<i] ! k" using k(1) unfolding assms(1) [symmetric] by (simp add: nth_append)
  then have "qe_message (1 + k) = ''done''" using k len by simp
  then have "5 \<le> k" by (simp add: qe_message_done)
  then have "length q = 0 \<and> i = 7" using k(1) len assms(2) by linarith
  then show ?thesis by simp
qed

lemma qe_produce_inv: "qe_produce s t \<Longrightarrow> qe_inv s \<Longrightarrow> qe_inv t"
proof (induction rule: qe_produce.induct)
  case (qe_push s)
  moreover have "[1..<qe_i s + 1] = [1..<qe_i s] @ [qe_i s]" using qe_push by (simp add: qe_inv_def)
  ultimately show ?case
    by (simp add: qe_inv_def tq_inv_push qe_message_def flip: append_assoc) (simp add: tq_defs)
next
  case (qe_push_done s)
  moreover have "[1..<7] = [1..<6] @ [6::nat]" by (simp add: upt_rec)
  ultimately show ?case
    by (simp add: qe_inv_def tq_inv_push qe_message_def flip: append_assoc) (simp add: tq_defs)
qed

lemma tryGetFront_SomeD: "tq_tryGetFront q = (Some x, q') \<Longrightarrow> m_queue q = x # m_queue q' \<and> tq_inv q'"
  and tryGetFront_NoneD: "tq_tryGetFront q = (None, q') \<Longrightarrow> m_queue q = [] \<and> q' = q"
  by (auto simp: tq_defs tq_inv_def split: list.splits)

lemma qe_consume_inv: "qe_consume s t \<Longrightarrow> qe_inv s \<Longrightarrow> qe_inv t"
proof (induction rule: qe_consume.induct)
  case (qe_nothing s q)
  then show ?case by (auto simp: qe_inv_def dest!: tryGetFront_NoneD)
next
  case (qe_item s item q)
  then show ?case by (auto simp: qe_inv_def dest!: tryGetFront_SomeD)
next
  case (qe_join s)
  then have "''done'' \<in> set (qe_console s)" by (simp add: qe_inv_def)
  then have "m_queue (qe_queue s) = []" using qe_done_last qe_join by (auto simp: qe_inv_def)
  then show ?case using qe_join by (simp add: qe_inv_def tq_empty_def tq_size_def tq_inv_def del: set_map) metis
qed

lemma qe_reachable_inv: "qe_reachable s \<Longrightarrow> qe_inv s"
proof (induction rule: qe_reachable.induct)
  case qe_start
  show ?case by (simp add: qe_inv_def qe_init_def tq_inv_new) (simp add: tq_defs)
next
  case (qe_next s t)
  then show ?case by (auto simp: qe_step_def intro: qe_produce_inv qe_consume_inv)
qed

text \<open>What the program is to print, and how far it is from its end.\<close>

definition qe_expected :: "string list" where
  "qe_expected = [''message-1'', ''message-2'', ''message-3'', ''message-4'', ''message-5'', ''done'']"

lemma take_upt_1: "i \<le> 7 \<Longrightarrow> take (i - 1) [1..<7] = [1..<i::nat]"
  by (cases i) (simp_all add: take_upt)

lemma qe_expected_take: "i \<le> 7 \<Longrightarrow> map qe_message [1..<i] = take (i - 1) qe_expected"
proof -
  have "map qe_message [1..<7] = qe_expected" by code_simp
  moreover assume "i \<le> 7"
  ultimately show ?thesis by (metis take_map take_upt_1)
qed

definition qe_left :: "qe_sys \<Rightarrow> nat" where
  "qe_left s = (7 - qe_i s) + (6 - length (qe_console s)) + (if qe_main s = Qe_returned then 0 else 1)"

text \<open>In every interleaving of the producer and the consumer the lines printed are a prefix of \<open>message-1\<close> to
  \<open>message-5\<close>, \<open>done\<close>; when \<open>main\<close> returns all six were printed, and it has reported the queue empty. Until
  then the program can go on, by a push, an item printed or the join, each of which brings the end
  nearer.\<close>

theorem queue_example_prints_all:
  assumes "qe_reachable s"
  shows "qe_console s = take (length (qe_console s)) qe_expected
    \<and> (qe_main s = Qe_returned \<longrightarrow> qe_console s = qe_expected \<and> qe_says_empty s = Some True)
    \<and> (qe_main s \<noteq> Qe_returned \<longrightarrow> (\<exists>t. qe_step s t \<and> qe_left t < qe_left s))"
proof -
  have inv: "qe_inv s" by (rule qe_reachable_inv [OF assms])
  then have all: "qe_console s @ m_queue (qe_queue s) = map qe_message [1..<qe_i s]" "1 \<le> qe_i s" "qe_i s \<le> 7"
    and poll: "qe_main s = Qe_polling \<longleftrightarrow> ''done'' \<notin> set (qe_console s)"
    by (simp_all add: qe_inv_def)
  have len: "length (qe_console s) + length (m_queue (qe_queue s)) = qe_i s - 1"
    using all(1) by (metis length_append length_map length_upt)
  have "qe_console s = take (length (qe_console s)) (map qe_message [1..<qe_i s])"
    unfolding all(1) [symmetric] by simp
  also have "\<dots> = take (length (qe_console s)) (take (qe_i s - 1) qe_expected)"
    using all(3) qe_expected_take [of "qe_i s"] by simp
  finally have pre: "qe_console s = take (length (qe_console s)) qe_expected"
    using len by (simp add: min_def)
  have ended: "m_queue (qe_queue s) = [] \<and> qe_i s = 7" if "qe_main s \<noteq> Qe_polling"
    using qe_done_last [OF all(1,3)] poll that by blast
  have "\<exists>t. qe_step s t \<and> qe_left t < qe_left s" if m: "qe_main s \<noteq> Qe_returned"
  proof (cases "qe_main s")
    case Qe_joining
    let ?t = "s\<lparr>qe_main := Qe_returned, qe_says_empty := Some (tq_empty True (qe_queue s))\<rparr>"
    have "qe_step s ?t" using qe_join [OF Qe_joining] ended Qe_joining by (simp add: qe_step_def)
    moreover have "qe_left ?t < qe_left s" using Qe_joining by (simp add: qe_left_def)
    ultimately show ?thesis by blast
  next
    case Qe_polling
    show ?thesis
    proof (cases "m_queue (qe_queue s)")
      case (Cons item rest)
      obtain q where q: "tq_tryGetFront (qe_queue s) = (Some item, q)"
        using Cons by (simp add: tq_tryGetFront_def)
      have "length (qe_console s) < 6" using len Cons all(3) by simp
      moreover let ?t = "s\<lparr>qe_queue := q, qe_console := qe_console s @ [item],
        qe_main := (if item = ''done'' then Qe_joining else Qe_polling)\<rparr>"
      have "qe_step s ?t" using qe_item [OF Qe_polling q] by (simp add: qe_step_def)
      ultimately show ?thesis using Qe_polling by (intro exI [of _ ?t]) (simp add: qe_left_def)
    next
      case Nil
      have "\<not> 6 < qe_i s"
      proof
        assume "6 < qe_i s"
        then have "qe_i s = 7" using all(3) by simp
        then have "qe_console s = qe_expected" using all(1) Nil qe_expected_take [of 7] by (simp add: qe_expected_def)
        then show False using Qe_polling poll by (simp add: qe_expected_def)
      qed
      then obtain t where "qe_produce s t" "qe_i t = qe_i s + 1" "qe_console t = qe_console s" "qe_main t = qe_main s"
        using qe_push [of s] qe_push_done [of s] by (cases "qe_i s = 6") fastforce+
      then show ?thesis using \<open>\<not> 6 < qe_i s\<close> unfolding qe_step_def by (intro exI [of _ t]) (simp add: qe_left_def)
    qed
  qed (use m in simp)
  moreover have "qe_console s = qe_expected \<and> qe_says_empty s = Some True" if "qe_main s = Qe_returned"
    using pre len ended that inv by (auto simp: qe_inv_def qe_expected_def)
  ultimately show ?thesis using pre by blast
qed

lemma qe_one_printed: "\<exists>s. qe_reachable s \<and> qe_console s = [''message-1''] \<and> qe_main s = Qe_polling"
proof -
  let ?a = "qe_init\<lparr>qe_queue := tq_push ''message-1'' tq_new, qe_i := 2\<rparr>"
  have m: "''message-'' @ to_string 1 = ''message-1''" by code_simp
  have "qe_produce qe_init ?a" using qe_push [of qe_init] m by (simp add: qe_init_def numeral_2_eq_2)
  then have 1: "qe_reachable ?a" using qe_start qe_next by (simp add: qe_step_def)
  have "tq_tryGetFront (qe_queue ?a) = (Some ''message-1'', \<lparr>m_queue = [], m_queueSize = 0\<rparr>)"
    by (simp add: tq_defs)
  from qe_item [OF _ this] obtain t where "qe_consume ?a t" "qe_console t = [''message-1'']" "qe_main t = Qe_polling"
    by (simp add: qe_init_def)
  then show ?thesis using 1 qe_next by (auto simp: qe_step_def)
qed

theorem queue_example_prints_all_witness:
  "\<exists>s t. qe_console s = [''message-1''] \<and> qe_step s t \<and> qe_left t < qe_left s"
proof -
  obtain s where s: "qe_reachable s" "qe_console s = [''message-1'']" "qe_main s = Qe_polling"
    using qe_one_printed by blast
  then show ?thesis using queue_example_prints_all [OF s(1)] by auto
qed

section \<open>The container example\<close>

text \<open>\<open>operator<\<close> of \<open>std::string\<close>.\<close>

fun str_less :: "string \<Rightarrow> string \<Rightarrow> bool" where
  "str_less xs [] = False"
| "str_less [] (y # ys) = True"
| "str_less (x # xs) (y # ys) =
     ((of_char x :: nat) < of_char y \<or> (x = y \<and> str_less xs ys))"

text \<open>What \<open>main\<close> prints: the size of the snapshot and the two results. \<open>early\<close> tells whether the delayed
  producer inserts before the timed \<open>grab\<close> looks at the container; otherwise it does so during the wait
  or afterwards, and the clock ends the wait.\<close>

definition container_example :: "bool \<Rightarrow> (nat \<times> (cpp_exn + string list) \<times> string list) option" where
  "container_example early =
     (let produce = (\<lambda>items. snd (sc_insert ''epsilon'' True items));
          (_, firstBatch, items) = sc_insert_move (\<lambda>_. []) [''alpha'', ''beta'', ''gamma''] True sc_new;
          items = snd (sc_insert ''delta'' True items);
          snapshot = sc_snapshot size_max 0 items;
          (grabbed, items, _) = sc_grab_select 2
            (Some (sc_pure (\<lambda>value. if str_less value ''delta'' then Sel_grab else Sel_skip))) 0 items ();
          timedGrab = (if early then sc_grab_timed 10 (produce items) [TimedOut id]
                       else sc_grab_timed 10 items [Notified produce, TimedOut id])
      in map_option (\<lambda>(timed, _). (length snapshot, grabbed, timed)) timedGrab)"

text \<open>The program prints the same in every run but for \<open>epsilon\<close>: four items in the snapshot, \<open>alpha\<close> and
  \<open>beta\<close> grabbed; the timed \<open>grab\<close>, for which \<open>gamma\<close> and \<open>delta\<close> are still there, never waits for the delayed
  producer and has its item only when it came before.\<close>

theorem container_example_output:
  "container_example early =
     Some (4, Inr [''alpha'', ''beta''], [''gamma'', ''delta''] @ (if early then [''epsilon''] else []))"
proof -
  have "sc_snapshot size_max 0 \<lparr>m_items = [''alpha'', ''beta'', ''gamma'', ''delta'']\<rparr> = [''alpha'', ''beta'', ''gamma'', ''delta'']"
    by (simp add: sc_snapshot_def advanceIteratorUnlocked_def sc_snapshot_loop_take size_max_def)
  then show ?thesis by (simp add: container_example_def sc_defs sc_pure_def Let_def)
qed

end
