(* ===== verification/GrpcWorkerThreads.thy ===== *)
theory GrpcWorkerThreads
  imports GrpcWorkerProofs
begin

text \<open>
  The first run of a \<open>cGenericGrpcWorker\<close> (\<open>cGenericGrpcWorker.h\<close> on \<open>cBaseWorker_V2.h\<close>) with everything
  that can run beside it: the worker thread in \<open>threadRunner\<close>, any number of threads in \<open>requestStop\<close>, and
  gRPC's own threads. A step is one critical section, one assignment of a member that others read, or
  one call into gRPC; the operations on the object are those of \<open>GrpcWorker\<close>. Of gRPC it uses what its
  headers say: \<open>Server::Shutdown()\<close> stops the server from taking calls and returns when no call is in
  progress; a listener's event is good exactly if a call was matched to it before that; the queue reports
  its shutdown once it was shut down and is drained; and nothing may be put on a queue after its
  \<open>Shutdown()\<close>. The last is an obligation of the program: \<open>gt_late\<close> records the objects that break it.
\<close>

section \<open>State and steps\<close>

datatype gt_worker =
    Gp_preRun | Gp_build | Gp_publish int | Gp_check | Gp_setRunning | Gp_arm | Gp_poll
  | Gp_continue nat | Gp_listen nat | Gp_execute nat | Gp_retiring nat | Gp_setStopped | Gp_exited

text \<open>Stopping threads are counted: about to read \<open>m_server\<close>, inside \<open>m_server->Shutdown()\<close>, about to read
  \<open>m_cq\<close>. \<open>gt_received\<close> are the listeners that gRPC has matched to a call and whose event is not taken yet.\<close>

record 'r gt_sys =
  gt_obj :: "'r grpc_worker"
  gt_worker :: gt_worker
  gt_triggers :: nat
  gt_waiting :: nat
  gt_shutting :: nat
  gt_received :: "nat set"
  gt_late :: "nat list"

text \<open>\<open>startThread\<close> on a new object has made the thread.\<close>

definition gt_init :: "string \<Rightarrow> string \<Rightarrow> int \<Rightarrow> 'r gt_sys" where
  "gt_init name server_address now =
     \<lparr>gt_obj = (gw_new name server_address now)\<lparr>gw_base := (bw_new name now)\<lparr>m_state := St_Starting, m_thread := Some 0\<rparr>\<rparr>,
      gt_worker = Gp_preRun, gt_triggers = 0, gt_waiting = 0, gt_shutting = 0, gt_received = {}, gt_late = []\<rparr>"

definition gt_map :: "('r grpc_worker \<Rightarrow> 'r grpc_worker) \<Rightarrow> 'r gt_sys \<Rightarrow> 'r gt_sys" where
  "gt_map f s = s\<lparr>gt_obj := f (gt_obj s)\<rparr>"

definition gt_base :: "base_worker \<Rightarrow> 'r gt_sys \<Rightarrow> 'r gt_sys" where
  "gt_base b s = gt_map (\<lambda>x. x\<lparr>gw_base := b\<rparr>) s"

definition gt_goto :: "gt_worker \<Rightarrow> 'r gt_sys \<Rightarrow> 'r gt_sys" where
  "gt_goto pc s = s\<lparr>gt_worker := pc\<rparr>"

text \<open>The operation of an object is put on the queue.\<close>

definition gt_enqueue :: "nat \<Rightarrow> 'r gt_sys \<Rightarrow> 'r gt_sys" where
  "gt_enqueue c s = (if gw_cq (gt_obj s) = Some True then s\<lparr>gt_late := gt_late s @ [c]\<rparr> else s)"

text \<open>The object that the worker thread is working for, between its listener's event and \<open>Finish\<close>.\<close>

fun gt_exec :: "gt_worker \<Rightarrow> nat option" where
  "gt_exec (Gp_continue c) = Some c"
| "gt_exec (Gp_listen c) = Some c"
| "gt_exec (Gp_execute c) = Some c"
| "gt_exec (Gp_retiring c) = Some c"
| "gt_exec _ = None"

text \<open>The calls in progress: matched to a listener, being worked on, or with their answer on its way.\<close>

definition gt_in_flight :: "'r gt_sys \<Rightarrow> nat set" where
  "gt_in_flight s =
     gt_received s \<union> {c. gw_calls (gt_obj s) c = Some FINISH} \<union> set_option (gt_exec (gt_worker s))"

text \<open>The second half of \<open>Proceed\<close> for a request.\<close>

definition cd_answer :: "nat \<Rightarrow> (cpp_exn + grpc_status) \<times> 'r \<Rightarrow> 'r grpc_worker \<Rightarrow> 'r grpc_worker" where
  "cd_answer c rpc s =
     s\<lparr>gw_calls := (gw_calls s)(c \<mapsto> FINISH), gw_finished := gw_finished s @ [(c, cd_status (fst rpc), snd rpc)],
       gw_pending := gw_pending s @ [c]\<rparr>"

lemma cd_Proceed_answer:
  "gw_calls s c = Some PROCESS \<Longrightarrow>
   cd_Proceed c rpc s = Some (cd_answer c rpc (if continueRunning (gw_base s) then cd_new s else s))"
  by (simp add: cd_Proceed_def cd_answer_def Let_def)

text \<open>\<open>AsyncNext\<close> hands out the event of an operation.\<close>

definition gt_take :: "nat \<Rightarrow> 'r gt_sys \<Rightarrow> 'r gt_sys" where
  "gt_take c s = (gt_map (\<lambda>x. x\<lparr>gw_pending := remove1 c (gw_pending x)\<rparr>) s)\<lparr>gt_received := gt_received s - {c}\<rparr>"

text \<open>The worker thread: \<open>preRun\<close>, the look at the stop flag, \<open>run\<close> with its first listener, the rounds of
  its loop.\<close>

inductive gt_works :: "'r gt_sys \<Rightarrow> 'r gt_sys \<Rightarrow> bool" where
  gt_preRun_throws: "gt_worker s = Gp_preRun \<Longrightarrow>
     gt_works s (gt_goto Gp_setStopped (gt_map (\<lambda>x. x\<lparr>gw_lastError := gw_startup_failed e\<rparr>) s))"
| gt_adds_queue: "gt_worker s = Gp_preRun \<Longrightarrow>
     gt_works s (gt_goto Gp_build (gt_map (\<lambda>x. x\<lparr>gw_cq := Some False\<rparr>) s))"
| gt_build_throws: "gt_worker s = Gp_build \<Longrightarrow>
     gt_works s (gt_goto Gp_setStopped (gt_map (\<lambda>x. x\<lparr>gw_lastError := gw_startup_failed e\<rparr>) s))"
| gt_build_null: "gt_worker s = Gp_build \<Longrightarrow>
     gt_works s (gt_goto Gp_setStopped
       (gt_map (\<lambda>x. x\<lparr>gw_server := None, gw_lastError := ''BuildAndStart() returned a null server''\<rparr>) s))"
| gt_builds: "gt_worker s = Gp_build \<Longrightarrow>
     gt_works s (gt_goto (Gp_publish selectedPort) (gt_map (\<lambda>x. x\<lparr>gw_server := Some False\<rparr>) s))"
| gt_publishes: "gt_worker s = Gp_publish selectedPort \<Longrightarrow>
     gt_works s (gt_goto Gp_check (gt_map (\<lambda>x. x\<lparr>gw_boundPort := selectedPort, gw_lastError := []\<rparr>) s))"
| gt_check_stop: "gt_worker s = Gp_check \<Longrightarrow> stopRequested (gw_base (gt_obj s)) \<Longrightarrow>
     gt_works s (gt_goto Gp_setStopped s)"
| gt_check_go: "gt_worker s = Gp_check \<Longrightarrow> \<not> stopRequested (gw_base (gt_obj s)) \<Longrightarrow>
     gt_works s (gt_goto Gp_setRunning s)"
| gt_set_running: "gt_worker s = Gp_setRunning \<Longrightarrow>
     gt_works s (gt_goto Gp_arm (gt_base (setState St_Running (gw_base (gt_obj s))) s))"
| gt_arms: "gt_worker s = Gp_arm \<Longrightarrow>
     gt_works s (gt_goto Gp_poll (gt_map cd_new (gt_enqueue (gw_next (gt_obj s)) s)))"
| gt_timeout: "gt_worker s = Gp_poll \<Longrightarrow> gt_works s (gt_map (gw_updateHeartbeat now) s)"
| gt_drained: "gt_worker s = Gp_poll \<Longrightarrow> gw_pending (gt_obj s) = [] \<Longrightarrow> gw_cq (gt_obj s) = Some True \<Longrightarrow>
     gt_works s (gt_goto Gp_setStopped (gt_map (gw_updateHeartbeat now) s))"
| gt_request: "gt_worker s = Gp_poll \<Longrightarrow> c \<in> set (gw_pending (gt_obj s)) \<Longrightarrow>
     gw_calls (gt_obj s) c = Some PROCESS \<Longrightarrow> c \<in> gt_received s \<Longrightarrow>
     gt_works s (gt_goto (Gp_continue c) (gt_map (gw_updateHeartbeat now) (gt_take c s)))"
| gt_not_matched: "gt_worker s = Gp_poll \<Longrightarrow> c \<in> set (gw_pending (gt_obj s)) \<Longrightarrow>
     gw_calls (gt_obj s) c = Some PROCESS \<Longrightarrow> c \<notin> gt_received s \<Longrightarrow> gw_server (gt_obj s) = Some True \<Longrightarrow>
     gt_works s (gt_map (\<lambda>x. cd_delete c (gw_updateHeartbeat now x)) (gt_take c s))"
| gt_answered: "gt_worker s = Gp_poll \<Longrightarrow> c \<in> set (gw_pending (gt_obj s)) \<Longrightarrow>
     gw_calls (gt_obj s) c = Some FINISH \<Longrightarrow>
     gt_works s (gt_map (\<lambda>x. cd_delete c (gw_updateHeartbeat now x)) (gt_take c s))"
| gt_continue: "gt_worker s = Gp_continue c \<Longrightarrow>
     gt_works s (gt_goto (if continueRunning (gw_base (gt_obj s)) then Gp_listen c else Gp_execute c) s)"
| gt_listen: "gt_worker s = Gp_listen c \<Longrightarrow>
     gt_works s (gt_goto (Gp_execute c) (gt_map cd_new (gt_enqueue (gw_next (gt_obj s)) s)))"
| gt_finish: "gt_worker s = Gp_execute c \<Longrightarrow>
     gt_works s (gt_goto Gp_poll (gt_map (cd_answer c rpc) (gt_enqueue c s)))"
| gt_retire: "gt_worker s = Gp_execute c \<Longrightarrow> retire (gw_base (gt_obj s)) = (True, b) \<Longrightarrow>
     gt_works s (gt_goto (Gp_retiring c)
       (gt_map (\<lambda>x. if gw_server x \<noteq> None then x\<lparr>gw_server := Some True\<rparr> else x) (gt_base b s)))"
| gt_retire_late: "gt_worker s = Gp_execute c \<Longrightarrow> retire (gw_base (gt_obj s)) = (False, b) \<Longrightarrow>
     gt_works s (gt_base b s)"
| gt_retired: "gt_worker s = Gp_retiring c \<Longrightarrow> gw_server (gt_obj s) = None \<or> gt_in_flight s = {} \<Longrightarrow>
     gt_works s (gt_goto (Gp_execute c) (gt_map (\<lambda>x. if gw_cq x \<noteq> None then x\<lparr>gw_cq := Some True\<rparr> else x) s))"
| gt_set_stopped: "gt_worker s = Gp_setStopped \<Longrightarrow>
     gt_works s (gt_goto Gp_exited (gt_base (setState St_Stopped (gw_base (gt_obj s))) s))"

text \<open>The threads that stop, from the locked block of \<open>requestStop\<close> through \<open>stopTriggered\<close>, and the
  heartbeat that the starting thread sets.\<close>

inductive gt_stops :: "'r gt_sys \<Rightarrow> 'r gt_sys \<Rightarrow> bool" where
  gt_requestStop: "requestStop (gw_base (gt_obj s)) = (trigger, b) \<Longrightarrow>
     gt_stops s (gt_base b (s\<lparr>gt_triggers := (if trigger then Suc (gt_triggers s) else gt_triggers s)\<rparr>))"
| gt_no_server: "gt_triggers s = Suc n \<Longrightarrow> gw_server (gt_obj s) = None \<Longrightarrow>
     gt_stops s (s\<lparr>gt_triggers := n, gt_shutting := Suc (gt_shutting s)\<rparr>)"
| gt_shuts_server: "gt_triggers s = Suc n \<Longrightarrow> gw_server (gt_obj s) \<noteq> None \<Longrightarrow>
     gt_stops s ((gt_map (\<lambda>x. x\<lparr>gw_server := Some True\<rparr>) s)\<lparr>gt_triggers := n, gt_waiting := Suc (gt_waiting s)\<rparr>)"
| gt_server_down: "gt_waiting s = Suc n \<Longrightarrow> gt_in_flight s = {} \<Longrightarrow>
     gt_stops s (s\<lparr>gt_waiting := n, gt_shutting := Suc (gt_shutting s)\<rparr>)"
| gt_shuts_queue: "gt_shutting s = Suc n \<Longrightarrow>
     gt_stops s ((gt_map (\<lambda>x. if gw_cq x \<noteq> None then x\<lparr>gw_cq := Some True\<rparr> else x) s)\<lparr>gt_shutting := n\<rparr>)"
| gt_start_heartbeat:
     "gt_stops s (gt_base (resetHeartbeat now (gw_base (gt_obj s))) s)"

text \<open>gRPC matches a call to an armed listener of a server that takes calls.\<close>

inductive gt_grpc :: "'r gt_sys \<Rightarrow> 'r gt_sys \<Rightarrow> bool" where
  gt_receives: "c \<in> set (gw_pending (gt_obj s)) \<Longrightarrow> gw_calls (gt_obj s) c = Some PROCESS \<Longrightarrow>
     gw_server (gt_obj s) = Some False \<Longrightarrow> gt_grpc s (s\<lparr>gt_received := insert c (gt_received s)\<rparr>)"

inductive gt_step :: "'r gt_sys \<Rightarrow> 'r gt_sys \<Rightarrow> bool" where
  gt_by_worker: "gt_works s t \<Longrightarrow> gt_step s t"
| gt_by_others: "gt_stops s t \<Longrightarrow> gt_step s t"
| gt_by_grpc: "gt_grpc s t \<Longrightarrow> gt_step s t"

inductive gt_reachable :: "'r gt_sys \<Rightarrow> bool" where
  gt_reach_init: "gt_reachable (gt_init name server_address now)"
| gt_reach_step: "gt_reachable s \<Longrightarrow> gt_step s t \<Longrightarrow> gt_reachable t"

text \<open>Undisturbed, the steps for a request are one round of \<open>gw_run\<close>.\<close>

lemma gt_does_round:
  assumes "gt_worker s = Gp_poll" and "c \<in> set (gw_pending (gt_obj s))" and "gw_calls (gt_obj s) c = Some PROCESS"
    and "c \<in> gt_received s"
    and "gw_round \<lparr>ci_stop = False, ci_event = GOT_EVENT c True, ci_now = now, ci_rpc = rpc\<rparr> (gt_obj s) = Polling x"
  shows "\<exists>t. gt_works\<^sup>*\<^sup>* s t \<and> gt_worker t = Gp_poll \<and> gt_obj t = x"
proof -
  let ?a = "gt_goto (Gp_continue c) (gt_map (gw_updateHeartbeat now) (gt_take c s))"
  let ?o = "gw_updateHeartbeat now ((gt_obj s)\<lparr>gw_pending := remove1 c (gw_pending (gt_obj s))\<rparr>)"
  let ?go = "continueRunning (gw_base ?o)"
  have 1: "gt_works\<^sup>*\<^sup>* s ?a" by (rule r_into_rtranclp) (rule gt_request [OF assms(1-4)])
  have a: "gt_obj ?a = ?o" "gt_worker ?a = Gp_continue c" by (simp_all add: gt_goto_def gt_map_def gt_take_def)
  obtain b where b: "gt_works\<^sup>*\<^sup>* ?a b" "gt_worker b = Gp_execute c" "gt_obj b = (if ?go then cd_new ?o else ?o)"
  proof (cases ?go)
    case True
    note steps = converse_rtranclp_into_rtranclp [OF gt_continue [OF a(2)] r_into_rtranclp [where r = gt_works, OF gt_listen [where c = c]]]
    show thesis by (rule that [OF steps]) (use True a(1) in \<open>simp_all add: gt_goto_def gt_map_def gt_enqueue_def\<close>)
  next
    case False
    show thesis by (rule that [OF r_into_rtranclp [where r = gt_works, OF gt_continue [OF a(2)]]])
      (use False a(1) in \<open>simp_all add: gt_goto_def\<close>)
  qed
  let ?t = "gt_goto Gp_poll (gt_map (cd_answer c rpc) (gt_enqueue c b))"
  have "gt_works\<^sup>*\<^sup>* s ?t" using rtranclp_trans [OF 1 b(1)] gt_finish [OF b(2)] by (rule rtranclp.rtrancl_into_rtrancl)
  moreover have "gw_calls ?o c = Some PROCESS" using assms(3) by (simp add: gw_updateHeartbeat_def)
  note p = cd_Proceed_answer [OF this]
  have "?o = (gw_updateHeartbeat now (gt_obj s))\<lparr>gw_pending := remove1 c (gw_pending (gt_obj s))\<rparr>"
    by (simp add: gw_updateHeartbeat_def)
  then have "gw_round \<lparr>ci_stop = False, ci_event = GOT_EVENT c True, ci_now = now, ci_rpc = rpc\<rparr> (gt_obj s)
      = (case cd_Proceed c rpc ?o of None \<Rightarrow> Undefined | Some s' \<Rightarrow> Polling s')"
    by (simp add: gw_round_def cq_before_def Let_def)
  then have "x = cd_answer c rpc (if ?go then cd_new ?o else ?o)" using assms(5) p by simp
  then have "gt_obj ?t = x" by (simp add: b(3) gt_goto_def gt_map_def gt_enqueue_def)
  ultimately show ?thesis by (intro exI [of _ ?t]) (simp add: gt_goto_def)
qed

section \<open>The heap\<close>

lemma gt_fields [simp]:
  "gt_obj (gt_map f s) = f (gt_obj s)" "gt_worker (gt_map f s) = gt_worker s"
  "gt_triggers (gt_map f s) = gt_triggers s" "gt_waiting (gt_map f s) = gt_waiting s"
  "gt_shutting (gt_map f s) = gt_shutting s" "gt_received (gt_map f s) = gt_received s"
  "gt_late (gt_map f s) = gt_late s"
  "gt_obj (gt_goto pc s) = gt_obj s" "gt_worker (gt_goto pc s) = pc"
  "gt_triggers (gt_goto pc s) = gt_triggers s" "gt_waiting (gt_goto pc s) = gt_waiting s"
  "gt_shutting (gt_goto pc s) = gt_shutting s" "gt_received (gt_goto pc s) = gt_received s"
  "gt_late (gt_goto pc s) = gt_late s"
  "gt_obj (gt_enqueue c s) = gt_obj s" "gt_worker (gt_enqueue c s) = gt_worker s"
  "gt_triggers (gt_enqueue c s) = gt_triggers s" "gt_waiting (gt_enqueue c s) = gt_waiting s"
  "gt_shutting (gt_enqueue c s) = gt_shutting s" "gt_received (gt_enqueue c s) = gt_received s"
  "gt_late (gt_enqueue c s) = (if gw_cq (gt_obj s) = Some True then gt_late s @ [c] else gt_late s)"
  by (simp_all add: gt_map_def gt_goto_def gt_enqueue_def)

lemma gt_base_fields [simp]:
  "gt_obj (gt_base b s) = (gt_obj s)\<lparr>gw_base := b\<rparr>" "gt_worker (gt_base b s) = gt_worker s"
  "gt_triggers (gt_base b s) = gt_triggers s" "gt_waiting (gt_base b s) = gt_waiting s"
  "gt_shutting (gt_base b s) = gt_shutting s" "gt_received (gt_base b s) = gt_received s"
  "gt_late (gt_base b s) = gt_late s"
  by (simp_all add: gt_base_def)

lemma gt_take_fields [simp]:
  "gt_obj (gt_take c s) = (gt_obj s)\<lparr>gw_pending := remove1 c (gw_pending (gt_obj s))\<rparr>"
  "gt_worker (gt_take c s) = gt_worker s" "gt_triggers (gt_take c s) = gt_triggers s"
  "gt_waiting (gt_take c s) = gt_waiting s" "gt_shutting (gt_take c s) = gt_shutting s"
  "gt_received (gt_take c s) = gt_received s - {c}" "gt_late (gt_take c s) = gt_late s"
  by (simp_all add: gt_take_def)

lemma heartbeat_parts [simp]:
  "m_state (gw_base (gw_updateHeartbeat now x)) = m_state (gw_base x)"
  "m_stopRequested (gw_base (gw_updateHeartbeat now x)) = m_stopRequested (gw_base x)"
  "gw_server (gw_updateHeartbeat now x) = gw_server x" "gw_cq (gw_updateHeartbeat now x) = gw_cq x"
  by (simp_all add: gw_updateHeartbeat_def updateHeartbeat_def)

lemma cd_other_fields [simp]:
  "gw_server (cd_new x) = gw_server x" "gw_server (cd_delete c x) = gw_server x"
  "gw_cq (cd_delete c x) = gw_cq x" "gw_base (cd_delete c x) = gw_base x"
  "gw_pending (cd_delete c x) = gw_pending x" "gw_next (cd_delete c x) = gw_next x"
  "gw_calls (cd_delete c x) = (gw_calls x)(c := None)"
  "gw_server (cd_answer c rpc x) = gw_server x" "gw_cq (cd_answer c rpc x) = gw_cq x"
  "gw_base (cd_answer c rpc x) = gw_base x" "gw_next (cd_answer c rpc x) = gw_next x"
  "gw_calls (cd_answer c rpc x) = (gw_calls x)(c \<mapsto> FINISH)"
  "gw_pending (cd_answer c rpc x) = gw_pending x @ [c]"
  by (simp_all add: cd_new_def cd_arm_def cd_delete_def cd_answer_def Let_def)

text \<open>The ownership invariant, with the object that is being worked for among those that have an operation
  under way.\<close>

definition gt_heap :: "gt_worker \<Rightarrow> 'r grpc_worker \<Rightarrow> 'r grpc_worker" where
  "gt_heap pc x = (case gt_exec pc of None \<Rightarrow> x | Some c \<Rightarrow> x\<lparr>gw_pending := c # gw_pending x\<rparr>)"

fun gt_early :: "gt_worker \<Rightarrow> bool" where
  "gt_early pc \<longleftrightarrow> (case pc of Gp_preRun \<Rightarrow> True | Gp_build \<Rightarrow> True | Gp_publish p \<Rightarrow> True | Gp_check \<Rightarrow> True
     | Gp_setRunning \<Rightarrow> True | Gp_arm \<Rightarrow> True | _ \<Rightarrow> False)"

definition gt_heap_inv :: "'r gt_sys \<Rightarrow> bool" where
  "gt_heap_inv s \<longleftrightarrow>
     gw_inv (gt_heap (gt_worker s) (gt_obj s))
     \<and> (\<forall>c. gt_exec (gt_worker s) = Some c \<longrightarrow> gw_calls (gt_obj s) c = Some PROCESS)
     \<and> (\<forall>c \<in> gt_received s. c \<in> set (gw_pending (gt_obj s)) \<and> gw_calls (gt_obj s) c = Some PROCESS)
     \<and> (gt_early (gt_worker s) \<longrightarrow> gw_next (gt_obj s) = 0)"

lemma gw_inv_pending:
  "gw_inv s \<Longrightarrow> mset p = mset (gw_pending s) \<Longrightarrow> gw_inv (s\<lparr>gw_pending := p\<rparr>)"
proof -
  assume "gw_inv s" "mset p = mset (gw_pending s)"
  moreover from this(2) have "distinct p = distinct (gw_pending s)" "set p = set (gw_pending s)"
    by (rule mset_eq_imp_distinct_iff, rule mset_eq_setD)
  ultimately show ?thesis by (simp add: gw_inv_def)
qed

lemma gw_inv_none: "gw_inv s \<Longrightarrow> gw_next s = 0 \<Longrightarrow> gw_pending s = [] \<and> gw_calls s = (\<lambda>_. None)"
proof -
  assume "gw_inv s" "gw_next s = 0"
  then have "dom (gw_calls s) = {}" "set (gw_pending s) = dom (gw_calls s)" by (auto simp: gw_inv_def)
  then show ?thesis by simp
qed

text \<open>What the steps that leave the heap alone need.\<close>

lemma gt_heap_cong:
  "gw_pending x = gw_pending y \<Longrightarrow> gw_calls x = gw_calls y \<Longrightarrow> gw_deleted x = gw_deleted y \<Longrightarrow>
   gw_next x = gw_next y \<Longrightarrow> gw_finished x = gw_finished y \<Longrightarrow> gt_exec p = gt_exec q \<Longrightarrow>
   gw_inv (gt_heap p x) = gw_inv (gt_heap q y)"
  by (cases "gt_exec q") (simp_all add: gt_heap_def gw_inv_def)

lemma gt_heap_same:
  assumes "gt_heap_inv s" and "gw_pending (gt_obj t) = gw_pending (gt_obj s)"
    and "gw_calls (gt_obj t) = gw_calls (gt_obj s)" and "gw_deleted (gt_obj t) = gw_deleted (gt_obj s)"
    and "gw_next (gt_obj t) = gw_next (gt_obj s)" and "gw_finished (gt_obj t) = gw_finished (gt_obj s)"
    and "gt_exec (gt_worker t) = gt_exec (gt_worker s)" and "gt_received t = gt_received s"
    and "gt_early (gt_worker t) \<longrightarrow> gt_early (gt_worker s)"
  shows "gt_heap_inv t"
  using assms gt_heap_cong [of "gt_obj t" "gt_obj s" "gt_worker t" "gt_worker s"]
  by (simp add: gt_heap_inv_def del: gt_early.simps)

text \<open>An event is taken: of a listener, of one whose object goes, of an answer.\<close>

lemma gw_inv_take_back:
  assumes "gw_inv x" and "c \<in> set (gw_pending x)"
  shows "gw_inv (x\<lparr>gw_pending := c # remove1 c (gw_pending x)\<rparr>)"
  using assms by (intro gw_inv_pending) simp_all

lemma gt_heap_taken_delete:
  assumes "gt_heap_inv s" and "gt_worker s = Gp_poll" and "c \<in> set (gw_pending (gt_obj s))"
    and "gw_calls (gt_obj s) c = Some st"
  shows "gt_heap_inv (gt_map (\<lambda>x. cd_delete c (gw_updateHeartbeat now x)) (gt_take c s))"
proof -
  let ?o = "gw_updateHeartbeat now (gt_obj s)"
  have i: "gw_inv ?o" using assms(1,2) gw_inv_cong [of ?o "gt_obj s"] by (simp add: gt_heap_inv_def gt_heap_def)
  have e: "gw_updateHeartbeat now ((gt_obj s)\<lparr>gw_pending := remove1 c (gw_pending (gt_obj s))\<rparr>)
      = ?o\<lparr>gw_pending := remove1 c (gw_pending ?o)\<rparr>"
    by (simp add: gw_updateHeartbeat_def)
  have g: "gw_calls ?o c = Some st" using assms(4) by simp
  have "gw_inv (cd_delete c (?o\<lparr>gw_pending := remove1 c (gw_pending ?o)\<rparr>))"
    by (rule gw_inv_delete [OF i g])
  then show ?thesis
    using assms(1,2) unfolding gt_heap_inv_def gt_heap_def by (auto simp: e)
qed

lemma gt_heap_works: "gt_works s t \<Longrightarrow> gt_heap_inv s \<Longrightarrow> gt_heap_inv t"
proof (induction rule: gt_works.induct)
  case (gt_arms s)
  then have "gw_inv (gt_obj s)" by (simp add: gt_heap_inv_def gt_heap_def)
  then have "gw_inv (cd_new (gt_obj s))" by (rule gw_inv_new)
  with gt_arms show ?case by (auto simp: gt_heap_inv_def gt_heap_def)
next
  case (gt_request s c now)
  have "gw_inv ((gt_obj s)\<lparr>gw_pending := c # remove1 c (gw_pending (gt_obj s))\<rparr>)"
    using gt_request by (intro gw_inv_take_back) (simp_all add: gt_heap_inv_def gt_heap_def)
  then have "gw_inv (gt_heap (Gp_continue c) (gw_updateHeartbeat now (gt_obj (gt_take c s))))"
    by (rule subst [OF gw_inv_cong, rotated -1]) (simp_all add: gt_heap_def)
  then show ?case using gt_request by (auto simp: gt_heap_inv_def)
next
  case (gt_not_matched s c now)
  then show ?case by (intro gt_heap_taken_delete)
next
  case (gt_answered s c now)
  then show ?case by (intro gt_heap_taken_delete)
next
  case (gt_listen s c)
  let ?x = "(gt_obj s)\<lparr>gw_pending := c # gw_pending (gt_obj s)\<rparr>"
  have i: "gw_inv ?x" "gw_calls (gt_obj s) c = Some PROCESS" using gt_listen by (simp_all add: gt_heap_inv_def gt_heap_def)
  have "gw_inv (cd_new ?x)" by (rule gw_inv_new [OF i(1)])
  then have "gw_inv (gt_heap (Gp_execute c) (cd_new (gt_obj s)))"
    by (rule subst [OF gw_inv_cong, rotated -1]) (simp_all add: gt_heap_def)
  moreover have "c \<noteq> gw_next (gt_obj s)" using gw_inv_call_less [OF i(1), of c] i(2) by simp
  ultimately show ?case using gt_listen i by (auto simp: gt_heap_inv_def)
next
  case (gt_finish s c rpc)
  let ?x = "(gt_obj s)\<lparr>gw_pending := c # gw_pending (gt_obj s)\<rparr>"
  have i: "gw_inv ?x" "gw_calls ?x c = Some PROCESS" using gt_finish by (simp_all add: gt_heap_inv_def gt_heap_def)
  have "gw_inv (cd_answer c rpc (gt_obj s)) = gw_inv (?x\<lparr>gw_calls := (gw_calls ?x)(c \<mapsto> FINISH),
      gw_finished := gw_finished ?x @ [(c, cd_status (fst rpc), snd rpc)],
      gw_pending := remove1 c (gw_pending ?x) @ [c]\<rparr>)"
    by (rule gw_inv_cong) (simp_all add: cd_answer_def)
  then have "gw_inv (cd_answer c rpc (gt_obj s))" using gw_inv_finish [OF i] by simp
  moreover have "c \<notin> set (gw_pending (gt_obj s))" using i(1) by (simp add: gw_inv_def)
  ultimately show ?case using gt_finish by (auto simp: gt_heap_inv_def gt_heap_def)
qed (erule gt_heap_same; simp)+

lemma gt_heap_stops: "gt_stops s t \<Longrightarrow> gt_heap_inv s \<Longrightarrow> gt_heap_inv t"
  by (induction rule: gt_stops.induct) (erule gt_heap_same; simp)+

lemma gt_heap_grpc: "gt_grpc s t \<Longrightarrow> gt_heap_inv s \<Longrightarrow> gt_heap_inv t"
  by (induction rule: gt_grpc.induct) (auto simp: gt_heap_inv_def)

lemma gt_heap_step [inv_intros]: "gt_step s t \<Longrightarrow> gt_heap_inv s \<Longrightarrow> gt_heap_inv t"
  by (erule gt_step.cases) (auto intro: gt_heap_works gt_heap_stops gt_heap_grpc)

lemma gt_heap_init: "gt_heap_inv (gt_init name server_address now)"
  by (simp add: gt_heap_inv_def gt_heap_def gt_init_def gw_new_def gw_inv_def)

section \<open>The stop protocol\<close>

text \<open>The worker is past its look at the stop flag and before the end of \<open>run\<close>.\<close>

fun gt_going :: "gt_worker \<Rightarrow> bool" where
  "gt_going pc \<longleftrightarrow> (case pc of Gp_setRunning \<Rightarrow> True | Gp_arm \<Rightarrow> True | Gp_poll \<Rightarrow> True | Gp_continue c \<Rightarrow> True
     | Gp_listen c \<Rightarrow> True | Gp_execute c \<Rightarrow> True | Gp_retiring c \<Rightarrow> True | _ \<Rightarrow> False)"

fun gt_built :: "gt_worker \<Rightarrow> bool" where
  "gt_built pc \<longleftrightarrow> (case pc of Gp_publish p \<Rightarrow> True | Gp_check \<Rightarrow> True | pc \<Rightarrow> gt_going pc)"

definition gt_flag :: "'r gt_sys \<Rightarrow> bool" where
  "gt_flag s = m_stopRequested (gw_base (gt_obj s))"

text \<open>Until the thread has ended the state is not \<open>Stopped\<close>, so that every request goes on to
  \<open>stopTriggered\<close>; the queue and the server are there from the end of \<open>preRun\<close> on.\<close>

definition gt_made_inv :: "'r gt_sys \<Rightarrow> bool" where
  "gt_made_inv s \<longleftrightarrow>
     (gt_worker s \<noteq> Gp_exited \<longrightarrow> m_state (gw_base (gt_obj s)) \<in> {St_Starting, St_Running, St_Stopping})
     \<and> (gt_worker s = Gp_preRun \<longrightarrow> gw_cq (gt_obj s) = None \<and> gw_server (gt_obj s) = None)
     \<and> (gt_worker s = Gp_build \<longrightarrow> gw_cq (gt_obj s) \<noteq> None \<and> gw_server (gt_obj s) = None)
     \<and> (gt_built (gt_worker s) \<longrightarrow> gw_cq (gt_obj s) \<noteq> None \<and> gw_server (gt_obj s) \<noteq> None)"

text \<open>Nothing is shut down before a stop is requested. While the worker goes on after a request, its queue is
  shut down or somebody is on the way to it; and by the time anybody gets to the queue the server is down
  and no call is in progress. Only the first listener can be late, and a worker that has left its loop
  has drained its queue.\<close>

definition gt_stop_inv :: "'r gt_sys \<Rightarrow> bool" where
  "gt_stop_inv s \<longleftrightarrow>
     (\<not> gt_flag s \<longrightarrow> gt_triggers s = 0 \<and> gt_waiting s = 0 \<and> gt_shutting s = 0
        \<and> gw_cq (gt_obj s) \<noteq> Some True \<and> gw_server (gt_obj s) \<noteq> Some True)
     \<and> (gt_going (gt_worker s) \<longrightarrow>
          (gt_flag s \<longrightarrow> gw_cq (gt_obj s) = Some True \<or> 0 < gt_triggers s + gt_waiting s + gt_shutting s
             \<or> (\<exists>c. gt_worker s = Gp_retiring c))
          \<and> (0 < gt_waiting s \<longrightarrow> gw_server (gt_obj s) = Some True)
          \<and> (0 < gt_shutting s \<or> gw_cq (gt_obj s) = Some True \<longrightarrow>
               gw_server (gt_obj s) = Some True \<and> gt_in_flight s = {}))
     \<and> (\<forall>c. gt_worker s = Gp_retiring c \<longrightarrow> gt_flag s \<and> gw_server (gt_obj s) = Some True)
     \<and> set (gt_late s) \<subseteq> {0}
     \<and> (gt_worker s \<in> {Gp_setStopped, Gp_exited} \<and> gw_next (gt_obj s) \<noteq> 0 \<longrightarrow>
          gw_pending (gt_obj s) = [] \<and> gw_cq (gt_obj s) = Some True \<and> gw_server (gt_obj s) = Some True)"

lemmas gt_step_defs = requestStop_def retire_def stopRequested_def continueRunning_def setState_def
  resetHeartbeat_def Let_def

lemma gt_made_works: "gt_works s t \<Longrightarrow> gt_made_inv s \<Longrightarrow> gt_made_inv t"
  by (induction rule: gt_works.induct)
     (auto simp: gt_made_inv_def gt_step_defs split: if_splits)

lemma gt_made_stops: "gt_stops s t \<Longrightarrow> gt_made_inv s \<Longrightarrow> gt_made_inv t"
  by (induction rule: gt_stops.induct)
     (auto simp: gt_made_inv_def gt_step_defs split: if_splits gt_worker.splits)

lemma gt_made_grpc: "gt_grpc s t \<Longrightarrow> gt_made_inv s \<Longrightarrow> gt_made_inv t"
  by (induction rule: gt_grpc.induct) (auto simp: gt_made_inv_def)

lemma gt_made_step [inv_intros]: "gt_step s t \<Longrightarrow> gt_made_inv s \<Longrightarrow> gt_made_inv t"
  by (erule gt_step.cases) (auto intro: gt_made_works gt_made_stops gt_made_grpc)

lemma gt_stop_works:
  "gt_works s t \<Longrightarrow> gt_heap_inv s \<Longrightarrow> gt_made_inv s \<Longrightarrow> gt_stop_inv s \<Longrightarrow> gt_stop_inv t"
proof (induction rule: gt_works.induct)
  case (gt_arms s)
  then have "gw_next (gt_obj s) = 0" "gw_inv (gt_obj s)" by (simp_all add: gt_heap_inv_def gt_heap_def)
  with gw_inv_none have n: "gw_next (gt_obj s) = 0" "gw_calls (gt_obj s) = (\<lambda>_. None)" by auto
  with gt_arms show ?case by (auto simp: gt_stop_inv_def gt_flag_def gt_in_flight_def)
qed (auto simp: gt_stop_inv_def gt_flag_def gt_in_flight_def gt_made_inv_def gt_heap_inv_def gt_step_defs
      split: if_splits)

lemma gt_stop_stops:
  "gt_stops s t \<Longrightarrow> gt_heap_inv s \<Longrightarrow> gt_made_inv s \<Longrightarrow> gt_stop_inv s \<Longrightarrow> gt_stop_inv t"
  by (induction rule: gt_stops.induct)
     (auto simp: gt_stop_inv_def gt_flag_def gt_in_flight_def gt_made_inv_def gt_step_defs
      split: if_splits gt_worker.splits)

lemma gt_stop_grpc: "gt_grpc s t \<Longrightarrow> gt_stop_inv s \<Longrightarrow> gt_stop_inv t"
  by (induction rule: gt_grpc.induct) (auto simp: gt_stop_inv_def gt_flag_def gt_in_flight_def split: gt_worker.splits)

lemma gt_stop_step [inv_intros]:
  "gt_step s t \<Longrightarrow> gt_heap_inv s \<Longrightarrow> gt_made_inv s \<Longrightarrow> gt_stop_inv s \<Longrightarrow> gt_stop_inv t"
  by (erule gt_step.cases) (auto intro: gt_stop_works gt_stop_stops gt_stop_grpc)

lemma gt_reachable_inv: "gt_reachable s \<Longrightarrow> gt_heap_inv s \<and> gt_made_inv s \<and> gt_stop_inv s"
proof (induction rule: gt_reachable.induct)
  case (gt_reach_init name server_address now)
  show ?case
    by (intro conjI gt_heap_init) (simp_all add: gt_made_inv_def gt_stop_inv_def gt_flag_def gt_init_def gw_new_def bw_new_def)
next
  case (gt_reach_step s t)
  then show ?case by (blast intro: inv_intros)
qed

section \<open>What holds of a stop\<close>

lemma gt_left_loop:
  "gt_heap_inv s \<Longrightarrow> gt_exec (gt_worker s) = None \<Longrightarrow> gw_pending (gt_obj s) = [] \<Longrightarrow>
   gw_calls (gt_obj s) = (\<lambda>_. None) \<and> set (gw_deleted (gt_obj s)) = {..<gw_next (gt_obj s)}"
proof -
  assume "gt_heap_inv s" "gt_exec (gt_worker s) = None" "gw_pending (gt_obj s) = []"
  then have "gw_inv (gt_obj s)" "set (gw_pending (gt_obj s)) = {}" by (simp_all add: gt_heap_inv_def gt_heap_def)
  moreover from this(1) have "set (gw_pending (gt_obj s)) = dom (gw_calls (gt_obj s))"
    "dom (gw_calls (gt_obj s)) \<union> set (gw_deleted (gt_obj s)) = {..<gw_next (gt_obj s)}"
    by (simp_all only: gw_inv_def)
  ultimately show ?thesis by simp
qed


text \<open>How much work the calls in progress still are.\<close>

fun gt_exec_load :: "gt_worker \<Rightarrow> nat" where
  "gt_exec_load (Gp_continue c) = 5"
| "gt_exec_load (Gp_listen c) = 4"
| "gt_exec_load (Gp_execute c) = 3"
| "gt_exec_load (Gp_retiring c) = 3"
| "gt_exec_load _ = 0"

definition gt_answering :: "'r grpc_worker \<Rightarrow> nat set" where
  "gt_answering x = {c. gw_calls x c = Some FINISH}"

definition gt_load :: "'r gt_sys \<Rightarrow> nat" where
  "gt_load s = 6 * card (gt_received s) + gt_exec_load (gt_worker s) + card (gt_answering (gt_obj s))"

lemma gt_heap_finite:
  assumes "gt_heap_inv s"
  shows "finite (gt_received s) \<and> finite (gt_answering (gt_obj s))"
proof -
  have "gt_received s \<subseteq> set (gw_pending (gt_obj s))" using assms by (auto simp: gt_heap_inv_def)
  moreover have "gw_calls (gt_heap (gt_worker s) (gt_obj s)) = gw_calls (gt_obj s)"
    by (simp add: gt_heap_def split: option.split)
  then have "finite (dom (gw_calls (gt_obj s)))"
    using assms by (metis List.finite_set gt_heap_inv_def gw_inv_def)
  then have "finite (gt_answering (gt_obj s))"
    by (rule rev_finite_subset) (auto simp: gt_answering_def)
  ultimately show ?thesis using finite_subset by blast
qed

lemma gt_answering_simps [simp]:
  "gt_answering (cd_answer c rpc x) = insert c (gt_answering x)"
  "gt_answering (cd_delete c x) = gt_answering x - {c}"
  "gt_answering (cd_new x) = gt_answering x - {gw_next x}"
  "gt_answering (gw_updateHeartbeat now x) = gt_answering x"
  "gt_answering (x\<lparr>gw_pending := p\<rparr>) = gt_answering x"
  "gt_answering (x\<lparr>gw_base := b\<rparr>) = gt_answering x"
  "gt_answering (x\<lparr>gw_cq := q\<rparr>) = gt_answering x"
  "gt_answering (x\<lparr>gw_server := v\<rparr>) = gt_answering x"
  "gt_answering (x\<lparr>gw_lastError := e\<rparr>) = gt_answering x"
  "gt_answering (x\<lparr>gw_boundPort := n\<rparr>) = gt_answering x"
  by (auto simp: gt_answering_def)

lemma gt_load_works:
  "gt_works s t \<Longrightarrow> gt_heap_inv s \<Longrightarrow> gt_load t \<le> gt_load s"
proof (induction rule: gt_works.induct)
  case (gt_request s c now)
  then have "card (gt_received s) = Suc (card (gt_received s - {c}))"
    using gt_heap_finite by (intro card.remove) auto
  with gt_request show ?case by (simp add: gt_load_def)
next
  case (gt_finish s c rpc)
  then show ?case
    using card_insert_le_m1 [of "Suc (card (gt_answering (gt_obj s)))" "gt_answering (gt_obj s)" c]
    by (simp add: gt_load_def)
qed (auto simp: gt_load_def gt_heap_finite card_Diff1_le add_mono intro!: add_mono mult_le_mono2)

lemma gt_load_step:
  assumes "gt_step s t" and "gt_heap_inv s" and "gw_server (gt_obj s) \<noteq> Some False"
  shows "gt_load t \<le> gt_load s"
  using assms(1)
proof cases
  case gt_by_worker
  then show ?thesis using assms(2) by (rule gt_load_works)
next
  case gt_by_others
  then show ?thesis by cases (auto simp: gt_load_def)
next
  case gt_by_grpc
  then show ?thesis using assms(3) by cases simp
qed

text \<open>A call in progress moves on.\<close>

lemma gt_in_flight_moves:
  assumes h: "gt_heap_inv s" and st: "gt_stop_inv s" and f: "gt_in_flight s \<noteq> {}"
    and r: "\<nexists>c. gt_worker s = Gp_retiring c"
  shows "\<exists>t. gt_works s t \<and> gt_load t < gt_load s"
proof (cases "gt_exec (gt_worker s)")
  case (Some c)
  then consider "gt_worker s = Gp_continue c" | "gt_worker s = Gp_listen c" | "gt_worker s = Gp_execute c"
    using r by (cases "gt_worker s") auto
  then show ?thesis
  proof cases
    case 1
    from gt_continue [OF this] 1 show ?thesis
      by (intro exI conjI) (assumption, simp add: gt_load_def)
  next
    case 2
    from gt_listen [OF this] 2 h show ?thesis
      by (intro exI conjI) (assumption, simp add: gt_load_def gt_heap_finite card_Diff1_le less_Suc_eq_le)
  next
    case 3
    have "card (insert c (gt_answering (gt_obj s))) \<le> Suc (card (gt_answering (gt_obj s)))"
      by (rule card_insert_le_m1) simp_all
    with gt_finish [OF 3, of undefined] 3 show ?thesis
      by (intro exI conjI) (assumption, simp add: gt_load_def)
  qed
next
  case None
  have i: "gw_inv (gt_obj s)" using h None by (simp add: gt_heap_inv_def gt_heap_def)
  have ne: "gw_next (gt_obj s) \<noteq> 0" "gw_pending (gt_obj s) \<noteq> []"
  proof -
    obtain c where c: "c \<in> gt_received s \<or> gw_calls (gt_obj s) c = Some FINISH"
      using f None by (auto simp: gt_in_flight_def)
    then have "gw_calls (gt_obj s) c \<noteq> None" "c \<in> set (gw_pending (gt_obj s))"
      using h i by (auto simp: gt_heap_inv_def gw_inv_def)
    then show "gw_next (gt_obj s) \<noteq> 0" "gw_pending (gt_obj s) \<noteq> []"
      using gw_inv_none [OF i] by (cases "gw_next (gt_obj s)"; auto)+
  qed
  then have p: "gt_worker s = Gp_poll"
    using h st None r by (cases "gt_worker s") (auto simp: gt_heap_inv_def gt_stop_inv_def)
  obtain c where "c \<in> gt_received s \<or> gw_calls (gt_obj s) c = Some FINISH"
    using f None by (auto simp: gt_in_flight_def)
  then show ?thesis
  proof
    assume c: "c \<in> gt_received s"
    then have "c \<in> set (gw_pending (gt_obj s))" "gw_calls (gt_obj s) c = Some PROCESS"
      using h by (auto simp: gt_heap_inv_def)
    note step = gt_request [OF p this c, of 0]
    have "card (gt_received s) = Suc (card (gt_received s - {c}))"
      using gt_heap_finite [OF h] c by (intro card.remove) auto
    with step p show ?thesis by (intro exI conjI) (assumption, simp add: gt_load_def)
  next
    assume c: "gw_calls (gt_obj s) c = Some FINISH"
    then have "c \<in> set (gw_pending (gt_obj s))" using i by (auto simp: gw_inv_def)
    note step = gt_answered [OF p this c, of 0]
    have "c \<notin> gt_received s" using h c by (auto simp: gt_heap_inv_def)
    moreover have "card (gt_answering (gt_obj s)) = Suc (card (gt_answering (gt_obj s) - {c}))"
      using gt_heap_finite [OF h] c by (intro card.remove) (auto simp: gt_answering_def)
    ultimately show ?thesis using step p by (intro exI conjI) (assumption, simp add: gt_load_def)
  qed
qed

text \<open>C25: A thread inside \<open>Server::Shutdown()\<close> is let go, unless the business logic itself asked for the stop: as
  long as a call is in progress the worker thread has a step that brings the end of the calls nearer, no
  step of any thread takes it further away, and gRPC matches no new call.\<close>

theorem gt_shutdown_returns:
  assumes "gt_reachable s" and "0 < gt_waiting s" and "gt_going (gt_worker s)"
    and "\<nexists>c. gt_worker s = Gp_retiring c"
  shows "(gt_in_flight s \<noteq> {} \<longrightarrow> (\<exists>t. gt_works s t \<and> gt_load t < gt_load s))
    \<and> (\<forall>t. gt_step s t \<longrightarrow> gt_load t \<le> gt_load s) \<and> (\<nexists>t. gt_grpc s t)"
proof -
  note inv = gt_reachable_inv [OF assms(1)]
  then have v: "gw_server (gt_obj s) = Some True"
    using assms(2,3) by (simp add: gt_stop_inv_def del: gt_going.simps)
  then have "\<nexists>t. gt_grpc s t" by (auto elim: gt_grpc.cases)
  then show ?thesis using inv v assms(4) gt_in_flight_moves [of s] gt_load_step [of s] by simp
qed

section \<open>What does not hold\<close>

lemma gt_then:
  "gt_reachable s \<Longrightarrow> gt_works s t \<Longrightarrow> gt_reachable t"
  "gt_reachable s \<Longrightarrow> gt_stops s t \<Longrightarrow> gt_reachable t"
  "gt_reachable s \<Longrightarrow> gt_grpc s t \<Longrightarrow> gt_reachable t"
  by (blast intro: gt_reach_step gt_step.intros)+

text \<open>Three places on the way of a worker nobody stops: past the look at the stop flag, in its loop with the
  first listener armed, and with a call matched to it.\<close>

definition gt_running :: "string grpc_worker" where
  "gt_running = (gw_new ''g'' ''0.0.0.0:0'' 0)\<lparr>gw_base := (bw_new ''g'' 0)\<lparr>m_state := St_Starting, m_thread := Some 0\<rparr>,
     gw_cq := Some False, gw_server := Some False, gw_boundPort := 5000\<rparr>"

lemma gt_at_setRunning:
  "gt_reachable \<lparr>gt_obj = gt_running, gt_worker = Gp_setRunning, gt_triggers = 0, gt_waiting = 0, gt_shutting = 0,
     gt_received = {}, gt_late = []\<rparr>"
proof -
  have "gt_reachable (gt_init ''g'' ''0.0.0.0:0'' 0 :: string gt_sys)" by (rule gt_reach_init)
  from gt_then(1) [OF this gt_adds_queue] have "gt_reachable (gt_goto Gp_build
      (gt_map (\<lambda>x. x\<lparr>gw_cq := Some False\<rparr>) (gt_init ''g'' ''0.0.0.0:0'' 0 :: string gt_sys)))" (is "gt_reachable ?a")
    by (simp add: gt_init_def)
  from gt_then(1) [OF this gt_builds [where selectedPort = 5000]]
  have "gt_reachable (gt_goto (Gp_publish 5000) (gt_map (\<lambda>x. x\<lparr>gw_server := Some False\<rparr>) ?a))" (is "gt_reachable ?b")
    by simp
  from gt_then(1) [OF this gt_publishes]
  have "gt_reachable (gt_goto Gp_check (gt_map (\<lambda>x. x\<lparr>gw_boundPort := 5000, gw_lastError := []\<rparr>) ?b))" (is "gt_reachable ?c")
    by simp
  from gt_then(1) [OF this gt_check_go] have "gt_reachable (gt_goto Gp_setRunning ?c)"
    by (simp add: gt_init_def stopRequested_def bw_new_def gw_new_def)
  then show ?thesis
    by (simp add: gt_goto_def gt_map_def gt_init_def gt_running_def gw_new_def)
qed

definition gt_polling :: "string grpc_worker" where
  "gt_polling = cd_new (gt_running\<lparr>gw_base := setState St_Running (gw_base gt_running)\<rparr>)"

lemma gt_at_matched:
  "gt_reachable \<lparr>gt_obj = gt_polling, gt_worker = Gp_poll, gt_triggers = 0, gt_waiting = 0, gt_shutting = 0,
     gt_received = {0}, gt_late = []\<rparr>"
proof -
  from gt_then(1) [OF gt_then(1) [OF gt_at_setRunning gt_set_running] gt_arms]
  have "gt_reachable \<lparr>gt_obj = gt_polling, gt_worker = Gp_poll, gt_triggers = 0, gt_waiting = 0, gt_shutting = 0,
     gt_received = {}, gt_late = []\<rparr>" (is "gt_reachable ?a")
    by (simp add: gt_base_def gt_map_def gt_goto_def gt_enqueue_def gt_polling_def gt_running_def)
  from gt_then(3) [OF this gt_receives [where c = 0]] show ?thesis
    by (simp add: gt_polling_def gt_running_def gw_new_def)
qed

text \<open>A stop that nothing gets in the way of: up to \<open>Server::Shutdown()\<close>, and to its end.\<close>

lemma gt_stop_at:
  assumes "gt_reachable s" and "m_state (gw_base (gt_obj s)) \<in> {St_Starting, St_Running}" and "gt_triggers s = 0"
    and "gw_server (gt_obj s) \<noteq> None"
  obtains t where "gt_reachable t" and "gt_worker t = gt_worker s" and "gt_waiting t = Suc (gt_waiting s)"
    and "gt_shutting t = gt_shutting s" and "gt_received t = gt_received s" and "gt_late t = gt_late s"
    and "gt_obj t = (gt_obj s)\<lparr>gw_base := snd (requestStop (gw_base (gt_obj s))), gw_server := Some True\<rparr>"
proof -
  have "requestStop (gw_base (gt_obj s)) = (True, snd (requestStop (gw_base (gt_obj s))))"
    using assms(2) by (auto simp: requestStop_def Let_def)
  note q = gt_requestStop [OF this]
  show ?thesis
    by (rule that [OF gt_then(2) [OF gt_then(2) [OF assms(1) q] gt_shuts_server [where n = 0]]])
       (use assms(3,4) in \<open>simp_all del: not_None_eq\<close>)
qed

lemma gt_stop_through:
  fixes s :: "'r gt_sys"
  assumes "gt_reachable s" and "m_state (gw_base (gt_obj s)) \<in> {St_Starting, St_Running}" and "gt_triggers s = 0"
    and "gt_waiting s = 0" and "gt_shutting s = 0" and "gw_server (gt_obj s) \<noteq> None" and "gw_cq (gt_obj s) \<noteq> None"
    and "gt_in_flight s = {}"
  obtains t :: "'r gt_sys" where "gt_reachable t" and "gt_worker t = gt_worker s" and "gt_late t = gt_late s"
    and "gw_cq (gt_obj t) = Some True" and "gw_next (gt_obj t) = gw_next (gt_obj s)"
proof -
  obtain a where a: "gt_reachable a" "gt_worker a = gt_worker s" "gt_waiting a = Suc 0" "gt_shutting a = 0"
    "gt_received a = gt_received s" "gt_late a = gt_late s"
    "gt_obj a = (gt_obj s)\<lparr>gw_base := snd (requestStop (gw_base (gt_obj s))), gw_server := Some True\<rparr>"
    using gt_stop_at [OF assms(1-3,6)] assms(4,5) by metis
  have "gt_in_flight a = {}" using assms(8) a by (simp add: gt_in_flight_def)
  note d = gt_then(2) [OF a(1) gt_server_down [OF a(3) this]]
  show ?thesis
    by (rule that [OF gt_then(2) [OF d gt_shuts_queue [where n = 0]]])
       (use assms(7) a in \<open>simp_all del: not_None_eq\<close>)
qed

text \<open>A stop that comes between \<open>threadRunner\<close>'s look at the flag and \<open>run\<close> finds no call in progress and shuts
  the queue down; \<open>run\<close> then puts its first listener on a queue that was shut down, which gRPC forbids.\<close>

theorem gt_late_listener: "\<exists>s :: string gt_sys. gt_reachable s \<and> gt_late s = [0]"
proof -
  obtain t :: "string gt_sys" where t: "gt_reachable t" "gt_worker t = Gp_setRunning" "gt_late t = []"
    "gw_cq (gt_obj t) = Some True" "gw_next (gt_obj t) = 0"
    by (rule gt_stop_through [OF gt_at_setRunning]) (simp_all add: gt_running_def gw_new_def gt_in_flight_def)
  note armed = gt_then(1) [OF gt_then(1) [OF t(1) gt_set_running [OF t(2)]] gt_arms]
  show ?thesis by (rule exI, rule conjI [OF armed]) (simp_all add: t)
qed

text \<open>A stop that is over before \<open>preRun\<close> has made the server finds null pointers. \<open>preRun\<close> then starts the
  server, the worker thread sees the flag and ends: the worker is \<open>Stopped\<close>, its server goes on listening
  on its port with nobody to answer, and no later stop shuts it down.\<close>

definition gt_abandoned :: "'r gt_sys \<Rightarrow> bool" where
  "gt_abandoned s \<longleftrightarrow> gt_worker s = Gp_exited \<and> stopped (gw_base (gt_obj s)) \<and> gw_server (gt_obj s) = Some False
     \<and> gt_triggers s + gt_waiting s + gt_shutting s = 0"

lemma gt_abandoned_step: "gt_step s t \<Longrightarrow> gt_abandoned s \<Longrightarrow> gt_abandoned t"
proof (induction rule: gt_step.induct)
  case (gt_by_worker s t)
  then show ?case by cases (simp_all add: gt_abandoned_def)
next
  case (gt_by_others s t)
  then show ?case by cases (auto simp: gt_abandoned_def stopped_def getState_def gt_step_defs)
next
  case (gt_by_grpc s t)
  then show ?case by cases (simp add: gt_abandoned_def)
qed

lemma gt_abandoned_forever: "gt_step\<^sup>*\<^sup>* s t \<Longrightarrow> gt_abandoned s \<Longrightarrow> gt_abandoned t"
  by (induction rule: rtranclp_induct) (auto intro: gt_abandoned_step)

theorem gt_left_serving:
  "\<exists>s :: string gt_sys. gt_reachable s \<and> boundPort (gt_obj s) = 5000 \<and> (\<forall>t. gt_step\<^sup>*\<^sup>* s t \<longrightarrow> gt_abandoned t)"
proof -
  let ?i = "gt_init ''g'' ''0.0.0.0:0'' 0 :: string gt_sys"
  let ?b = "snd (requestStop (gw_base (gt_obj ?i)))"
  have f: "gw_server (gt_obj ?i) = None" "m_state (gw_base (gt_obj ?i)) = St_Starting"
    "gt_triggers ?i = 0" "gt_waiting ?i = 0" "gt_shutting ?i = 0" "gt_worker ?i = Gp_preRun"
    by (simp_all add: gt_init_def gw_new_def)
  have q: "requestStop (gw_base (gt_obj ?i)) = (True, ?b)" "stopRequested ?b"
    using f(2) by (simp_all add: requestStop_def stopRequested_def Let_def)
  obtain a :: "string gt_sys" where a: "gt_reachable a" "gt_worker a = Gp_preRun" "gt_triggers a = 0"
      "gt_waiting a = 0" "gt_shutting a = Suc 0" "stopRequested (gw_base (gt_obj a))"
    by (rule that [OF gt_then(2) [OF gt_then(2) [OF gt_reach_init gt_requestStop [OF q(1)]] gt_no_server [where n = 0]]])
       (use f q(2) in simp_all)
  obtain c :: "string gt_sys" where c: "gt_reachable c" "gt_worker c = Gp_preRun" "gt_triggers c = 0"
      "gt_waiting c = 0" "gt_shutting c = 0" "stopRequested (gw_base (gt_obj c))"
    by (rule that [OF gt_then(2) [OF a(1) gt_shuts_queue [OF a(5)]]]) (use a in simp_all)
  obtain d :: "string gt_sys" where d: "gt_reachable d" "gt_worker d = Gp_publish 5000" "gt_triggers d = 0"
      "gt_waiting d = 0" "gt_shutting d = 0" "stopRequested (gw_base (gt_obj d))" "gw_server (gt_obj d) = Some False"
    by (rule that [OF gt_then(1) [OF gt_then(1) [OF c(1) gt_adds_queue [OF c(2)]] gt_builds [where selectedPort = 5000]]])
       (use c in simp_all)
  obtain e :: "string gt_sys" where e: "gt_reachable e" "gt_worker e = Gp_setStopped" "gt_triggers e = 0"
      "gt_waiting e = 0" "gt_shutting e = 0" "gw_server (gt_obj e) = Some False" "boundPort (gt_obj e) = 5000"
    by (rule that [OF gt_then(1) [OF gt_then(1) [OF d(1) gt_publishes [OF d(2)]] gt_check_stop]])
       (use d in \<open>simp_all add: boundPort_def\<close>)
  let ?s = "gt_goto Gp_exited (gt_base (setState St_Stopped (gw_base (gt_obj e))) e)"
  have "gt_abandoned ?s" using e by (simp add: gt_abandoned_def stopped_def getState_def setState_def)
  then have "\<forall>t. gt_step\<^sup>*\<^sup>* ?s t \<longrightarrow> gt_abandoned t" by (blast intro: gt_abandoned_forever)
  moreover have "boundPort (gt_obj ?s) = 5000" using e(7) by (simp add: boundPort_def)
  ultimately show ?thesis using gt_then(1) [OF e(1) gt_set_stopped [OF e(2)]] by blast
qed

text \<open>Business logic that calls \<open>retire()\<close>, or \<open>requestStop()\<close>, on its own worker waits for itself:
  \<open>Server::Shutdown()\<close> does not return before the call that it is serving has ended.\<close>

lemma gt_retiring_step:
  assumes "gt_step s t" and "gt_reachable s" and "gt_worker s = Gp_retiring c"
  shows "gt_worker t = Gp_retiring c"
proof -
  have "gw_server (gt_obj s) = Some True" "c \<in> gt_in_flight s"
    using gt_reachable_inv [OF assms(2)] assms(3) by (simp_all add: gt_stop_inv_def gt_in_flight_def)
  then show ?thesis
    using assms(1,3) by (auto elim!: gt_step.cases gt_works.cases gt_stops.cases gt_grpc.cases)
qed

theorem gt_retire_deadlock:
  "\<exists>s :: string gt_sys. gt_reachable s \<and> gt_worker s = Gp_retiring 0 \<and> (\<forall>t. gt_step\<^sup>*\<^sup>* s t \<longrightarrow> gt_worker t = Gp_retiring 0)"
proof -
  obtain a :: "string gt_sys" where a: "gt_reachable a" "gt_worker a = Gp_continue 0"
      "continueRunning (gw_base (gt_obj a))" "m_state (gw_base (gt_obj a)) = St_Running"
    by (rule that [OF gt_then(1) [OF gt_at_matched gt_request [where c = 0 and now = 0]]])
       (simp_all add: gt_polling_def gt_running_def gw_new_def continueRunning_def stopRequested_def setState_def bw_new_def)
  obtain b :: "string gt_sys" where b: "gt_reachable b" "gt_worker b = Gp_execute 0" "m_state (gw_base (gt_obj b)) = St_Running"
    by (rule that [OF gt_then(1) [OF gt_then(1) [OF a(1) gt_continue [OF a(2)]] gt_listen [where c = 0]]]) (simp_all add: a)
  have "retire (gw_base (gt_obj b)) = (True, snd (retire (gw_base (gt_obj b))))"
    using b(3) by (simp add: gt_step_defs)
  from gt_then(1) [OF b(1) gt_retire [OF b(2) this]] obtain s :: "string gt_sys"
    where s: "gt_reachable s" "gt_worker s = Gp_retiring 0" by (rule that) simp
  have "gt_reachable t \<and> gt_worker t = Gp_retiring 0" if "gt_step\<^sup>*\<^sup>* s t" for t
    using that s by (induction rule: rtranclp_induct) (auto intro: gt_reach_step gt_retiring_step)
  then show ?thesis using s by blast
qed

section \<open>Instances\<close>


theorem gt_shutdown_returns_witness:
  "\<exists>(s :: string gt_sys) t. gt_reachable s \<and> gt_waiting s = 1 \<and> gt_received s = {0} \<and> gt_works s t \<and> gt_load t < gt_load s"
proof -
  obtain t :: "string gt_sys" where t: "gt_reachable t" "gt_worker t = Gp_poll" "gt_waiting t = 1" "gt_received t = {0}"
    by (rule gt_stop_at [OF gt_at_matched]) (simp_all add: gt_polling_def gt_running_def setState_def)
  then show ?thesis using gt_shutdown_returns [OF t(1)] by (auto simp: gt_in_flight_def)
qed

end
