(* ===== verification/GrpcExamples.thy ===== *)
theory GrpcExamples
  imports GrpcWorkerProofs Destruction
begin

text \<open>
  The programs around the gRPC worker: the business logic of \<open>examples/gRPC/gRPCGenericServerExample.cpp\<close>
  and of the plain synchronous server \<open>gRPCServerExample1.cpp\<close>, the client \<open>gRPCClientExample1.cpp\<close>, and the
  \<open>main\<close> that the generic example and \<open>gRPCWorkerServerExample.cpp\<close> share. gRPC carries a call from the
  client's stub to the business logic and its status and reply back: the stub is a parameter. Numbers are
  the texts that \<open>operator<<\<close> shows, and the messages of \<open>main\<close> on the console are left out.
\<close>

section \<open>Business logic\<close>

type_synonym metric_logic = "MetricRequest \<Rightarrow> string \<times> MetricResponse \<times> grpc_status"

definition ga_OnExecuteRpc :: "string \<Rightarrow> metric_logic" where
  "ga_OnExecuteRpc worker_name request =
     (''['' @ worker_name @ ''] Received processing payload from Device: '' @ device_id request
        @ '' | Value: '' @ reading_value request @ [CHR 0x0A],
      \<lparr>mr_success = True, mr_message = ''Payload processed successfully via CRTP abstraction.''\<rparr>,
      grpc_OK)"

definition gs_SendMetric :: metric_logic where
  "gs_SendMetric request =
     (''Received metric from: '' @ device_id request @ '' Value: '' @ reading_value request @ [CHR 0x0A],
      \<lparr>mr_success = True, mr_message = ''Metric processed successfully.''\<rparr>,
      grpc_OK)"

text \<open>What a worker with this logic, which throws nothing, makes of a request.\<close>

definition served_by :: "metric_logic \<Rightarrow> MetricRequest \<Rightarrow> (cpp_exn + grpc_status) \<times> MetricResponse" where
  "served_by logic request = (case logic request of (printed, reply, status) \<Rightarrow> (Inr status, reply))"

section \<open>The client\<close>

text \<open>\<open>SendDeviceData\<close>: what it prints on \<open>cout\<close> and on \<open>cerr\<close>. \<open>stub\<close> is \<open>stub_->SendMetric\<close>, and \<open>now\<close> the
  seconds since the epoch.\<close>

definition SendDeviceData ::
  "(MetricRequest \<Rightarrow> grpc_status \<times> MetricResponse) \<Rightarrow> string \<Rightarrow> string \<Rightarrow> string \<Rightarrow> string \<times> string" where
  "SendDeviceData stub now device value =
     (let request = \<lparr>device_id = device, reading_value = value, timestamp = now\<rparr> in
      case stub request of
        (GStatus code error_message, reply) \<Rightarrow>
          if code = 0 then (''['' @ device @ ''] Success: '' @ mr_message reply @ [CHR 0x0A], [])
          else ([], ''['' @ device @ ''] RPC failed: '' @ error_message @ '' ('' @ to_string code @ '')'' @ [CHR 0x0A]))"

text \<open>\<open>main\<close>: the exit code and the two outputs. \<open>ready\<close> tells whether the channel connects in time.\<close>

definition gc_main ::
  "bool \<Rightarrow> (MetricRequest \<Rightarrow> grpc_status \<times> MetricResponse) \<Rightarrow> string \<Rightarrow> int \<times> string \<times> string" where
  "gc_main ready stub now =
     (if \<not> ready then (1, [], ''Server did not become ready within 10s. Is it running?'' @ [CHR 0x0A])
      else
        let sent = [SendDeviceData stub now ''Sensor_A1'' ''41.85'', SendDeviceData stub now ''Sensor_A2'' ''42.85'',
                    SendDeviceData stub now ''Sensor_A3'' ''43.85'']
        in (0, concat (map fst sent), concat (map snd sent)))"

section \<open>The main program of the worker examples\<close>

text \<open>The inherited \<open>startThread\<close> and \<open>stopThreadAndJoin\<close>.\<close>

definition gw_startThread ::
  "nat option \<Rightarrow> int \<Rightarrow> int \<Rightarrow> 'r grpc_worker wake list \<Rightarrow> 'r grpc_worker \<Rightarrow> (bool \<times> 'r grpc_worker) option" where
  "gw_startThread = startThread_of gw_base gw_base_update"

definition gw_stopThreadAndJoin ::
  "int \<Rightarrow> 'r grpc_worker wake list \<Rightarrow> 'r grpc_worker wake list \<Rightarrow> 'r grpc_worker \<Rightarrow> 'r grpc_worker option" where
  "gw_stopThreadAndJoin = stopThreadAndJoin_of gw_requestStop gw_base gw_base_update"

text \<open>The monitor loop, until the signal flag is seen: \<open>sleeps\<close> is what the worker's threads do in each pause
  before that. An exception that escaped the worker ends the loop.\<close>

fun gx_monitor :: "('r grpc_worker \<Rightarrow> 'r grpc_worker) list \<Rightarrow> 'r grpc_worker \<Rightarrow> 'r grpc_worker" where
  "gx_monitor [] s = s"
| "gx_monitor (during_sleep # sleeps) s =
     (if lastUnhandledException (gw_base s) \<noteq> None then s else gx_monitor sleeps (during_sleep s))"

text \<open>\<open>main\<close>: the exit code, and the worker when its destructor has run.\<close>

definition gx_main ::
  "nat option \<Rightarrow> int \<Rightarrow> 'r grpc_worker wake list \<Rightarrow> ('r grpc_worker \<Rightarrow> 'r grpc_worker) list \<Rightarrow> 'r grpc_worker wake list
     \<Rightarrow> 'r grpc_worker wake list \<Rightarrow> 'r grpc_worker wake list \<Rightarrow> 'r grpc_worker \<Rightarrow> (int \<times> 'r grpc_worker) option" where
  "gx_main created now startWakes sleeps stopWakes joinWakes destroyWakes worker =
     (case gw_startThread created now 3000 startWakes worker of
        None \<Rightarrow> None
      | Some (False, s) \<Rightarrow> map_option (Pair 1) (gw_destroy destroyWakes s)
      | Some (True, s) \<Rightarrow>
          (case gw_stopThreadAndJoin 5000 stopWakes joinWakes (gx_monitor sleeps s) of
             None \<Rightarrow> None
           | Some s1 \<Rightarrow> map_option (Pair 0) (gw_destroy destroyWakes s1)))"

definition gx_worker :: "int \<Rightarrow> MetricResponse grpc_worker" where
  "gx_worker now = gw_new ''AnalyticsWorkerEngine'' ''0.0.0.0:50051'' now"

section \<open>From the sender to the worker and back\<close>

text \<open>Whatever the events, the answers of a worker are what its business logic made of the requests.\<close>

definition logic_answers :: "metric_logic \<Rightarrow> MetricResponse grpc_worker \<Rightarrow> bool" where
  "logic_answers logic s \<longleftrightarrow>
     (\<forall>(c, status, reply) \<in> set (gw_finished s). \<exists>rq. snd (logic rq) = (reply, status))"

fun outcome_all :: "('s \<Rightarrow> bool) \<Rightarrow> 's loop_outcome \<Rightarrow> bool" where
  "outcome_all P Undefined \<longleftrightarrow> True"
| "outcome_all P (Polling s) \<longleftrightarrow> P s"
| "outcome_all P (Left_loop s) \<longleftrightarrow> P s"

lemma logic_answers_cong: "gw_finished s = gw_finished t \<Longrightarrow> logic_answers logic s = logic_answers logic t"
  by (simp add: logic_answers_def)

lemma logic_answers_Proceed:
  assumes "cd_Proceed c (served_by logic rq) s = Some t" and "logic_answers logic s"
  shows "logic_answers logic t"
  using assms
  by (auto simp: cd_Proceed_def cd_arm_def cd_delete_def cd_status_def served_by_def logic_answers_def Let_def
      split: option.splits enm_RpcStatus.splits if_splits prod.splits) (metis snd_conv)+

lemma logic_answers_round:
  assumes "ci_rpc i = served_by logic rq" and "logic_answers logic s"
  shows "outcome_all (logic_answers logic) (gw_round i s)"
proof -
  let ?s0 = "gw_updateHeartbeat (ci_now i) (cq_before i s)"
  have s0: "logic_answers logic ?s0" using assms(2) by (subst logic_answers_cong [where t = s]) simp_all
  show ?thesis
  proof (cases "ci_event i")
    case (GOT_EVENT c ok)
    let ?s1 = "?s0\<lparr>gw_pending := remove1 c (gw_pending ?s0)\<rparr>"
    have s1: "logic_answers logic ?s1" using s0 by (subst logic_answers_cong [where t = ?s0]) simp_all
    then have "logic_answers logic (cd_delete c ?s1)" by (subst logic_answers_cong [where t = ?s1]) (simp_all add: cd_delete_def)
    moreover have "logic_answers logic t" if "cd_Proceed c (ci_rpc i) ?s1 = Some t" for t
      using logic_answers_Proceed [OF that [unfolded assms(1)] s1] .
    ultimately show ?thesis
      unfolding gw_round_def Let_def GOT_EVENT by (auto split: option.split)
  qed (use s0 in \<open>simp_all add: gw_round_def Let_def\<close>)
qed

text \<open>A sender whose call was answered by the engine, with the logic of either worker, or by the plain server
  prints the server's message for its device, and nothing on \<open>cerr\<close>.\<close>

theorem metric_reaches_sender:
  assumes "logic \<in> {OnExecuteRpc name, ga_OnExecuteRpc name, gs_SendMetric}"
    and "\<forall>i \<in> set inputs. \<exists>rq. ci_rpc i = served_by logic rq" and "gw_finished s = []"
  shows "outcome_all (\<lambda>s'. \<forall>(c, status, reply) \<in> set (gw_finished s'). \<exists>message.
      message \<noteq> [] \<and> mr_success reply
      \<and> SendDeviceData (\<lambda>rq. (status, reply)) now device value = (''['' @ device @ ''] Success: '' @ message @ [CHR 0x0A], []))
    (gw_run inputs s)"
proof -
  have loop: "outcome_all (logic_answers logic) (gw_loop inputs u)" if "logic_answers logic u" for u
    using assms(2) that
  proof (induction inputs u rule: gw_loop.induct)
    case (2 i "is" u)
    obtain rq where "ci_rpc i = served_by logic rq" using 2(2) by auto
    note r = logic_answers_round [OF this 2(3)]
    show ?case
    proof (cases "gw_round i u")
      case (Polling t)
      then show ?thesis using 2(1) [OF Polling] 2(2) r by simp
    qed (use r in simp_all)
  qed simp
  have start: "logic_answers logic (cd_new s)" using assms(3) by (simp add: logic_answers_def)
  have each: "SendDeviceData (\<lambda>rq. (status, reply)) now device value
        = (''['' @ device @ ''] Success: '' @ mr_message reply @ [CHR 0x0A], []) \<and> mr_message reply \<noteq> [] \<and> mr_success reply"
    if "snd (logic rq) = (reply, status)" for rq status reply
    using assms(1) that
    by (auto simp: SendDeviceData_def OnExecuteRpc_def ga_OnExecuteRpc_def gs_SendMetric_def grpc_OK_def)
  have weaken: "outcome_all P out \<Longrightarrow> (\<And>x. P x \<Longrightarrow> Q x) \<Longrightarrow> outcome_all Q out" for P Q :: "_ \<Rightarrow> bool" and out
    by (cases out) simp_all
  show ?thesis
  proof (cases "gw_cq s = None")
    case False
    then have "outcome_all (logic_answers logic) (gw_run inputs s)"
      using loop [OF start] by (simp add: gw_run_def del: not_None_eq)
    then show ?thesis
      by (rule weaken) (use each in \<open>fastforce simp: logic_answers_def\<close>)
  qed (simp add: gw_run_def)
qed

section \<open>The exit code\<close>

text \<open>The other threads leave the worker's \<open>std::thread\<close> with it while \<open>main\<close> has not taken it.\<close>

definition keeps_thread :: "('r grpc_worker \<Rightarrow> 'r grpc_worker) \<Rightarrow> bool" where
  "keeps_thread f \<longleftrightarrow> (\<forall>u. owns_thread (gw_base u) \<longrightarrow> owns_thread (gw_base (f u)))"

lemma gx_monitor_keeps:
  "list_all keeps_thread sleeps \<Longrightarrow> owns_thread (gw_base s) \<Longrightarrow> owns_thread (gw_base (gx_monitor sleeps s))"
  by (induction sleeps s rule: gx_monitor.induct) (auto simp: keeps_thread_def)

lemma gw_startThread_keeps:
  assumes "gw_startThread created now t wakes s = Some (ok, s')" and "\<forall>x \<in> set wakes. keeps_thread (wake_effect x)"
    and "owns_thread (gw_base s)"
  shows "owns_thread (gw_base s') \<and> (ok \<longrightarrow> created \<noteq> None)"
  using gw_stop.start_of_owns [where created = created and now = now and t = t and wakes = wakes and s = s and ok = ok and s' = s']
    gw_stop.start_of_answer [where created = created and now = now and t = t and wakes = wakes and s = s] assms
  by (simp add: gw_startThread_def keeps_thread_def)

text \<open>Both examples answer 0 exactly for a start that succeeded, also when the worker died of an exception
  later, and have then joined the worker's thread, however long its last call took; when they answer 1
  the thread has ended and was joined as well, or outlasted the destructor's wait.\<close>

theorem grpc_example_exit:
  assumes "owns_thread (gw_base worker)" and "list_all keeps_thread sleeps"
    and "\<forall>x \<in> set (startWakes @ stopWakes). keeps_thread (wake_effect x)"
    and "\<forall>x \<in> set joinWakes. \<not> is_timeout x
      \<and> (\<forall>u. m_thread (gw_base u) = None \<longrightarrow> m_thread (gw_base (wake_effect x u)) = None)"
    and "gx_main created now startWakes sleeps stopWakes joinWakes destroyWakes worker = Some (code, s')"
  shows "(code = 0 \<and> created \<noteq> None \<and> stopped (gw_base s') \<and> m_thread (gw_base s') = None)
    \<or> (code = 1 \<and> destroyed gw_base destroyWakes (Some s'))"
proof -
  obtain ok s where s: "gw_startThread created now 3000 startWakes worker = Some (ok, s)"
    using assms(5) by (auto simp: gx_main_def split: option.splits)
  then have o: "owns_thread (gw_base s)" "ok \<longrightarrow> created \<noteq> None"
    using gw_startThread_keeps [OF s] assms(1,3) by auto
  show ?thesis
  proof (cases ok)
    case False
    then have "code = 1" "gw_destroy destroyWakes s = Some s'" using assms(5) s by (auto simp: gx_main_def)
    moreover have "destroyed gw_base destroyWakes (gw_destroy destroyWakes s)"
      unfolding gw_destroy_def gw_stopThread_def by (intro stop_answer_destroyed gw_stop.stop_contract default_wait)
    ultimately show ?thesis by simp
  next
    case True
    then obtain s1 where s1: "gw_stopThreadAndJoin 5000 stopWakes joinWakes (gx_monitor sleeps s) = Some s1"
        "gw_destroy destroyWakes s1 = Some s'" "code = 0"
      using assms(5) s by (auto simp: gx_main_def split: option.splits)
    have st: "stopped (gw_base s1) \<and> m_thread (gw_base s1) = None"
      by (rule gw_stop.stop_and_join_joins [OF s1(1) [unfolded gw_stopThreadAndJoin_def]])
         (use gx_monitor_keeps [OF assms(2) o(1)] assms(3,4) in \<open>auto simp: keeps_thread_def\<close>)
    have "stopped (gw_base s') \<and> m_thread (gw_base s') = None"
      using gw_stop.destroy_stopped [OF s1(2) [unfolded gw_destroy_def gw_stopThread_def]] st by blast
    then show ?thesis using s1(3) o(2) True by blast
  qed
qed

theorem metric_reaches_sender_witness:
  "outcome_all (\<lambda>s'. \<forall>(c, status, reply) \<in> set (gw_finished s'). \<exists>message. message \<noteq> [] \<and> mr_success reply
      \<and> SendDeviceData (\<lambda>rq. (status, reply)) ''7'' ''S'' ''1.5'' = (''[S] Success: '' @ message @ [CHR 0x0A], []))
    (gw_run [\<lparr>ci_stop = False, ci_event = GOT_EVENT 0 True, ci_now = 1,
        ci_rpc = served_by gs_SendMetric \<lparr>device_id = ''S'', reading_value = ''1.5'', timestamp = ''7''\<rparr>\<rparr>]
      (snd (gw_preRun (Build_server 50051) (gx_worker 0))))"
  using metric_reaches_sender [of gs_SendMetric "[]" "[\<lparr>ci_stop = False, ci_event = GOT_EVENT 0 True, ci_now = 1,
        ci_rpc = served_by gs_SendMetric \<lparr>device_id = ''S'', reading_value = ''1.5'', timestamp = ''7''\<rparr>\<rparr>]"
      "snd (gw_preRun (Build_server 50051) (gx_worker 0))" "''7''" "''S''" "''1.5''"]
  by (auto simp: gx_worker_def gw_preRun_def gw_new_def)

end
