(* ===== verification/TcpServerThreads.thy ===== *)
theory TcpServerThreads
  imports TcpServerProofs
begin

text \<open>
  The first run of a \<open>TCPServer_V2\<close> (\<open>cTCPServer_V2.h\<close> on \<open>cBaseWorker_V2.h\<close>) with everything that runs beside
  it: the accepting thread in \<open>threadRunner\<close>, a handler thread per session in \<open>handleClient\<close>, any number of
  threads in \<open>requestStop\<close>, and the rest of the program, which opens and closes descriptors of its own. A step
  is one critical section, one access to an atomic, or the beginning or the end of one blocking call; the
  operations on the object are those of \<open>TcpServer\<close>. An \<open>exchange(-1)\<close> and the \<open>shutdown\<close> and \<open>close\<close> of what it
  took out are one step, because nobody else has that descriptor. The kernel hands out a free number, so
  a number that was closed can come back as a descriptor of somebody else: \<open>tt_stray\<close> records the calls
  that the server begins on such a number, and \<open>tw_wrong\<close> the ones it closes.
\<close>

section \<open>Descriptors\<close>

text \<open>Open descriptors: the server's, and those of the rest of the program.\<close>

record tt_world =
  tw_open :: "fd set"
  tw_foreign :: "fd set"
  tw_wrong :: "fd list"

definition tt_close :: "fd \<Rightarrow> tt_world \<Rightarrow> tt_world" where
  "tt_close x w =
     (if x \<in> tw_open w then w\<lparr>tw_open := tw_open w - {x}\<rparr>
      else if x \<in> tw_foreign w then w\<lparr>tw_foreign := tw_foreign w - {x}, tw_wrong := tw_wrong w @ [x]\<rparr>
      else w)"

definition tt_free :: "fd \<Rightarrow> tt_world \<Rightarrow> bool" where
  "tt_free x w \<longleftrightarrow> 0 \<le> x \<and> x \<notin> tw_open w \<and> x \<notin> tw_foreign w"

text \<open>Of the calls of the server only \<open>shutdown\<close> and \<open>close\<close> are made inside one step; the others are steps.\<close>

definition tt_kernel :: "tt_world kernel" where
  "tt_kernel =
     \<lparr>k_errno = (\<lambda>w. 0), k_getaddrinfo = (\<lambda>n p h w. (-1, [], w)), k_socket = (\<lambda>a b c w. (-1, w)),
      k_setsockopt = (\<lambda>s o' v w. (0, w)), k_connect = (\<lambda>s a w. (-1, w)), k_send = (\<lambda>s bs f w. (-1, w)),
      k_recv = (\<lambda>s n w. (None, w)), k_shutdown = (\<lambda>s h w. (0, w)), k_close = (\<lambda>s w. (0, tt_close s w))\<rparr>"

text \<open>Whether the node of a session and its thread can be had.\<close>

definition tt_env :: "bool \<Rightarrow> nat option \<Rightarrow> tt_world ts_env" where
  "tt_env alloc thread =
     \<lparr>se_kernel = tt_kernel, se_setsockopt = (\<lambda>s o' v w. (0, w)), se_bind = (\<lambda>s a w. (-1, w)),
      se_listen = (\<lambda>s b w. (-1, w)), se_accept = (\<lambda>l w. (-1, [], w)), se_inet_ntop = (\<lambda>a. None),
      se_clock = (\<lambda>w. 0), se_alloc = (\<lambda>w. (alloc, w)), se_thread = (\<lambda>w. (thread, w)),
      se_join = (\<lambda>t s w. (s, w)), se_other = (\<lambda>s w. (s, w)), se_dataCallback = None\<rparr>"

section \<open>State and steps\<close>

text \<open>Where the accepting thread is. The flag of \<open>Tp_in_accept\<close> tells whether the call was begun on the
  server's own listening socket; that of \<open>Tp_close\<close> and \<open>Tp_join\<close> whether the loop is the one of
  \<open>joinAndClearAllClients\<close> (or of \<open>reapCompletedClients\<close>); that of \<open>Tp_setStopped\<close> and \<open>Tp_exited\<close> whether \<open>run\<close>
  was entered.\<close>

datatype tt_worker =
    Tp_preRun | Tp_bind fd | Tp_listen fd | Tp_preRun_failed | Tp_check | Tp_setRunning
  | Tp_while | Tp_reap | Tp_load | Tp_accept fd | Tp_in_accept fd bool | Tp_failed bool
  | Tp_stop | Tp_requestStop | Tp_stop_listen | Tp_stop_clients
  | Tp_start fd | Tp_refused fd | Tp_break
  | Tp_close bool "nat list" | Tp_join bool nat "nat list" | Tp_close_listen
  | Tp_setStopped bool | Tp_exited bool

text \<open>Where the thread of a session is; \<open>Th_in_recv\<close> has the same flag as \<open>Tp_in_accept\<close>.\<close>

datatype tt_handler =
    Th_none | Th_check | Th_load | Th_recv fd | Th_in_recv fd bool | Th_data | Th_close | Th_complete | Th_exited

text \<open>Stopping threads are counted: about to enter \<open>closeServerSocket\<close>, and about to enter
  \<open>closeAllClientSockets\<close>. \<open>tt_failures\<close> counts the threads that could not be created.\<close>

record tt_sys =
  tt_obj :: tcp_server
  tt_fds :: tt_world
  tt_worker :: tt_worker
  tt_handler :: "nat \<Rightarrow> tt_handler"
  tt_triggers :: nat
  tt_closers :: nat
  tt_stray :: "fd list"
  tt_failures :: nat

text \<open>\<open>startThread\<close> on a new object has made the thread.\<close>

definition tt_init :: "string \<Rightarrow> u16 \<Rightarrow> int \<Rightarrow> int \<Rightarrow> fd set \<Rightarrow> tt_sys" where
  "tt_init name port backlog now foreign =
     \<lparr>tt_obj = (ts_new name port backlog now)\<lparr>ts_base := (bw_new name now)\<lparr>m_state := St_Starting, m_thread := Some 0\<rparr>\<rparr>,
      tt_fds = \<lparr>tw_open = {}, tw_foreign = foreign, tw_wrong = []\<rparr>, tt_worker = Tp_preRun,
      tt_handler = (\<lambda>i. Th_none), tt_triggers = 0, tt_closers = 0, tt_stray = [], tt_failures = 0\<rparr>"

definition tt_goto :: "tt_worker \<Rightarrow> tt_sys \<Rightarrow> tt_sys" where
  "tt_goto pc s = s\<lparr>tt_worker := pc\<rparr>"

definition tt_turn :: "nat \<Rightarrow> tt_handler \<Rightarrow> tt_sys \<Rightarrow> tt_sys" where
  "tt_turn i pc s = s\<lparr>tt_handler := (tt_handler s)(i := pc)\<rparr>"

definition tt_map :: "(tcp_server \<Rightarrow> tcp_server) \<Rightarrow> tt_sys \<Rightarrow> tt_sys" where
  "tt_map f s = s\<lparr>tt_obj := f (tt_obj s)\<rparr>"

definition tt_base :: "base_worker \<Rightarrow> tt_sys \<Rightarrow> tt_sys" where
  "tt_base b s = tt_map (\<lambda>x. x\<lparr>ts_base := b\<rparr>) s"

text \<open>An operation of the object that closes descriptors.\<close>

definition tt_do :: "(tcp_server \<Rightarrow> tt_world \<Rightarrow> tcp_server \<times> tt_world) \<Rightarrow> tt_sys \<Rightarrow> tt_sys" where
  "tt_do f s = (case f (tt_obj s) (tt_fds s) of (obj, w) \<Rightarrow> s\<lparr>tt_obj := obj, tt_fds := w\<rparr>)"

definition tt_opens :: "fd \<Rightarrow> tt_sys \<Rightarrow> tt_sys" where
  "tt_opens x s = s\<lparr>tt_fds := (tt_fds s)\<lparr>tw_open := insert x (tw_open (tt_fds s))\<rparr>\<rparr>"

definition tt_strays :: "fd \<Rightarrow> tt_sys \<Rightarrow> tt_sys" where
  "tt_strays x s = s\<lparr>tt_stray := tt_stray s @ [x]\<rparr>"

text \<open>Session \<open>i\<close> holds the descriptor \<open>x\<close>.\<close>

definition tt_holds :: "nat \<Rightarrow> fd \<Rightarrow> tcp_server \<Rightarrow> bool" where
  "tt_holds i x obj \<longleftrightarrow> (\<exists>c \<in> set (ts_all obj). cs_id c = i \<and> cs_socket c = x)"

text \<open>The accepting thread: \<open>preRun\<close>, the look at the stop flag, the loop of \<open>run\<close>, the loops that join.\<close>

inductive tt_works :: "tt_sys \<Rightarrow> tt_sys \<Rightarrow> bool" where
  tt_no_socket: "tt_worker s = Tp_preRun \<Longrightarrow> tt_works s (tt_goto (Tp_setStopped False) s)"
| tt_socket: "tt_worker s = Tp_preRun \<Longrightarrow> tt_free x (tt_fds s) \<Longrightarrow>
     tt_works s (tt_goto (Tp_bind x) (tt_opens x (tt_map (\<lambda>o'. o'\<lparr>ts_serverSocket := x\<rparr>) s)))"
| tt_bind_fails: "tt_worker s = Tp_bind x \<Longrightarrow> tt_works s (tt_goto Tp_preRun_failed s)"
| tt_binds: "tt_worker s = Tp_bind x \<Longrightarrow> ts_serverSocket (tt_obj s) = x \<Longrightarrow>
     tt_works s (tt_goto (Tp_listen x) s)"
| tt_binds_other: "tt_worker s = Tp_bind x \<Longrightarrow> ts_serverSocket (tt_obj s) \<noteq> x \<Longrightarrow> \<not> tt_free x (tt_fds s) \<Longrightarrow>
     tt_works s (tt_goto (Tp_listen x) (tt_strays x s))"
| tt_listen_fails: "tt_worker s = Tp_listen x \<Longrightarrow> tt_works s (tt_goto Tp_preRun_failed s)"
| tt_listens: "tt_worker s = Tp_listen x \<Longrightarrow> ts_serverSocket (tt_obj s) = x \<Longrightarrow> tt_works s (tt_goto Tp_check s)"
| tt_listens_other: "tt_worker s = Tp_listen x \<Longrightarrow> ts_serverSocket (tt_obj s) \<noteq> x \<Longrightarrow> \<not> tt_free x (tt_fds s) \<Longrightarrow>
     tt_works s (tt_goto Tp_check (tt_strays x s))"
| tt_preRun_closes: "tt_worker s = Tp_preRun_failed \<Longrightarrow>
     tt_works s (tt_goto (Tp_setStopped False) (tt_do (ts_closeServerSocket tt_kernel) s))"
| tt_check_stop: "tt_worker s = Tp_check \<Longrightarrow> stopRequested (ts_base (tt_obj s)) \<Longrightarrow>
     tt_works s (tt_goto (Tp_setStopped False) s)"
| tt_check_go: "tt_worker s = Tp_check \<Longrightarrow> \<not> stopRequested (ts_base (tt_obj s)) \<Longrightarrow>
     tt_works s (tt_goto Tp_setRunning s)"
| tt_set_running: "tt_worker s = Tp_setRunning \<Longrightarrow>
     tt_works s (tt_goto Tp_while (tt_base (setState St_Running (ts_base (tt_obj s))) s))"
| tt_while_stop: "tt_worker s = Tp_while \<Longrightarrow> \<not> continueRunning (ts_base (tt_obj s)) \<Longrightarrow>
     tt_works s (tt_goto Tp_break s)"
| tt_while_go: "tt_worker s = Tp_while \<Longrightarrow> continueRunning (ts_base (tt_obj s)) \<Longrightarrow>
     tt_works s (tt_goto Tp_reap s)"
| tt_reaps: "tt_worker s = Tp_reap \<Longrightarrow>
     tt_works s (tt_goto (Tp_close False (map cs_id (filter cs_completed (ts_clients (tt_obj s)))))
       (tt_map (\<lambda>x. x\<lparr>ts_joining := filter cs_completed (ts_clients x),
                      ts_clients := filter (\<lambda>c. \<not> cs_completed c) (ts_clients x)\<rparr>) s))"
| tt_load_closed: "tt_worker s = Tp_load \<Longrightarrow> ts_serverSocket (tt_obj s) < 0 \<Longrightarrow> tt_works s (tt_goto Tp_break s)"
| tt_load: "tt_worker s = Tp_load \<Longrightarrow> 0 \<le> ts_serverSocket (tt_obj s) \<Longrightarrow>
     tt_works s (tt_goto (Tp_accept (ts_serverSocket (tt_obj s))) s)"
| tt_calls_accept: "tt_worker s = Tp_accept l \<Longrightarrow> ts_serverSocket (tt_obj s) = l \<Longrightarrow>
     tt_works s (tt_goto (Tp_in_accept l True) s)"
| tt_calls_accept_other: "tt_worker s = Tp_accept l \<Longrightarrow> ts_serverSocket (tt_obj s) \<noteq> l \<Longrightarrow> \<not> tt_free l (tt_fds s) \<Longrightarrow>
     tt_works s (tt_goto (Tp_in_accept l False) (tt_strays l s))"
| tt_calls_accept_closed: "tt_worker s = Tp_accept l \<Longrightarrow> tt_free l (tt_fds s) \<Longrightarrow>
     tt_works s (tt_goto (Tp_failed False) s)"
| tt_accepts: "tt_worker s = Tp_in_accept l own \<Longrightarrow> tt_free c (tt_fds s) \<Longrightarrow>
     tt_works s (tt_goto (Tp_start c) (tt_opens c s))"
| tt_accept_fails: "tt_worker s = Tp_in_accept l own \<Longrightarrow> tt_works s (tt_goto (Tp_failed interrupted) s)"
| tt_failed_again: "tt_worker s = Tp_failed True \<Longrightarrow> continueRunning (ts_base (tt_obj s)) \<Longrightarrow>
     tt_works s (tt_goto Tp_while s)"
| tt_failed: "tt_worker s = Tp_failed interrupted \<Longrightarrow>
     \<not> (interrupted \<and> continueRunning (ts_base (tt_obj s))) \<Longrightarrow> tt_works s (tt_goto Tp_stop s)"
| tt_already: "tt_worker s = Tp_stop \<Longrightarrow> stopRequested (ts_base (tt_obj s)) \<Longrightarrow> tt_works s (tt_goto Tp_break s)"
| tt_gives_up: "tt_worker s = Tp_stop \<Longrightarrow> \<not> stopRequested (ts_base (tt_obj s)) \<Longrightarrow>
     tt_works s (tt_goto Tp_requestStop s)"
| tt_requests: "tt_worker s = Tp_requestStop \<Longrightarrow> requestStop (ts_base (tt_obj s)) = (trigger, b) \<Longrightarrow>
     tt_works s (tt_goto (if trigger then Tp_stop_listen else Tp_break) (tt_base b s))"
| tt_stop_listen: "tt_worker s = Tp_stop_listen \<Longrightarrow>
     tt_works s (tt_goto Tp_stop_clients (tt_do (ts_closeServerSocket tt_kernel) s))"
| tt_stop_clients: "tt_worker s = Tp_stop_clients \<Longrightarrow>
     tt_works s (tt_goto Tp_break (tt_do (ts_closeAllClientSockets tt_kernel) s))"
| tt_starts: "tt_worker s = Tp_start c \<Longrightarrow>
     startClientSession (tt_env True (Some (ts_nextId (tt_obj s)))) c info (tt_obj s) (tt_fds s) = (True, obj, w) \<Longrightarrow>
     tt_works s (tt_goto Tp_while (tt_turn (ts_nextId (tt_obj s)) Th_check (s\<lparr>tt_obj := obj, tt_fds := w\<rparr>)))"
| tt_start_fails: "tt_worker s = Tp_start c \<Longrightarrow>
     startClientSession (tt_env alloc None) c info (tt_obj s) (tt_fds s) = (False, obj, w) \<Longrightarrow>
     tt_works s (tt_goto (Tp_refused c)
       (s\<lparr>tt_obj := obj, tt_fds := w, tt_failures := (if alloc then Suc (tt_failures s) else tt_failures s)\<rparr>))"
| tt_refuses: "tt_worker s = Tp_refused c \<Longrightarrow>
     tt_works s (tt_goto Tp_while (tt_do (\<lambda>x w. (x, ts_closeSocketValue tt_kernel c w)) s))"
| tt_break: "tt_worker s = Tp_break \<Longrightarrow>
     tt_works s (tt_goto (Tp_close True (map cs_id (ts_clients (tt_obj s))))
       (tt_map (\<lambda>x. x\<lparr>ts_joining := ts_clients x, ts_clients := []\<rparr>) s))"
| tt_closes: "tt_worker s = Tp_close final (i # is) \<Longrightarrow>
     tt_works s (tt_goto (Tp_join final i is) (tt_do (ts_closeSession tt_kernel i) s))"
| tt_joins: "tt_worker s = Tp_join final i is \<Longrightarrow>
     map_option cs_worker (ts_session i (tt_obj s)) = Some (Some t) \<Longrightarrow> tt_handler s t = Th_exited \<Longrightarrow>
     tt_works s (tt_goto (Tp_close final is) s)"
| tt_not_joinable: "tt_worker s = Tp_join final i is \<Longrightarrow>
     map_option cs_worker (ts_session i (tt_obj s)) = Some None \<Longrightarrow> tt_works s (tt_goto (Tp_close final is) s)"
| tt_drops: "tt_worker s = Tp_close final [] \<Longrightarrow>
     tt_works s (tt_goto (if final then Tp_close_listen else Tp_load) (tt_map (\<lambda>x. x\<lparr>ts_joining := []\<rparr>) s))"
| tt_close_listen: "tt_worker s = Tp_close_listen \<Longrightarrow>
     tt_works s (tt_goto (Tp_setStopped True) (tt_do (ts_closeServerSocket tt_kernel) s))"
| tt_set_stopped: "tt_worker s = Tp_setStopped entered \<Longrightarrow>
     tt_works s (tt_goto (Tp_exited entered) (tt_base (setState St_Stopped (ts_base (tt_obj s))) s))"

text \<open>The thread of session \<open>i\<close>. A descriptor that is nobody's makes \<open>recv\<close> fail at once.\<close>

inductive tt_handles :: "nat \<Rightarrow> tt_sys \<Rightarrow> tt_sys \<Rightarrow> bool" for i where
  th_check_stop: "tt_handler s i = Th_check \<Longrightarrow> \<not> continueRunning (ts_base (tt_obj s)) \<Longrightarrow>
     tt_handles i s (tt_turn i Th_close s)"
| th_check_go: "tt_handler s i = Th_check \<Longrightarrow> continueRunning (ts_base (tt_obj s)) \<Longrightarrow>
     tt_handles i s (tt_turn i Th_load s)"
| th_load_closed: "tt_handler s i = Th_load \<Longrightarrow> tt_holds i x (tt_obj s) \<Longrightarrow> x < 0 \<Longrightarrow>
     tt_handles i s (tt_turn i Th_close s)"
| th_load: "tt_handler s i = Th_load \<Longrightarrow> tt_holds i x (tt_obj s) \<Longrightarrow> 0 \<le> x \<Longrightarrow>
     tt_handles i s (tt_turn i (Th_recv x) s)"
| th_calls: "tt_handler s i = Th_recv x \<Longrightarrow> tt_holds i x (tt_obj s) \<Longrightarrow>
     tt_handles i s (tt_turn i (Th_in_recv x True) s)"
| th_calls_other: "tt_handler s i = Th_recv x \<Longrightarrow> \<not> tt_holds i x (tt_obj s) \<Longrightarrow> \<not> tt_free x (tt_fds s) \<Longrightarrow>
     tt_handles i s (tt_turn i (Th_in_recv x False) (tt_strays x s))"
| th_calls_closed: "tt_handler s i = Th_recv x \<Longrightarrow> tt_free x (tt_fds s) \<Longrightarrow>
     tt_handles i s (tt_turn i Th_close s)"
| th_receives: "tt_handler s i = Th_in_recv x own \<Longrightarrow>
     tt_handles i s (tt_turn i Th_data (tt_base (updateHeartbeat 1000000 now (ts_base (tt_obj s))) s))"
| th_interrupted: "tt_handler s i = Th_in_recv x own \<Longrightarrow> tt_handles i s (tt_turn i Th_check s)"
| th_ends: "tt_handler s i = Th_in_recv x own \<Longrightarrow> tt_handles i s (tt_turn i Th_close s)"
| th_callback: "tt_handler s i = Th_data \<Longrightarrow> tt_handles i s (tt_turn i Th_check s)"
| th_callback_throws: "tt_handler s i = Th_data \<Longrightarrow> tt_handles i s (tt_turn i Th_close s)"
| th_close: "tt_handler s i = Th_close \<Longrightarrow>
     tt_handles i s (tt_turn i Th_complete (tt_do (ts_closeSession tt_kernel i) s))"
| th_complete: "tt_handler s i = Th_complete \<Longrightarrow>
     tt_handles i s (tt_turn i Th_exited (tt_map (ts_update i (cs_completed_update (\<lambda>_. True))) s))"

text \<open>A stopping thread inside \<open>stopTriggered\<close>.\<close>

inductive tt_stops :: "tt_sys \<Rightarrow> tt_sys \<Rightarrow> bool" where
  tt_stopper_listen: "tt_triggers s = Suc n \<Longrightarrow>
     tt_stops s ((tt_do (ts_closeServerSocket tt_kernel) s)\<lparr>tt_triggers := n, tt_closers := Suc (tt_closers s)\<rparr>)"
| tt_stopper_clients: "tt_closers s = Suc n \<Longrightarrow>
     tt_stops s ((tt_do (ts_closeAllClientSockets tt_kernel) s)\<lparr>tt_closers := n\<rparr>)"

text \<open>The rest of the program: it calls \<open>requestStop\<close> (also from a data callback), sets the heartbeat in
  \<open>startThread\<close>, and opens and closes descriptors.\<close>

inductive tt_others :: "tt_sys \<Rightarrow> tt_sys \<Rightarrow> bool" where
  tt_requestStop: "requestStop (ts_base (tt_obj s)) = (trigger, b) \<Longrightarrow>
     tt_others s (tt_base b (s\<lparr>tt_triggers := (if trigger then Suc (tt_triggers s) else tt_triggers s)\<rparr>))"
| tt_start_heartbeat: "tt_others s (tt_base (resetHeartbeat now (ts_base (tt_obj s))) s)"
| tt_foreign_open: "tt_free x (tt_fds s) \<Longrightarrow>
     tt_others s (s\<lparr>tt_fds := (tt_fds s)\<lparr>tw_foreign := insert x (tw_foreign (tt_fds s))\<rparr>\<rparr>)"
| tt_foreign_close:
     "tt_others s (s\<lparr>tt_fds := (tt_fds s)\<lparr>tw_foreign := tw_foreign (tt_fds s) - {x}\<rparr>\<rparr>)"

inductive tt_step :: "tt_sys \<Rightarrow> tt_sys \<Rightarrow> bool" where
  tt_by_worker: "tt_works s t \<Longrightarrow> tt_step s t"
| tt_by_handler: "tt_handles i s t \<Longrightarrow> tt_step s t"
| tt_by_stopper: "tt_stops s t \<Longrightarrow> tt_step s t"
| tt_by_others: "tt_others s t \<Longrightarrow> tt_step s t"

inductive tt_reachable :: "tt_sys \<Rightarrow> bool" where
  tt_reach_init: "tt_reachable (tt_init name port backlog now foreign)"
| tt_reach_step: "tt_reachable s \<Longrightarrow> tt_step s t \<Longrightarrow> tt_reachable t"

section \<open>Fields\<close>

lemma tt_fields [simp]:
  "tt_obj (tt_goto pc s) = tt_obj s" "tt_fds (tt_goto pc s) = tt_fds s" "tt_worker (tt_goto pc s) = pc"
  "tt_handler (tt_goto pc s) = tt_handler s" "tt_triggers (tt_goto pc s) = tt_triggers s"
  "tt_closers (tt_goto pc s) = tt_closers s" "tt_stray (tt_goto pc s) = tt_stray s"
  "tt_failures (tt_goto pc s) = tt_failures s"
  "tt_obj (tt_turn i h s) = tt_obj s" "tt_fds (tt_turn i h s) = tt_fds s" "tt_worker (tt_turn i h s) = tt_worker s"
  "tt_handler (tt_turn i h s) = (tt_handler s)(i := h)" "tt_triggers (tt_turn i h s) = tt_triggers s"
  "tt_closers (tt_turn i h s) = tt_closers s" "tt_stray (tt_turn i h s) = tt_stray s"
  "tt_failures (tt_turn i h s) = tt_failures s"
  "tt_obj (tt_map f s) = f (tt_obj s)" "tt_fds (tt_map f s) = tt_fds s" "tt_worker (tt_map f s) = tt_worker s"
  "tt_handler (tt_map f s) = tt_handler s" "tt_triggers (tt_map f s) = tt_triggers s"
  "tt_closers (tt_map f s) = tt_closers s" "tt_stray (tt_map f s) = tt_stray s"
  "tt_failures (tt_map f s) = tt_failures s"
  by (simp_all add: tt_goto_def tt_turn_def tt_map_def)

lemma tt_fields_of_calls [simp]:
  "tt_obj (tt_base b s) = (tt_obj s)\<lparr>ts_base := b\<rparr>" "tt_fds (tt_base b s) = tt_fds s"
  "tt_worker (tt_base b s) = tt_worker s" "tt_handler (tt_base b s) = tt_handler s"
  "tt_triggers (tt_base b s) = tt_triggers s" "tt_closers (tt_base b s) = tt_closers s"
  "tt_stray (tt_base b s) = tt_stray s" "tt_failures (tt_base b s) = tt_failures s"
  "tt_obj (tt_do f s) = fst (f (tt_obj s) (tt_fds s))" "tt_fds (tt_do f s) = snd (f (tt_obj s) (tt_fds s))"
  "tt_worker (tt_do f s) = tt_worker s" "tt_handler (tt_do f s) = tt_handler s"
  "tt_triggers (tt_do f s) = tt_triggers s" "tt_closers (tt_do f s) = tt_closers s"
  "tt_stray (tt_do f s) = tt_stray s" "tt_failures (tt_do f s) = tt_failures s"
  "tt_obj (tt_opens x s) = tt_obj s"
  "tt_fds (tt_opens x s) = (tt_fds s)\<lparr>tw_open := insert x (tw_open (tt_fds s))\<rparr>"
  "tt_worker (tt_opens x s) = tt_worker s" "tt_handler (tt_opens x s) = tt_handler s"
  "tt_triggers (tt_opens x s) = tt_triggers s" "tt_closers (tt_opens x s) = tt_closers s"
  "tt_stray (tt_opens x s) = tt_stray s" "tt_failures (tt_opens x s) = tt_failures s"
  "tt_obj (tt_strays x s) = tt_obj s" "tt_fds (tt_strays x s) = tt_fds s"
  "tt_worker (tt_strays x s) = tt_worker s" "tt_handler (tt_strays x s) = tt_handler s"
  "tt_triggers (tt_strays x s) = tt_triggers s" "tt_closers (tt_strays x s) = tt_closers s"
  "tt_stray (tt_strays x s) = tt_stray s @ [x]" "tt_failures (tt_strays x s) = tt_failures s"
  by (simp_all add: tt_base_def tt_map_def tt_do_def tt_opens_def tt_strays_def split: prod.split)

section \<open>Operations that only close\<close>

lemma tt_socket_law: "socket_law tt_kernel tw_open"
  by (auto simp: socket_law_def tt_kernel_def tt_close_def)

lemma tt_closeSocketValue: "ts_closeSocketValue tt_kernel x w = (if 0 \<le> x then tt_close x w else w)"
  by (simp add: ts_closeSocketValue_def tt_kernel_def)

text \<open>A session that is the same or closed; a server in which nothing else has changed; a world in which
  only descriptors of the server were closed.\<close>

definition cs_shut :: "client_session \<Rightarrow> client_session \<Rightarrow> bool" where
  "cs_shut c c' \<longleftrightarrow> c' = c \<or> c' = c\<lparr>cs_socket := -1\<rparr>"

definition tt_shut :: "tcp_server \<Rightarrow> tcp_server \<Rightarrow> bool" where
  "tt_shut s s' \<longleftrightarrow>
     list_all2 cs_shut (ts_clients s) (ts_clients s') \<and> list_all2 cs_shut (ts_joining s) (ts_joining s')
     \<and> ts_serverSocket s' \<in> {ts_serverSocket s, -1} \<and> ts_nextId s' = ts_nextId s \<and> ts_base s' = ts_base s"

definition tt_kept :: "tt_world \<Rightarrow> tt_world \<Rightarrow> bool" where
  "tt_kept w w' \<longleftrightarrow> tw_foreign w' = tw_foreign w \<and> tw_wrong w' = tw_wrong w \<and> tw_open w' \<subseteq> tw_open w"

definition tt_only_closes :: "(tcp_server \<Rightarrow> tt_world \<Rightarrow> tcp_server \<times> tt_world) \<Rightarrow> bool" where
  "tt_only_closes f \<longleftrightarrow>
     (\<forall>B s w s' w'. ts_owns tw_open B s w \<longrightarrow> f s w = (s', w') \<longrightarrow>
        ts_owns tw_open B s' w' \<and> tt_kept w w' \<and> tt_shut s s')"

lemma tt_only_closesD:
  assumes "tt_only_closes f" and "ts_owns tw_open B s w"
  shows "ts_owns tw_open B (fst (f s w)) (snd (f s w))" and "tt_kept w (snd (f s w))" and "tt_shut s (fst (f s w))"
proof -
  have "f s w = (fst (f s w), snd (f s w))" by simp
  note r = assms(1) [unfolded tt_only_closes_def, rule_format, OF assms(2) this]
  show "ts_owns tw_open B (fst (f s w)) (snd (f s w))" "tt_kept w (snd (f s w))" "tt_shut s (fst (f s w))"
    using r by simp_all
qed

lemma cs_shut_refl [simp]: "cs_shut c c" "list_all2 cs_shut cs cs"
  by (simp_all add: cs_shut_def list_all2_refl)

lemma cs_shut_close: "list_all2 cs_shut cs (cs_update i (cs_socket_update (\<lambda>_. -1)) cs)"
  by (auto simp: cs_update_def cs_shut_def list_all2_map2 intro!: list_all2_refl)

lemma cs_shut_close_all: "list_all2 cs_shut cs (map (cs_socket_update (\<lambda>_. -1)) cs)"
  by (auto simp: cs_shut_def list_all2_map2 intro!: list_all2_refl)

lemma tt_kept_close: "x < 0 \<or> x \<in> tw_open w \<Longrightarrow> tt_kept w (ts_closeSocketValue tt_kernel x w)"
  by (auto simp: tt_closeSocketValue tt_kept_def tt_close_def)

lemma tt_kept_trans: "tt_kept u v \<Longrightarrow> tt_kept v w \<Longrightarrow> tt_kept u w"
  by (auto simp: tt_kept_def)

lemma tt_kept_close_all:
  "distinct (ts_sockets cs) \<Longrightarrow> set (ts_sockets cs) \<subseteq> tw_open w \<Longrightarrow> tt_kept w (snd (cs_close_all tt_kernel cs w))"
proof (induction cs arbitrary: w)
  case (Cons c cs)
  let ?w = "ts_closeSocketValue tt_kernel (cs_socket c) w"
  have "tt_kept w ?w" using Cons.prems by (intro tt_kept_close) (auto split: if_splits)
  moreover have "set (ts_sockets cs) \<subseteq> tw_open ?w"
    using Cons.prems ts_closeSocketValue_opened [OF tt_socket_law, of "cs_socket c" w] by (auto split: if_splits)
  then have "tt_kept ?w (snd (cs_close_all tt_kernel cs ?w))" using Cons by (auto split: if_splits)
  ultimately show ?case by (auto split: prod.split dest: tt_kept_trans)
qed (simp add: tt_kept_def)

lemma ts_owns_open: "ts_owns opened B s w \<Longrightarrow> set (ts_listening s @ ts_sockets (ts_all s)) \<subseteq> opened w"
  by (auto simp: ts_owns_def)

lemma closeServerSocket_only_closes [intro, simp]: "tt_only_closes (ts_closeServerSocket tt_kernel)"
  unfolding tt_only_closes_def
proof (intro allI impI)
  fix B s w s' w'
  assume own: "ts_owns tw_open B s w" and "ts_closeServerSocket tt_kernel s w = (s', w')"
  then have e: "s' = s\<lparr>ts_serverSocket := -1\<rparr>" "w' = ts_closeSocketValue tt_kernel (ts_serverSocket s) w"
    by (simp_all add: ts_closeServerSocket_def)
  have al: "ts_all s' = ts_all s" "ts_listening s' = []" by (simp_all add: e ts_all_def ts_listening_def)
  have "ts_owns tw_open B s' w'"
    using own ts_closeSocketValue_opened [OF tt_socket_law, of "ts_serverSocket s" w]
    unfolding ts_owns_def al e(2) by (auto simp: e(1) ts_listening_def split: if_splits)
  moreover have "tt_kept w w'"
    using ts_owns_open [OF own] unfolding e by (intro tt_kept_close) (auto simp: ts_listening_def split: if_splits)
  ultimately show "ts_owns tw_open B s' w' \<and> tt_kept w w' \<and> tt_shut s s'" by (simp add: e tt_shut_def)
qed

lemma closeSession_only_closes [intro, simp]: "tt_only_closes (ts_closeSession tt_kernel i)"
  unfolding tt_only_closes_def
proof (intro allI impI)
  fix B s w s' w'
  assume own: "ts_owns tw_open B s w" and r: "ts_closeSession tt_kernel i s w = (s', w')"
  note ts_closeSession_owns [OF tt_socket_law own r]
  moreover have "tt_kept w w' \<and> tt_shut s s'"
  proof (cases "ts_session i s")
    case None
    then show ?thesis using r by (simp add: ts_closeSession_def tt_kept_def tt_shut_def)
  next
    case (Some c)
    then have e: "s' = ts_update i (cs_socket_update (\<lambda>_. -1)) s" "w' = ts_closeSocketValue tt_kernel (cs_socket c) w"
      using r by (simp_all add: ts_closeSession_def)
    have "c \<in> set (ts_all s)"
      using Some unfolding ts_session_def ts_all_def [symmetric] find_Some_iff by (auto simp: in_set_conv_nth)
    then have "cs_socket c < 0 \<or> cs_socket c \<in> tw_open w"
      using ts_owns_open [OF own] by (auto simp: ts_sockets_def)
    then show ?thesis by (simp add: e tt_kept_close tt_shut_def cs_shut_close)
  qed
  ultimately show "ts_owns tw_open B s' w' \<and> tt_kept w w' \<and> tt_shut s s'" by simp
qed

lemma closeAllClientSockets_only_closes [intro, simp]: "tt_only_closes (ts_closeAllClientSockets tt_kernel)"
  unfolding tt_only_closes_def
proof (intro allI impI)
  fix B s w s' w'
  assume own: "ts_owns tw_open B s w" and r: "ts_closeAllClientSockets tt_kernel s w = (s', w')"
  obtain cs w1 where c: "cs_close_all tt_kernel (ts_clients s) w = (cs, w1)" by fastforce
  note o = cs_close_all_opened [OF tt_socket_law c]
  have e: "s' = s\<lparr>ts_clients := cs\<rparr>" "w' = w1" using r c by (simp_all add: ts_closeAllClientSockets_def)
  have cl: "ts_sockets cs = []" "map cs_id cs = map cs_id (ts_clients s)"
    using o by (auto simp: ts_sockets_def filter_empty_conv)
  have al: "ts_all s' = cs @ ts_joining s" "ts_listening s' = ts_listening s" "ts_all s = ts_clients s @ ts_joining s"
    "ts_nextId s' = ts_nextId s"
    by (simp_all add: e ts_all_def ts_listening_def)
  have img: "cs_id ` set cs = cs_id ` set (ts_clients s)" using cl(2) by (metis list.set_map)
  have "\<forall>i \<in> cs_id ` set (ts_clients s). i < ts_nextId s" using own by (auto simp: ts_owns_def al(3))
  then have lt: "\<forall>c \<in> set cs. cs_id c < ts_nextId s" unfolding img [symmetric] by simp
  have sk: "ts_sockets (cs @ ts_joining s) = ts_sockets (ts_joining s)"
    "ts_sockets (ts_clients s @ ts_joining s) = ts_sockets (ts_clients s) @ ts_sockets (ts_joining s)"
    by (simp_all add: cl)
  have w1: "tw_open w1 = tw_open w - set (ts_sockets (ts_clients s))" using o by simp
  have "distinct (map cs_id (cs @ ts_joining s))"
    using own by (simp add: ts_owns_def al(3) cl(2) distinct_map img)
  moreover have "\<forall>c \<in> set (cs @ ts_joining s). cs_id c < ts_nextId s"
    using own lt by (auto simp: ts_owns_def al(3))
  ultimately have "ts_owns tw_open B s' w'"
    using own unfolding ts_owns_def al e(2) sk w1 by auto
  moreover have "tt_kept w w'"
    using tt_kept_close_all [of "ts_clients s" w] own c ts_owns_open [OF own] by (auto simp: e(2) ts_owns_def al(3))
  moreover have "tt_shut s s'" using o by (simp add: e tt_shut_def cs_shut_close_all)
  ultimately show "ts_owns tw_open B s' w' \<and> tt_kept w w' \<and> tt_shut s s'" by simp
qed

section \<open>Sessions and their threads\<close>

text \<open>A thread that has not ended has its node, in one of the two lists; a session that is marked completed
  is one whose thread has made its last access, and its descriptor is closed.\<close>

definition tt_session_inv :: "tt_sys \<Rightarrow> bool" where
  "tt_session_inv s \<longleftrightarrow>
     (\<forall>c \<in> set (ts_all (tt_obj s)).
        cs_worker c = Some (cs_id c) \<and> tt_handler s (cs_id c) \<noteq> Th_none
        \<and> (cs_completed c \<longleftrightarrow> tt_handler s (cs_id c) = Th_exited)
        \<and> (tt_handler s (cs_id c) \<in> {Th_complete, Th_exited} \<longrightarrow> cs_socket c < 0))
     \<and> (\<forall>i. tt_handler s i \<notin> {Th_none, Th_exited} \<longrightarrow> i \<in> cs_id ` set (ts_all (tt_obj s)))
     \<and> (\<forall>i. ts_nextId (tt_obj s) \<le> i \<longrightarrow> tt_handler s i = Th_none)"

text \<open>What the accepting thread has in its local list: nothing outside the loops that join, and in them the
  sessions still to be joined after some whose threads have ended.\<close>

fun tt_early :: "tt_worker \<Rightarrow> bool" where
  "tt_early pc \<longleftrightarrow> (case pc of Tp_preRun \<Rightarrow> True | Tp_bind x \<Rightarrow> True | Tp_listen x \<Rightarrow> True | Tp_preRun_failed \<Rightarrow> True
     | Tp_check \<Rightarrow> True | Tp_setRunning \<Rightarrow> True | Tp_setStopped entered \<Rightarrow> \<not> entered | Tp_exited entered \<Rightarrow> \<not> entered
     | _ \<Rightarrow> False)"

fun tt_over :: "tt_worker \<Rightarrow> bool" where
  "tt_over pc \<longleftrightarrow> (case pc of Tp_setStopped entered \<Rightarrow> entered | Tp_exited entered \<Rightarrow> entered | _ \<Rightarrow> False)"

definition tt_joined :: "bool \<Rightarrow> nat list \<Rightarrow> tcp_server \<Rightarrow> (nat \<Rightarrow> tt_handler) \<Rightarrow> bool" where
  "tt_joined final is x h \<longleftrightarrow>
     (\<exists>dn. map cs_id (ts_joining x) = dn @ is \<and> (\<forall>i \<in> set dn. h i = Th_exited))
     \<and> (if final then ts_clients x = [] else \<forall>c \<in> set (ts_joining x). cs_completed c)"

fun tt_phase :: "tt_worker \<Rightarrow> tcp_server \<Rightarrow> (nat \<Rightarrow> tt_handler) \<Rightarrow> bool" where
  "tt_phase (Tp_close final is) x h \<longleftrightarrow> tt_joined final is x h"
| "tt_phase (Tp_join final i is) x h \<longleftrightarrow>
     tt_joined final (i # is) x h \<and> (\<forall>c \<in> set (ts_joining x). cs_id c = i \<longrightarrow> cs_socket c < 0)"
| "tt_phase pc x h \<longleftrightarrow>
     ts_joining x = [] \<and> (tt_early pc \<longrightarrow> ts_nextId x = 0 \<and> ts_clients x = [])
     \<and> (pc = Tp_preRun \<longrightarrow> ts_serverSocket x = -1)
     \<and> (pc = Tp_close_listen \<or> tt_over pc \<longrightarrow> ts_clients x = [])
     \<and> (tt_over pc \<longrightarrow> ts_serverSocket x = -1)"

definition tt_phase_inv :: "tt_sys \<Rightarrow> bool" where
  "tt_phase_inv s \<longleftrightarrow> tt_phase (tt_worker s) (tt_obj s) (tt_handler s)"

text \<open>The accepted descriptor on its way to a session, or to be refused.\<close>

fun tt_transit :: "tt_worker \<Rightarrow> tt_world \<Rightarrow> fd set" where
  "tt_transit (Tp_start c) w = {c}"
| "tt_transit (Tp_refused c) w = {c} \<inter> tw_open w"
| "tt_transit _ w = {}"

definition tt_own_inv :: "tt_sys \<Rightarrow> bool" where
  "tt_own_inv s \<longleftrightarrow>
     ts_owns tw_open (tt_transit (tt_worker s) (tt_fds s)) (tt_obj s) (tt_fds s)
     \<and> tw_open (tt_fds s) \<inter> tw_foreign (tt_fds s) = {}
     \<and> (\<forall>c \<in> tt_transit (tt_worker s) (tt_fds s). 0 \<le> c)"

subsection \<open>Steps that leave them alone\<close>

lemma tt_session_same:
  assumes "tt_session_inv s" and "ts_all (tt_obj t) = ts_all (tt_obj s)"
    and "ts_nextId (tt_obj t) = ts_nextId (tt_obj s)"
    and "\<forall>i. tt_handler t i = tt_handler s i \<or> tt_handler s i \<notin> {Th_none, Th_complete, Th_exited}
      \<and> tt_handler t i \<notin> {Th_none, Th_complete, Th_exited}"
  shows "tt_session_inv t"
  using assms unfolding tt_session_inv_def by (smt (verit) insert_iff)

lemma tt_phase_same:
  assumes "tt_phase_inv s" and "tt_worker t = tt_worker s" and "ts_joining (tt_obj t) = ts_joining (tt_obj s)"
    and "ts_clients (tt_obj t) = ts_clients (tt_obj s)" and "ts_serverSocket (tt_obj t) = ts_serverSocket (tt_obj s)"
    and "ts_nextId (tt_obj t) = ts_nextId (tt_obj s)"
    and "\<forall>i. tt_handler s i = Th_exited \<longrightarrow> tt_handler t i = Th_exited"
  shows "tt_phase_inv t"
proof -
  have "tt_joined f is (tt_obj s) (tt_handler s) \<Longrightarrow> tt_joined f is (tt_obj t) (tt_handler t)" for f "is"
    using assms(3-7) unfolding tt_joined_def by (auto split: if_splits)
  then show ?thesis using assms by (cases "tt_worker s") (auto simp: tt_phase_inv_def)
qed

lemma ts_owns_same:
  "ts_all t = ts_all s \<Longrightarrow> ts_serverSocket t = ts_serverSocket s \<Longrightarrow> ts_nextId t = ts_nextId s \<Longrightarrow>
   opened v = opened w \<Longrightarrow> ts_owns opened B t v = ts_owns opened B s w"
  by (simp add: ts_owns_def ts_listening_def)

lemma tt_own_same:
  assumes "tt_own_inv s" and "tt_transit (tt_worker t) (tt_fds t) = tt_transit (tt_worker s) (tt_fds s)"
    and "ts_all (tt_obj t) = ts_all (tt_obj s)" and "ts_serverSocket (tt_obj t) = ts_serverSocket (tt_obj s)"
    and "ts_nextId (tt_obj t) = ts_nextId (tt_obj s)" and "tw_open (tt_fds t) = tw_open (tt_fds s)"
    and "tw_open (tt_fds s) \<inter> tw_foreign (tt_fds t) = {}"
  shows "tt_own_inv t"
  using assms ts_owns_same [OF assms(3-5), of tw_open "tt_fds t" "tt_fds s"] by (simp add: tt_own_inv_def)

subsection \<open>Steps that close\<close>

lemma list_all2_cs_shut:
  "list_all2 cs_shut cs cs' \<Longrightarrow> map cs_id cs' = map cs_id cs"
  "list_all2 cs_shut cs cs' \<Longrightarrow> map cs_completed cs' = map cs_completed cs"
  "list_all2 cs_shut cs cs' \<Longrightarrow> c' \<in> set cs' \<Longrightarrow> \<exists>c \<in> set cs. cs_shut c c'"
  by (induction rule: list_all2_induct) (auto simp: cs_shut_def)

lemma tt_shut_all: "tt_shut s s' \<Longrightarrow> list_all2 cs_shut (ts_all s) (ts_all s')"
  by (simp add: tt_shut_def ts_all_def list_all2_appendI)

lemma cs_shut_fields:
  "cs_shut c c' \<Longrightarrow> cs_id c' = cs_id c \<and> cs_worker c' = cs_worker c \<and> cs_completed c' = cs_completed c
     \<and> (cs_socket c < 0 \<longrightarrow> cs_socket c' < 0)"
  by (auto simp: cs_shut_def)

lemma tt_shut_ids: "tt_shut s s' \<Longrightarrow> cs_id ` set (ts_all s') = cs_id ` set (ts_all s)"
  using list_all2_cs_shut(1) [OF tt_shut_all] by (metis list.set_map)

lemma tt_session_shut:
  assumes "tt_session_inv s" and "tt_shut (tt_obj s) (tt_obj t)" and "tt_handler t = tt_handler s"
  shows "tt_session_inv t"
proof -
  have n: "ts_nextId (tt_obj t) = ts_nextId (tt_obj s)" using assms(2) by (simp add: tt_shut_def)
  have "cs_worker d = Some (cs_id d) \<and> tt_handler s (cs_id d) \<noteq> Th_none
      \<and> (cs_completed d \<longleftrightarrow> tt_handler s (cs_id d) = Th_exited)
      \<and> (tt_handler s (cs_id d) \<in> {Th_complete, Th_exited} \<longrightarrow> cs_socket d < 0)"
    if d: "d \<in> set (ts_all (tt_obj t))" for d
  proof -
    obtain c where c: "c \<in> set (ts_all (tt_obj s))" "cs_shut c d"
      using list_all2_cs_shut(3) [OF tt_shut_all [OF assms(2)] d] by blast
    with assms(1) cs_shut_fields [OF c(2)] show ?thesis by (auto simp: tt_session_inv_def)
  qed
  then show ?thesis
    using assms(1) tt_shut_ids [OF assms(2)] n by (simp add: tt_session_inv_def assms(3))
qed

lemma tt_joined_shut: "tt_joined f is x h \<Longrightarrow> tt_shut x y \<Longrightarrow> tt_joined f is y h"
proof -
  assume j: "tt_joined f is x h" and sh: "tt_shut x y"
  then have l: "list_all2 cs_shut (ts_joining x) (ts_joining y)" "list_all2 cs_shut (ts_clients x) (ts_clients y)"
    by (simp_all add: tt_shut_def)
  have "cs_completed ` set (ts_joining y) = cs_completed ` set (ts_joining x)"
    using list_all2_cs_shut(2) [OF l(1)] by (metis list.set_map)
  then have "(\<forall>c \<in> set (ts_joining y). cs_completed c) = (\<forall>c \<in> set (ts_joining x). cs_completed c)"
    by (metis (mono_tags, lifting) imageE imageI)
  moreover have "ts_clients x = [] \<Longrightarrow> ts_clients y = []" using l(2) by simp
  ultimately show ?thesis using j list_all2_cs_shut(1) [OF l(1)] unfolding tt_joined_def by (auto split: if_splits)
qed

lemma tt_phase_shut: "tt_phase pc x h \<Longrightarrow> tt_shut x y \<Longrightarrow> tt_phase pc y h"
proof -
  assume p: "tt_phase pc x h" and sh: "tt_shut x y"
  have q: "ts_joining x = [] \<Longrightarrow> ts_joining y = []" "ts_clients x = [] \<Longrightarrow> ts_clients y = []"
    "ts_nextId y = ts_nextId x" "ts_serverSocket x = -1 \<Longrightarrow> ts_serverSocket y = -1"
    using sh by (auto simp: tt_shut_def)
  have s: "\<forall>c \<in> set (ts_joining x). cs_id c = i \<longrightarrow> cs_socket c < 0 \<Longrightarrow>
      \<forall>c \<in> set (ts_joining y). cs_id c = i \<longrightarrow> cs_socket c < 0" for i
    using list_all2_cs_shut(3) [of "ts_joining x" "ts_joining y"] sh cs_shut_fields unfolding tt_shut_def by metis
  note j = tt_joined_shut [OF _ sh]
  show ?thesis
  proof (cases pc)
    case (Tp_close f "is")
    then show ?thesis using p j by simp
  next
    case (Tp_join f i "is")
    then show ?thesis using p j s [of i] by simp
  qed (use p in \<open>simp_all add: q split: bool.splits\<close>)
qed

lemma tt_phase_do:
  assumes "tt_phase_inv s" and "tt_only_closes f" and "tt_own_inv s"
  shows "tt_phase_inv (tt_do f s)"
  using assms tt_phase_shut [OF _ tt_only_closesD(3) [OF assms(2)]] by (auto simp: tt_phase_inv_def tt_own_inv_def)

lemma tt_session_do:
  assumes "tt_session_inv s" and "tt_only_closes f" and "tt_own_inv s"
  shows "tt_session_inv (tt_do f s)"
  by (rule tt_session_shut [OF assms(1)])
     (use assms tt_only_closesD(3) [OF assms(2)] in \<open>auto simp: tt_own_inv_def\<close>)

lemma tt_own_do:
  assumes "tt_own_inv s" and "tt_only_closes f"
  shows "tt_own_inv (tt_do f s)"
proof -
  let ?w = "snd (f (tt_obj s) (tt_fds s))"
  let ?B = "tt_transit (tt_worker s) (tt_fds s)"
  have own: "ts_owns tw_open ?B (tt_obj s) (tt_fds s)" using assms(1) by (simp add: tt_own_inv_def)
  note r = tt_only_closesD [OF assms(2) own]
  have "?B \<subseteq> tw_open ?w" using r(1) by (auto simp: ts_owns_def)
  then have "tt_transit (tt_worker s) ?w = ?B" using r(2) by (cases "tt_worker s") (auto simp: tt_kept_def)
  then show ?thesis using assms(1) r by (auto simp: tt_own_inv_def tt_kept_def)
qed

subsection \<open>Steps that move sessions\<close>

lemma tt_start_ok:
  "startClientSession (tt_env True (Some i)) c info x w = (ok, x', w') \<Longrightarrow>
   ok \<and> w' = w \<and> x' = x\<lparr>ts_clients := ts_clients x @ [\<lparr>cs_id = ts_nextId x, cs_socket = c, cs_info = info,
     cs_worker = Some i, cs_completed = False\<rparr>], ts_nextId := Suc (ts_nextId x)\<rparr>"
  by (auto simp: startClientSession_def tt_env_def Let_def)

lemma tt_start_fail:
  "startClientSession (tt_env alloc None) c info x w = (ok, x', w') \<Longrightarrow>
   \<not> ok \<and> (\<exists>n \<ge> ts_nextId x. x' = x\<lparr>ts_nextId := n\<rparr>)
     \<and> w' = (if alloc then ts_closeSocketValue tt_kernel c w else w)
     \<and> ts_clients x' = ts_clients x \<and> ts_joining x' = ts_joining x \<and> ts_base x' = ts_base x
     \<and> ts_serverSocket x' = ts_serverSocket x"
  by (cases alloc) (auto simp: startClientSession_def tt_env_def Let_def intro: exI [of _ "ts_nextId x"] exI [of _ "Suc (ts_nextId x)"])

lemma tt_own_starts:
  assumes "ts_owns tw_open {c} x w" and "0 \<le> c"
  shows "ts_owns tw_open {} (x\<lparr>ts_clients := ts_clients x @ [\<lparr>cs_id = ts_nextId x, cs_socket = c, cs_info = info,
     cs_worker = Some i, cs_completed = False\<rparr>], ts_nextId := Suc (ts_nextId x)\<rparr>) w"
  using assms by (auto simp: ts_owns_def ts_all_def ts_listening_def less_SucI)

lemma tt_own_next:
  assumes "ts_owns opened B x w" and "x' = x\<lparr>ts_nextId := n\<rparr>" and "ts_nextId x \<le> n"
  shows "ts_owns opened B x' w"
proof -
  have "ts_all x' = ts_all x" "ts_listening x' = ts_listening x" "ts_nextId x' = n"
    by (simp_all add: assms(2) ts_all_def ts_listening_def)
  then show ?thesis using assms(1,3) by (auto simp: ts_owns_def)
qed

lemma tt_own_release:
  assumes "ts_owns tw_open {c} x w" and "0 \<le> c"
  shows "ts_owns tw_open {} x (ts_closeSocketValue tt_kernel c w)"
  using assms ts_closeSocketValue_opened [OF tt_socket_law, of c w] by (auto simp: ts_owns_def)

lemma tt_joined_done:
  assumes "tt_joined f [] x (tt_handler s)" and "x = tt_obj s" and "tt_session_inv s"
  shows "\<forall>c \<in> set (ts_joining x). tt_handler s (cs_id c) = Th_exited \<and> cs_socket c < 0"
proof
  fix c
  assume c: "c \<in> set (ts_joining x)"
  have "\<forall>i \<in> cs_id ` set (ts_joining x). tt_handler s i = Th_exited"
    using assms(1) unfolding tt_joined_def by (metis append_Nil2 list.set_map)
  then have "tt_handler s (cs_id c) = Th_exited" using c by simp
  then show "tt_handler s (cs_id c) = Th_exited \<and> cs_socket c < 0"
    using assms(2,3) c by (auto simp: tt_session_inv_def ts_all_def)
qed

lemma tt_session_moved:
  assumes "tt_session_inv s" and "set (ts_all (tt_obj t)) = set (ts_all (tt_obj s))"
    and "ts_nextId (tt_obj t) = ts_nextId (tt_obj s)" and "tt_handler t = tt_handler s"
  shows "tt_session_inv t"
  using assms by (simp add: tt_session_inv_def)

definition tt_inv :: "tt_sys \<Rightarrow> bool" where
  "tt_inv s \<longleftrightarrow> tt_session_inv s \<and> tt_phase_inv s \<and> tt_own_inv s"

text \<open>A step of the accepting thread that touches neither the sessions nor descriptors.\<close>

lemma tt_inv_goto:
  assumes "tt_inv s" and "tt_phase pc (tt_obj t) (tt_handler s)" and "ts_all (tt_obj t) = ts_all (tt_obj s)"
    and "ts_serverSocket (tt_obj t) = ts_serverSocket (tt_obj s)" and "ts_nextId (tt_obj t) = ts_nextId (tt_obj s)"
    and "tt_handler t = tt_handler s" and "tt_fds t = tt_fds s"
    and "tt_transit pc (tt_fds s) = {}" and "tt_transit (tt_worker s) (tt_fds s) = {}"
  shows "tt_inv (tt_goto pc t)"
  using assms tt_session_same [of s "tt_goto pc t"] tt_own_same [of s "tt_goto pc t"]
  by (auto simp: tt_inv_def tt_phase_inv_def tt_own_inv_def)

lemma tt_inv_going:
  assumes "tt_inv s"
    and "tt_phase (tt_worker s) (tt_obj s) (tt_handler s) \<Longrightarrow> tt_phase pc (tt_obj t) (tt_handler s)"
    and "ts_clients (tt_obj t) = ts_clients (tt_obj s)" and "ts_joining (tt_obj t) = ts_joining (tt_obj s)"
    and "ts_serverSocket (tt_obj t) = ts_serverSocket (tt_obj s)" and "ts_nextId (tt_obj t) = ts_nextId (tt_obj s)"
    and "tt_handler t = tt_handler s" and "tt_fds t = tt_fds s"
    and "tt_transit pc (tt_fds s) = {}" and "tt_transit (tt_worker s) (tt_fds s) = {}"
  shows "tt_inv (tt_goto pc t)"
  by (rule tt_inv_goto [OF assms(1)]) (use assms in \<open>simp_all add: tt_inv_def tt_phase_inv_def ts_all_def\<close>)

lemma tt_inv_gotoI:
  assumes "tt_session_inv t" and "tt_phase pc (tt_obj t) (tt_handler t)" and "ts_owns tw_open {} (tt_obj t) (tt_fds t)"
    and "tw_open (tt_fds t) \<inter> tw_foreign (tt_fds t) = {}" and "\<And>w. tt_transit pc w = {}"
  shows "tt_inv (tt_goto pc t)"
  using assms tt_session_same [of t "tt_goto pc t"] by (simp add: tt_inv_def tt_phase_inv_def tt_own_inv_def)

text \<open>A step that calls an operation that only closes.\<close>

lemma tt_inv_do:
  assumes "tt_inv s" and "tt_only_closes f"
  shows "tt_inv (tt_do f s)"
  using assms tt_session_do tt_phase_do tt_own_do by (simp add: tt_inv_def)

lemma tt_inv_do_goto:
  assumes "tt_inv s" and "tt_only_closes f"
    and "tt_phase pc (tt_obj (tt_do f s)) (tt_handler s)"
    and "\<And>w. tt_transit pc w = {}" and "\<And>w. tt_transit (tt_worker s) w = {}"
  shows "tt_inv (tt_goto pc (tt_do f s))"
  by (rule tt_inv_goto [OF tt_inv_do [OF assms(1,2)]]) (use assms in simp_all)

lemma tt_inv_do_on:
  assumes "tt_inv s" and "tt_only_closes f" and "tt_phase pc (tt_obj s) (tt_handler s)"
    and "\<And>w. tt_transit pc w = {}" and "\<And>w. tt_transit (tt_worker s) w = {}"
  shows "tt_inv (tt_goto pc (tt_do f s))"
proof (rule tt_inv_do_goto [OF assms(1,2) _ assms(4,5)])
  have "ts_owns tw_open {} (tt_obj s) (tt_fds s)" using assms(1,5) by (simp add: tt_inv_def tt_own_inv_def)
  from tt_phase_shut [OF assms(3) tt_only_closesD(3) [OF assms(2) this]]
  show "tt_phase pc (tt_obj (tt_do f s)) (tt_handler s)" by simp
qed

lemma tt_inv_reaps:
  assumes "tt_inv s" and "tt_worker s = Tp_reap"
  shows "tt_inv (tt_goto (Tp_close False (map cs_id (filter cs_completed (ts_clients (tt_obj s)))))
       (tt_map (\<lambda>x. x\<lparr>ts_joining := filter cs_completed (ts_clients x),
                      ts_clients := filter (\<lambda>c. \<not> cs_completed c) (ts_clients x)\<rparr>) s))"
proof (rule tt_inv_gotoI)
  have own: "ts_owns tw_open {} (tt_obj s) (tt_fds s)" and j: "ts_joining (tt_obj s) = []"
    using assms by (simp_all add: tt_inv_def tt_own_inv_def tt_phase_inv_def)
  show "tt_session_inv (tt_map (\<lambda>x. x\<lparr>ts_joining := filter cs_completed (ts_clients x),
                      ts_clients := filter (\<lambda>c. \<not> cs_completed c) (ts_clients x)\<rparr>) s)"
    by (rule tt_session_moved [of s]) (use assms in \<open>auto simp: tt_inv_def ts_all_def j\<close>)
  show "ts_owns tw_open {} (tt_obj (tt_map (\<lambda>x. x\<lparr>ts_joining := filter cs_completed (ts_clients x),
                      ts_clients := filter (\<lambda>c. \<not> cs_completed c) (ts_clients x)\<rparr>) s)) (tt_fds (tt_map (\<lambda>x. x\<lparr>ts_joining := filter cs_completed (ts_clients x),
                      ts_clients := filter (\<lambda>c. \<not> cs_completed c) (ts_clients x)\<rparr>) s))"
    using ts_owns_splice [OF own j] by (simp add: add.commute)
qed (use assms in \<open>simp_all add: tt_joined_def tt_inv_def tt_own_inv_def\<close>)

lemma tt_inv_break:
  assumes "tt_inv s" and "tt_worker s = Tp_break"
  shows "tt_inv (tt_goto (Tp_close True (map cs_id (ts_clients (tt_obj s))))
       (tt_map (\<lambda>x. x\<lparr>ts_joining := ts_clients x, ts_clients := []\<rparr>) s))"
proof (rule tt_inv_gotoI)
  have own: "ts_owns tw_open {} (tt_obj s) (tt_fds s)" and j: "ts_joining (tt_obj s) = []"
    using assms by (simp_all add: tt_inv_def tt_own_inv_def tt_phase_inv_def)
  show "tt_session_inv (tt_map (\<lambda>x. x\<lparr>ts_joining := ts_clients x, ts_clients := []\<rparr>) s)"
    by (rule tt_session_moved [of s]) (use assms in \<open>auto simp: tt_inv_def ts_all_def j\<close>)
  show "ts_owns tw_open {} (tt_obj (tt_map (\<lambda>x. x\<lparr>ts_joining := ts_clients x, ts_clients := []\<rparr>) s))
      (tt_fds (tt_map (\<lambda>x. x\<lparr>ts_joining := ts_clients x, ts_clients := []\<rparr>) s))"
    using ts_owns_splice [OF own j] by simp
qed (use assms in \<open>simp_all add: tt_joined_def tt_inv_def tt_own_inv_def\<close>)

lemma tt_inv_drops:
  assumes "tt_inv s" and "tt_worker s = Tp_close final []"
  shows "tt_inv (tt_goto (if final then Tp_close_listen else Tp_load) (tt_map (\<lambda>x. x\<lparr>ts_joining := []\<rparr>) s))"
proof (rule tt_inv_gotoI)
  have j: "tt_joined final [] (tt_obj s) (tt_handler s)" and se: "tt_session_inv s"
    using assms by (simp_all add: tt_inv_def tt_phase_inv_def)
  note d = tt_joined_done [OF j refl se]
  have n: "tt_handler s i \<notin> {Th_none, Th_exited} \<Longrightarrow> i \<notin> cs_id ` set (ts_joining (tt_obj s))" for i
    using d by auto
  have "\<forall>i. tt_handler s i \<notin> {Th_none, Th_exited} \<longrightarrow> i \<in> cs_id ` set (ts_clients (tt_obj s))"
    using se n unfolding tt_session_inv_def ts_all_def set_append image_Un by blast
  then show "tt_session_inv (tt_map (\<lambda>x. x\<lparr>ts_joining := []\<rparr>) s)"
    using se by (simp add: tt_session_inv_def ts_all_def)
  have "ts_owns tw_open {} (tt_obj s) (tt_fds s)" using assms by (simp add: tt_inv_def tt_own_inv_def)
  from ts_drop_joining [OF this] d
  show "ts_owns tw_open {} (tt_obj (tt_map (\<lambda>x. x\<lparr>ts_joining := []\<rparr>) s)) (tt_fds (tt_map (\<lambda>x. x\<lparr>ts_joining := []\<rparr>) s))"
    by simp
  show "tt_phase (if final then Tp_close_listen else Tp_load) (tt_obj (tt_map (\<lambda>x. x\<lparr>ts_joining := []\<rparr>) s))
      (tt_handler (tt_map (\<lambda>x. x\<lparr>ts_joining := []\<rparr>) s))"
    using j by (simp add: tt_joined_def)
qed (use assms in \<open>simp_all add: tt_inv_def tt_own_inv_def\<close>)

lemma tt_session_of:
  assumes "tt_session_inv s" and "map_option cs_worker (ts_session i (tt_obj s)) = Some w"
  shows "w = Some i"
proof -
  obtain c where c: "ts_session i (tt_obj s) = Some c" "cs_worker c = w" using assms(2) by auto
  then have "c \<in> set (ts_all (tt_obj s))" "cs_id c = i"
    unfolding ts_session_def ts_all_def [symmetric] find_Some_iff by (auto simp: in_set_conv_nth)
  then show ?thesis using assms(1) c(2) by (auto simp: tt_session_inv_def)
qed

lemma tt_joined_next:
  "tt_joined final (i # is) x h \<Longrightarrow> h i = Th_exited \<Longrightarrow> tt_joined final is x h"
proof -
  assume j: "tt_joined final (i # is) x h" and e: "h i = Th_exited"
  then obtain dn where "map cs_id (ts_joining x) = (dn @ [i]) @ is" "\<forall>k \<in> set (dn @ [i]). h k = Th_exited"
    by (auto simp: tt_joined_def)
  with j show ?thesis unfolding tt_joined_def by blast
qed

lemma tt_inv_closes:
  assumes "tt_inv s" and "tt_worker s = Tp_close final (i # is)"
  shows "tt_inv (tt_goto (Tp_join final i is) (tt_do (ts_closeSession tt_kernel i) s))"
proof (rule tt_inv_do_goto [OF assms(1) closeSession_only_closes])
  have own: "ts_owns tw_open {} (tt_obj s) (tt_fds s)" and j: "tt_joined final (i # is) (tt_obj s) (tt_handler s)"
    using assms by (simp_all add: tt_inv_def tt_own_inv_def tt_phase_inv_def)
  let ?x = "fst (ts_closeSession tt_kernel i (tt_obj s) (tt_fds s))"
  have "cs_socket c < 0" if "c \<in> set (ts_joining ?x)" "cs_id c = i" for c
    using ts_closeSession_closed [OF surjective_pairing, of c tt_kernel i "tt_obj s" "tt_fds s"] that
    by (simp add: ts_all_def)
  then show "tt_phase (Tp_join final i is) (tt_obj (tt_do (ts_closeSession tt_kernel i) s)) (tt_handler s)"
    using tt_joined_shut [OF j tt_only_closesD(3) [OF closeSession_only_closes own]] by simp
qed (simp_all add: assms)

lemma tt_inv_joins:
  assumes "tt_inv s" and "tt_worker s = Tp_join final i is"
    and "map_option cs_worker (ts_session i (tt_obj s)) = Some w"
    and "\<And>t. w = Some t \<Longrightarrow> tt_handler s t = Th_exited"
  shows "tt_inv (tt_goto (Tp_close final is) s)"
proof (rule tt_inv_goto [OF assms(1)])
  have "w = Some i" using tt_session_of [OF _ assms(3)] assms(1) by (simp add: tt_inv_def)
  then have "tt_handler s i = Th_exited" by (rule assms(4))
  then show "tt_phase (Tp_close final is) (tt_obj s) (tt_handler s)"
    using tt_joined_next [of final i "is" "tt_obj s"] assms(1,2) by (simp add: tt_inv_def tt_phase_inv_def)
qed (simp_all add: assms)

lemma tt_inv_starts:
  assumes "tt_inv s" and "tt_worker s = Tp_start c"
    and "startClientSession (tt_env True (Some (ts_nextId (tt_obj s)))) c info (tt_obj s) (tt_fds s) = (ok, obj, w)"
  shows "tt_inv (tt_goto Tp_while (tt_turn (ts_nextId (tt_obj s)) Th_check (s\<lparr>tt_obj := obj, tt_fds := w\<rparr>)))"
proof (rule tt_inv_gotoI)
  have own: "ts_owns tw_open {c} (tt_obj s) (tt_fds s)" "0 \<le> c" and j: "ts_joining (tt_obj s) = []"
    and se: "tt_session_inv s"
    using assms(1,2) by (simp_all add: tt_inv_def tt_own_inv_def tt_phase_inv_def)
  note e = tt_start_ok [OF assms(3)]
  let ?t = "tt_turn (ts_nextId (tt_obj s)) Th_check (s\<lparr>tt_obj := obj, tt_fds := w\<rparr>)"
  show "ts_owns tw_open {} (tt_obj ?t) (tt_fds ?t)" using tt_own_starts [OF own] e by simp
  have "\<forall>d \<in> set (ts_all (tt_obj s)). cs_id d < ts_nextId (tt_obj s)" using own(1) by (simp add: ts_owns_def)
  then have lt: "\<forall>d \<in> set (ts_clients (tt_obj s)). cs_id d \<noteq> ts_nextId (tt_obj s)"
    by (metis UnI1 less_irrefl set_append ts_all_def)
  have all: "ts_all obj = ts_clients (tt_obj s) @ [\<lparr>cs_id = ts_nextId (tt_obj s), cs_socket = c, cs_info = info,
      cs_worker = Some (ts_nextId (tt_obj s)), cs_completed = False\<rparr>]"
    "ts_all (tt_obj s) = ts_clients (tt_obj s)" "ts_nextId obj = Suc (ts_nextId (tt_obj s))"
    using e j by (simp_all add: ts_all_def)
  show "tt_session_inv ?t"
    using se lt unfolding tt_session_inv_def by (auto simp: all)
  show "tt_phase Tp_while (tt_obj ?t) (tt_handler ?t)" using j e by simp
  show "tw_open (tt_fds ?t) \<inter> tw_foreign (tt_fds ?t) = {}"
    using assms(1) e by (simp add: tt_inv_def tt_own_inv_def)
qed simp

lemma tt_foreign_close_own:
  assumes "x \<in> tw_open w"
  shows "tw_foreign (ts_closeSocketValue tt_kernel x w) = tw_foreign w"
    and "tw_wrong (ts_closeSocketValue tt_kernel x w) = tw_wrong w"
  using tt_kept_close [of x w] assms by (simp_all add: tt_kept_def)

lemma tt_inv_start_fails:
  assumes "tt_inv s" and "tt_worker s = Tp_start c"
    and "startClientSession (tt_env alloc None) c info (tt_obj s) (tt_fds s) = (ok, obj, w)"
  shows "tt_inv (tt_goto (Tp_refused c) (s\<lparr>tt_obj := obj, tt_fds := w, tt_failures := n\<rparr>))"
proof -
  have own: "ts_owns tw_open {c} (tt_obj s) (tt_fds s)" "0 \<le> c" and j: "ts_joining (tt_obj s) = []"
    and se: "tt_session_inv s" and dj: "tw_open (tt_fds s) \<inter> tw_foreign (tt_fds s) = {}"
    using assms(1,2) by (simp_all add: tt_inv_def tt_own_inv_def tt_phase_inv_def)
  note e = tt_start_fail [OF assms(3)]
  let ?t = "tt_goto (Tp_refused c) (s\<lparr>tt_obj := obj, tt_fds := w, tt_failures := n\<rparr>)"
  obtain m where m: "obj = (tt_obj s)\<lparr>ts_nextId := m\<rparr>" "ts_nextId (tt_obj s) \<le> m" using e by blast
  have f: "ts_all obj = ts_all (tt_obj s)" "ts_joining obj = []" "ts_nextId (tt_obj s) \<le> ts_nextId obj"
    using m j by (simp_all add: ts_all_def)
  have w: "w = (if alloc then ts_closeSocketValue tt_kernel c (tt_fds s) else tt_fds s)" using e by blast
  have "tt_session_inv ?t" using se f(1,3) by (simp add: tt_session_inv_def)
  moreover have "tt_phase_inv ?t" using f(2) by (simp add: tt_phase_inv_def)
  moreover have c: "c \<in> tw_open (tt_fds s)" using own(1) by (simp add: ts_owns_def)
  have "ts_owns tw_open ({c} \<inter> tw_open w) (tt_obj s) w"
  proof (cases alloc)
    case True
    then have "{c} \<inter> tw_open w = {}"
      using w own(2) ts_closeSocketValue_opened [OF tt_socket_law, of c "tt_fds s"] by simp
    then show ?thesis using tt_own_release [OF own] w True by (simp only: if_True)
  next
    case False
    have "{c} \<inter> tw_open (tt_fds s) = {c}" using c by blast
    then show ?thesis using own(1) w False by (simp only: if_False)
  qed
  then have "ts_owns tw_open ({c} \<inter> tw_open w) obj w" by (rule tt_own_next [OF _ m])
  moreover have "tw_open w \<inter> tw_foreign w = {}"
    using dj w own(2) c tt_foreign_close_own(1) [OF c] ts_closeSocketValue_opened [OF tt_socket_law, of c "tt_fds s"]
    by (cases alloc) auto
  ultimately show ?thesis using own(2) by (simp add: tt_inv_def tt_own_inv_def)
qed

lemma tt_inv_refuses:
  assumes "tt_inv s" and "tt_worker s = Tp_refused c"
  shows "tt_inv (tt_goto Tp_while (tt_do (\<lambda>x w. (x, ts_closeSocketValue tt_kernel c w)) s))"
proof (rule tt_inv_gotoI)
  let ?t = "tt_do (\<lambda>x w. (x, ts_closeSocketValue tt_kernel c w)) s"
  have own: "ts_owns tw_open ({c} \<inter> tw_open (tt_fds s)) (tt_obj s) (tt_fds s)"
    and nn: "c \<in> tw_open (tt_fds s) \<longrightarrow> 0 \<le> c"
    using assms by (simp_all add: tt_inv_def tt_own_inv_def)
  show "ts_owns tw_open {} (tt_obj ?t) (tt_fds ?t)"
    using own nn ts_closeSocketValue_opened [OF tt_socket_law, of c "tt_fds s"]
    by (cases "c \<in> tw_open (tt_fds s)") (auto simp: ts_owns_def)
  show "tw_open (tt_fds ?t) \<inter> tw_foreign (tt_fds ?t) = {}"
    using assms by (auto simp: tt_inv_def tt_own_inv_def tt_closeSocketValue tt_close_def)
  show "tt_session_inv ?t" by (rule tt_session_same [of s]) (use assms in \<open>simp_all add: tt_inv_def\<close>)
  show "tt_phase Tp_while (tt_obj ?t) (tt_handler ?t)" using assms by (simp add: tt_inv_def tt_phase_inv_def)
qed simp

lemma tt_inv_socket:
  assumes "tt_inv s" and "tt_worker s = Tp_preRun" and "tt_free x (tt_fds s)"
  shows "tt_inv (tt_goto (Tp_bind x) (tt_opens x (tt_map (\<lambda>o'. o'\<lparr>ts_serverSocket := x\<rparr>) s)))"
proof (rule tt_inv_gotoI)
  let ?t = "tt_opens x (tt_map (\<lambda>o'. o'\<lparr>ts_serverSocket := x\<rparr>) s)"
  have own: "ts_owns tw_open {} (tt_obj s) (tt_fds s)" "ts_serverSocket (tt_obj s) = -1"
    using assms by (simp_all add: tt_inv_def tt_own_inv_def tt_phase_inv_def)
  then show "ts_owns tw_open {} (tt_obj ?t) (tt_fds ?t)"
    using assms(3) by (auto simp: ts_owns_def ts_all_def ts_listening_def tt_free_def)
  show "tt_session_inv ?t" using assms by (simp add: tt_inv_def tt_session_inv_def ts_all_def)
  show "tt_phase (Tp_bind x) (tt_obj ?t) (tt_handler ?t)" using assms by (simp add: tt_inv_def tt_phase_inv_def)
  show "tw_open (tt_fds ?t) \<inter> tw_foreign (tt_fds ?t) = {}"
    using assms by (auto simp: tt_inv_def tt_own_inv_def tt_free_def)
qed simp

lemma tt_inv_accepts:
  assumes "tt_inv s" and "tt_worker s = Tp_in_accept l own" and "tt_free c (tt_fds s)"
  shows "tt_inv (tt_goto (Tp_start c) (tt_opens c s))"
proof -
  let ?t = "tt_goto (Tp_start c) (tt_opens c s)"
  have "tt_session_inv ?t" by (rule tt_session_same [of s]) (use assms in \<open>simp_all add: tt_inv_def\<close>)
  moreover have "tt_phase_inv ?t" using assms by (simp add: tt_inv_def tt_phase_inv_def)
  moreover have "ts_owns tw_open {} (tt_obj s) (tt_fds s)" using assms by (simp add: tt_inv_def tt_own_inv_def)
  then have "ts_owns tw_open {c} (tt_obj s) ((tt_fds s)\<lparr>tw_open := insert c (tw_open (tt_fds s))\<rparr>)"
    using assms(3) by (auto simp: ts_owns_def tt_free_def)
  ultimately show ?thesis using assms by (auto simp: tt_inv_def tt_own_inv_def tt_free_def)
qed

subsection \<open>Every step\<close>

lemma tt_inv_works: "tt_works s t \<Longrightarrow> tt_inv s \<Longrightarrow> tt_inv t"
proof (induction rule: tt_works.induct)
  case (tt_socket s x)
  then show ?case by (intro tt_inv_socket)
next
  case (tt_preRun_closes s)
  then show ?case by (intro tt_inv_do_on) (simp_all add: tt_inv_def tt_phase_inv_def)
next
  case (tt_reaps s)
  then show ?case by (intro tt_inv_reaps)
next
  case (tt_accepts s l own c)
  then show ?case by (intro tt_inv_accepts)
next
  case (tt_stop_listen s)
  then show ?case by (intro tt_inv_do_on) (simp_all add: tt_inv_def tt_phase_inv_def)
next
  case (tt_stop_clients s)
  then show ?case by (intro tt_inv_do_on) (simp_all add: tt_inv_def tt_phase_inv_def)
next
  case (tt_starts s c info obj w)
  then show ?case by (intro tt_inv_starts)
next
  case (tt_start_fails s c alloc info obj w)
  then show ?case by (intro tt_inv_start_fails)
next
  case (tt_refuses s c)
  then show ?case by (intro tt_inv_refuses)
next
  case (tt_break s)
  then show ?case by (intro tt_inv_break)
next
  case (tt_closes s final i "is")
  then show ?case by (intro tt_inv_closes)
next
  case (tt_joins s final i "is" t)
  then show ?case by (intro tt_inv_joins [where w = "Some t"]) simp_all
next
  case (tt_not_joinable s final i "is")
  then show ?case by (intro tt_inv_joins [where w = None]) simp_all
next
  case (tt_drops s final)
  then show ?case by (intro tt_inv_drops)
next
  case (tt_close_listen s)
  have "tt_phase (Tp_setStopped True) (tt_obj (tt_do (ts_closeServerSocket tt_kernel) s)) (tt_handler s)"
    using tt_close_listen by (simp add: ts_closeServerSocket_def tt_inv_def tt_phase_inv_def)
  with tt_close_listen show ?case by (intro tt_inv_do_goto) simp_all
qed (erule tt_inv_going; simp)+

lemma tt_inv_same:
  assumes "tt_inv s" and "tt_worker t = tt_worker s" and "ts_joining (tt_obj t) = ts_joining (tt_obj s)"
    and "ts_clients (tt_obj t) = ts_clients (tt_obj s)" and "ts_serverSocket (tt_obj t) = ts_serverSocket (tt_obj s)"
    and "ts_nextId (tt_obj t) = ts_nextId (tt_obj s)" and "tw_open (tt_fds t) = tw_open (tt_fds s)"
    and "tw_open (tt_fds s) \<inter> tw_foreign (tt_fds t) \<subseteq> tw_foreign (tt_fds s)"
    and "\<forall>i. tt_handler t i = tt_handler s i \<or> tt_handler s i \<notin> {Th_none, Th_complete, Th_exited}
      \<and> tt_handler t i \<notin> {Th_none, Th_complete, Th_exited}"
  shows "tt_inv t"
proof -
  have "tw_open (tt_fds s) \<inter> tw_foreign (tt_fds t) = {}"
    using assms(1,8) by (auto simp: tt_inv_def tt_own_inv_def)
  moreover
  have "tt_transit pc (tt_fds t) = tt_transit pc (tt_fds s)" for pc using assms(7) by (cases pc) simp_all
  moreover have "tt_handler t i = Th_exited" if "tt_handler s i = Th_exited" for i
    using assms(9) [rule_format, of i] that by auto
  ultimately show ?thesis
    using assms tt_session_same [of s t] tt_phase_same [of s t] tt_own_same [of s t]
    by (simp add: tt_inv_def ts_all_def)
qed

lemma tt_inv_complete:
  assumes "tt_inv s" and "tt_handler s i = Th_complete"
  shows "tt_inv (tt_turn i Th_exited (tt_map (ts_update i (cs_completed_update (\<lambda>_. True))) s))"
    (is "tt_inv ?t")
proof -
  let ?x = "ts_update i (cs_completed_update (\<lambda>_. True)) (tt_obj s)"
  have se: "tt_session_inv s" and ph: "tt_phase_inv s" and ow: "tt_own_inv s" using assms(1) by (simp_all add: tt_inv_def)
  have all: "ts_all ?x = map (\<lambda>c. if cs_id c = i then c\<lparr>cs_completed := True\<rparr> else c) (ts_all (tt_obj s))"
    by (simp add: ts_all_update cs_update_def)
  have ids: "map cs_id (ts_all ?x) = map cs_id (ts_all (tt_obj s))"
    and "map cs_socket (ts_all ?x) = map cs_socket (ts_all (tt_obj s))"
    by (simp_all add: all)
  then have sk: "ts_sockets (ts_all ?x) = ts_sockets (ts_all (tt_obj s))" by (simp add: ts_sockets_def)
  have img: "cs_id ` set (ts_all ?x) = cs_id ` set (ts_all (tt_obj s))" using ids by (metis list.set_map)
  have "tt_session_inv ?t"
    using se assms(2) img unfolding tt_session_inv_def by (auto simp: all)
  moreover have jids: "map cs_id (ts_joining ?x) = map cs_id (ts_joining (tt_obj s))"
    by (simp add: cs_update_def)
  have "tt_joined f is ?x ((tt_handler s)(i := Th_exited))" if "tt_joined f is (tt_obj s) (tt_handler s)" for f "is"
    using that unfolding tt_joined_def jids by (auto simp: cs_update_def split: if_splits)
  then have "tt_phase_inv ?t"
    using ph by (cases "tt_worker s") (auto simp: tt_phase_inv_def cs_update_def)
  moreover have "ts_owns tw_open B ?x w = ts_owns tw_open B (tt_obj s) w" for B and w :: tt_world
  proof -
    have ball: "(\<forall>c \<in> A. cs_id c < n) = (\<forall>i \<in> cs_id ` A. i < n)" for A n by simp
    have "(\<forall>c \<in> set (ts_all ?x). cs_id c < n) = (\<forall>c \<in> set (ts_all (tt_obj s)). cs_id c < n)" for n
      unfolding ball img ..
    then show ?thesis by (simp add: ts_owns_def sk ids ts_listening_def del: list.map_comp)
  qed
  then have "tt_own_inv ?t" using ow by (simp add: tt_own_inv_def)
  ultimately show ?thesis by (simp add: tt_inv_def)
qed

lemma tt_session_closed:
  assumes "tt_session_inv u" and "tt_handler u i = Th_close"
    and "\<forall>c \<in> set (ts_all (tt_obj u)). cs_id c = i \<longrightarrow> cs_socket c < 0"
  shows "tt_session_inv (tt_turn i Th_complete u)"
  using assms by (auto simp: tt_session_inv_def)

lemma tt_inv_th_close:
  assumes "tt_inv s" and "tt_handler s i = Th_close"
  shows "tt_inv (tt_turn i Th_complete (tt_do (ts_closeSession tt_kernel i) s))"
proof -
  let ?u = "tt_do (ts_closeSession tt_kernel i) s"
  let ?t = "tt_turn i Th_complete ?u"
  have u: "tt_inv ?u" by (rule tt_inv_do [OF assms(1) closeSession_only_closes])
  have cl: "\<forall>c \<in> set (ts_all (tt_obj ?u)). cs_id c = i \<longrightarrow> cs_socket c < 0"
    using ts_closeSession_closed [OF surjective_pairing, of _ tt_kernel i "tt_obj s" "tt_fds s"] by simp
  have "tt_session_inv ?t" by (rule tt_session_closed [OF _ _ cl]) (use u assms(2) in \<open>simp_all add: tt_inv_def\<close>)
  moreover have "tt_phase_inv ?t" by (rule tt_phase_same [of ?u]) (use u assms(2) in \<open>simp_all add: tt_inv_def\<close>)
  moreover have "tt_own_inv ?t" using u by (simp add: tt_inv_def tt_own_inv_def)
  ultimately show ?thesis by (simp add: tt_inv_def)
qed

lemma tt_inv_handles: "tt_handles i s t \<Longrightarrow> tt_inv s \<Longrightarrow> tt_inv t"
proof (induction rule: tt_handles.induct)
  case (th_close s)
  then show ?case by (intro tt_inv_th_close)
next
  case (th_complete s)
  then show ?case by (intro tt_inv_complete)
qed (erule tt_inv_same; simp)+

lemma tt_inv_counters: "tt_inv (s\<lparr>tt_triggers := n\<rparr>) = tt_inv s"
  "tt_inv (s\<lparr>tt_closers := n\<rparr>) = tt_inv s"
  by (simp_all add: tt_inv_def tt_session_inv_def tt_phase_inv_def tt_own_inv_def)

lemma tt_inv_stops: "tt_stops s t \<Longrightarrow> tt_inv s \<Longrightarrow> tt_inv t"
  by (induction rule: tt_stops.induct) (simp_all add: tt_inv_counters tt_inv_do)

lemma tt_inv_others: "tt_others s t \<Longrightarrow> tt_inv s \<Longrightarrow> tt_inv t"
  by (induction rule: tt_others.induct)
     (erule tt_inv_same; auto simp: tt_free_def)+

lemma tt_inv_step [inv_intros]: "tt_step s t \<Longrightarrow> tt_inv s \<Longrightarrow> tt_inv t"
  by (erule tt_step.cases) (auto intro: tt_inv_works tt_inv_handles tt_inv_stops tt_inv_others)

lemma tt_inv_init: "tt_inv (tt_init name port backlog now foreign)"
  by (simp add: tt_inv_def tt_session_inv_def tt_phase_inv_def tt_own_inv_def tt_init_def ts_new_def ts_all_def
      ts_owns_def ts_listening_def)

end
