(* ===== verification/TcpServerStops.thy ===== *)
theory TcpServerStops
  imports TcpServerThreads
begin

text \<open>
  What the steps of \<open>TcpServerThreads\<close> make of a stop of \<open>TCPServer_V2\<close> (\<open>cTCPServer_V2.h\<close>): before one is requested
  no call is made on a descriptor that the server does not hold; afterwards the accepting thread and the
  threads of the sessions have a bounded number of steps left, and none of them waits for a peer unless it
  was caught between the load of a descriptor and the call on it. The last section has the runs in which a
  stop does go wrong.
\<close>

section \<open>Before a stop is requested\<close>

definition tt_flag :: "tt_sys \<Rightarrow> bool" where
  "tt_flag s = m_stopRequested (ts_base (tt_obj s))"

text \<open>Where the accepting thread can only be once a stop is requested; where it has a listening socket if none
  is; where it is between the look at the flag and the end of \<open>run\<close>.\<close>

fun tt_ending :: "tt_worker \<Rightarrow> bool" where
  "tt_ending pc \<longleftrightarrow> (case pc of Tp_stop_listen \<Rightarrow> True | Tp_stop_clients \<Rightarrow> True | Tp_break \<Rightarrow> True
     | Tp_close final is \<Rightarrow> final | Tp_join final i is \<Rightarrow> final | Tp_close_listen \<Rightarrow> True
     | Tp_setStopped entered \<Rightarrow> entered | Tp_exited entered \<Rightarrow> entered | _ \<Rightarrow> False)"

fun tt_bound :: "tt_worker \<Rightarrow> bool" where
  "tt_bound pc \<longleftrightarrow> (case pc of Tp_preRun \<Rightarrow> False | Tp_preRun_failed \<Rightarrow> False | Tp_setStopped entered \<Rightarrow> False
     | Tp_exited entered \<Rightarrow> False | _ \<Rightarrow> True)"

fun tt_going :: "tt_worker \<Rightarrow> bool" where
  "tt_going pc \<longleftrightarrow> \<not> tt_over pc \<and> (tt_early pc \<longrightarrow> pc = Tp_setRunning)"

definition tt_state_inv :: "tt_sys \<Rightarrow> bool" where
  "tt_state_inv s \<longleftrightarrow>
     ((\<forall>entered. tt_worker s \<noteq> Tp_exited entered) \<longrightarrow>
        m_state (ts_base (tt_obj s)) \<in> {St_Starting, St_Running, St_Stopping})"

definition tt_calm_inv :: "tt_sys \<Rightarrow> bool" where
  "tt_calm_inv s \<longleftrightarrow>
     (\<not> tt_flag s \<longrightarrow>
        tt_triggers s = 0 \<and> tt_closers s = 0 \<and> tt_stray s = [] \<and> \<not> tt_ending (tt_worker s)
        \<and> (\<forall>x. tt_worker s \<in> {Tp_bind x, Tp_listen x, Tp_accept x} \<longrightarrow> ts_serverSocket (tt_obj s) = x)
        \<and> (tt_bound (tt_worker s) \<longrightarrow> 0 \<le> ts_serverSocket (tt_obj s))
        \<and> (\<forall>i x. tt_handler s i = Th_recv x \<longrightarrow> tt_holds i x (tt_obj s)))"

definition tt_stop_inv :: "tt_sys \<Rightarrow> bool" where
  "tt_stop_inv s \<longleftrightarrow>
     (tt_flag s \<and> tt_going (tt_worker s) \<and> 0 \<le> ts_serverSocket (tt_obj s) \<longrightarrow>
        0 < tt_triggers s \<or> tt_worker s = Tp_stop_listen)
     \<and> (tt_stray s = [] \<longrightarrow>
          (\<forall>i x. tt_handler s i \<noteq> Th_in_recv x False) \<and> (\<forall>l. tt_worker s \<noteq> Tp_in_accept l False))
     \<and> (\<forall>l. tt_worker s = Tp_in_accept l True \<longrightarrow> ts_serverSocket (tt_obj s) \<in> {l, -1})
     \<and> (\<forall>l own. tt_worker s \<in> {Tp_accept l, Tp_in_accept l own} \<longrightarrow> 0 \<le> l)
     \<and> (\<forall>i x own. tt_handler s i \<in> {Th_recv x, Th_in_recv x own} \<longrightarrow> 0 \<le> x)"

lemmas tt_step_defs = requestStop_def stopRequested_def continueRunning_def setState_def resetHeartbeat_def
  updateHeartbeat_def Let_def tt_flag_def

lemma ts_close_fields [simp]:
  "fst (ts_closeServerSocket K x w) = x\<lparr>ts_serverSocket := -1\<rparr>"
  "ts_base (fst (ts_closeSession K i x w)) = ts_base x"
  "ts_serverSocket (fst (ts_closeSession K i x w)) = ts_serverSocket x"
  "ts_base (fst (ts_closeAllClientSockets K x w)) = ts_base x"
  "ts_serverSocket (fst (ts_closeAllClientSockets K x w)) = ts_serverSocket x"
  by (simp_all add: ts_closeServerSocket_def ts_closeSession_def ts_closeAllClientSockets_def
      split: option.split prod.split)

text \<open>What a session holds, under the operations.\<close>

lemma tt_holds_cong: "set (ts_all x) = set (ts_all y) \<Longrightarrow> tt_holds i d x = tt_holds i d y"
  by (simp add: tt_holds_def)

lemma tt_holds_base [simp]: "tt_holds i d (x\<lparr>ts_base := b\<rparr>) = tt_holds i d x"
  "tt_holds i d (x\<lparr>ts_serverSocket := l\<rparr>) = tt_holds i d x"
  by (simp_all add: tt_holds_def ts_all_def)

lemma cs_update_socket_other:
  "k \<noteq> i \<Longrightarrow> (\<exists>c \<in> set (cs_update i f cs). cs_id c = k \<and> cs_socket c = d) = (\<exists>c \<in> set cs. cs_id c = k \<and> cs_socket c = d)"
  if "\<And>c. cs_id (f c) = cs_id c"
  using that by (fastforce simp: cs_update_def)

lemma tt_holds_closeSession: "k \<noteq> i \<Longrightarrow> tt_holds k d (fst (ts_closeSession K i x w)) = tt_holds k d x"
  by (auto simp: tt_holds_def ts_closeSession_def ts_all_update cs_update_socket_other split: option.split)

lemma tt_holds_completed [simp]: "tt_holds k d (ts_update i (cs_completed_update f) x) = tt_holds k d x"
proof -
  have "(\<lambda>c. (cs_id c, cs_socket c)) ` set (cs_update i (cs_completed_update f) cs)
      = (\<lambda>c. (cs_id c, cs_socket c)) ` set cs" for cs
    unfolding cs_update_def set_map image_image by (rule image_cong) simp_all
  then have "((k, d) \<in> (\<lambda>c. (cs_id c, cs_socket c)) ` set (cs_update i (cs_completed_update f) cs))
      = ((k, d) \<in> (\<lambda>c. (cs_id c, cs_socket c)) ` set cs)" for cs
    by simp
  then show ?thesis by (simp add: tt_holds_def ts_all_update image_iff eq_commute Bex_def)
qed

lemma tt_closes_completed:
  assumes "tt_inv s" and "tt_worker s = Tp_close False (i # is)"
  shows "tt_handler s i = Th_exited"
proof -
  have j: "tt_joined False (i # is) (tt_obj s) (tt_handler s)" and se: "tt_session_inv s"
    using assms by (simp_all add: tt_inv_def tt_phase_inv_def)
  obtain dn where "map cs_id (ts_joining (tt_obj s)) = dn @ i # is" using j by (auto simp: tt_joined_def)
  then have "i \<in> cs_id ` set (ts_joining (tt_obj s))" by (metis in_set_conv_decomp list.set_map)
  then show ?thesis using j se by (auto simp: tt_joined_def tt_session_inv_def ts_all_def)
qed

lemma tt_holds_dropped:
  assumes "tt_inv s" and "tt_worker s = Tp_close f []" and "tt_handler s i \<noteq> Th_exited"
    and "tt_holds i d (tt_obj s)"
  shows "tt_holds i d ((tt_obj s)\<lparr>ts_joining := []\<rparr>)"
proof -
  have "tt_joined f [] (tt_obj s) (tt_handler s)" "tt_session_inv s"
    using assms by (simp_all add: tt_inv_def tt_phase_inv_def)
  note tt_joined_done [OF this(1) refl this(2)]
  then show ?thesis using assms(3,4) by (auto simp: tt_holds_def ts_all_def)
qed

section \<open>The invariants of a stop\<close>

lemma tt_state_works: "tt_works s t \<Longrightarrow> tt_state_inv s \<Longrightarrow> tt_state_inv t"
proof (induction rule: tt_works.induct)
  case (tt_starts s c info obj w)
  then show ?case using tt_start_ok [OF tt_starts(2)] by (simp add: tt_state_inv_def)
next
  case (tt_start_fails s c alloc info obj w)
  then have "ts_base obj = ts_base (tt_obj s)" using tt_start_fail by blast
  with tt_start_fails show ?case by (simp add: tt_state_inv_def)
qed (auto simp: tt_state_inv_def tt_step_defs split: if_splits)

lemma tt_state_others: "tt_others s t \<Longrightarrow> tt_state_inv s \<Longrightarrow> tt_state_inv t"
  by (induction rule: tt_others.induct) (auto simp: tt_state_inv_def tt_step_defs split: if_splits)

lemma tt_state_handles: "tt_handles i s t \<Longrightarrow> tt_state_inv s \<Longrightarrow> tt_state_inv t"
  by (induction rule: tt_handles.induct) (auto simp: tt_state_inv_def tt_step_defs)

lemma tt_state_stops: "tt_stops s t \<Longrightarrow> tt_state_inv s \<Longrightarrow> tt_state_inv t"
  by (induction rule: tt_stops.induct) (auto simp: tt_state_inv_def)

lemma tt_state_step [inv_intros]: "tt_step s t \<Longrightarrow> tt_state_inv s \<Longrightarrow> tt_state_inv t"
  by (erule tt_step.cases) (auto intro: tt_state_works tt_state_handles tt_state_stops tt_state_others)

lemma tt_calm_works: "tt_works s t \<Longrightarrow> tt_inv s \<Longrightarrow> tt_calm_inv s \<Longrightarrow> tt_calm_inv t"
proof (induction rule: tt_works.induct)
  case (tt_reaps s)
  then have "ts_joining (tt_obj s) = []" by (simp add: tt_inv_def tt_phase_inv_def)
  then have "set (ts_all ((tt_obj s)\<lparr>ts_joining := filter cs_completed (ts_clients (tt_obj s)),
      ts_clients := filter (\<lambda>c. \<not> cs_completed c) (ts_clients (tt_obj s))\<rparr>)) = set (ts_all (tt_obj s))"
    by (auto simp: ts_all_def)
  note h = tt_holds_cong [OF this]
  show ?case using tt_reaps by (simp add: tt_calm_inv_def tt_flag_def h)
next
  case (tt_starts s c info obj w)
  note e = tt_start_ok [OF tt_starts(2)]
  have "tt_holds i x obj" if "tt_holds i x (tt_obj s)" for i x
    using that e by (auto simp: tt_holds_def ts_all_def)
  then show ?case using tt_starts e by (auto simp: tt_calm_inv_def tt_flag_def)
next
  case (tt_start_fails s c alloc info obj w)
  then have "ts_base obj = ts_base (tt_obj s)" "ts_serverSocket obj = ts_serverSocket (tt_obj s)"
    "ts_all obj = ts_all (tt_obj s)"
    using tt_start_fail unfolding ts_all_def by metis+
  with tt_start_fails show ?case by (simp add: tt_calm_inv_def tt_flag_def tt_holds_def)
next
  case (tt_closes s final i "is")
  have "tt_holds k x (fst (ts_closeSession tt_kernel i (tt_obj s) (tt_fds s)))"
    if "\<not> tt_flag s" "tt_handler s k = Th_recv x" for k x
  proof -
    have "\<not> final" "tt_holds k x (tt_obj s)" using tt_closes that by (auto simp: tt_calm_inv_def)
    then have "k \<noteq> i" using tt_closes_completed [of s i "is"] tt_closes that(2) by auto
    then show ?thesis using \<open>tt_holds k x (tt_obj s)\<close> by (simp add: tt_holds_closeSession)
  qed
  then show ?case using tt_closes by (auto simp: tt_calm_inv_def tt_flag_def)
next
  case (tt_drops s final)
  then show ?case using tt_holds_dropped [of s final] by (auto simp: tt_calm_inv_def tt_flag_def)
next
  case (tt_set_stopped s entered)
  then show ?case by (auto simp: tt_calm_inv_def tt_step_defs)
qed (auto simp: tt_calm_inv_def tt_step_defs tt_free_def tt_inv_def tt_phase_inv_def split: if_splits)

lemma tt_calm_handles: "tt_handles i s t \<Longrightarrow> tt_inv s \<Longrightarrow> tt_calm_inv s \<Longrightarrow> tt_calm_inv t"
proof (induction rule: tt_handles.induct)
  case (th_close s)
  then show ?case by (auto simp: tt_calm_inv_def tt_flag_def tt_holds_closeSession)
qed (auto simp: tt_calm_inv_def tt_step_defs)

lemma tt_calm_stops: "tt_stops s t \<Longrightarrow> tt_calm_inv s \<Longrightarrow> tt_calm_inv t"
  by (induction rule: tt_stops.induct) (auto simp: tt_calm_inv_def tt_flag_def)

lemma tt_calm_others: "tt_others s t \<Longrightarrow> tt_calm_inv s \<Longrightarrow> tt_calm_inv t"
  by (induction rule: tt_others.induct) (auto simp: tt_calm_inv_def tt_step_defs split: if_splits)

lemma tt_calm_step [inv_intros]: "tt_step s t \<Longrightarrow> tt_inv s \<Longrightarrow> tt_calm_inv s \<Longrightarrow> tt_calm_inv t"
  by (erule tt_step.cases) (auto intro: tt_calm_works tt_calm_handles tt_calm_stops tt_calm_others)

lemma tt_stop_works:
  "tt_works s t \<Longrightarrow> tt_inv s \<Longrightarrow> tt_state_inv s \<Longrightarrow> tt_calm_inv s \<Longrightarrow> tt_stop_inv s \<Longrightarrow> tt_stop_inv t"
proof (induction rule: tt_works.induct)
  case (tt_starts s c info obj w)
  then show ?case using tt_start_ok [OF tt_starts(2)] by (auto simp: tt_stop_inv_def tt_flag_def)
next
  case (tt_start_fails s c alloc info obj w)
  then have "ts_base obj = ts_base (tt_obj s)" "ts_serverSocket obj = ts_serverSocket (tt_obj s)"
    using tt_start_fail by blast+
  with tt_start_fails show ?case by (auto simp: tt_stop_inv_def tt_flag_def)
qed (auto simp: tt_stop_inv_def tt_step_defs tt_state_inv_def split: if_splits)

lemma tt_stop_handles: "tt_handles i s t \<Longrightarrow> tt_stop_inv s \<Longrightarrow> tt_stop_inv t"
  by (induction rule: tt_handles.induct) (auto simp: tt_stop_inv_def tt_step_defs)

lemma tt_stop_stops: "tt_stops s t \<Longrightarrow> tt_stop_inv s \<Longrightarrow> tt_stop_inv t"
  by (induction rule: tt_stops.induct) (auto simp: tt_stop_inv_def tt_flag_def)

lemma tt_stop_others: "tt_others s t \<Longrightarrow> tt_state_inv s \<Longrightarrow> tt_stop_inv s \<Longrightarrow> tt_stop_inv t"
  by (induction rule: tt_others.induct) (auto simp: tt_stop_inv_def tt_state_inv_def tt_step_defs split: if_splits)

lemma tt_stop_step [inv_intros]:
  "tt_step s t \<Longrightarrow> tt_inv s \<Longrightarrow> tt_state_inv s \<Longrightarrow> tt_calm_inv s \<Longrightarrow> tt_stop_inv s \<Longrightarrow> tt_stop_inv t"
  by (erule tt_step.cases) (auto intro: tt_stop_works tt_stop_handles tt_stop_stops tt_stop_others)

text \<open>A descriptor that was closed by mistake is paid for by a thread that could not be created.\<close>

fun tt_owed :: "tt_worker \<Rightarrow> tt_world \<Rightarrow> nat" where
  "tt_owed (Tp_refused c) w = (if c \<in> tw_open w then 0 else 1)"
| "tt_owed pc w = 0"

definition tt_wrong_inv :: "tt_sys \<Rightarrow> bool" where
  "tt_wrong_inv s \<longleftrightarrow> length (tw_wrong (tt_fds s)) + tt_owed (tt_worker s) (tt_fds s) \<le> tt_failures s"

lemma tt_wrong_do:
  assumes "tt_inv s" and "tt_only_closes f"
  shows "tw_wrong (snd (f (tt_obj s) (tt_fds s))) = tw_wrong (tt_fds s)"
    and "tt_owed (tt_worker s) (snd (f (tt_obj s) (tt_fds s))) = tt_owed (tt_worker s) (tt_fds s)"
proof -
  have own: "ts_owns tw_open (tt_transit (tt_worker s) (tt_fds s)) (tt_obj s) (tt_fds s)"
    using assms(1) by (simp add: tt_inv_def tt_own_inv_def)
  note r = tt_only_closesD [OF assms(2) own]
  show "tw_wrong (snd (f (tt_obj s) (tt_fds s))) = tw_wrong (tt_fds s)" using r(2) by (simp add: tt_kept_def)
  show "tt_owed (tt_worker s) (snd (f (tt_obj s) (tt_fds s))) = tt_owed (tt_worker s) (tt_fds s)"
    using r(1,2) by (cases "tt_worker s") (auto simp: ts_owns_def tt_kept_def)
qed

lemma tt_wrong_works: "tt_works s t \<Longrightarrow> tt_inv s \<Longrightarrow> tt_wrong_inv s \<Longrightarrow> tt_wrong_inv t"
proof (induction rule: tt_works.induct)
  case (tt_starts s c info obj w)
  then show ?case using tt_start_ok [OF tt_starts(2)] by (simp add: tt_wrong_inv_def)
next
  case (tt_start_fails s c alloc info obj w)
  have c: "c \<in> tw_open (tt_fds s)" using tt_start_fails by (simp add: tt_inv_def tt_own_inv_def ts_owns_def)
  have "w = (if alloc then ts_closeSocketValue tt_kernel c (tt_fds s) else tt_fds s)"
    using tt_start_fail [OF tt_start_fails(2)] by blast
  then show ?case using tt_start_fails c tt_foreign_close_own(2) [OF c] by (cases alloc) (simp_all add: tt_wrong_inv_def)
next
  case (tt_refuses s c)
  then show ?case by (auto simp: tt_wrong_inv_def tt_closeSocketValue tt_close_def split: if_splits)
qed (simp_all add: tt_wrong_inv_def tt_wrong_do del: tt_owed.simps, simp_all)

lemma tt_wrong_handles: "tt_handles i s t \<Longrightarrow> tt_inv s \<Longrightarrow> tt_wrong_inv s \<Longrightarrow> tt_wrong_inv t"
  by (induction rule: tt_handles.induct) (simp_all add: tt_wrong_inv_def tt_wrong_do)

lemma tt_wrong_stops: "tt_stops s t \<Longrightarrow> tt_inv s \<Longrightarrow> tt_wrong_inv s \<Longrightarrow> tt_wrong_inv t"
  by (induction rule: tt_stops.induct) (simp_all add: tt_wrong_inv_def tt_wrong_do)

lemma tt_owed_foreign [simp]: "tt_owed pc (w\<lparr>tw_foreign := F\<rparr>) = tt_owed pc w"
  by (cases pc) simp_all

lemma tt_wrong_others: "tt_others s t \<Longrightarrow> tt_wrong_inv s \<Longrightarrow> tt_wrong_inv t"
  by (induction rule: tt_others.induct) (simp_all add: tt_wrong_inv_def)

lemma tt_wrong_step [inv_intros]: "tt_step s t \<Longrightarrow> tt_inv s \<Longrightarrow> tt_wrong_inv s \<Longrightarrow> tt_wrong_inv t"
  by (erule tt_step.cases) (auto intro: tt_wrong_works tt_wrong_handles tt_wrong_stops tt_wrong_others)

lemma tt_reachable_inv:
  "tt_reachable s \<Longrightarrow> tt_inv s \<and> tt_state_inv s \<and> tt_calm_inv s \<and> tt_stop_inv s \<and> tt_wrong_inv s"
proof (induction rule: tt_reachable.induct)
  case (tt_reach_init name port backlog now foreign)
  show ?case
    by (intro conjI tt_inv_init)
       (simp_all add: tt_state_inv_def tt_calm_inv_def tt_stop_inv_def tt_wrong_inv_def tt_init_def ts_new_def tt_flag_def bw_new_def)
next
  case (tt_reach_step s t)
  then show ?case by (blast intro: inv_intros)
qed

section \<open>Descriptors and sessions\<close>

lemma tt_over_closed:
  assumes "tt_inv s" and "tt_worker s = Tp_exited True"
  shows "tw_open (tt_fds s) = {} \<and> ts_all (tt_obj s) = [] \<and> (\<forall>i. tt_handler s i \<in> {Th_none, Th_exited})"
proof -
  have "ts_all (tt_obj s) = []" "ts_serverSocket (tt_obj s) = -1" "tt_session_inv s"
    and "ts_owns tw_open {} (tt_obj s) (tt_fds s)"
    using assms by (simp_all add: tt_inv_def tt_phase_inv_def tt_own_inv_def ts_all_def)
  then show ?thesis by (auto simp: ts_owns_def ts_listening_def tt_session_inv_def)
qed


section \<open>A stop comes to its end\<close>

fun th_load :: "tt_handler \<Rightarrow> nat" where
  "th_load Th_none = 0"
| "th_load Th_exited = 0"
| "th_load Th_complete = 1"
| "th_load Th_close = 2"
| "th_load Th_check = 3"
| "th_load Th_data = 4"
| "th_load (Th_in_recv x own) = 5"
| "th_load (Th_recv x) = 6"
| "th_load Th_load = 7"

text \<open>The steps of the accepting thread that are left, with \<open>n\<close> sessions in \<open>m_clients\<close>.\<close>

fun tw_load :: "tt_worker \<Rightarrow> nat \<Rightarrow> nat" where
  "tw_load (Tp_exited entered) n = 0"
| "tw_load (Tp_setStopped entered) n = 1"
| "tw_load Tp_preRun_failed n = 2"
| "tw_load Tp_check n = 2"
| "tw_load (Tp_listen x) n = 3"
| "tw_load (Tp_bind x) n = 4"
| "tw_load Tp_preRun n = 5"
| "tw_load Tp_close_listen n = 2"
| "tw_load (Tp_close True is) n = 3 + 2 * length is"
| "tw_load (Tp_join True i is) n = 4 + 2 * length is"
| "tw_load Tp_break n = 4 + 2 * n"
| "tw_load Tp_while n = 5 + 2 * n"
| "tw_load Tp_setRunning n = 6 + 2 * n"
| "tw_load Tp_stop_clients n = 5 + 2 * n"
| "tw_load Tp_stop_listen n = 6 + 2 * n"
| "tw_load Tp_requestStop n = 7 + 2 * n"
| "tw_load Tp_stop n = 8 + 2 * n"
| "tw_load (Tp_failed interrupted) n = 9 + 2 * n"
| "tw_load (Tp_refused c) n = 6 + 2 * n"
| "tw_load (Tp_start c) n = 11 + 2 * n"
| "tw_load (Tp_in_accept l own) n = 12 + 2 * n"
| "tw_load (Tp_accept l) n = 13 + 2 * n"
| "tw_load Tp_load n = 14 + 2 * n"
| "tw_load (Tp_close False is) n = 15 + 2 * length is + 2 * n"
| "tw_load (Tp_join False i is) n = 16 + 2 * length is + 2 * n"
| "tw_load Tp_reap n = 16 + 2 * n"

definition tt_load :: "tt_sys \<Rightarrow> nat" where
  "tt_load s = tw_load (tt_worker s) (length (ts_clients (tt_obj s)))
     + (\<Sum>i < ts_nextId (tt_obj s). th_load (tt_handler s i))"

lemma ts_close_lengths [simp]:
  "length (ts_clients (fst (ts_closeSession K i x w))) = length (ts_clients x)"
  "ts_nextId (fst (ts_closeSession K i x w)) = ts_nextId x"
  "ts_nextId (fst (ts_closeAllClientSockets K x w)) = ts_nextId x"
  by (simp_all add: ts_closeSession_def ts_closeAllClientSockets_def cs_update_def split: option.split prod.split)

lemma cs_close_all_length: "length (fst (cs_close_all K cs w)) = length cs"
  by (induction cs arbitrary: w) (auto split: prod.split simp: prod.case_eq_if)

lemma ts_closeAllClientSockets_length [simp]:
  "length (ts_clients (fst (ts_closeAllClientSockets K x w))) = length (ts_clients x)"
  using cs_close_all_length [of K "ts_clients x" w] by (simp add: ts_closeAllClientSockets_def prod.case_eq_if)

lemma tt_load_works:
  assumes "tt_works s t" and "tt_inv s" and "tt_flag s"
  shows "tt_load t < tt_load s"
  using assms
proof (induction rule: tt_works.induct)
  case (tt_reaps s)
  have "length (filter cs_completed cs) + length (filter (\<lambda>c. \<not> cs_completed c) cs) = length cs" for cs
    by (rule sum_length_filter_compl)
  from this [of "ts_clients (tt_obj s)"] tt_reaps show ?case by (simp add: tt_load_def)
next
  case (tt_starts s c info obj w)
  note e = tt_start_ok [OF tt_starts(2)]
  have "(\<Sum>i < ts_nextId (tt_obj s). th_load (((tt_handler s)(ts_nextId (tt_obj s) := Th_check)) i))
      = (\<Sum>i < ts_nextId (tt_obj s). th_load (tt_handler s i))"
    by (rule sum.cong) simp_all
  then show ?case using tt_starts(1) e by (simp add: tt_load_def)
next
  case (tt_start_fails s c alloc info obj w)
  obtain n where n: "obj = (tt_obj s)\<lparr>ts_nextId := n\<rparr>" "ts_nextId (tt_obj s) \<le> n"
    using tt_start_fail [OF tt_start_fails(2)] by blast
  have "tt_handler s i = Th_none" if "ts_nextId (tt_obj s) \<le> i" for i
    using tt_start_fails(3) that by (simp add: tt_inv_def tt_session_inv_def)
  then have "(\<Sum>i < n. th_load (tt_handler s i)) = (\<Sum>i < ts_nextId (tt_obj s). th_load (tt_handler s i))"
    using n(2) by (intro sum.mono_neutral_right) auto
  then show ?case using tt_start_fails(1) n(1) by (simp add: tt_load_def)
next
  case (tt_closes s final i "is")
  then show ?case by (cases final) (simp_all add: tt_load_def)
next
  case (tt_joins s final i "is" t)
  then show ?case by (cases final) (simp_all add: tt_load_def)
next
  case (tt_not_joinable s final i "is")
  then show ?case by (cases final) (simp_all add: tt_load_def)
next
  case (tt_drops s final)
  then show ?case by (cases final) (simp_all add: tt_load_def)
next
  case (tt_check_go s)
  then show ?case by (simp add: tt_step_defs)
next
  case (tt_while_go s)
  then show ?case by (simp add: tt_step_defs)
next
  case (tt_failed_again s)
  then show ?case by (simp add: tt_step_defs)
qed (simp_all add: tt_load_def)

lemma tt_load_handles:
  assumes "tt_handles i s t" and "tt_inv s" and "tt_flag s"
  shows "tt_load t < tt_load s"
proof -
  have l: "tt_worker t = tt_worker s" "length (ts_clients (tt_obj t)) = length (ts_clients (tt_obj s))"
    "ts_nextId (tt_obj t) = ts_nextId (tt_obj s)" "\<forall>k. k \<noteq> i \<longrightarrow> tt_handler t k = tt_handler s k"
    "th_load (tt_handler t i) < th_load (tt_handler s i)"
    using assms(1,3) by (cases; simp add: cs_update_def tt_step_defs)+
  have "tt_handler s i \<noteq> Th_none" using l(5) by (cases "tt_handler s i") simp_all
  then have i: "i \<in> {..<ts_nextId (tt_obj s)}"
    using assms(2) by (auto simp: tt_inv_def tt_session_inv_def not_less [symmetric])
  have "(\<Sum>k < ts_nextId (tt_obj s). th_load (tt_handler t k)) < (\<Sum>k < ts_nextId (tt_obj s). th_load (tt_handler s k))"
  proof (rule sum_strict_mono_ex1)
    show "\<forall>k \<in> {..<ts_nextId (tt_obj s)}. th_load (tt_handler t k) \<le> th_load (tt_handler s k)"
      using l(4,5) by (metis less_imp_le order_refl)
    show "\<exists>k \<in> {..<ts_nextId (tt_obj s)}. th_load (tt_handler t k) < th_load (tt_handler s k)"
      using i l(5) by blast
  qed simp
  then show ?thesis using l by (simp add: tt_load_def)
qed

lemma tt_load_rest: "tt_stops s t \<or> tt_others s t \<Longrightarrow> tt_load t = tt_load s"
  by (elim disjE tt_stops.cases tt_others.cases) (simp_all add: tt_load_def)

text \<open>What a blocking call may wait for: a client that connects, or one that sends, on a descriptor that was not
  shut down since the call began; and on somebody else's descriptor, anything. A due step is one that waits
  for none of these.\<close>

definition tt_accept_waits :: "tt_sys \<Rightarrow> bool" where
  "tt_accept_waits s \<longleftrightarrow>
     (\<exists>l own. tt_worker s = Tp_in_accept l own \<and> (own \<longrightarrow> ts_serverSocket (tt_obj s) = l))"

definition tt_recv_waits :: "nat \<Rightarrow> tt_sys \<Rightarrow> bool" where
  "tt_recv_waits i s \<longleftrightarrow> (\<exists>x own. tt_handler s i = Th_in_recv x own \<and> (own \<longrightarrow> tt_holds i x (tt_obj s)))"

inductive tt_due :: "tt_sys \<Rightarrow> tt_sys \<Rightarrow> bool" where
  tt_due_worker: "tt_works s t \<Longrightarrow> \<not> tt_accept_waits s \<Longrightarrow> tt_due s t"
| tt_due_handler: "tt_handles i s t \<Longrightarrow> \<not> tt_recv_waits i s \<Longrightarrow> tt_due s t"
| tt_due_stopper: "tt_stops s t \<Longrightarrow> tt_due s t"

lemma tt_handler_moves:
  assumes "tt_inv s" and "tt_handler s i \<notin> {Th_none, Th_exited}"
  shows "\<exists>t. tt_handles i s t"
proof (cases "tt_handler s i")
  case Th_check
  then show ?thesis
    using th_check_stop [of s i] th_check_go [of s i] by (cases "continueRunning (ts_base (tt_obj s))") blast+
next
  case Th_load
  then have "i \<in> cs_id ` set (ts_all (tt_obj s))" using assms by (simp add: tt_inv_def tt_session_inv_def)
  then obtain x where "tt_holds i x (tt_obj s)" by (auto simp: tt_holds_def)
  with Th_load show ?thesis
    using th_load_closed [of s i x] th_load [of s i x] by (cases "x < 0") (auto simp: not_less)
next
  case (Th_recv x)
  then show ?thesis
    using th_calls [of s i x] th_calls_other [of s i x] th_calls_closed [of s i x] by blast
next
  case (Th_in_recv x own)
  from th_ends [OF this] show ?thesis by blast
next
  case Th_data
  from th_callback [OF this] show ?thesis by blast
next
  case Th_close
  from TcpServerThreads.th_close [OF this] show ?thesis by blast
next
  case Th_complete
  from TcpServerThreads.th_complete [OF this] show ?thesis by blast
qed (use assms(2) in simp_all)

text \<open>The accepting thread goes on, unless it is in \<open>accept\<close> or joining a thread that has not ended.\<close>

lemma tt_worker_moves:
  assumes "\<forall>e. tt_worker s \<noteq> Tp_exited e" and "\<forall>final i is. tt_worker s \<noteq> Tp_join final i is"
  shows "\<exists>t. tt_works s t"
proof (cases "tt_worker s")
  case Tp_check
  then show ?thesis using tt_check_stop [of s] tt_check_go [of s] by blast
next
  case Tp_while
  then show ?thesis using tt_while_stop [of s] tt_while_go [of s] by blast
next
  case Tp_load
  then show ?thesis using tt_load_closed [of s] tt_load [of s] by (meson not_less)
next
  case (Tp_accept l)
  then show ?thesis
    using tt_calls_accept [of s l] tt_calls_accept_other [of s l] tt_calls_accept_closed [of s l] by blast
next
  case (Tp_failed interrupted)
  then show ?thesis using tt_failed_again [of s] tt_failed [of s interrupted]
    by (cases "interrupted \<and> continueRunning (ts_base (tt_obj s))") auto
next
  case Tp_stop
  then show ?thesis using tt_already [of s] tt_gives_up [of s] by blast
next
  case Tp_requestStop
  then show ?thesis using tt_requests [of s] by (meson surj_pair)
next
  case (Tp_start c)
  obtain ok obj w where r: "startClientSession (tt_env True None) c undefined (tt_obj s) (tt_fds s) = (ok, obj, w)"
    using prod_cases3 by blast
  then have "\<not> ok" using tt_start_fail by blast
  with r Tp_start show ?thesis using tt_start_fails [of s c True undefined obj w] by auto
next
  case (Tp_close final ids)
  then show ?thesis using tt_drops [of s final] tt_closes [of s final] by (cases ids) blast+
qed (use assms in \<open>blast dest: tt_no_socket tt_bind_fails tt_listen_fails tt_preRun_closes tt_set_running tt_reaps
      tt_accept_fails tt_stop_listen tt_stop_clients tt_refuses tt_break tt_close_listen tt_set_stopped\<close>)+

lemma tt_join_moves:
  assumes inv: "tt_inv s" and st: "tt_stop_inv s" and w: "tt_worker s = Tp_join final i is" and ns: "tt_stray s = []"
  shows "\<exists>t. tt_due s t"
proof -
  have j: "tt_joined final (i # is) (tt_obj s) (tt_handler s)" and se: "tt_session_inv s"
    and cl: "\<forall>c \<in> set (ts_joining (tt_obj s)). cs_id c = i \<longrightarrow> cs_socket c < 0"
    using inv w by (simp_all add: tt_inv_def tt_phase_inv_def)
  obtain dn where "map cs_id (ts_joining (tt_obj s)) = dn @ i # is" using j by (auto simp: tt_joined_def)
  then have ij: "i \<in> cs_id ` set (ts_joining (tt_obj s))" by (metis in_set_conv_decomp list.set_map)
  then have ia: "i \<in> cs_id ` set (ts_all (tt_obj s))" by (auto simp: ts_all_def)
  then have nn: "tt_handler s i \<noteq> Th_none" using se by (auto simp: tt_session_inv_def)
  show ?thesis
  proof (cases "tt_handler s i = Th_exited")
    case True
    obtain c where c: "ts_session i (tt_obj s) = Some c" using ia ts_session_None [of i "tt_obj s"] by auto
    then have m: "map_option cs_worker (ts_session i (tt_obj s)) = Some (cs_worker c)" by simp
    have "cs_worker c = Some i" using tt_session_of [OF se m] .
    with m have "map_option cs_worker (ts_session i (tt_obj s)) = Some (Some i)" by simp
    from tt_joins [OF w this True] w show ?thesis by (auto intro!: tt_due_worker simp: tt_accept_waits_def)
  next
    case False
    then obtain t where t: "tt_handles i s t" using tt_handler_moves [OF inv, of i] nn by blast
    have "\<not> tt_recv_waits i s"
    proof
      assume "tt_recv_waits i s"
      then obtain x own where x: "tt_handler s i = Th_in_recv x own" "own \<longrightarrow> tt_holds i x (tt_obj s)"
        by (auto simp: tt_recv_waits_def)
      then have "own" using st ns by (cases own) (auto simp: tt_stop_inv_def)
      then obtain c where c: "c \<in> set (ts_all (tt_obj s))" "cs_id c = i" "cs_socket c = x"
        using x by (auto simp: tt_holds_def)
      moreover have "distinct (map cs_id (ts_all (tt_obj s)))"
        using inv by (simp add: tt_inv_def tt_own_inv_def ts_owns_def)
      then have "c \<in> set (ts_joining (tt_obj s))" using ij c by (auto simp: ts_all_def)
      ultimately have "x < 0" using cl by auto
      moreover have "0 \<le> x" using st x(1) unfolding tt_stop_inv_def by blast
      ultimately show False by simp
    qed
    with t show ?thesis by (blast intro: tt_due_handler)
  qed
qed

lemma tt_stop_progress:
  assumes "tt_reachable s" and f: "tt_flag s" and ns: "tt_stray s = []" and ne: "\<forall>e. tt_worker s \<noteq> Tp_exited e"
  shows "\<exists>t. tt_due s t"
proof -
  note inv = tt_reachable_inv [OF assms(1)]
  then have st: "tt_stop_inv s" by simp
  consider n where "tt_triggers s = Suc n" | n where "tt_closers s = Suc n"
    | final i "is" where "tt_worker s = Tp_join final i is"
    | l own where "tt_worker s = Tp_in_accept l own" "tt_triggers s = 0"
    | "\<forall>final i is. tt_worker s \<noteq> Tp_join final i is" "\<forall>l own. tt_worker s \<noteq> Tp_in_accept l own"
    by (metis not0_implies_Suc)
  then show ?thesis
  proof cases
    case 1
    from tt_stopper_listen [OF this] show ?thesis by (blast intro: tt_due_stopper)
  next
    case 2
    from tt_stopper_clients [OF this] show ?thesis by (blast intro: tt_due_stopper)
  next
    case 3
    from tt_join_moves [OF _ st this ns] inv show ?thesis by blast
  next
    case 4
    have g: "tt_going (tt_worker s)" by (simp add: 4)
    have "\<not> 0 \<le> ts_serverSocket (tt_obj s)"
    proof
      assume "0 \<le> ts_serverSocket (tt_obj s)"
      then have "0 < tt_triggers s \<or> tt_worker s = Tp_stop_listen"
        using st [unfolded tt_stop_inv_def, THEN conjunct1] f g by blast
      with 4 show False by simp
    qed
    moreover have "0 \<le> l" using st 4(1) by (simp add: tt_stop_inv_def)
    moreover have "own" using st ns 4(1) by (cases own) (auto simp: tt_stop_inv_def)
    ultimately have "\<not> tt_accept_waits s" using 4 by (simp add: tt_accept_waits_def)
    with tt_accept_fails [OF 4(1)] show ?thesis by (blast intro: tt_due_worker)
  next
    case 5
    then have "\<not> tt_accept_waits s" by (auto simp: tt_accept_waits_def)
    with tt_worker_moves [OF ne 5(1)] show ?thesis by (blast intro: tt_due_worker)
  qed
qed

text \<open>C8: Once a stop has been requested it comes to its end: every further step of the accepting thread and of
  the handler threads makes \<open>tt_load\<close> smaller, whatever the schedule, and no step of anybody else makes it
  larger; and until the thread has ended, somebody has a step to take that waits neither for a client to
  connect or to send nor on a descriptor of somebody else, provided that no call was begun on a
  descriptor that the server had lost.\<close>

theorem tt_stop_ends:
  assumes "tt_reachable s" and "stopRequested (ts_base (tt_obj s))" and "\<forall>entered. tt_worker s \<noteq> Tp_exited entered"
  shows "(\<forall>t. tt_works s t \<or> (\<exists>i. tt_handles i s t) \<longrightarrow> tt_load t < tt_load s)
    \<and> (\<forall>t. tt_stops s t \<or> tt_others s t \<longrightarrow> tt_load t = tt_load s)
    \<and> (tt_stray s = [] \<longrightarrow> (\<exists>t. tt_due s t))"
proof -
  have f: "tt_flag s" using assms(2) by (simp add: tt_flag_def stopRequested_def)
  have "tt_inv s" using tt_reachable_inv [OF assms(1)] by simp
  then have "tt_works s t \<or> (\<exists>i. tt_handles i s t) \<Longrightarrow> tt_load t < tt_load s" for t
    using tt_load_works [of s t] tt_load_handles [of _ s t] f by blast
  then show ?thesis using tt_load_rest tt_stop_progress [OF assms(1) f _ assms(3)] by blast
qed

lemma cs_shut_calm: "list_all2 cs_shut cs cs' \<Longrightarrow> list_all2 cs_calm cs cs'"
  by (erule list_all2_mono) (auto simp: cs_shut_def cs_calm_def)

lemma tt_shut_calm: "tt_shut x y \<Longrightarrow> ts_calm x y"
  by (simp add: tt_shut_def ts_calm_def cs_shut_calm)

lemma tt_do_rely:
  assumes "tt_inv s" and "tt_only_closes f"
  shows "ts_calm (tt_obj s) (fst (f (tt_obj s) (tt_fds s)))
    \<and> (ts_owns tw_open B (tt_obj s) (tt_fds s) \<longrightarrow>
         ts_owns tw_open B (fst (f (tt_obj s) (tt_fds s))) (snd (f (tt_obj s) (tt_fds s))))"
proof -
  have "ts_owns tw_open (tt_transit (tt_worker s) (tt_fds s)) (tt_obj s) (tt_fds s)"
    using assms(1) by (simp add: tt_inv_def tt_own_inv_def)
  from tt_only_closesD(3) [OF assms(2) this] show ?thesis
    using tt_only_closesD(1) [OF assms(2)] by (simp add: tt_shut_calm)
qed

lemma ts_calm_refl [simp]: "ts_calm x x" "ts_calm x (x\<lparr>ts_base := b\<rparr>)"
  by (simp_all add: ts_calm_def cs_calm_def list_all2_refl)

lemma ts_owns_base [simp]: "ts_owns opened B (x\<lparr>ts_base := b\<rparr>) w = ts_owns opened B x w"
  by (simp add: ts_owns_def ts_all_def ts_listening_def)

lemma ts_owns_foreign [simp]: "ts_owns tw_open B x (w\<lparr>tw_foreign := F\<rparr>) = ts_owns tw_open B x w"
  by (simp add: ts_owns_def)

lemma ts_completed_rely:
  "ts_calm x (ts_update i (cs_completed_update f) x)"
  "ts_owns opened B (ts_update i (cs_completed_update f) x) w = ts_owns opened B x w"
proof -
  let ?g = "\<lambda>c. if cs_id c = i then cs_completed_update f c else c"
  have u: "cs_update i (cs_completed_update f) cs = map ?g cs" for cs by (simp add: cs_update_def)
  have m: "map cs_id (map ?g cs) = map cs_id cs" "map cs_socket (map ?g cs) = map cs_socket cs"
    for cs :: "client_session list" by simp_all
  then have "ts_sockets (map ?g cs) = ts_sockets cs" for cs by (simp add: ts_sockets_def del: map_map)
  moreover have b: "(\<forall>c \<in> set cs. cs_id c < n) = (\<forall>k \<in> set (map cs_id cs). k < n)"
    for cs :: "client_session list" and n by simp
  ultimately show "ts_owns opened B (ts_update i (cs_completed_update f) x) w = ts_owns opened B x w"
    unfolding ts_owns_def ts_all_update u b m by (simp add: ts_listening_def)
  show "ts_calm x (ts_update i (cs_completed_update f) x)"
    by (auto simp: ts_calm_def u list_all2_map2 cs_calm_def intro!: list_all2_refl)
qed

text \<open>What the accepting thread sees the others do is what \<open>TcpServerProofs\<close> relies on: they close
  sessions, add and remove none, and keep each descriptor owned once.\<close>

theorem tt_others_calm:
  assumes "tt_reachable s" and "tt_handles i s t \<or> tt_stops s t \<or> tt_others s t"
  shows "ts_calm (tt_obj s) (tt_obj t)
    \<and> (\<forall>B. ts_owns tw_open B (tt_obj s) (tt_fds s) \<longrightarrow> ts_owns tw_open B (tt_obj t) (tt_fds t))
    \<and> tt_worker t = tt_worker s"
proof -
  have inv: "tt_inv s" using tt_reachable_inv [OF assms(1)] by simp
  note d = tt_do_rely [OF inv]
  note d' = d [OF closeServerSocket_only_closes, simplified]
  from assms(2) show ?thesis
    by (elim disjE tt_handles.cases tt_stops.cases tt_others.cases; hypsubst)
       (simp_all add: d d' ts_completed_rely)
qed

section \<open>The steps and the operations\<close>

text \<open>Undisturbed, the steps of the accepting thread for a client are \<open>ts_serve\<close>, and its steps for sessions
  whose threads have ended are the loop of \<open>reapCompletedClients\<close> and \<open>joinAndClearAllClients\<close>.\<close>

lemma tt_does_serve:
  assumes "tt_worker s = Tp_start c" and "th \<in> {None, Some (ts_nextId (tt_obj s))}" and "alloc \<or> th = None"
  shows "\<exists>t. tt_works\<^sup>*\<^sup>* s t \<and> tt_worker t = Tp_while
    \<and> (tt_obj t, tt_fds t) = ts_serve (tt_env alloc th) c addr (tt_obj s) (tt_fds s)"
proof -
  let ?r = "startClientSession (tt_env alloc th) c (makeClientInfo (tt_env alloc th) addr) (tt_obj s) (tt_fds s)"
  obtain ok obj w where r: "?r = (ok, obj, w)" using prod_cases3 by blast
  show ?thesis
  proof (cases "th = None")
    case False
    then have th: "th = Some (ts_nextId (tt_obj s))" "alloc" using assms(2,3) by auto
    note e = tt_start_ok [OF r [unfolded th(1) eqTrueI [OF th(2)]]]
    then have ok by simp
    with tt_starts [OF assms(1)] r th
    have "tt_works s (tt_goto Tp_while (tt_turn (ts_nextId (tt_obj s)) Th_check (s\<lparr>tt_obj := obj, tt_fds := w\<rparr>)))"
      by simp
    with r \<open>ok\<close> show ?thesis by (intro exI conjI) (rule r_into_rtranclp, assumption, simp_all add: ts_serve_def)
  next
    case True
    then have "\<not> ok" using tt_start_fail r by blast
    let ?t = "tt_goto (Tp_refused c) (s\<lparr>tt_obj := obj, tt_fds := w, tt_failures := (if alloc then Suc (tt_failures s) else tt_failures s)\<rparr>)"
    have 1: "tt_works s ?t" using tt_start_fails [OF assms(1)] r True \<open>\<not> ok\<close> by simp
    have 2: "tt_works ?t (tt_goto Tp_while (tt_do (\<lambda>x w. (x, ts_closeSocketValue tt_kernel c w)) ?t))"
      by (rule tt_refuses) simp
    note converse_rtranclp_into_rtranclp [where r = tt_works, OF 1 r_into_rtranclp [where r = tt_works, OF 2]]
    then show ?thesis using r \<open>\<not> ok\<close> by (intro exI conjI) (assumption, simp_all add: ts_serve_def tt_env_def)
  qed
qed

lemma tt_env_fields [simp]: "se_kernel (tt_env alloc th) = tt_kernel" "se_join (tt_env alloc th) t x w = (x, w)"
  by (simp_all add: tt_env_def)

lemma tt_does_join:
  assumes "tt_inv s" and "tt_worker s = Tp_close final is" and "\<forall>i \<in> set is. tt_handler s i = Th_exited"
  shows "\<exists>t. tt_works\<^sup>*\<^sup>* s t \<and> tt_worker t = (if final then Tp_close_listen else Tp_load)
    \<and> (tt_obj t, tt_fds t) = ts_join_loop (tt_env alloc th) is (tt_obj s) (tt_fds s)"
  using assms
proof (induction "is" arbitrary: s)
  case Nil
  from tt_drops [OF Nil(2)] show ?case
    by (intro exI conjI) (rule r_into_rtranclp, assumption, simp_all)
next
  case (Cons i "is")
  let ?u = "tt_goto (Tp_join final i is) (tt_do (ts_closeSession tt_kernel i) s)"
  note 1 = tt_closes [OF Cons.prems(2)]
  have u: "tt_inv ?u" by (rule tt_inv_works [OF 1 Cons.prems(1)])
  have se: "tt_session_inv ?u" using u by (simp add: tt_inv_def)
  have "tt_joined final (i # is) (tt_obj ?u) (tt_handler ?u)" using u unfolding tt_inv_def tt_phase_inv_def by simp
  then obtain dn where "map cs_id (ts_joining (tt_obj ?u)) = dn @ i # is" unfolding tt_joined_def by blast
  then have "i \<in> cs_id ` set (ts_joining (tt_obj ?u))" by (metis in_set_conv_decomp list.set_map)
  then have "i \<in> cs_id ` set (ts_all (tt_obj ?u))" unfolding ts_all_def by auto
  then obtain c where c: "ts_session i (tt_obj ?u) = Some c" using ts_session_None [of i "tt_obj ?u"] by auto
  then have m: "map_option cs_worker (ts_session i (tt_obj ?u)) = Some (cs_worker c)" by simp
  note wi = tt_session_of [OF se m]
  have 2: "tt_works ?u (tt_goto (Tp_close final is) ?u)"
    by (rule tt_joins [of _ final i "is" i]) (use m wi Cons.prems(3) in simp_all)
  have "tt_inv (tt_goto (Tp_close final is) ?u)" by (rule tt_inv_works [OF 2 u])
  from Cons.IH [OF this] Cons.prems(3) obtain t where
    t: "tt_works\<^sup>*\<^sup>* (tt_goto (Tp_close final is) ?u) t" "tt_worker t = (if final then Tp_close_listen else Tp_load)"
    "(tt_obj t, tt_fds t) = ts_join_loop (tt_env alloc th) is (tt_obj ?u) (tt_fds ?u)"
    by auto
  have "tt_works\<^sup>*\<^sup>* s t"
    by (rule converse_rtranclp_into_rtranclp [OF 1 converse_rtranclp_into_rtranclp [OF 2 t(1)]])
  moreover obtain x w where x: "ts_closeSession tt_kernel i (tt_obj s) (tt_fds s) = (x, w)" by fastforce
  then have "ts_session i x = Some c" "cs_worker c = Some i" using c wi by simp_all
  then have "ts_join_loop (tt_env alloc th) (i # is) (tt_obj s) (tt_fds s)
      = ts_join_loop (tt_env alloc th) is (tt_obj ?u) (tt_fds ?u)"
    using x by simp
  ultimately show ?case using t(2,3) by auto
qed

lemma tt_does_reap:
  assumes "tt_inv s" and "tt_worker s = Tp_reap"
  shows "\<exists>t. tt_works\<^sup>*\<^sup>* s t \<and> tt_worker t = Tp_load
    \<and> (tt_obj t, tt_fds t) = reapCompletedClients (tt_env alloc th) (tt_obj s) (tt_fds s)"
proof -
  note 1 = tt_reaps [OF assms(2)]
  let ?is = "map cs_id (filter cs_completed (ts_clients (tt_obj s)))"
  let ?u = "tt_goto (Tp_close False ?is) (tt_map (\<lambda>x. x\<lparr>ts_joining := filter cs_completed (ts_clients x),
                      ts_clients := filter (\<lambda>c. \<not> cs_completed c) (ts_clients x)\<rparr>) s)"
  have u: "tt_inv ?u" by (rule tt_inv_works [OF 1 assms(1)])
  have "\<forall>i \<in> set ?is. tt_handler ?u i = Th_exited"
    using assms(1) by (auto simp: tt_inv_def tt_session_inv_def ts_all_def)
  from tt_does_join [where final = False and alloc = alloc and th = th, OF u _ this] obtain t where t: "tt_works\<^sup>*\<^sup>* ?u t" "tt_worker t = Tp_load"
    "(tt_obj t, tt_fds t) = ts_join_loop (tt_env alloc th) ?is (tt_obj ?u) (tt_fds ?u)"
    by auto
  have "tt_works\<^sup>*\<^sup>* s t" by (rule converse_rtranclp_into_rtranclp [OF 1 t(1)])
  then show ?thesis using t(2,3) by (auto simp: reapCompletedClients_def Let_def)
qed

section \<open>What goes wrong\<close>

lemma tt_then:
  "tt_reachable s \<Longrightarrow> tt_works s t \<Longrightarrow> tt_reachable t"
  "tt_reachable s \<Longrightarrow> tt_handles i s t \<Longrightarrow> tt_reachable t"
  "tt_reachable s \<Longrightarrow> tt_stops s t \<Longrightarrow> tt_reachable t"
  "tt_reachable s \<Longrightarrow> tt_others s t \<Longrightarrow> tt_reachable t"
  by (blast intro: tt_reach_step tt_step.intros)+

lemmas tt_run_simps = tt_goto_def tt_turn_def tt_map_def tt_base_def tt_do_def tt_opens_def tt_strays_def tt_free_def
  stopRequested_def continueRunning_def setState_def requestStop_def Let_def

text \<open>A state, given the object, the descriptors and where the threads are.\<close>

definition tt_at :: "tcp_server \<Rightarrow> tt_world \<Rightarrow> tt_worker \<Rightarrow> (nat \<Rightarrow> tt_handler) \<Rightarrow> tt_sys" where
  "tt_at x w pc h =
     \<lparr>tt_obj = x, tt_fds = w, tt_worker = pc, tt_handler = h, tt_triggers = 0, tt_closers = 0, tt_stray = [],
      tt_failures = 0\<rparr>"

definition tt_fresh :: tcp_server where
  "tt_fresh = (ts_new ''s'' 80 5 0)\<lparr>ts_base := (bw_new ''s'' 0)\<lparr>m_state := St_Starting, m_thread := Some 0\<rparr>\<rparr>"

text \<open>A server with no session in its loop, listening on 3.\<close>

definition tt_up :: tcp_server where
  "tt_up = tt_fresh\<lparr>ts_serverSocket := 3, ts_base := setState St_Running (ts_base tt_fresh)\<rparr>"

definition tt_one :: tt_world where
  "tt_one = \<lparr>tw_open = {3}, tw_foreign = {}, tw_wrong = []\<rparr>"

lemma tt_at_fields [simp]:
  "tt_obj (tt_at x w pc h) = x" "tt_fds (tt_at x w pc h) = w" "tt_worker (tt_at x w pc h) = pc"
  "tt_handler (tt_at x w pc h) = h" "tt_triggers (tt_at x w pc h) = 0" "tt_closers (tt_at x w pc h) = 0"
  "tt_stray (tt_at x w pc h) = []" "tt_failures (tt_at x w pc h) = 0"
  by (simp_all add: tt_at_def)

lemma tt_at_steps [simp]:
  "tt_goto q (tt_at x w pc h) = tt_at x w q h" "tt_turn i k (tt_at x w pc h) = tt_at x w pc (h(i := k))"
  "tt_map f (tt_at x w pc h) = tt_at (f x) w pc h" "tt_base b (tt_at x w pc h) = tt_at (x\<lparr>ts_base := b\<rparr>) w pc h"
  "tt_opens c (tt_at x w pc h) = tt_at x (w\<lparr>tw_open := insert c (tw_open w)\<rparr>) pc h"
  "tt_do g (tt_at x w pc h) = tt_at (fst (g x w)) (snd (g x w)) pc h"
  "(tt_at x w pc h)\<lparr>tt_obj := y, tt_fds := v\<rparr> = tt_at y v pc h"
  "(tt_at x w pc h)\<lparr>tt_fds := v\<rparr> = tt_at x v pc h"
  by (simp_all add: tt_at_def tt_run_simps split: prod.split)

lemma tt_at_init: "tt_reachable (tt_at tt_fresh (tt_one\<lparr>tw_open := {}\<rparr>) Tp_preRun (\<lambda>i. Th_none))"
  using tt_reach_init [of "''s''" 80 5 0 "{}"] by (simp add: tt_init_def tt_at_def tt_fresh_def tt_one_def)

lemma tt_at_bound: "tt_reachable (tt_at (tt_fresh\<lparr>ts_serverSocket := 3\<rparr>) tt_one (Tp_bind 3) (\<lambda>i. Th_none))"
  using tt_then(1) [OF tt_at_init tt_socket [where x = 3]] by (simp add: tt_free_def tt_one_def)

lemma tt_at_while: "tt_reachable (tt_at tt_up tt_one Tp_while (\<lambda>i. Th_none))"
proof -
  have "tt_reachable (tt_at (tt_fresh\<lparr>ts_serverSocket := 3\<rparr>) tt_one (Tp_listen 3) (\<lambda>i. Th_none))"
    using tt_then(1) [OF tt_at_bound tt_binds [where x = 3]] by simp
  from tt_then(1) [OF this tt_listens [where x = 3]]
  have "tt_reachable (tt_at (tt_fresh\<lparr>ts_serverSocket := 3\<rparr>) tt_one Tp_check (\<lambda>i. Th_none))" by simp
  from tt_then(1) [OF this tt_check_go]
  have "tt_reachable (tt_at (tt_fresh\<lparr>ts_serverSocket := 3\<rparr>) tt_one Tp_setRunning (\<lambda>i. Th_none))"
    by (simp add: tt_fresh_def stopRequested_def bw_new_def)
  from tt_then(1) [OF this tt_set_running] show ?thesis by (simp add: tt_up_def)
qed

text \<open>A client has been accepted, on 4.\<close>

definition tt_two :: tt_world where
  "tt_two = tt_one\<lparr>tw_open := {3, 4}\<rparr>"

lemma tt_up_fields [simp]:
  "ts_clients tt_up = []" "ts_serverSocket tt_up = 3" "ts_nextId tt_up = 0" "ts_joining tt_up = []"
  "m_stopRequested (ts_base tt_up) = False" "m_state (ts_base tt_up) = St_Running"
  "tt_up\<lparr>ts_clients := []\<rparr> = tt_up" "tt_up\<lparr>ts_joining := []\<rparr> = tt_up"
  by (simp_all add: tt_up_def tt_fresh_def ts_new_def bw_new_def setState_def)

lemma tt_at_accepted: "tt_reachable (tt_at tt_up tt_two (Tp_start 4) (\<lambda>i. Th_none))"
proof -
  have "tt_reachable (tt_at tt_up tt_one Tp_reap (\<lambda>i. Th_none))"
    using tt_then(1) [OF tt_at_while tt_while_go] by (simp add: continueRunning_def stopRequested_def)
  from tt_then(1) [OF this tt_reaps] have "tt_reachable (tt_at tt_up tt_one (Tp_close False []) (\<lambda>i. Th_none))" by simp
  from tt_then(1) [OF this tt_drops [where final = False]]
  have "tt_reachable (tt_at tt_up tt_one Tp_load (\<lambda>i. Th_none))" by simp
  from tt_then(1) [OF this TcpServerThreads.tt_load]
  have "tt_reachable (tt_at tt_up tt_one (Tp_accept 3) (\<lambda>i. Th_none))" by simp
  from tt_then(1) [OF this tt_calls_accept [where l = 3]]
  have "tt_reachable (tt_at tt_up tt_one (Tp_in_accept 3 True) (\<lambda>i. Th_none))" by simp
  from tt_then(1) [OF this tt_accepts [where c = 4]] show ?thesis
    by (simp add: tt_free_def tt_one_def tt_two_def insert_commute)
qed

text \<open>The rest of the program is given the number of a client that was refused, between the two times the
  server closes it: the server closes a descriptor that is not its own, with no stop in sight.\<close>

theorem tt_closes_foreign:
  "\<exists>s. tt_reachable s \<and> \<not> stopRequested (ts_base (tt_obj s)) \<and> tw_wrong (tt_fds s) = [4] \<and> tt_failures s = 1"
proof -
  let ?x = "tt_up\<lparr>ts_nextId := 1\<rparr>"
  have "startClientSession (tt_env True None) 4 undefined tt_up tt_two = (False, ?x, tt_one)"
    by (auto simp: startClientSession_def tt_env_def tt_closeSocketValue tt_close_def tt_two_def tt_one_def)
  then have r: "startClientSession (tt_env True None) 4 undefined (tt_obj (tt_at tt_up tt_two (Tp_start 4) (\<lambda>i. Th_none)))
      (tt_fds (tt_at tt_up tt_two (Tp_start 4) (\<lambda>i. Th_none))) = (False, ?x, tt_one)" by simp
  have "tt_reachable ((tt_at ?x tt_one (Tp_refused 4) (\<lambda>i. Th_none))\<lparr>tt_failures := 1\<rparr>)"
    using tt_then(1) [OF tt_at_accepted tt_start_fails [where c = 4, OF _ r]]
    by (simp add: tt_at_def tt_goto_def)
  from tt_then(4) [OF this tt_foreign_open [where x = 4]]
  have "tt_reachable ((tt_at ?x (tt_one\<lparr>tw_foreign := {4}\<rparr>) (Tp_refused 4) (\<lambda>i. Th_none))\<lparr>tt_failures := 1\<rparr>)"
    by (simp add: tt_at_def tt_free_def tt_one_def)
  from tt_then(1) [OF this tt_refuses [where c = 4]]
  have "tt_reachable ((tt_at ?x (tt_one\<lparr>tw_wrong := [4]\<rparr>) Tp_while (\<lambda>i. Th_none))\<lparr>tt_failures := 1\<rparr>)"
    by (simp add: tt_at_def tt_goto_def tt_do_def tt_closeSocketValue tt_close_def tt_one_def)
  then show ?thesis by (intro exI conjI) (assumption, simp_all add: tt_at_def stopRequested_def)
qed

text \<open>A stop that nothing gets in the way of: the request and \<open>stopTriggered\<close>.\<close>

lemma ts_closeAllClientSockets_none: "ts_clients x = [] \<Longrightarrow> ts_closeAllClientSockets K x w = (x, w)"
  by (cases x) (simp add: ts_closeAllClientSockets_def)

lemma tt_stop_through:
  assumes "tt_reachable (tt_at x w pc h)" and "m_state (ts_base x) \<in> {St_Starting, St_Running}"
    and "ts_closeServerSocket tt_kernel (x\<lparr>ts_base := snd (requestStop (ts_base x))\<rparr>) w = (y, v)"
    and "ts_closeAllClientSockets tt_kernel y v = (z, u)"
  shows "tt_reachable (tt_at z u pc h)"
proof -
  have "requestStop (ts_base x) = (True, snd (requestStop (ts_base x)))"
    using assms(2) by (auto simp: requestStop_def Let_def)
  then have "requestStop (ts_base (tt_obj (tt_at x w pc h))) = (True, snd (requestStop (ts_base x)))" by simp
  from tt_then(4) [OF assms(1) tt_requestStop [OF this]]
  have "tt_reachable ((tt_at (x\<lparr>ts_base := snd (requestStop (ts_base x))\<rparr>) w pc h)\<lparr>tt_triggers := 1\<rparr>)" (is "tt_reachable ?a")
    by (simp add: tt_at_def tt_base_def tt_map_def)
  from tt_then(3) [OF this tt_stopper_listen [where n = 0]]
  have "tt_reachable ((tt_at y v pc h)\<lparr>tt_closers := 1\<rparr>)"
    using assms(3) by (simp add: tt_at_def tt_do_def)
  from tt_then(3) [OF this tt_stopper_clients [where n = 0]] show ?thesis
    using assms(4) by (simp add: tt_at_def tt_do_def)
qed

text \<open>A stop that is over before \<open>preRun\<close> has its socket closes nothing; \<open>run\<close> is then not entered, so that the
  server is \<open>Stopped\<close> with its listening socket open.\<close>

theorem tt_stopped_listening:
  "\<exists>s. tt_reachable s \<and> tt_worker s = Tp_exited False \<and> m_state (ts_base (tt_obj s)) = St_Stopped
     \<and> tt_triggers s = 0 \<and> tt_closers s = 0 \<and> ts_serverSocket (tt_obj s) = 3 \<and> tw_open (tt_fds s) = {3}"
proof -
  let ?b = "snd (requestStop (ts_base tt_fresh))"
  let ?x = "tt_fresh\<lparr>ts_base := ?b\<rparr>"
  let ?y = "?x\<lparr>ts_serverSocket := 3\<rparr>"
  have 0: "ts_clients tt_fresh = []" "ts_serverSocket tt_fresh = -1" "m_state (ts_base tt_fresh) = St_Starting"
    by (simp_all add: tt_fresh_def ts_new_def)
  have "?x\<lparr>ts_serverSocket := -1\<rparr> = ?x" by (simp add: tt_fresh_def ts_new_def)
  then have "ts_closeServerSocket tt_kernel ?x w = (?x, w)" for w
    by (simp add: ts_closeServerSocket_def tt_closeSocketValue 0)
  moreover have "ts_closeAllClientSockets tt_kernel ?x w = (?x, w)" for w
    by (rule ts_closeAllClientSockets_none) (simp add: 0)
  ultimately have "tt_reachable (tt_at ?x (tt_one\<lparr>tw_open := {}\<rparr>) Tp_preRun (\<lambda>i. Th_none))"
    by (intro tt_stop_through [OF tt_at_init]) (simp_all add: 0)
  from tt_then(1) [OF this tt_socket [where x = 3]]
  have "tt_reachable (tt_at ?y tt_one (Tp_bind 3) (\<lambda>i. Th_none))" by (simp add: tt_free_def tt_one_def)
  from tt_then(1) [OF this tt_binds [where x = 3]]
  have "tt_reachable (tt_at ?y tt_one (Tp_listen 3) (\<lambda>i. Th_none))" by simp
  from tt_then(1) [OF this tt_listens [where x = 3]]
  have "tt_reachable (tt_at ?y tt_one Tp_check (\<lambda>i. Th_none))" by simp
  from tt_then(1) [OF this tt_check_stop]
  have "tt_reachable (tt_at ?y tt_one (Tp_setStopped False) (\<lambda>i. Th_none))"
    by (simp add: stopRequested_def requestStop_def Let_def)
  from tt_then(1) [OF this tt_set_stopped [where entered = False]]
  have "tt_reachable (tt_at (?y\<lparr>ts_base := setState St_Stopped ?b\<rparr>) tt_one (Tp_exited False) (\<lambda>i. Th_none))" by simp
  then show ?thesis by (intro exI conjI) (assumption, simp_all add: setState_def tt_one_def)
qed

text \<open>A handler is caught between its load of the session's descriptor and \<open>recv\<close>: the stop closes the
  descriptor, the rest of the program is given its number, and the handler is in \<open>recv\<close> on what is not the
  server's. The accepting thread waits for it, and nobody has a step left that does not depend on that
  descriptor: the stop does not end.\<close>

definition tt_node :: "fd \<Rightarrow> client_session" where
  "tt_node x = \<lparr>cs_id = 0, cs_socket = x, cs_info = \<lparr>ci_address = [], ci_port = 0\<rparr>, cs_worker = Some 0, cs_completed = False\<rparr>"

definition tt_serving :: tcp_server where
  "tt_serving = tt_up\<lparr>ts_clients := [tt_node 4], ts_nextId := 1\<rparr>"

lemma tt_at_recv: "tt_reachable (tt_at tt_serving tt_two Tp_while ((\<lambda>i. Th_none)(0 := Th_recv 4)))"
proof -
  let ?s = "tt_at tt_up tt_two (Tp_start 4) (\<lambda>i. Th_none)"
  have r: "startClientSession (tt_env True (Some (ts_nextId (tt_obj ?s)))) 4 \<lparr>ci_address = [], ci_port = 0\<rparr> (tt_obj ?s) (tt_fds ?s)
      = (True, tt_serving, tt_two)"
    by (simp add: startClientSession_def tt_env_def tt_serving_def tt_node_def)
  from tt_then(1) [OF tt_at_accepted tt_starts [where c = 4, OF _ r]]
  have "tt_reachable (tt_at tt_serving tt_two Tp_while ((\<lambda>i. Th_none)(0 := Th_check)))" by simp
  from tt_then(2) [OF this th_check_go [where i = 0]]
  have "tt_reachable (tt_at tt_serving tt_two Tp_while ((\<lambda>i. Th_none)(0 := Th_load)))"
    by (simp add: tt_serving_def continueRunning_def stopRequested_def)
  from tt_then(2) [OF this TcpServerThreads.th_load [where i = 0 and x = 4]] show ?thesis
    by (simp add: tt_holds_def tt_serving_def ts_all_def tt_node_def)
qed

definition tt_stopped :: "tcp_server" where
  "tt_stopped = tt_up\<lparr>ts_base := snd (requestStop (ts_base tt_up)), ts_serverSocket := -1, ts_clients := [tt_node (-1)], ts_nextId := 1\<rparr>"

definition tt_none :: tt_world where
  "tt_none = tt_one\<lparr>tw_open := {}\<rparr>"

lemma tt_at_stopped: "tt_reachable (tt_at tt_stopped tt_none Tp_while ((\<lambda>i. Th_none)(0 := Th_recv 4)))"
proof (rule tt_stop_through [OF tt_at_recv])
  let ?y = "tt_serving\<lparr>ts_base := snd (requestStop (ts_base tt_serving)), ts_serverSocket := -1\<rparr>"
  show "ts_closeServerSocket tt_kernel (tt_serving\<lparr>ts_base := snd (requestStop (ts_base tt_serving))\<rparr>) tt_two
      = (?y, tt_one\<lparr>tw_open := {4}\<rparr>)"
    by (auto simp: ts_closeServerSocket_def tt_serving_def tt_closeSocketValue tt_close_def tt_two_def tt_one_def)
  show "ts_closeAllClientSockets tt_kernel ?y (tt_one\<lparr>tw_open := {4}\<rparr>) = (tt_stopped, tt_none)"
    by (simp add: ts_closeAllClientSockets_def tt_serving_def tt_stopped_def tt_node_def tt_closeSocketValue
        tt_close_def tt_none_def)
qed (simp add: tt_serving_def)

lemma tt_blocked:
  assumes w: "tt_worker s = Tp_join final i is" and m: "map_option cs_worker (ts_session i (tt_obj s)) = Some (Some k)"
    and h: "tt_handler s k = Th_in_recv x False" and o: "\<forall>j. j \<noteq> k \<longrightarrow> tt_handler s j = Th_none"
    and c: "tt_triggers s = 0" "tt_closers s = 0"
  shows "\<not> tt_due s t"
proof
  assume "tt_due s t"
  then show False
  proof cases
    case tt_due_worker
    from this(1) show ?thesis by cases (use w m h in auto)
  next
    case (tt_due_handler j)
    have "\<not> tt_handles j s t" if "tt_handler s j = Th_none" using that by (auto elim: tt_handles.cases)
    then have "j = k" using o tt_due_handler(1) by blast
    moreover have "tt_recv_waits k s" using h unfolding tt_recv_waits_def by blast
    ultimately show ?thesis using tt_due_handler(2) by simp
  next
    case tt_due_stopper
    then show ?thesis using c by (auto elim: tt_stops.cases)
  qed
qed

theorem tt_stop_hangs:
  "\<exists>s. tt_reachable s \<and> stopRequested (ts_base (tt_obj s)) \<and> tt_worker s = Tp_join True 0 []
     \<and> tt_handler s 0 = Th_in_recv 4 False \<and> 4 \<in> tw_foreign (tt_fds s) \<and> (\<forall>t. \<not> tt_due s t)"
proof -
  let ?w = "tt_none\<lparr>tw_foreign := {4}\<rparr>"
  let ?h = "(\<lambda>i. Th_none)(0 := Th_in_recv 4 False)"
  let ?at = "\<lambda>x pc. (tt_at x ?w pc ?h)\<lparr>tt_stray := [4]\<rparr>"
  let ?j = "tt_stopped\<lparr>ts_joining := [tt_node (-1)], ts_clients := []\<rparr>"
  have st: "m_stopRequested (ts_base tt_stopped)" "ts_clients tt_stopped = [tt_node (-1)]" "ts_joining tt_stopped = []"
    by (simp_all add: tt_stopped_def requestStop_def Let_def)
  from tt_then(4) [OF tt_at_stopped tt_foreign_open [where x = 4]]
  have "tt_reachable (tt_at tt_stopped ?w Tp_while ((\<lambda>i. Th_none)(0 := Th_recv 4)))"
    by (simp add: tt_free_def tt_none_def tt_one_def)
  from tt_then(2) [OF this th_calls_other [where i = 0 and x = 4]]
  have "tt_reachable (?at tt_stopped Tp_while)"
    by (simp add: tt_holds_def ts_all_def st tt_node_def tt_free_def tt_at_def tt_turn_def tt_strays_def)
  from tt_then(1) [OF this tt_while_stop] have "tt_reachable (?at tt_stopped Tp_break)"
    by (simp add: tt_at_def tt_goto_def continueRunning_def stopRequested_def st)
  from tt_then(1) [OF this tt_break] have "tt_reachable (?at ?j (Tp_close True [0]))"
    by (simp add: tt_at_def tt_goto_def tt_map_def st tt_node_def)
  from tt_then(1) [OF this tt_closes [of _ True 0 "[]"]]
  have "tt_reachable (?at (tt_stopped\<lparr>ts_clients := [], ts_joining := [tt_node (-1)]\<rparr>) (Tp_join True 0 []))"
    by (simp add: tt_at_def tt_goto_def tt_do_def ts_closeSession_def ts_session_def tt_node_def ts_update_def
        cs_update_def tt_closeSocketValue)
  moreover have "tt_stopped\<lparr>ts_clients := [], ts_joining := [tt_node (-1)]\<rparr> = ?j" by simp
  ultimately have r: "tt_reachable (?at ?j (Tp_join True 0 []))" by (simp only:)
  have "\<not> tt_due (?at ?j (Tp_join True 0 [])) t" for t
    by (rule tt_blocked [of _ True 0 "[]" 0 4])
       (simp_all add: tt_at_def ts_session_def tt_node_def)
  with r show ?thesis
    by (intro exI [of _ "?at ?j (Tp_join True 0 [])"]) (simp add: tt_at_def st stopRequested_def)
qed

section \<open>Instances\<close>


theorem tt_stop_ends_witness:
  "\<exists>s. tt_reachable s \<and> tt_handler s 0 = Th_recv 4 \<and> (\<exists>t. tt_due s t)
     \<and> (\<forall>t. tt_works s t \<or> (\<exists>i. tt_handles i s t) \<longrightarrow> tt_load t < tt_load s)"
proof -
  let ?s = "tt_at tt_stopped tt_none Tp_while ((\<lambda>i. Th_none)(0 := Th_recv 4))"
  have "stopRequested (ts_base (tt_obj ?s))"
    by (simp add: tt_stopped_def requestStop_def stopRequested_def Let_def)
  from tt_stop_ends [OF tt_at_stopped this] tt_at_stopped show ?thesis by (intro exI [of _ ?s]) simp
qed

theorem tt_others_calm_witness:
  "ts_calm tt_serving (fst (ts_closeSession tt_kernel 0 tt_serving tt_two))
   \<and> ts_owns tw_open {} (fst (ts_closeSession tt_kernel 0 tt_serving tt_two)) (snd (ts_closeSession tt_kernel 0 tt_serving tt_two))"
proof -
  let ?u = "tt_at tt_serving tt_two Tp_while ((\<lambda>i. Th_none)(0 := Th_in_recv 4 True))"
  let ?s = "tt_at tt_serving tt_two Tp_while ((\<lambda>i. Th_none)(0 := Th_close))"
  have "tt_reachable ?u"
    using tt_then(2) [OF tt_at_recv th_calls [where i = 0 and x = 4]]
    by (simp add: tt_holds_def tt_serving_def ts_all_def tt_node_def)
  from tt_then(2) [OF this th_ends [where i = 0 and x = 4 and own = True]] have s: "tt_reachable ?s" by simp
  have o: "ts_owns tw_open {} tt_serving tt_two"
    by (auto simp: ts_owns_def ts_all_def ts_listening_def tt_serving_def tt_node_def tt_two_def)
  have "tt_handles 0 ?s (tt_turn 0 Th_complete (tt_do (ts_closeSession tt_kernel 0) ?s))"
    by (rule TcpServerThreads.th_close) simp
  from tt_others_calm [OF s disjI1, OF this] o show ?thesis by simp
qed

end
