(* ===== verification/HttpServerV2Threads.thy ===== *)
theory HttpServerV2Threads
  imports HttpServerV2Proofs
begin

text \<open>
  One start of a \<open>cHTTPServer_V2\<close> (\<open>cHTTPServer_V2.cpp\<close> on \<open>cBaseWorker_V2.h\<close>; \<open>cHTTPSServer_V2.cpp\<close> is the same
  code) with all its threads: the worker thread in \<open>threadRunner\<close>, the threads in \<open>io->run()\<close>, of which the
  worker is number 0, any number of threads in \<open>requestStop\<close>, and the one that waits in \<open>startThread\<close>. A
  step is one critical section, one call into the library or into asio, or one \<open>notify_all\<close>; the operations
  on the object are those of \<open>HttpServerV2\<close>. Of asio it uses what its documentation says: a thread in
  \<open>run()\<close> takes posted handlers, in no fixed order; a context that was stopped hands out no more of them, and
  \<open>run()\<close> returns; \<open>run()\<close> without work to do stops the context. The library's \<open>start\<close> throws or has its
  callback run on the context.
\<close>

section \<open>State and steps\<close>

text \<open>Where a thread is in \<open>stopTriggered\<close>: before it reads the context, before \<open>m_server.stop()\<close> on the spot,
  before each of the two posts, before it resolves the start.\<close>

datatype vt_stop = Vs_context | Vs_direct | Vs_post_server nat | Vs_post_stop nat | Vs_resolve | Vs_over

datatype vt_worker =
    Vw_preRun | Vw_check | Vw_setRunning | Vw_start | Vw_process | Vw_spawn nat | Vw_io | Vw_take | Vw_join nat
  | Vw_resolve | Vw_reset | Vw_threw cpp_exn | Vw_catch cpp_exn | Vw_setStopped bool | Vw_exited bool

text \<open>Where a thread with the body \<open>runIo\<close> is: in \<open>io->run()\<close>, and then in one of the two \<open>catch\<close> blocks.\<close>

datatype vt_io =
    Vi_none | Vi_run nat | Vi_threw nat cpp_exn | Vi_stop_context nat | Vi_requestStop | Vi_stop vt_stop | Vi_done

datatype vt_starter = Vr_test | Vr_asleep | Vr_woken bool | Vr_answered bool

text \<open>\<open>vt_callback\<close> is the start callback that the library has posted; \<open>vt_home\<close> the \<open>on_error\<close> function that the
  user had set.\<close>

record 's vt_sys =
  vt_obj :: 's
  vt_worker :: vt_worker
  vt_io :: "nat \<Rightarrow> vt_io"
  vt_stoppers :: "nat \<Rightarrow> vt_stop"
  vt_starter :: vt_starter
  vt_callback :: "u16 option"
  vt_notify :: nat
  vt_home :: v2_on_error

text \<open>\<open>startThread\<close> on a stopped object has made the thread.\<close>

definition vt_init :: "base_worker \<Rightarrow> 'a http_server_v2_scheme \<Rightarrow> 'a http_server_v2_scheme vt_sys" where
  "vt_init b s =
     \<lparr>vt_obj = (v2_resetStartState s)\<lparr>v2_base := b\<rparr>, vt_worker = Vw_preRun, vt_io = (\<lambda>k. Vi_none),
      vt_stoppers = (\<lambda>k. Vs_over), vt_starter = Vr_test, vt_callback = None, vt_notify = 0, vt_home = v2_on_error s\<rparr>"

definition vt_fresh :: "'a http_server_v2_scheme \<Rightarrow> bool" where
  "vt_fresh s \<longleftrightarrow>
     v2_io s = None \<and> v2_ioThreads s = 0 \<and> v2_on_error s \<noteq> OE_wrapper
     \<and> (\<forall>io \<ge> asio_next s. asio_posted s io = [] \<and> \<not> asio_stopped s io)"

definition vt_map :: "('s \<Rightarrow> 's) \<Rightarrow> 's vt_sys \<Rightarrow> 's vt_sys" where
  "vt_map f s = s\<lparr>vt_obj := f (vt_obj s)\<rparr>"

definition vt_goto :: "vt_worker \<Rightarrow> 's vt_sys \<Rightarrow> 's vt_sys" where
  "vt_goto pc s = s\<lparr>vt_worker := pc\<rparr>"

definition vt_turn :: "nat \<Rightarrow> vt_io \<Rightarrow> 's vt_sys \<Rightarrow> 's vt_sys" where
  "vt_turn k pc s = s\<lparr>vt_io := (vt_io s)(k := pc)\<rparr>"

definition vt_base :: "base_worker \<Rightarrow> 'a http_server_v2_scheme vt_sys \<Rightarrow> 'a http_server_v2_scheme vt_sys" where
  "vt_base b s = vt_map (v2_base_update (\<lambda>_. b)) s"

text \<open>\<open>resolveStartIfPending\<close>: only the call that decides the latch goes on to \<open>notify_all\<close>.\<close>

definition vt_resolve ::
  "bool \<Rightarrow> u16 \<Rightarrow> string \<Rightarrow> 'a http_server_v2_scheme vt_sys \<Rightarrow> 'a http_server_v2_scheme vt_sys" where
  "vt_resolve success port errorMessage s =
     s\<lparr>vt_notify := (if v2_startResolved (vt_obj s) then vt_notify s else Suc (vt_notify s)),
       vt_obj := v2_resolveStartIfPending success port errorMessage (vt_obj s)\<rparr>"

text \<open>One step of \<open>stopTriggered\<close>.\<close>

fun vt_trigger ::
  "string \<Rightarrow> vt_stop \<Rightarrow> 'a http_server_v2_scheme vt_sys \<Rightarrow> vt_stop \<times> 'a http_server_v2_scheme vt_sys" where
  "vt_trigger proto Vs_context s =
     ((case v2_ioContext (vt_obj s) of None \<Rightarrow> Vs_direct | Some io \<Rightarrow> Vs_post_server io), s)"
| "vt_trigger proto Vs_direct s = (Vs_over, s)"
| "vt_trigger proto (Vs_post_server io) s = (Vs_post_stop io, vt_map (asio_post io Task_server_stop) s)"
| "vt_trigger proto (Vs_post_stop io) s = (Vs_resolve, vt_map (asio_post io (Task_context_stop io)) s)"
| "vt_trigger proto Vs_resolve s = (Vs_over, vt_resolve False 0 (proto @ '' server stop requested'') s)"
| "vt_trigger proto Vs_over s = (Vs_over, s)"

definition vt_what :: "string \<Rightarrow> cpp_exn \<Rightarrow> string" where
  "vt_what other e = (case e of StdException what \<Rightarrow> what | OtherException \<Rightarrow> other)"

text \<open>The worker thread: \<open>preRun\<close>, the look at the stop flag, \<open>run\<close> with \<open>processWork\<close>. The threads that
  \<open>processWork\<close> makes before \<open>std::thread\<close> throws go on.\<close>

inductive vt_works :: "string \<Rightarrow> 'a http_server_v2_scheme vt_sys \<Rightarrow> 'a http_server_v2_scheme vt_sys \<Rightarrow> bool"
  for proto where
  vt_preRun_ok: "vt_worker s = Vw_preRun \<Longrightarrow> v2_preRun proto None (vt_obj s) = (ok, obj) \<Longrightarrow>
     vt_works proto s (vt_goto Vw_check (s\<lparr>vt_obj := obj\<rparr>))"
| vt_preRun_throws: "vt_worker s = Vw_preRun \<Longrightarrow>
     vt_works proto s (vt_goto (Vw_setStopped False)
       (vt_resolve False 0 (vt_what (''Failed to initialize '' @ proto @ '' server'') e) s))"
| vt_check_stop: "vt_worker s = Vw_check \<Longrightarrow> stopRequested (v2_base (vt_obj s)) \<Longrightarrow>
     vt_works proto s (vt_goto (Vw_setStopped False) s)"
| vt_check_go: "vt_worker s = Vw_check \<Longrightarrow> \<not> stopRequested (v2_base (vt_obj s)) \<Longrightarrow>
     vt_works proto s (vt_goto Vw_setRunning s)"
| vt_set_running: "vt_worker s = Vw_setRunning \<Longrightarrow>
     vt_works proto s (vt_goto Vw_start (vt_base (setState St_Running (v2_base (vt_obj s))) s))"
| vt_start: "vt_worker s = Vw_start \<Longrightarrow>
     vt_works proto s (vt_goto Vw_process (s\<lparr>vt_callback := Some port\<rparr>))"
| vt_start_throws: "vt_worker s = Vw_start \<Longrightarrow> vt_works proto s (vt_goto (Vw_threw e) s)"
| vt_process: "vt_worker s = Vw_process \<Longrightarrow>
     vt_works proto s (vt_goto (case v2_ioContext (vt_obj s) of None \<Rightarrow> Vw_resolve | Some io \<Rightarrow> Vw_spawn io) s)"
| vt_spawns: "vt_worker s = Vw_spawn io \<Longrightarrow> v2_spawn 1 None (vt_obj s) = (None, obj) \<Longrightarrow>
     vt_works proto s (vt_goto Vw_io
       (s\<lparr>vt_obj := obj, vt_io := (\<lambda>k. if k \<le> v2_ioThreads obj then Vi_run io else vt_io s k)\<rparr>))"
| vt_spawn_throws: "vt_worker s = Vw_spawn io \<Longrightarrow> v2_spawn 1 (Some (n, e)) (vt_obj s) = (Some e', obj) \<Longrightarrow>
     vt_works proto s (vt_goto (Vw_threw e')
       (s\<lparr>vt_obj := obj, vt_io := (\<lambda>k. if 0 < k \<and> k \<le> v2_ioThreads obj then Vi_run io else vt_io s k)\<rparr>))"
| vt_own_done: "vt_worker s = Vw_io \<Longrightarrow> vt_io s 0 = Vi_done \<Longrightarrow> vt_works proto s (vt_goto Vw_take s)"
| vt_takes: "vt_worker s = Vw_take \<Longrightarrow>
     vt_works proto s (vt_goto (Vw_join (v2_ioThreads (vt_obj s))) (vt_map (v2_ioThreads_update (\<lambda>_. 0)) s))"
| vt_joins: "vt_worker s = Vw_join n \<Longrightarrow> \<forall>k \<in> {1..n}. vt_io s k = Vi_done \<Longrightarrow>
     vt_works proto s (vt_goto Vw_resolve s)"
| vt_resolves: "vt_worker s = Vw_resolve \<Longrightarrow>
     vt_works proto s (vt_goto Vw_reset (vt_resolve False 0
       (if stopRequested (v2_base (vt_obj s)) then proto @ '' server stopped''
        else proto @ '' server exited unexpectedly'') s))"
| vt_resets: "vt_worker s = Vw_reset \<Longrightarrow>
     vt_works proto s (vt_goto (Vw_setStopped True) (vt_map (\<lambda>x. x\<lparr>v2_on_error := v2_userOnError x, v2_io_service := None,
       v2_userOnError := OE_none, v2_io := None\<rparr>) s))"
| vt_run_catch: "vt_worker s = Vw_threw e \<Longrightarrow>
     vt_works proto s (vt_goto (Vw_catch e)
       (vt_resolve False 0 (vt_what (''Unhandled '' @ proto @ '' server exception'') e) s))"
| vt_runner_catch: "vt_worker s = Vw_catch e \<Longrightarrow>
     vt_works proto s (vt_goto (Vw_setStopped True)
       (vt_base ((v2_base (vt_obj s))\<lparr>m_lastUnhandledException := Some e\<rparr>) s))"
| vt_set_stopped: "vt_worker s = Vw_setStopped entered \<Longrightarrow>
     vt_works proto s (vt_goto (Vw_exited entered) (vt_base (setState St_Stopped (v2_base (vt_obj s))) s))"

text \<open>A thread in \<open>runIo\<close>. It takes one of the two tasks that \<open>stopTriggered\<close> posts, the start callback, or a
  handler of the library, which may report an error to \<open>on_error\<close> or throw.\<close>

inductive vt_runs ::
  "string \<Rightarrow> nat \<Rightarrow> 'a http_server_v2_scheme vt_sys \<Rightarrow> 'a http_server_v2_scheme vt_sys \<Rightarrow> bool" for proto k where
  vi_task: "vt_io s k = Vi_run io \<Longrightarrow> \<not> asio_stopped (vt_obj s) io \<Longrightarrow> t \<in> set (asio_posted (vt_obj s) io) \<Longrightarrow>
     vt_runs proto k s (vt_map (\<lambda>x. (case t of Task_server_stop \<Rightarrow> id | Task_context_stop d \<Rightarrow> asio_stop d)
       (x\<lparr>asio_posted := (asio_posted x)(io := remove1 t (asio_posted x io))\<rparr>)) s)"
| vi_callback: "vt_io s k = Vi_run io \<Longrightarrow> \<not> asio_stopped (vt_obj s) io \<Longrightarrow> vt_callback s = Some port \<Longrightarrow>
     vt_runs proto k s (vt_resolve True port [] (vt_map (v2_updateHeartbeat now) (s\<lparr>vt_callback := None\<rparr>)))"
| vi_reports: "vt_io s k = Vi_run io \<Longrightarrow> \<not> asio_stopped (vt_obj s) io \<Longrightarrow>
     v2_call_on_error (v2_on_error (vt_obj s)) now request code message (vt_obj s) = Some (thrown, obj) \<Longrightarrow>
     vt_runs proto k s (vt_turn k (case thrown of None \<Rightarrow> Vi_run io | Some e \<Rightarrow> Vi_threw io e) (s\<lparr>vt_obj := obj\<rparr>))"
| vi_handler_throws: "vt_io s k = Vi_run io \<Longrightarrow> \<not> asio_stopped (vt_obj s) io \<Longrightarrow>
     vt_runs proto k s (vt_turn k (Vi_threw io e) s)"
| vi_no_work: "vt_io s k = Vi_run io \<Longrightarrow> asio_posted (vt_obj s) io = [] \<Longrightarrow> vt_callback s = None \<Longrightarrow>
     vt_runs proto k s (vt_turn k Vi_done (vt_map (asio_stop io) s))"
| vi_stopped: "vt_io s k = Vi_run io \<Longrightarrow> asio_stopped (vt_obj s) io \<Longrightarrow> vt_runs proto k s (vt_turn k Vi_done s)"
| vi_catch: "vt_io s k = Vi_threw io e \<Longrightarrow>
     vt_runs proto k s (vt_turn k (Vi_stop_context io)
       (vt_map (v2_setLastError (vt_what ''Unhandled io_context exception'' e)) s))"
| vi_stop_context: "vt_io s k = Vi_stop_context io \<Longrightarrow>
     vt_runs proto k s (vt_turn k Vi_requestStop (vt_map (asio_stop io) s))"
| vi_requestStop: "vt_io s k = Vi_requestStop \<Longrightarrow> requestStop (v2_base (vt_obj s)) = (trigger, b) \<Longrightarrow>
     vt_runs proto k s (vt_turn k (if trigger then Vi_stop Vs_context else Vi_done) (vt_base b s))"
| vi_stop: "vt_io s k = Vi_stop st \<Longrightarrow> vt_trigger proto st s = (st', t) \<Longrightarrow>
     vt_runs proto k s (vt_turn k (if st' = Vs_over then Vi_done else Vi_stop st') t)"

text \<open>The threads that stop, the heartbeat that the starting thread sets, its wait, and the notifications.\<close>

inductive vt_others :: "string \<Rightarrow> 'a http_server_v2_scheme vt_sys \<Rightarrow> 'a http_server_v2_scheme vt_sys \<Rightarrow> bool"
  for proto where
  vt_requestStop: "vt_stoppers s j = Vs_over \<Longrightarrow> requestStop (v2_base (vt_obj s)) = (trigger, b) \<Longrightarrow>
     vt_others proto s (vt_base b (s\<lparr>vt_stoppers := (vt_stoppers s)(j := (if trigger then Vs_context else Vs_over))\<rparr>))"
| vt_stopper: "vt_stoppers s j = st \<Longrightarrow> vt_trigger proto st s = (st', t) \<Longrightarrow>
     vt_others proto s (t\<lparr>vt_stoppers := (vt_stoppers t)(j := st')\<rparr>)"
| vt_heartbeat: "vt_others proto s (vt_base (resetHeartbeat now (v2_base (vt_obj s))) s)"
| vt_ready: "vt_starter s = Vr_test \<or> vt_starter s = Vr_woken late \<Longrightarrow> v2_startResolved (vt_obj s) \<Longrightarrow>
     vt_others proto s (s\<lparr>vt_starter := Vr_answered (v2_startSucceeded (vt_obj s))\<rparr>)"
| vt_sleeps: "vt_starter s = Vr_test \<or> vt_starter s = Vr_woken False \<Longrightarrow> \<not> v2_startResolved (vt_obj s) \<Longrightarrow>
     vt_others proto s (s\<lparr>vt_starter := Vr_asleep\<rparr>)"
| vt_timed_out: "vt_starter s = Vr_woken True \<Longrightarrow> \<not> v2_startResolved (vt_obj s) \<Longrightarrow>
     vt_others proto s (s\<lparr>vt_starter := Vr_answered False\<rparr>)"
| vt_timeout_or_spurious: "vt_starter s = Vr_asleep \<Longrightarrow> vt_others proto s (s\<lparr>vt_starter := Vr_woken late\<rparr>)"
| vt_notify_all: "vt_notify s = Suc n \<Longrightarrow>
     vt_others proto s (s\<lparr>vt_notify := n, vt_starter := (if vt_starter s = Vr_asleep then Vr_woken False else vt_starter s)\<rparr>)"

inductive vt_step :: "string \<Rightarrow> 'a http_server_v2_scheme vt_sys \<Rightarrow> 'a http_server_v2_scheme vt_sys \<Rightarrow> bool"
  for proto where
  vt_by_worker: "vt_works proto s t \<Longrightarrow> vt_step proto s t"
| vt_by_io: "vt_runs proto k s t \<Longrightarrow> vt_step proto s t"
| vt_by_others: "vt_others proto s t \<Longrightarrow> vt_step proto s t"

inductive vt_reachable :: "string \<Rightarrow> 'a http_server_v2_scheme vt_sys \<Rightarrow> bool" for proto where
  vt_reach_init: "vt_fresh s \<Longrightarrow> startThread_locked (Some t) (joinFinishedThread (v2_base s)) = Created b \<Longrightarrow>
     vt_reachable proto (vt_init b s)"
| vt_reach_step: "vt_reachable proto s \<Longrightarrow> vt_step proto s t \<Longrightarrow> vt_reachable proto t"

section \<open>Fields\<close>

lemma vt_fields [simp]:
  "vt_obj (vt_map f s) = f (vt_obj s)" "vt_worker (vt_map f s) = vt_worker s" "vt_io (vt_map f s) = vt_io s"
  "vt_stoppers (vt_map f s) = vt_stoppers s" "vt_starter (vt_map f s) = vt_starter s"
  "vt_callback (vt_map f s) = vt_callback s" "vt_notify (vt_map f s) = vt_notify s" "vt_home (vt_map f s) = vt_home s"
  "vt_obj (vt_goto pc s) = vt_obj s" "vt_worker (vt_goto pc s) = pc" "vt_io (vt_goto pc s) = vt_io s"
  "vt_stoppers (vt_goto pc s) = vt_stoppers s" "vt_starter (vt_goto pc s) = vt_starter s"
  "vt_callback (vt_goto pc s) = vt_callback s" "vt_notify (vt_goto pc s) = vt_notify s" "vt_home (vt_goto pc s) = vt_home s"
  "vt_obj (vt_turn k h s) = vt_obj s" "vt_worker (vt_turn k h s) = vt_worker s" "vt_io (vt_turn k h s) = (vt_io s)(k := h)"
  "vt_stoppers (vt_turn k h s) = vt_stoppers s" "vt_starter (vt_turn k h s) = vt_starter s"
  "vt_callback (vt_turn k h s) = vt_callback s" "vt_notify (vt_turn k h s) = vt_notify s" "vt_home (vt_turn k h s) = vt_home s"
  by (simp_all add: vt_map_def vt_goto_def vt_turn_def)

lemma vt_fields_of_calls [simp]:
  "vt_obj (vt_base b s) = (vt_obj s)\<lparr>v2_base := b\<rparr>" "vt_worker (vt_base b s) = vt_worker s" "vt_io (vt_base b s) = vt_io s"
  "vt_stoppers (vt_base b s) = vt_stoppers s" "vt_starter (vt_base b s) = vt_starter s"
  "vt_callback (vt_base b s) = vt_callback s" "vt_notify (vt_base b s) = vt_notify s" "vt_home (vt_base b s) = vt_home s"
  "vt_obj (vt_resolve ok p e s) = v2_resolveStartIfPending ok p e (vt_obj s)"
  "vt_worker (vt_resolve ok p e s) = vt_worker s" "vt_io (vt_resolve ok p e s) = vt_io s"
  "vt_stoppers (vt_resolve ok p e s) = vt_stoppers s" "vt_starter (vt_resolve ok p e s) = vt_starter s"
  "vt_callback (vt_resolve ok p e s) = vt_callback s" "vt_home (vt_resolve ok p e s) = vt_home s"
  "vt_notify (vt_resolve ok p e s) = (if v2_startResolved (vt_obj s) then vt_notify s else Suc (vt_notify s))"
  by (simp_all add: vt_base_def vt_resolve_def)

lemma v2_resolve_asio [simp]:
  "asio_next (v2_resolveStartIfPending b p e s) = asio_next s"
  "asio_stopped (v2_resolveStartIfPending b p e s) = asio_stopped s"
  by (simp_all add: v2_resolveStartIfPending_def)

lemma v2_small_fields [simp]:
  "v2_io (v2_setLastError e x) = v2_io x" "v2_ioThreads (v2_setLastError e x) = v2_ioThreads x"
  "v2_on_error (v2_setLastError e x) = v2_on_error x" "v2_userOnError (v2_setLastError e x) = v2_userOnError x"
  "asio_next (v2_setLastError e x) = asio_next x" "asio_posted (v2_setLastError e x) = asio_posted x"
  "asio_stopped (v2_setLastError e x) = asio_stopped x" "v2_base (v2_setLastError e x) = v2_base x"
  "v2_startResolved (v2_setLastError e x) = v2_startResolved x"
  "v2_io (v2_updateHeartbeat now x) = v2_io x" "v2_ioThreads (v2_updateHeartbeat now x) = v2_ioThreads x"
  "v2_on_error (v2_updateHeartbeat now x) = v2_on_error x" "v2_userOnError (v2_updateHeartbeat now x) = v2_userOnError x"
  "asio_next (v2_updateHeartbeat now x) = asio_next x" "asio_posted (v2_updateHeartbeat now x) = asio_posted x"
  "asio_stopped (v2_updateHeartbeat now x) = asio_stopped x"
  "m_state (v2_base (v2_updateHeartbeat now x)) = m_state (v2_base x)"
  "m_stopRequested (v2_base (v2_updateHeartbeat now x)) = m_stopRequested (v2_base x)"
  "v2_startResolved (v2_updateHeartbeat now x) = v2_startResolved x"
  by (simp_all add: v2_setLastError_def v2_updateHeartbeat_def updateHeartbeat_def)

lemma asio_fields [simp]:
  "v2_io (asio_post c t x) = v2_io x" "v2_ioThreads (asio_post c t x) = v2_ioThreads x"
  "v2_on_error (asio_post c t x) = v2_on_error x" "v2_userOnError (asio_post c t x) = v2_userOnError x"
  "asio_next (asio_post c t x) = asio_next x" "asio_stopped (asio_post c t x) = asio_stopped x"
  "v2_base (asio_post c t x) = v2_base x" "v2_startResolved (asio_post c t x) = v2_startResolved x"
  "asio_posted (asio_post c t x) = (asio_posted x)(c := asio_posted x c @ [t])"
  "v2_io (asio_stop c x) = v2_io x" "v2_ioThreads (asio_stop c x) = v2_ioThreads x"
  "v2_on_error (asio_stop c x) = v2_on_error x" "v2_userOnError (asio_stop c x) = v2_userOnError x"
  "asio_next (asio_stop c x) = asio_next x" "asio_posted (asio_stop c x) = asio_posted x"
  "v2_base (asio_stop c x) = v2_base x" "v2_startResolved (asio_stop c x) = v2_startResolved x"
  "asio_stopped (asio_stop c x) = (asio_stopped x)(c := True)"
  by (simp_all add: asio_post_def asio_stop_def)

text \<open>What making the extra threads and reporting an error change.\<close>

lemma v2_spawn_threads:
  "v2_spawn i f x = (r, y) \<Longrightarrow> \<exists>n. y = x\<lparr>v2_ioThreads := n\<rparr>"
proof (induction i f x arbitrary: r y rule: v2_spawn.induct)
  case (1 i f x)
  have same: "\<exists>n. x = x\<lparr>v2_ioThreads := n\<rparr>" by (rule exI [of _ "v2_ioThreads x"]) simp
  show ?case
    using 1(3) 1(1,2) same by (subst (asm) v2_spawn.simps) (fastforce split: if_splits option.splits prod.splits)
qed

lemma v2_call_keeps:
  assumes "v2_call_on_error h now rq v m x = Some (r, y)" and "v2_userOnError x \<noteq> OE_wrapper"
  shows "y = x \<or> y = v2_setLastError m (v2_updateHeartbeat now x)"
proof (cases h)
  case OE_wrapper
  let ?y = "v2_setLastError m (v2_updateHeartbeat now x)"
  have "v2_call_on_error (v2_userOnError x) now rq v m ?y = Some (r, y)"
    using assms(1) OE_wrapper by (simp add: v2_call_wrapper Let_def)
  then show ?thesis using assms(2) by (cases "v2_userOnError x") simp_all
qed (use assms in simp_all)

section \<open>The invariants\<close>

text \<open>The context of this run, once \<open>preRun\<close> has made it.\<close>

definition vt_context :: "'a http_server_v2_scheme vt_sys \<Rightarrow> nat" where
  "vt_context s = asio_next (vt_obj s) - 1"

definition vt_flag :: "'a http_server_v2_scheme vt_sys \<Rightarrow> bool" where
  "vt_flag s = m_stopRequested (v2_base (vt_obj s))"

text \<open>Where the server is prepared; where it runs or is about to; where no thread has been made yet.\<close>

fun vt_inside :: "vt_worker \<Rightarrow> bool" where
  "vt_inside pc \<longleftrightarrow> (case pc of Vw_preRun \<Rightarrow> False | Vw_setStopped e \<Rightarrow> False | Vw_exited e \<Rightarrow> False | _ \<Rightarrow> True)"

fun vt_serving :: "vt_worker \<Rightarrow> bool" where
  "vt_serving pc \<longleftrightarrow> (case pc of Vw_setRunning \<Rightarrow> True | Vw_start \<Rightarrow> True | Vw_process \<Rightarrow> True | Vw_spawn c \<Rightarrow> True
     | Vw_io \<Rightarrow> True | Vw_take \<Rightarrow> True | Vw_join n \<Rightarrow> True | _ \<Rightarrow> False)"

fun vt_before :: "vt_worker \<Rightarrow> bool" where
  "vt_before pc \<longleftrightarrow> (case pc of Vw_preRun \<Rightarrow> True | Vw_check \<Rightarrow> True | Vw_setRunning \<Rightarrow> True | Vw_start \<Rightarrow> True
     | Vw_process \<Rightarrow> True | Vw_spawn c \<Rightarrow> True | Vw_setStopped entered \<Rightarrow> \<not> entered | Vw_exited entered \<Rightarrow> \<not> entered
     | _ \<Rightarrow> False)"

definition vt_state_inv :: "'a http_server_v2_scheme vt_sys \<Rightarrow> bool" where
  "vt_state_inv s \<longleftrightarrow>
     ((\<forall>entered. vt_worker s \<noteq> Vw_exited entered) \<longrightarrow>
        m_state (v2_base (vt_obj s)) \<in> {St_Starting, St_Running, St_Stopping})"

text \<open>The context and the \<open>on_error\<close> slot.\<close>

fun vi_context :: "vt_io \<Rightarrow> nat option" where
  "vi_context (Vi_run c) = Some c"
| "vi_context (Vi_threw c e) = Some c"
| "vi_context (Vi_stop_context c) = Some c"
| "vi_context (Vi_stop (Vs_post_server c)) = Some c"
| "vi_context (Vi_stop (Vs_post_stop c)) = Some c"
| "vi_context _ = None"

fun vs_context :: "vt_stop \<Rightarrow> nat option" where
  "vs_context (Vs_post_server c) = Some c"
| "vs_context (Vs_post_stop c) = Some c"
| "vs_context _ = None"

definition vt_context_inv :: "'a http_server_v2_scheme vt_sys \<Rightarrow> bool" where
  "vt_context_inv s \<longleftrightarrow>
     vt_home s \<noteq> OE_wrapper
     \<and> v2_io (vt_obj s) \<in> {None, Some (vt_context s)}
     \<and> (vt_worker s = Vw_preRun \<longrightarrow> v2_io (vt_obj s) = None \<and> v2_on_error (vt_obj s) = vt_home s
          \<and> asio_posted (vt_obj s) (asio_next (vt_obj s)) = [] \<and> \<not> asio_stopped (vt_obj s) (asio_next (vt_obj s))
          \<and> (\<forall>j. vs_context (vt_stoppers s j) = None) \<and> (\<forall>k. vi_context (vt_io s k) = None))
     \<and> (vt_inside (vt_worker s) \<longrightarrow> v2_io (vt_obj s) = Some (vt_context s))
     \<and> (v2_io (vt_obj s) \<noteq> None \<longrightarrow> v2_on_error (vt_obj s) = OE_wrapper \<and> v2_userOnError (vt_obj s) = vt_home s)
     \<and> (\<forall>c. vt_worker s = Vw_spawn c \<longrightarrow> c = vt_context s)
     \<and> (\<forall>j. vs_context (vt_stoppers s j) \<in> {None, Some (vt_context s)})
     \<and> (\<forall>k. vi_context (vt_io s k) \<in> {None, Some (vt_context s)})"

text \<open>The threads of the context.\<close>

definition vt_quiet :: "'a http_server_v2_scheme vt_sys \<Rightarrow> bool" where
  "vt_quiet s \<longleftrightarrow> (\<forall>k. vt_io s k \<in> {Vi_none, Vi_done}) \<and> v2_ioThreads (vt_obj s) = 0"

definition vt_thread_inv :: "'a http_server_v2_scheme vt_sys \<Rightarrow> bool" where
  "vt_thread_inv s \<longleftrightarrow>
     (vt_before (vt_worker s) \<longrightarrow> vt_io s = (\<lambda>k. Vi_none) \<and> v2_ioThreads (vt_obj s) = 0)
     \<and> (vt_worker s = Vw_io \<or> vt_worker s = Vw_take \<longrightarrow> (\<forall>k. vt_io s k = Vi_none \<longleftrightarrow> v2_ioThreads (vt_obj s) < k))
     \<and> (vt_worker s = Vw_take \<longrightarrow> vt_io s 0 = Vi_done)
     \<and> (\<forall>n. vt_worker s = Vw_join n \<longrightarrow> (\<forall>k. vt_io s k = Vi_none \<longleftrightarrow> n < k) \<and> v2_ioThreads (vt_obj s) = 0
          \<and> vt_io s 0 = Vi_done)
     \<and> (vt_worker s = Vw_resolve \<or> vt_worker s = Vw_reset \<longrightarrow> vt_quiet s)
     \<and> (\<not> vt_inside (vt_worker s) \<and> v2_io (vt_obj s) = None \<longrightarrow> vt_quiet s \<and> v2_on_error (vt_obj s) = vt_home s)"

text \<open>Who is on the way to post the stop of the context \<open>c\<close>.\<close>

definition vs_posting :: "nat \<Rightarrow> vt_stop set" where
  "vs_posting c = {Vs_context, Vs_post_server c, Vs_post_stop c}"

definition vt_coming :: "'a http_server_v2_scheme vt_sys \<Rightarrow> bool" where
  "vt_coming s \<longleftrightarrow>
     (\<exists>j. vt_stoppers s j \<in> vs_posting (vt_context s)) \<or> (\<exists>k. vt_io s k \<in> Vi_stop ` vs_posting (vt_context s))"

definition vt_stop_inv :: "'a http_server_v2_scheme vt_sys \<Rightarrow> bool" where
  "vt_stop_inv s \<longleftrightarrow>
     (vt_flag s \<and> vt_serving (vt_worker s) \<longrightarrow>
        asio_stopped (vt_obj s) (vt_context s)
        \<or> Task_context_stop (vt_context s) \<in> set (asio_posted (vt_obj s) (vt_context s)) \<or> vt_coming s)"

text \<open>A stopping thread that calls \<open>m_server.stop()\<close> itself.\<close>

definition vt_direct_inv :: "'a http_server_v2_scheme vt_sys \<Rightarrow> bool" where
  "vt_direct_inv s \<longleftrightarrow>
     (\<forall>j. vt_stoppers s j \<noteq> Vs_over \<longrightarrow> vt_flag s) \<and> (\<forall>k st. vt_io s k = Vi_stop st \<longrightarrow> vt_flag s)
     \<and> (\<forall>k. vt_io s k \<noteq> Vi_stop Vs_direct)
     \<and> ((\<exists>j. vt_stoppers s j = Vs_direct) \<longrightarrow> vt_quiet s \<and> \<not> vt_serving (vt_worker s))"

text \<open>The latch and the thread that waits for it.\<close>

definition vt_latch_inv :: "'a http_server_v2_scheme vt_sys \<Rightarrow> bool" where
  "vt_latch_inv s \<longleftrightarrow>
     ((vt_worker s = Vw_reset \<or> (\<exists>e. vt_worker s = Vw_catch e)) \<longrightarrow> v2_startResolved (vt_obj s))
     \<and> (\<forall>entered. vt_worker s \<in> {Vw_setStopped entered, Vw_exited entered} \<longrightarrow>
          v2_startResolved (vt_obj s) \<or> vt_flag s \<and> \<not> entered)
     \<and> (vt_starter s = Vr_asleep \<and> v2_startResolved (vt_obj s) \<longrightarrow> 0 < vt_notify s)"

subsection \<open>The steps of a stop\<close>

lemmas vt_step_defs = requestStop_def stopRequested_def setState_def resetHeartbeat_def Let_def vt_flag_def

lemma vt_trigger_fields:
  assumes "vt_trigger proto st s = (st', t)"
  shows "vt_worker t = vt_worker s" "vt_io t = vt_io s" "vt_stoppers t = vt_stoppers s" "vt_starter t = vt_starter s"
    "vt_callback t = vt_callback s" "vt_home t = vt_home s" "v2_base (vt_obj t) = v2_base (vt_obj s)"
    "v2_io (vt_obj t) = v2_io (vt_obj s)" "v2_ioThreads (vt_obj t) = v2_ioThreads (vt_obj s)"
    "v2_on_error (vt_obj t) = v2_on_error (vt_obj s)" "v2_userOnError (vt_obj t) = v2_userOnError (vt_obj s)"
    "asio_next (vt_obj t) = asio_next (vt_obj s)" "asio_stopped (vt_obj t) = asio_stopped (vt_obj s)"
  using assms by (cases st; auto)+

text \<open>With a context the steps make \<open>stopTriggered\<close>; without one, the call of \<open>stop()\<close> on the spot.\<close>

lemma vt_trigger_is_stopTriggered:
  assumes "v2_io (vt_obj s) = Some io"
  shows "vt_obj (snd (vt_trigger proto Vs_resolve (snd (vt_trigger proto (Vs_post_stop io)
      (snd (vt_trigger proto (Vs_post_server io) s)))))) = snd (v2_stopTriggered proto (vt_obj s))"
    and "fst (vt_trigger proto Vs_context s) = Vs_post_server io"
  using assms by (simp_all add: v2_stopTriggered_def v2_ioContext_def)

lemma vt_trigger_latch:
  assumes "vt_trigger proto st s = (st', t)"
  shows "v2_startResolved (vt_obj s) \<Longrightarrow> v2_startResolved (vt_obj t) \<and> vt_notify t = vt_notify s"
    and "\<not> v2_startResolved (vt_obj s) \<Longrightarrow> v2_startResolved (vt_obj t) \<Longrightarrow> 0 < vt_notify t"
  using assms by (cases st; auto simp: asio_post_def)+

lemma vt_trigger_wakes:
  assumes "vt_trigger proto st s = (st', t)" and "v2_startResolved (vt_obj s) \<longrightarrow> 0 < vt_notify s"
  shows "v2_startResolved (vt_obj t) \<longrightarrow> 0 < vt_notify t"
  using vt_trigger_latch [OF assms(1)] assms(2) by (cases "v2_startResolved (vt_obj s)") simp_all

lemma vt_trigger_context:
  assumes "vt_trigger proto st s = (st', t)" and "v2_io (vt_obj s) \<in> {None, Some c}"
    and "vs_context st \<in> {None, Some c}"
  shows "vs_context st' \<in> {None, Some c}"
    and "v2_io (vt_obj s) = None \<Longrightarrow> vs_context st = None \<Longrightarrow> vs_context st' = None"
    and "\<And>d. asio_posted (vt_obj s) d \<noteq> asio_posted (vt_obj t) d \<Longrightarrow> vs_context st = Some d"
  using assms by (cases st; auto simp: v2_ioContext_def split: if_splits)+

text \<open>A thread that is on the way to post the stop stays on it, until it has posted it.\<close>

lemma vt_trigger_posts:
  assumes "vt_trigger proto st s = (st', t)" and "v2_io (vt_obj s) = Some c" and "st \<in> vs_posting c"
  shows "st' \<in> vs_posting c \<or> Task_context_stop c \<in> set (asio_posted (vt_obj t) c)"
  using assms by (auto simp: vs_posting_def v2_ioContext_def)

lemma vt_trigger_posted:
  assumes "vt_trigger proto st s = (st', t)"
  shows "set (asio_posted (vt_obj s) c) \<subseteq> set (asio_posted (vt_obj t) c)"
  using assms by (cases st) auto

lemma vt_trigger_direct:
  "vt_trigger proto st s = (Vs_direct, t) \<Longrightarrow> st = Vs_context \<and> v2_io (vt_obj s) = None"
  by (cases st) (auto simp: v2_ioContext_def split: option.splits)

lemma vt_coming_moves:
  "(\<exists>j. f j \<in> A) \<Longrightarrow> f i \<notin> A \<or> v \<in> A \<Longrightarrow> \<exists>j. (f(i := v)) j \<in> A"
  by (metis fun_upd_apply)

subsection \<open>State\<close>

lemma vt_state_works: "vt_works proto s t \<Longrightarrow> vt_state_inv s \<Longrightarrow> vt_state_inv t"
proof (induction rule: vt_works.induct)
  case (vt_spawns s io obj)
  then show ?case using v2_spawn_threads [OF vt_spawns(2)] by (auto simp: vt_state_inv_def)
next
  case (vt_spawn_throws s io n e e' obj)
  then show ?case using v2_spawn_threads [OF vt_spawn_throws(2)] by (auto simp: vt_state_inv_def)
qed (auto simp: vt_state_inv_def vt_step_defs split: option.splits)

lemma vt_call_state:
  assumes "v2_call_on_error h now rq v m x = Some (r, y)" and "v2_userOnError x \<noteq> OE_wrapper"
  shows "m_state (v2_base y) = m_state (v2_base x)" "m_stopRequested (v2_base y) = m_stopRequested (v2_base x)"
    "v2_io y = v2_io x" "v2_ioThreads y = v2_ioThreads x" "v2_on_error y = v2_on_error x"
    "v2_userOnError y = v2_userOnError x" "asio_next y = asio_next x" "asio_posted y = asio_posted x"
    "asio_stopped y = asio_stopped x" "v2_startResolved y = v2_startResolved x"
  using v2_call_keeps [OF assms] by auto

text \<open>While a thread is in \<open>runIo\<close> the context is there and the user's handler is put aside, so that the lambda
  calls it.\<close>

lemma vt_active:
  assumes "vt_context_inv s" and "vt_thread_inv s" and "vt_io s k \<noteq> Vi_none" and "vt_io s k \<noteq> Vi_done"
  shows "v2_userOnError (vt_obj s) \<noteq> OE_wrapper" and "v2_io (vt_obj s) = Some (vt_context s)"
    and "\<not> vt_before (vt_worker s)"
proof -
  show b: "\<not> vt_before (vt_worker s)" using assms(2,3) unfolding vt_thread_inv_def by metis
  have q: "\<not> vt_quiet s" using assms(3,4) unfolding vt_quiet_def by blast
  have i: "v2_io (vt_obj s) \<noteq> None"
    using assms(1,2) q unfolding vt_thread_inv_def vt_context_inv_def by (metis option.distinct(1))
  moreover have "v2_io (vt_obj s) \<in> {None, Some (vt_context s)}" using assms(1) unfolding vt_context_inv_def by blast
  ultimately show "v2_io (vt_obj s) = Some (vt_context s)" by auto
  show "v2_userOnError (vt_obj s) \<noteq> OE_wrapper" using assms(1) i unfolding vt_context_inv_def by metis
qed

lemma vt_state_runs:
  assumes "vt_runs proto k s t" and "vt_context_inv s" and "vt_thread_inv s" and "vt_state_inv s"
  shows "vt_state_inv t"
  using assms(1)
proof cases
  case (vi_reports io now request code message thrown obj)
  have "v2_userOnError (vt_obj s) \<noteq> OE_wrapper" using vt_active [OF assms(2,3), of k] vi_reports(2) by simp
  from vt_call_state(1) [OF vi_reports(4) this] show ?thesis using assms(4) vi_reports(1) by (simp add: vt_state_inv_def)
next
  case (vi_task io task)
  then show ?thesis using assms(4) by (auto simp: vt_state_inv_def split: io_task.split)
next
  case (vi_stop st st' u)
  then show ?thesis using assms(4) vt_trigger_fields [OF vi_stop(3)] by (simp add: vt_state_inv_def)
qed (use assms(4) in \<open>auto simp: vt_state_inv_def vt_step_defs split: if_splits\<close>)

lemma vt_state_others: "vt_others proto s t \<Longrightarrow> vt_state_inv s \<Longrightarrow> vt_state_inv t"
proof (induction rule: vt_others.induct)
  case (vt_stopper s j st st' t)
  then show ?case using vt_trigger_fields [OF vt_stopper(2)] by (simp add: vt_state_inv_def)
qed (auto simp: vt_state_inv_def vt_step_defs split: if_splits)

subsection \<open>The context\<close>

lemma vt_context_works:
  assumes "vt_works proto s t" and "vt_context_inv s" and "vt_thread_inv s"
  shows "vt_context_inv t"
  using assms(1)
proof cases
  case (vt_preRun_ok ok obj)
  then show ?thesis using assms(2) by (auto simp: vt_context_inv_def vt_context_def)
next
  case (vt_spawns io obj)
  then obtain n where "obj = (vt_obj s)\<lparr>v2_ioThreads := n\<rparr>" using v2_spawn_threads by blast
  then show ?thesis using assms(2) vt_spawns(1,2) by (auto simp: vt_context_inv_def vt_context_def)
next
  case (vt_spawn_throws io n e e' obj)
  then obtain m where "obj = (vt_obj s)\<lparr>v2_ioThreads := m\<rparr>" using v2_spawn_threads by blast
  then show ?thesis using assms(2) vt_spawn_throws(1,2) by (auto simp: vt_context_inv_def vt_context_def)
next
  case vt_process
  then show ?thesis using assms(2) by (auto simp: vt_context_inv_def vt_context_def v2_ioContext_def)
qed (use assms(2) in \<open>auto simp: vt_context_inv_def vt_context_def\<close>)

lemma vt_runs_active: "vt_runs proto k s t \<Longrightarrow> vt_io s k \<noteq> Vi_none \<and> vt_io s k \<noteq> Vi_done"
  by (erule vt_runs.cases) simp_all

lemma vt_context_runs:
  assumes "vt_runs proto k s t" and c: "vt_context_inv s" and "vt_thread_inv s"
  shows "vt_context_inv t"
proof -
  have np: "vt_worker s \<noteq> Vw_preRun" using vt_active(3) [OF assms(2,3), of k] vt_runs_active [OF assms(1)] by auto
  have ck: "vi_context (vt_io s k) \<in> {None, Some (vt_context s)}" using c unfolding vt_context_inv_def by blast
  show ?thesis using assms(1)
proof cases
  case (vi_task io task)
  then show ?thesis using c np by (auto simp: vt_context_inv_def vt_context_def split: io_task.split)
next
  case (vi_reports io now request code message thrown obj)
  have "v2_userOnError (vt_obj s) \<noteq> OE_wrapper" using vt_active [OF assms(2,3), of k] vi_reports(2) by simp
  note e = vt_call_state [OF vi_reports(4) this]
  have "vi_context (case thrown of None \<Rightarrow> Vi_run io | Some e \<Rightarrow> Vi_threw io e) = Some io"
    by (simp split: option.split)
  moreover have "vi_context (vt_io s k) = Some io" using vi_reports(2) by simp
  then have "io = vt_context s" using c unfolding vt_context_inv_def by (metis insertE option.distinct(1) option.inject singletonD)
  moreover have "vt_worker s \<noteq> Vw_preRun" using vt_active(3) [OF assms(2,3), of k] vi_reports(2) by auto
  ultimately show ?thesis using c e unfolding vi_reports(1) by (simp add: vt_context_inv_def vt_context_def)
next
  case (vi_stop st st' u)
  have io: "v2_io (vt_obj s) = Some (vt_context s)" using vt_active(2) [OF assms(2,3), of k] vi_stop(2) by simp
  note f = vt_trigger_fields [OF vi_stop(3)]
  have "vt_worker s \<noteq> Vw_preRun" using vt_active(3) [OF assms(2,3), of k] vi_stop(2) by auto
  moreover have "vs_context st \<in> {None, Some (vt_context s)}"
  proof -
    have "vi_context (Vi_stop st) = vs_context st" by (cases st) simp_all
    then show ?thesis using c vi_stop(2) unfolding vt_context_inv_def by metis
  qed
  from vt_trigger_context(1) [OF vi_stop(3) _ this] io have "vs_context st' \<in> {None, Some (vt_context s)}" by simp
  moreover have "vi_context (Vi_stop st') = vs_context st'" by (cases st') simp_all
  ultimately show ?thesis using c f unfolding vi_stop(1) by (simp add: vt_context_inv_def vt_context_def)
qed (use c np ck in \<open>auto simp: vt_context_inv_def vt_context_def split: if_splits\<close>)
qed

lemma vt_context_others:
  assumes "vt_others proto s t" and c: "vt_context_inv s"
  shows "vt_context_inv t"
  using assms(1)
proof cases
  case (vt_stopper j st st' u)
  note f = vt_trigger_fields [OF vt_stopper(3)]
  have v: "v2_io (vt_obj s) \<in> {None, Some (vt_context s)}" "vs_context st \<in> {None, Some (vt_context s)}"
    using c vt_stopper(2) unfolding vt_context_inv_def by metis+
  note g = vt_trigger_context [OF vt_stopper(3) v]
  have "asio_posted (vt_obj u) (asio_next (vt_obj s)) = asio_posted (vt_obj s) (asio_next (vt_obj s))"
    if "vt_worker s = Vw_preRun"
    using g(3) [of "asio_next (vt_obj s)"] that c vt_stopper(2) unfolding vt_context_inv_def by fastforce
  moreover have "vs_context st' = None" if "vt_worker s = Vw_preRun"
    using g(2) that c vt_stopper(2) by (auto simp: vt_context_inv_def)
  ultimately show ?thesis using c f g(1) unfolding vt_stopper(1) by (simp add: vt_context_inv_def vt_context_def)
qed (use c in \<open>auto simp: vt_context_inv_def vt_context_def split: if_splits\<close>)

subsection \<open>The threads\<close>

lemma vt_thread_works:
  assumes "vt_works proto s t" and "vt_context_inv s" and "vt_thread_inv s"
  shows "vt_thread_inv t"
  using assms(1)
proof cases
  case (vt_spawns io obj)
  then obtain n where "obj = (vt_obj s)\<lparr>v2_ioThreads := n\<rparr>" using v2_spawn_threads by blast
  then show ?thesis using assms(3) vt_spawns(1,2) by (auto simp: vt_thread_inv_def)
next
  case (vt_spawn_throws io n e e' obj)
  then obtain m where "obj = (vt_obj s)\<lparr>v2_ioThreads := m\<rparr>" using v2_spawn_threads by blast
  then show ?thesis using assms(3) vt_spawn_throws(1,2) by (auto simp: vt_thread_inv_def)
next
  case vt_process
  then show ?thesis using assms(2,3) by (auto simp: vt_context_inv_def vt_thread_inv_def v2_ioContext_def)
next
  case (vt_joins n)
  have "vt_io s k \<in> {Vi_none, Vi_done}" for k
  proof (cases "k = 0 \<or> n < k")
    case True
    then show ?thesis using assms(3) vt_joins(2) by (auto simp: vt_thread_inv_def)
  next
    case False
    then show ?thesis using vt_joins(3) by simp
  qed
  then show ?thesis using assms(3) vt_joins(1,2) by (simp add: vt_thread_inv_def vt_quiet_def)
next
  case vt_resets
  then show ?thesis using assms(2,3) by (simp add: vt_thread_inv_def vt_quiet_def vt_context_inv_def)
next
  case (vt_runner_catch e)
  then show ?thesis using assms(2) by (simp add: vt_thread_inv_def vt_context_inv_def)
qed (use assms(2,3) in \<open>auto simp: vt_thread_inv_def vt_quiet_def vt_context_inv_def\<close>)

lemma vt_thread_runs:
  assumes "vt_runs proto k s t" and "vt_context_inv s" and "vt_thread_inv s"
  shows "vt_thread_inv t"
proof -
  note a = vt_runs_active [OF assms(1)]
  have np: "\<not> vt_before (vt_worker s)" "v2_io (vt_obj s) = Some (vt_context s)"
    using vt_active [OF assms(2,3), of k] a by auto
  have nq: "\<not> vt_quiet s" using a by (auto simp: vt_quiet_def)
  have i: "vt_io t = (vt_io s)(k := vt_io t k) \<and> vt_io t k \<noteq> Vi_none \<and> vt_worker t = vt_worker s
      \<and> v2_io (vt_obj t) = v2_io (vt_obj s) \<and> v2_ioThreads (vt_obj t) = v2_ioThreads (vt_obj s)"
    using assms(1)
  proof cases
    case (vi_reports io now request code message thrown obj)
    have "v2_userOnError (vt_obj s) \<noteq> OE_wrapper" using vt_active [OF assms(2,3), of k] a by simp
    from vt_call_state [OF vi_reports(4) this] show ?thesis unfolding vi_reports(1) by (simp split: option.split)
  next
    case (vi_stop st st' u)
    from vt_trigger_fields [OF vi_stop(3)] show ?thesis unfolding vi_stop(1) by simp
  next
    case (vi_task io task)
    then show ?thesis by (auto split: io_task.split)
  qed auto
  have "vt_io t l = Vi_none \<longleftrightarrow> vt_io s l = Vi_none" for l using i a by (metis fun_upd_apply)
  moreover have "vt_io s 0 = Vi_done \<Longrightarrow> vt_io t 0 = Vi_done" using i a by (metis fun_upd_apply)
  ultimately show ?thesis using assms(3) np nq i unfolding vt_thread_inv_def by (simp del: vt_before.simps vt_inside.simps)
qed

lemma vt_thread_others:
  assumes "vt_others proto s t" and "vt_thread_inv s"
  shows "vt_thread_inv t"
  using assms(1)
proof cases
  case (vt_stopper j st st' u)
  from vt_trigger_fields [OF vt_stopper(3)] show ?thesis
    using assms(2) unfolding vt_stopper(1) by (simp add: vt_thread_inv_def vt_quiet_def)
qed (use assms(2) in \<open>auto simp: vt_thread_inv_def vt_quiet_def\<close>)

subsection \<open>The stop\<close>

lemma vt_stop_works:
  assumes "vt_works proto s t" and "vt_stop_inv s" and "vt_context_inv s" and "vt_thread_inv s"
  shows "vt_stop_inv t"
  using assms(1)
proof cases
  case (vt_spawns io obj)
  then obtain n where "obj = (vt_obj s)\<lparr>v2_ioThreads := n\<rparr>" using v2_spawn_threads by blast
  moreover have "vt_io s k = Vi_none" for k using assms(4) vt_spawns(2) by (simp add: vt_thread_inv_def)
  ultimately show ?thesis using assms(2) vt_spawns(1,2)
    by (auto simp: vt_stop_inv_def vt_coming_def vt_flag_def vt_context_def)
next
  case (vt_check_go)
  then show ?thesis by (simp add: vt_stop_inv_def vt_step_defs)
next
  case vt_process
  then show ?thesis using assms(2,3)
    by (auto simp: vt_stop_inv_def vt_coming_def vt_flag_def vt_context_def vt_context_inv_def v2_ioContext_def)
qed (use assms(2) in \<open>auto simp: vt_stop_inv_def vt_coming_def vt_step_defs vt_context_def\<close>)

text \<open>That the context is stopped, or will be.\<close>

definition vt_ends :: "'a http_server_v2_scheme vt_sys \<Rightarrow> bool" where
  "vt_ends s \<longleftrightarrow> asio_stopped (vt_obj s) (vt_context s)
     \<or> Task_context_stop (vt_context s) \<in> set (asio_posted (vt_obj s) (vt_context s)) \<or> vt_coming s"

lemma vt_stop_ends: "vt_stop_inv s \<longleftrightarrow> (vt_flag s \<and> vt_serving (vt_worker s) \<longrightarrow> vt_ends s)"
  by (simp add: vt_stop_inv_def vt_ends_def)

text \<open>A thread of the context that is not in \<open>stopTriggered\<close> moves.\<close>

lemma vt_ends_keep:
  assumes "vt_ends s" and "vt_context t = vt_context s" and "vt_stoppers t = vt_stoppers s"
    and "vt_io t = (vt_io s)(k := v)" and "\<forall>st. vt_io s k \<noteq> Vi_stop st"
    and "asio_stopped (vt_obj s) (vt_context s) \<longrightarrow> asio_stopped (vt_obj t) (vt_context s)"
    and "Task_context_stop (vt_context s) \<in> set (asio_posted (vt_obj s) (vt_context s)) \<longrightarrow>
      Task_context_stop (vt_context s) \<in> set (asio_posted (vt_obj t) (vt_context s))
      \<or> asio_stopped (vt_obj t) (vt_context s)"
  shows "vt_ends t"
proof -
  have "vt_coming s \<Longrightarrow> vt_coming t"
    using assms(5) vt_coming_moves [of "vt_io s" "Vi_stop ` vs_posting (vt_context s)" k v]
    unfolding vt_coming_def assms(2-4) by blast
  then show ?thesis using assms(1,6,7) unfolding vt_ends_def assms(2) by blast
qed

lemma vt_ends_trigger:
  assumes "vt_ends s" and "vt_trigger proto st s = (st', u)" and "v2_io (vt_obj s) = Some (vt_context s)"
    and t: "vt_obj t = vt_obj u"
    and "(\<exists>j. vt_stoppers s j = st \<and> vt_stoppers t = (vt_stoppers s)(j := st') \<and> vt_io t = vt_io s)
       \<or> (\<exists>k. vt_io s k = Vi_stop st \<and> vt_io t = (vt_io s)(k := if st' = Vs_over then Vi_done else Vi_stop st')
            \<and> vt_stoppers t = vt_stoppers s)"
  shows "vt_ends t"
proof -
  have c: "vt_context t = vt_context s" using vt_trigger_fields(12) [OF assms(2)] t by (simp add: vt_context_def)
  have st: "asio_stopped (vt_obj t) = asio_stopped (vt_obj s)" using vt_trigger_fields(13) [OF assms(2)] t by simp
  have po: "set (asio_posted (vt_obj s) (vt_context s)) \<subseteq> set (asio_posted (vt_obj t) (vt_context s))"
    using vt_trigger_posted [OF assms(2)] t by simp
  note vt_trigger_posts [OF assms(2,3)]
  then have p: "st \<notin> vs_posting (vt_context s) \<or> st' \<in> vs_posting (vt_context s)
      \<or> Task_context_stop (vt_context s) \<in> set (asio_posted (vt_obj t) (vt_context s))"
    using t by auto
  have over: "Vs_over \<notin> vs_posting (vt_context s)" by (simp add: vs_posting_def)
  have "vt_coming s \<Longrightarrow> vt_coming t \<or> Task_context_stop (vt_context s) \<in> set (asio_posted (vt_obj t) (vt_context s))"
  proof -
    assume co: "vt_coming s"
    show ?thesis
    proof (cases "Task_context_stop (vt_context s) \<in> set (asio_posted (vt_obj t) (vt_context s))")
      case False
      then have p': "st \<notin> vs_posting (vt_context s) \<or> st' \<in> vs_posting (vt_context s)" using p by blast
      from assms(5) have "vt_coming t"
      proof (elim disjE exE conjE)
        fix j
        assume j: "vt_stoppers s j = st" "vt_stoppers t = (vt_stoppers s)(j := st')" "vt_io t = vt_io s"
        then show ?thesis
          using co p' vt_coming_moves [of "vt_stoppers s" "vs_posting (vt_context s)" j st']
          unfolding vt_coming_def c by metis
      next
        fix k
        assume k: "vt_io s k = Vi_stop st" "vt_stoppers t = vt_stoppers s"
          "vt_io t = (vt_io s)(k := if st' = Vs_over then Vi_done else Vi_stop st')"
        have "vt_io s k \<notin> Vi_stop ` vs_posting (vt_context s)
            \<or> (if st' = Vs_over then Vi_done else Vi_stop st') \<in> Vi_stop ` vs_posting (vt_context s)"
          using p' over k(1) by auto
        from vt_coming_moves [of "vt_io s" "Vi_stop ` vs_posting (vt_context s)" k, OF _ this]
        show ?thesis using co unfolding vt_coming_def c k(2,3) by blast
      qed
      then show ?thesis ..
    qed simp
  qed
  then show ?thesis using assms(1) st po unfolding vt_ends_def c by auto
qed

lemma vt_ends_runs:
  assumes "vt_runs proto k s t" and "vt_context_inv s" and "vt_thread_inv s" and "vt_ends s"
  shows "vt_ends t"
proof -
  note a = vt_runs_active [OF assms(1)]
  have io: "v2_io (vt_obj s) = Some (vt_context s)" using vt_active(2) [OF assms(2,3), of k] a by simp
  have u: "v2_userOnError (vt_obj s) \<noteq> OE_wrapper" using vt_active(1) [OF assms(2,3), of k] a by simp
  show ?thesis using assms(1)
  proof cases
    case (vi_task c task)
    have "c = vt_context s" using assms(2) vi_task(2) unfolding vt_context_inv_def
      by (metis insertE option.distinct(1) option.inject singletonD vi_context.simps(1))
    with vi_task show ?thesis
      by (intro vt_ends_keep [OF assms(4), where k = k and v = "vt_io s k"])
        (auto simp: vt_context_def in_set_remove1 split: io_task.split)
  next
    case (vi_reports c now request code message thrown obj)
    have "\<forall>st. vt_io s k \<noteq> Vi_stop st" using vi_reports(2) by simp
    with vt_call_state [OF vi_reports(4) u] show ?thesis unfolding vi_reports(1)
      by (intro vt_ends_keep [OF assms(4), where k = k]) (simp_all add: vt_context_def)
  next
    case (vi_callback c port now)
    then show ?thesis
      by (intro vt_ends_keep [OF assms(4), where k = k and v = "vt_io s k"]) (auto simp: vt_context_def)
  next
    case (vi_stop st st' v)
    show ?thesis unfolding vi_stop(1)
      by (rule vt_ends_trigger [OF assms(4) vi_stop(3) io])
        (use vi_stop(2) vt_trigger_fields [OF vi_stop(3)] in auto)
  next
    case (vi_requestStop trigger b)
    have "\<forall>st. vt_io s k \<noteq> Vi_stop st" using vi_requestStop(2) by simp
    then show ?thesis unfolding vi_requestStop(1)
      by (intro vt_ends_keep [OF assms(4), where k = k]) (simp_all add: vt_context_def)
  qed (intro vt_ends_keep [OF assms(4), where k = k]; simp add: vt_context_def)+
qed

lemma vt_stop_runs:
  assumes "vt_runs proto k s t" and "vt_stop_inv s" and "vt_context_inv s" and "vt_thread_inv s" and "vt_state_inv s"
  shows "vt_stop_inv t"
proof -
  note a = vt_runs_active [OF assms(1)]
  have u: "v2_userOnError (vt_obj s) \<noteq> OE_wrapper" using vt_active(1) [OF assms(3,4), of k] a by simp
  have e: "vt_flag s \<Longrightarrow> vt_serving (vt_worker s) \<Longrightarrow> vt_ends t"
    using assms(2) vt_ends_runs [OF assms(1,3,4)] unfolding vt_stop_ends by blast
  have same: "vt_flag t = vt_flag s \<and> vt_worker t = vt_worker s \<Longrightarrow> vt_stop_inv t"
    using e unfolding vt_stop_ends by metis
  show ?thesis using assms(1)
  proof cases
    case (vi_requestStop trigger b)
    have "trigger \<or> \<not> vt_serving (vt_worker s)"
      using assms(5) vi_requestStop(3) by (auto simp: vt_state_inv_def requestStop_def Let_def split: if_splits)
    moreover have "trigger \<Longrightarrow> vt_coming t"
      using vi_requestStop(1) by (auto simp: vt_coming_def vs_posting_def)
    moreover have "vt_worker t = vt_worker s" using vi_requestStop(1) by simp
    ultimately show ?thesis unfolding vt_stop_ends by (auto simp: vt_ends_def simp del: vt_serving.simps)
  next
    case (vi_reports c now request code message thrown obj)
    from vt_call_state(2) [OF vi_reports(4) u] show ?thesis
      using e unfolding vt_stop_ends vi_reports(1) by (simp add: vt_flag_def del: vt_serving.simps)
  next
    case (vi_stop st st' v)
    from vt_trigger_fields [OF vi_stop(3)] show ?thesis
      using e unfolding vt_stop_ends vi_stop(1) by (simp add: vt_flag_def del: vt_serving.simps)
  next
    case (vi_task c task)
    then show ?thesis using e unfolding vt_stop_ends by (simp add: vt_flag_def del: vt_serving.simps split: io_task.splits)
  qed (rule same, simp add: vt_flag_def)+
qed

lemma vt_stop_others:
  assumes "vt_others proto s t" and "vt_stop_inv s" and c: "vt_context_inv s" and st: "vt_state_inv s"
  shows "vt_stop_inv t"
  using assms(1)
proof cases
  case (vt_requestStop j trigger b)
  have "trigger \<or> \<not> vt_serving (vt_worker s)"
    using st vt_requestStop(3) by (auto simp: vt_state_inv_def requestStop_def Let_def split: if_splits)
  moreover have "trigger \<Longrightarrow> vt_coming t"
    using vt_requestStop(1) by (auto simp: vt_coming_def vs_posting_def)
  moreover have "vt_worker t = vt_worker s" using vt_requestStop(1) by simp
  ultimately show ?thesis unfolding vt_stop_ends by (auto simp: vt_ends_def simp del: vt_serving.simps)
next
  case (vt_stopper j sg sg' u)
  note f = vt_trigger_fields [OF vt_stopper(3)]
  have "vt_ends t" if "vt_flag s" "vt_serving (vt_worker s)"
  proof (rule vt_ends_trigger [OF _ vt_stopper(3)])
    show "vt_ends s" using assms(2) that unfolding vt_stop_ends by blast
    have "vt_inside (vt_worker s)" using that(2) by (cases "vt_worker s") simp_all
    then show "v2_io (vt_obj s) = Some (vt_context s)" using c unfolding vt_context_inv_def by blast
    show "vt_obj t = vt_obj u" by (simp add: vt_stopper(1))
  qed (use vt_stopper(1,2) f in auto)
  then show ?thesis unfolding vt_stop_ends using f by (simp add: vt_stopper(1) vt_flag_def del: vt_serving.simps)
qed (use assms(2) in \<open>simp_all add: vt_stop_inv_def vt_coming_def vt_step_defs vt_context_def\<close>)

subsection \<open>Calls of \<open>stop()\<close> on the spot\<close>

lemma vt_direct_works:
  assumes "vt_works proto s t" and "vt_direct_inv s" and "vt_thread_inv s" and "vt_context_inv s"
  shows "vt_direct_inv t"
  using assms(1)
proof cases
  case (vt_spawns c obj)
  then obtain n where "obj = (vt_obj s)\<lparr>v2_ioThreads := n\<rparr>" using v2_spawn_threads by blast
  then show ?thesis using assms(2,3) vt_spawns(1,2)
    by (auto simp: vt_direct_inv_def vt_flag_def vt_quiet_def vt_thread_inv_def)
next
  case (vt_spawn_throws c n e e' obj)
  then obtain m where "obj = (vt_obj s)\<lparr>v2_ioThreads := m\<rparr>" using v2_spawn_threads by blast
  then show ?thesis using assms(2,3) vt_spawn_throws(1,2)
    by (auto simp: vt_direct_inv_def vt_flag_def vt_quiet_def vt_thread_inv_def)
next
  case vt_process
  then show ?thesis using assms(2) by (auto simp: vt_direct_inv_def vt_flag_def vt_quiet_def split: option.split)
qed (use assms(2) in \<open>auto simp: vt_direct_inv_def vt_step_defs vt_quiet_def\<close>)

lemma vt_direct_runs:
  assumes "vt_runs proto k s t" and "vt_direct_inv s" and "vt_context_inv s" and "vt_thread_inv s"
  shows "vt_direct_inv t"
proof -
  note a = vt_runs_active [OF assms(1)]
  have u: "v2_userOnError (vt_obj s) \<noteq> OE_wrapper" and io: "v2_io (vt_obj s) \<noteq> None"
    using vt_active(1,2) [OF assms(3,4), of k] a by simp_all
  have "\<not> vt_quiet s" using a by (auto simp: vt_quiet_def)
  then have nd: "vt_stoppers s j \<noteq> Vs_direct" for j using assms(2) unfolding vt_direct_inv_def by blast
  show ?thesis using assms(1)
  proof cases
    case (vi_reports c now request code message thrown obj)
    from vt_call_state(2) [OF vi_reports(4) u] show ?thesis
      using assms(2) nd unfolding vi_reports(1) by (auto simp: vt_direct_inv_def vt_flag_def split: option.split)
  next
    case (vi_stop st st' v)
    note f = vt_trigger_fields [OF vi_stop(3)]
    have "st' \<noteq> Vs_direct" using vt_trigger_direct [of proto st s v] vi_stop(3) io by auto
    then show ?thesis using assms(2) nd f vi_stop(2) unfolding vi_stop(1) by (auto simp: vt_direct_inv_def vt_flag_def)
  next
    case (vi_task c task)
    then show ?thesis using assms(2) nd by (simp add: vt_direct_inv_def vt_flag_def split: io_task.split)
  qed (use assms(2) nd in \<open>auto simp: vt_direct_inv_def vt_step_defs split: if_splits\<close>)
qed

lemma vt_direct_others:
  assumes "vt_others proto s t" and "vt_direct_inv s" and "vt_context_inv s" and "vt_thread_inv s"
  shows "vt_direct_inv t"
  using assms(1)
proof cases
  case (vt_stopper j st st' u)
  note f = vt_trigger_fields [OF vt_stopper(3)]
  have "vt_quiet s \<and> \<not> vt_serving (vt_worker s)" if "st' = Vs_direct"
  proof -
    have i: "v2_io (vt_obj s) = None" using vt_trigger_direct [of proto st s u] vt_stopper(3) that by simp
    then have n: "\<not> vt_inside (vt_worker s)" using assms(3) unfolding vt_context_inv_def by (metis option.distinct(1))
    then have "\<not> vt_serving (vt_worker s)" by (cases "vt_worker s") simp_all
    then show ?thesis using i n assms(4) unfolding vt_thread_inv_def by blast
  qed
  moreover have "st' \<noteq> Vs_over \<Longrightarrow> st \<noteq> Vs_over" using vt_stopper(3) by (cases st) auto
  ultimately show ?thesis using assms(2) f vt_stopper(2) unfolding vt_stopper(1)
    by (auto simp: vt_direct_inv_def vt_flag_def vt_quiet_def simp del: vt_serving.simps)
qed (use assms(2) in \<open>auto simp: vt_direct_inv_def vt_step_defs vt_quiet_def split: if_splits\<close>)

subsection \<open>The latch\<close>

lemma vt_latch_runs:
  assumes "vt_runs proto k s t" and "vt_latch_inv s" and "vt_context_inv s" and "vt_thread_inv s"
  shows "vt_latch_inv t"
proof -
  note a = vt_runs_active [OF assms(1)]
  have u: "v2_userOnError (vt_obj s) \<noteq> OE_wrapper" using vt_active(1) [OF assms(3,4), of k] a by simp
  show ?thesis using assms(1)
  proof cases
    case (vi_reports c now request code message thrown obj)
    from vt_call_state(2,10) [OF vi_reports(4) u] show ?thesis
      using assms(2) unfolding vi_reports(1) by (simp add: vt_latch_inv_def vt_flag_def)
  next
    case (vi_stop st st' v)
    from vt_trigger_fields [OF vi_stop(3)] vt_trigger_latch(1) [OF vi_stop(3)] vt_trigger_wakes [OF vi_stop(3)] show ?thesis
      using assms(2) unfolding vi_stop(1) by (auto simp: vt_latch_inv_def vt_flag_def)
  next
    case (vi_task c task)
    then show ?thesis using assms(2) by (auto simp: vt_latch_inv_def vt_flag_def split: io_task.split)
  qed (use assms(2) in \<open>auto simp: vt_latch_inv_def vt_step_defs split: if_splits\<close>)
qed

lemma vt_latch_works:
  assumes "vt_works proto s t" and "vt_latch_inv s"
  shows "vt_latch_inv t"
  using assms(1)
proof cases
  case (vt_spawns c obj)
  then obtain n where "obj = (vt_obj s)\<lparr>v2_ioThreads := n\<rparr>" using v2_spawn_threads by blast
  then show ?thesis using assms(2) vt_spawns(1,2) by (auto simp: vt_latch_inv_def vt_flag_def)
next
  case (vt_spawn_throws c n e e' obj)
  then obtain m where "obj = (vt_obj s)\<lparr>v2_ioThreads := m\<rparr>" using v2_spawn_threads by blast
  then show ?thesis using assms(2) vt_spawn_throws(1,2) by (auto simp: vt_latch_inv_def vt_flag_def)
qed (use assms(2) in \<open>auto simp: vt_latch_inv_def vt_step_defs split: option.split\<close>)

lemma vt_latch_others:
  assumes "vt_others proto s t" and "vt_latch_inv s"
  shows "vt_latch_inv t"
  using assms(1)
proof cases
  case (vt_stopper j st st' u)
  from vt_trigger_fields [OF vt_stopper(3)] vt_trigger_latch(1) [OF vt_stopper(3)] vt_trigger_wakes [OF vt_stopper(3)] show ?thesis
    using assms(2) unfolding vt_stopper(1) by (auto simp: vt_latch_inv_def vt_flag_def)
qed (use assms(2) in \<open>auto simp: vt_latch_inv_def vt_step_defs split: if_splits\<close>)

subsection \<open>Every reachable state\<close>

definition vt_inv :: "'a http_server_v2_scheme vt_sys \<Rightarrow> bool" where
  "vt_inv s \<longleftrightarrow> vt_state_inv s \<and> vt_context_inv s \<and> vt_thread_inv s \<and> vt_stop_inv s \<and> vt_direct_inv s \<and> vt_latch_inv s"

lemma vt_inv_step: "vt_step proto s t \<Longrightarrow> vt_inv s \<Longrightarrow> vt_inv t"
  unfolding vt_inv_def
  by (erule vt_step.cases)
    (simp_all add: vt_state_works vt_state_runs vt_state_others vt_context_works vt_context_runs vt_context_others
      vt_thread_works vt_thread_runs vt_thread_others vt_stop_works vt_stop_runs vt_stop_others
      vt_direct_works vt_direct_runs vt_direct_others vt_latch_works vt_latch_runs vt_latch_others)

lemma vt_inv_init:
  assumes "vt_fresh s" and "startThread_locked (Some t) (joinFinishedThread (v2_base s)) = Created b"
  shows "vt_inv (vt_init b s)"
proof -
  have b: "m_state b = St_Starting" "\<not> m_stopRequested b"
    using assms(2) by (auto simp: startThread_locked_def Let_def setState_def split: if_splits option.splits)
  show ?thesis using assms(1) b
    by (simp add: vt_inv_def vt_init_def vt_fresh_def vt_state_inv_def vt_context_inv_def vt_thread_inv_def vt_stop_inv_def
        vt_direct_inv_def vt_latch_inv_def vt_flag_def vt_quiet_def v2_resetStartState_def)
qed

lemma vt_reachable_inv: "vt_reachable proto s \<Longrightarrow> vt_inv s"
  by (induction rule: vt_reachable.induct) (blast intro: vt_inv_init vt_inv_step)+

section \<open>The end of a stop\<close>

text \<open>Where the worker is once all the threads have been made.\<close>

fun vt_waits :: "vt_worker \<Rightarrow> bool" where
  "vt_waits pc \<longleftrightarrow> (case pc of Vw_io \<Rightarrow> True | Vw_take \<Rightarrow> True | Vw_join n \<Rightarrow> True | Vw_resolve \<Rightarrow> True | Vw_reset \<Rightarrow> True
     | _ \<Rightarrow> False)"

text \<open>How many steps of its own a thread has left, at most, when the context is stopped.\<close>

fun vs_rank :: "vt_stop \<Rightarrow> nat" where
  "vs_rank Vs_context = 6"
| "vs_rank (Vs_post_server c) = 5"
| "vs_rank (Vs_post_stop c) = 4"
| "vs_rank Vs_resolve = 3"
| "vs_rank Vs_direct = 2"
| "vs_rank Vs_over = 1"

fun vi_rank :: "vt_io \<Rightarrow> nat" where
  "vi_rank Vi_none = 0"
| "vi_rank Vi_done = 0"
| "vi_rank (Vi_run c) = 1"
| "vi_rank (Vi_stop st) = vs_rank st"
| "vi_rank Vi_requestStop = 7"
| "vi_rank (Vi_stop_context c) = 8"
| "vi_rank (Vi_threw c e) = 9"

fun vw_rank :: "vt_worker \<Rightarrow> nat" where
  "vw_rank pc = (case pc of Vw_io \<Rightarrow> 6 | Vw_take \<Rightarrow> 5 | Vw_join n \<Rightarrow> 4 | Vw_resolve \<Rightarrow> 3 | Vw_reset \<Rightarrow> 2
     | Vw_setStopped e \<Rightarrow> 1 | _ \<Rightarrow> 0)"

definition vt_active_threads :: "'s vt_sys \<Rightarrow> nat set" where
  "vt_active_threads s = {k. vt_io s k \<notin> {Vi_none, Vi_done}}"

definition vt_left :: "'s vt_sys \<Rightarrow> nat" where
  "vt_left s = vw_rank (vt_worker s) + (\<Sum>k \<in> vt_active_threads s. vi_rank (vt_io s k))"

lemma vt_active_finite:
  assumes "vt_thread_inv s" and "vt_waits (vt_worker s)"
  shows "finite (vt_active_threads s)"
proof -
  have "\<exists>n. \<forall>k. vt_io s k \<in> {Vi_none, Vi_done} \<or> k \<le> n"
    using assms unfolding vt_thread_inv_def vt_quiet_def
    by (cases "vt_worker s") (simp_all, (metis not_le)+)
  then obtain n where "vt_active_threads s \<subseteq> {..n}" unfolding vt_active_threads_def by blast
  then show ?thesis using finite_subset by blast
qed

text \<open>One thread moves to a place with a smaller rank.\<close>

lemma vt_left_turn:
  assumes "finite (vt_active_threads s)" and "k \<in> vt_active_threads s" and "vt_worker t = vt_worker s"
    and "vt_io t = (vt_io s)(k := v)" and "vi_rank v < vi_rank (vt_io s k)"
  shows "vt_left t < vt_left s"
proof -
  have "vt_active_threads t \<subseteq> vt_active_threads s" using assms(2,4) by (auto simp: vt_active_threads_def)
  moreover have "vi_rank (vt_io t j) = 0" if "j \<notin> vt_active_threads t" for j
    using that by (auto simp: vt_active_threads_def)
  ultimately have "(\<Sum>j \<in> vt_active_threads t. vi_rank (vt_io t j)) = (\<Sum>j \<in> vt_active_threads s. vi_rank (vt_io t j))"
    using assms(1) by (intro sum.mono_neutral_left) auto
  also have "\<dots> < (\<Sum>j \<in> vt_active_threads s. vi_rank (vt_io s j))"
    using assms(1,2,4,5) by (intro sum_strict_mono_ex1) auto
  finally show ?thesis using assms(3) by (simp add: vt_left_def)
qed

lemma vs_rank_trigger: "vt_trigger proto st s = (st', t) \<Longrightarrow> st \<noteq> Vs_over \<Longrightarrow> vs_rank st' < vs_rank st"
  by (cases st) (auto split: option.splits)

lemma vt_left_runs:
  assumes "vt_runs proto k s t" and "vt_inv s" and "vt_waits (vt_worker s)" and "v2_io (vt_obj s) = Some io"
    and "asio_stopped (vt_obj s) io"
  shows "vt_left t < vt_left s \<and> vt_worker t = vt_worker s \<and> asio_stopped (vt_obj t) io"
proof -
  have i: "vt_context_inv s" "vt_thread_inv s" using assms(2) by (simp_all add: vt_inv_def)
  have c: "c = io" if "vt_io s k = Vi_run c" for c
    using i(1) assms(4) that unfolding vt_context_inv_def
    by (metis insertE option.distinct(1) option.inject singletonD vi_context.simps(1))
  have k: "k \<in> vt_active_threads s" using vt_runs_active [OF assms(1)] by (simp add: vt_active_threads_def)
  note turn = vt_left_turn [OF vt_active_finite [OF i(2) assms(3)] k]
  show ?thesis using assms(1)
  proof cases
    case (vi_stop st st' u)
    note f = vt_trigger_fields [OF vi_stop(3)] and r = vs_rank_trigger [OF vi_stop(3)]
    have "vs_rank st > 0" by (cases st) simp_all
    then have "vi_rank (if st' = Vs_over then Vi_done else Vi_stop st') < vi_rank (vt_io s k)"
      using r vi_stop(2,3) by (cases "st = Vs_over") auto
    then have "vt_left t < vt_left s" by (rule turn [rotated 2]) (simp_all add: vi_stop(1) f)
    then show ?thesis using assms(5) f by (simp add: vi_stop(1))
  next
    case (vi_requestStop trigger b)
    have "vt_left t < vt_left s"
      by (rule turn [where v = "if trigger then Vi_stop Vs_context else Vi_done"]) (simp_all add: vi_requestStop(1,2))
    then show ?thesis using assms(5) by (simp add: vi_requestStop(1))
  qed (use c assms(5) in \<open>auto intro!: turn\<close>)
qed

lemma vt_left_works:
  assumes "vt_works proto s t" and "vt_waits (vt_worker s)"
  shows "vt_left t < vt_left s \<and> asio_stopped (vt_obj t) = asio_stopped (vt_obj s)
     \<and> (vt_waits (vt_worker t) \<or> vt_worker t = Vw_setStopped True)"
  using assms by cases (simp_all add: vt_left_def vt_active_threads_def)

lemma vt_left_others:
  assumes "vt_others proto s t"
  shows "vt_left t = vt_left s \<and> vt_worker t = vt_worker s \<and> asio_stopped (vt_obj t) = asio_stopped (vt_obj s)"
  using assms
proof cases
  case (vt_stopper j st st' u)
  from vt_trigger_fields [OF vt_stopper(3)] show ?thesis
    by (simp add: vt_stopper(1) vt_left_def vt_active_threads_def)
qed (simp_all add: vt_left_def vt_active_threads_def)

text \<open>With the context stopped, no thread in \<open>runIo\<close> waits for anything, and the worker only for them.\<close>

lemma vt_runs_can:
  assumes "k \<in> vt_active_threads s" and "\<And>c. vt_io s k = Vi_run c \<Longrightarrow> asio_stopped (vt_obj s) c"
  shows "\<exists>t. vt_runs proto k s t"
proof (cases "vt_io s k")
  case Vi_requestStop
  then show ?thesis by (metis vt_runs.vi_requestStop surj_pair)
next
  case (Vi_stop st)
  then show ?thesis by (metis vt_runs.vi_stop surj_pair)
qed (use assms in \<open>auto simp: vt_active_threads_def intro: vt_runs.intros\<close>)

lemma vt_works_can:
  assumes "vt_thread_inv s" and "vt_waits (vt_worker s)" and "vt_active_threads s = {}"
  shows "\<exists>t. vt_works proto s t"
proof -
  have d: "vt_io s k = Vi_none \<or> vt_io s k = Vi_done" for k using assms(3) by (auto simp: vt_active_threads_def)
  show ?thesis
  proof (cases "vt_worker s")
    case Vw_io
    then have "vt_io s 0 \<noteq> Vi_none" using assms(1) by (simp add: vt_thread_inv_def)
    then show ?thesis using Vw_io d vt_own_done by blast
  next
    case (Vw_join n)
    then have "\<forall>k \<in> {1..n}. vt_io s k \<noteq> Vi_none" using assms(1) by (simp add: vt_thread_inv_def)
    then show ?thesis using Vw_join d vt_joins by blast
  qed (use assms(2) in \<open>auto intro: vt_works.intros\<close>)
qed

section \<open>The properties\<close>

text \<open>C17: A stop gets to the context. When a stop has been requested while the server runs or is about to, the context
  is stopped, or the task that stops it has been posted, or a thread is on its way to post it. Every thread in
  \<open>run()\<close> is in that context: once it is stopped the thread's next step ends its \<open>run()\<close>, and until then, when the
  task has been posted, the thread can take it.\<close>

theorem v2_stop_reaches_context:
  assumes "vt_reachable proto s" and "stopRequested (v2_base (vt_obj s))" and "vt_serving (vt_worker s)"
  shows "\<exists>io. v2_ioContext (vt_obj s) = Some io
     \<and> (asio_stopped (vt_obj s) io \<or> Task_context_stop io \<in> set (asio_posted (vt_obj s) io)
        \<or> (\<exists>j. vt_stoppers s j \<in> vs_posting io) \<or> (\<exists>k. vt_io s k \<in> Vi_stop ` vs_posting io))
     \<and> (\<forall>k c. vt_io s k = Vi_run c \<longrightarrow> c = io
          \<and> (asio_stopped (vt_obj s) io \<longrightarrow> (\<forall>t. vt_runs proto k s t \<longrightarrow> vt_io t k = Vi_done))
          \<and> (\<not> asio_stopped (vt_obj s) io \<and> Task_context_stop io \<in> set (asio_posted (vt_obj s) io) \<longrightarrow>
               (\<exists>t. vt_runs proto k s t \<and> asio_stopped (vt_obj t) io)))"
proof -
  have inv: "vt_inv s" by (rule vt_reachable_inv [OF assms(1)])
  then have c: "vt_context_inv s" and st: "vt_stop_inv s" by (simp_all add: vt_inv_def)
  have "vt_inside (vt_worker s)" using assms(3) by (cases "vt_worker s") simp_all
  then have io: "v2_io (vt_obj s) = Some (vt_context s)" using c unfolding vt_context_inv_def by blast
  have run: "d = vt_context s" if "vt_io s k = Vi_run d" for k d
    using c that unfolding vt_context_inv_def
    by (metis insertE option.distinct(1) option.inject singletonD vi_context.simps(1))
  have over: "vt_io t k = Vi_done"
    if "vt_io s k = Vi_run d" "asio_stopped (vt_obj s) (vt_context s)" "vt_runs proto k s t" for k d t
    using that(3) run [OF that(1)] that(1,2) by cases simp_all
  have take: "\<exists>t. vt_runs proto k s t \<and> asio_stopped (vt_obj t) (vt_context s)"
    if "vt_io s k = Vi_run d" "\<not> asio_stopped (vt_obj s) (vt_context s)"
      "Task_context_stop (vt_context s) \<in> set (asio_posted (vt_obj s) (vt_context s))" for k d
    using vi_task [of s k "vt_context s" "Task_context_stop (vt_context s)" proto] that run [OF that(1)] by fastforce
  have f: "vt_flag s" using assms(2) by (simp add: vt_flag_def stopRequested_def)
  show ?thesis
    using st f assms(3) run over take unfolding vt_stop_inv_def vt_coming_def
    by (intro exI [of _ "vt_context s"] conjI) (simp add: v2_ioContext_def io, blast, blast)
qed

text \<open>C18: Once the context is stopped and the threads have been made, \<open>run\<close> comes to its end: every further step of
  the worker and of the threads in \<open>runIo\<close>, those that were thrown out of \<open>run()\<close> and stop the server themselves
  included, makes \<open>vt_left\<close> smaller, no step of anybody else makes it larger, the context stays stopped, and until
  the worker has left \<open>run\<close> one of them has a step to take.\<close>

theorem v2_stopped_run_ends:
  assumes "vt_reachable proto s" and "v2_ioContext (vt_obj s) = Some io" and "asio_stopped (vt_obj s) io"
    and "vt_waits (vt_worker s)"
  shows "(\<forall>t. vt_works proto s t \<or> (\<exists>k. vt_runs proto k s t) \<longrightarrow> vt_left t < vt_left s)
     \<and> (\<forall>t. vt_others proto s t \<longrightarrow> vt_left t = vt_left s)
     \<and> (\<forall>t. vt_step proto s t \<longrightarrow>
          asio_stopped (vt_obj t) io \<and> (vt_waits (vt_worker t) \<or> vt_worker t = Vw_setStopped True))
     \<and> (\<exists>t. vt_works proto s t \<or> (\<exists>k. vt_runs proto k s t))"
proof (intro conjI)
  have inv: "vt_inv s" by (rule vt_reachable_inv [OF assms(1)])
  then have c: "vt_context_inv s" and i: "vt_thread_inv s" by (simp_all add: vt_inv_def)
  have io: "v2_io (vt_obj s) = Some io" using assms(2) by (simp add: v2_ioContext_def)
  note runs = vt_left_runs [OF _ inv assms(4) io assms(3)] and works = vt_left_works [OF _ assms(4)]
  show "\<forall>t. vt_works proto s t \<or> (\<exists>k. vt_runs proto k s t) \<longrightarrow> vt_left t < vt_left s" using runs works by blast
  show "\<forall>t. vt_others proto s t \<longrightarrow> vt_left t = vt_left s" using vt_left_others by blast
  show "\<forall>t. vt_step proto s t \<longrightarrow>
      asio_stopped (vt_obj t) io \<and> (vt_waits (vt_worker t) \<or> vt_worker t = Vw_setStopped True)"
    using runs works vt_left_others assms(3,4) by (metis vt_step.cases)
  have "asio_stopped (vt_obj s) d" if "vt_io s k = Vi_run d" for k d
    using c that assms(3) io unfolding vt_context_inv_def
    by (metis insertE option.distinct(1) option.inject singletonD vi_context.simps(1))
  then show "\<exists>t. vt_works proto s t \<or> (\<exists>k. vt_runs proto k s t)"
    using vt_runs_can vt_works_can [OF i assms(4)] by blast
qed

text \<open>C19: What a start leaves. A thread asleep in \<open>startThread\<close> has a \<open>notify_all\<close> coming as soon as the start is
  resolved; when the worker has ended the start is resolved, unless a stop came before \<open>run\<close>; and an object that
  has given its context back has its own \<open>on_error\<close> again, has no thread left in the context, and has no handle of
  one. \<open>m_server.stop()\<close> is called outside the context only when no thread is in it and none is about to be.\<close>

theorem v2_start_ends:
  assumes "vt_reachable proto s"
  shows "(vt_starter s = Vr_asleep \<and> v2_startResolved (vt_obj s) \<longrightarrow> 0 < vt_notify s)
     \<and> (vt_worker s = Vw_exited entered \<longrightarrow>
          v2_startResolved (vt_obj s) \<or> stopRequested (v2_base (vt_obj s)) \<and> \<not> entered)
     \<and> (vt_worker s = Vw_exited entered \<and> v2_ioContext (vt_obj s) = None \<longrightarrow>
          v2_on_error (vt_obj s) = vt_home s \<and> v2_ioThreads (vt_obj s) = 0 \<and> (\<forall>k. vt_io s k \<in> {Vi_none, Vi_done}))
     \<and> (vt_stoppers s j = Vs_direct \<longrightarrow>
          (\<forall>k. vt_io s k \<in> {Vi_none, Vi_done}) \<and> \<not> vt_serving (vt_worker s))"
proof (intro conjI impI)
  have inv: "vt_inv s" by (rule vt_reachable_inv [OF assms])
  then have l: "vt_latch_inv s" and i: "vt_thread_inv s" by (simp_all add: vt_inv_def)
  show "0 < vt_notify s" if "vt_starter s = Vr_asleep \<and> v2_startResolved (vt_obj s)"
    using l that by (simp add: vt_latch_inv_def)
  show "v2_startResolved (vt_obj s) \<or> stopRequested (v2_base (vt_obj s)) \<and> \<not> entered"
    if "vt_worker s = Vw_exited entered" using l that by (auto simp: vt_latch_inv_def vt_flag_def stopRequested_def)
  assume "vt_worker s = Vw_exited entered \<and> v2_ioContext (vt_obj s) = None"
  then have "vt_quiet s \<and> v2_on_error (vt_obj s) = vt_home s" using i by (simp add: vt_thread_inv_def v2_ioContext_def)
  then show "v2_on_error (vt_obj s) = vt_home s" "v2_ioThreads (vt_obj s) = 0" "\<forall>k. vt_io s k \<in> {Vi_none, Vi_done}"
    unfolding vt_quiet_def by blast+
next
  have d: "vt_direct_inv s" using vt_reachable_inv [OF assms] by (simp add: vt_inv_def)
  assume j: "vt_stoppers s j = Vs_direct"
  show "\<forall>k. vt_io s k \<in> {Vi_none, Vi_done}" using d j unfolding vt_direct_inv_def vt_quiet_def by blast
  show "\<not> vt_serving (vt_worker s)" using d j unfolding vt_direct_inv_def by blast
qed

section \<open>Instances\<close>

text \<open>A server with two threads, started for the first time.\<close>

lemma vt_then:
  assumes "vt_reachable proto s"
  shows "vt_works proto s t \<Longrightarrow> vt_reachable proto t" and "vt_runs proto k s t \<Longrightarrow> vt_reachable proto t"
    and "vt_others proto s t \<Longrightarrow> vt_reachable proto t"
  using assms vt_reach_step vt_step.intros by blast+

lemma vx_started:
  "\<exists>s :: http_server_v2 vt_sys. vt_reachable ''HTTP'' s \<and> vt_worker s = Vw_preRun \<and> vt_io s = (\<lambda>k. Vi_none)
     \<and> vt_stoppers s = (\<lambda>j. Vs_over) \<and> vt_starter s = Vr_test \<and> vt_notify s = 0 \<and> vt_callback s = None
     \<and> v2_io (vt_obj s) = None \<and> asio_next (vt_obj s) = 0 \<and> asio_posted (vt_obj s) = (\<lambda>d. [])
     \<and> asio_stopped (vt_obj s) = (\<lambda>d. False) \<and> v2_ioThreads (vt_obj s) = 0 \<and> v2_ioThreadCount (vt_obj s) = 2
     \<and> m_state (v2_base (vt_obj s)) = St_Starting \<and> \<not> m_stopRequested (v2_base (vt_obj s))
     \<and> \<not> v2_startResolved (vt_obj s)"
proof -
  let ?s = "v2_new ''h'' 80 2 0"
  obtain b where b: "startThread_locked (Some 1) (joinFinishedThread (v2_base ?s)) = Created b"
      and i: "m_state b = St_Starting" "\<not> m_stopRequested b"
    by (simp add: v2_new_def bw_new_def startThread_locked_def joinFinishedThread_def takeFinishedThread_def setState_def
        Let_def)
  have "vt_fresh ?s" by (simp add: vt_fresh_def v2_new_def)
  from vt_reach_init [OF this b, of "''HTTP''"] i show ?thesis
    by (intro exI [of _ "vt_init b ?s"]) (simp add: vt_init_def v2_resetStartState_def v2_new_def)
qed

lemma vx_checks:
  "\<exists>s :: http_server_v2 vt_sys. vt_reachable ''HTTP'' s \<and> vt_worker s = Vw_setRunning \<and> vt_io s = (\<lambda>k. Vi_none)
     \<and> vt_stoppers s = (\<lambda>j. Vs_over) \<and> v2_io (vt_obj s) = Some 0 \<and> asio_posted (vt_obj s) = (\<lambda>d. [])
     \<and> asio_stopped (vt_obj s) = (\<lambda>d. False) \<and> v2_ioThreads (vt_obj s) = 0 \<and> v2_ioThreadCount (vt_obj s) = 2"
proof -
  obtain s :: "http_server_v2 vt_sys" where s: "vt_reachable ''HTTP'' s" "vt_worker s = Vw_preRun" "vt_io s = (\<lambda>k. Vi_none)"
      "vt_stoppers s = (\<lambda>j. Vs_over)" "asio_next (vt_obj s) = 0" "asio_posted (vt_obj s) = (\<lambda>d. [])"
      "asio_stopped (vt_obj s) = (\<lambda>d. False)" "v2_ioThreads (vt_obj s) = 0" "v2_ioThreadCount (vt_obj s) = 2"
      "\<not> m_stopRequested (v2_base (vt_obj s))"
    using vx_started by blast
  obtain obj where o: "v2_preRun ''HTTP'' None (vt_obj s) = (True, obj)"
      and obj: "v2_io obj = Some 0" "asio_posted obj = (\<lambda>d. [])" "asio_stopped obj = (\<lambda>d. False)" "v2_ioThreads obj = 0"
        "v2_ioThreadCount obj = 2" "\<not> m_stopRequested (v2_base obj)"
    using s by (simp add: v2_preRun_def Let_def)
  let ?t = "vt_goto Vw_check (s\<lparr>vt_obj := obj\<rparr>)"
  have t: "vt_reachable ''HTTP'' ?t" by (rule vt_then(1) [OF s(1) vt_preRun_ok [OF s(2) o]])
  have "vt_reachable ''HTTP'' (vt_goto Vw_setRunning ?t)"
    by (rule vt_then(1) [OF t vt_check_go]) (simp_all add: obj stopRequested_def)
  then show ?thesis using s obj by (intro exI [of _ "vt_goto Vw_setRunning ?t"]) simp
qed

lemma vx_serving:
  "\<exists>s :: http_server_v2 vt_sys. vt_reachable ''HTTP'' s \<and> vt_worker s = Vw_io
     \<and> vt_io s = (\<lambda>k. if k \<le> 1 then Vi_run 0 else Vi_none) \<and> vt_stoppers s = (\<lambda>j. Vs_over)
     \<and> v2_io (vt_obj s) = Some 0 \<and> asio_posted (vt_obj s) = (\<lambda>d. []) \<and> asio_stopped (vt_obj s) = (\<lambda>d. False)
     \<and> m_state (v2_base (vt_obj s)) = St_Running"
proof -
  obtain s :: "http_server_v2 vt_sys" where s: "vt_reachable ''HTTP'' s" "vt_worker s = Vw_setRunning"
      "vt_io s = (\<lambda>k. Vi_none)" "vt_stoppers s = (\<lambda>j. Vs_over)" "v2_io (vt_obj s) = Some 0"
      "asio_posted (vt_obj s) = (\<lambda>d. [])" "asio_stopped (vt_obj s) = (\<lambda>d. False)" "v2_ioThreads (vt_obj s) = 0"
      "v2_ioThreadCount (vt_obj s) = 2"
    using vx_checks by blast
  let ?a = "vt_goto Vw_start (vt_base (setState St_Running (v2_base (vt_obj s))) s)"
  let ?b = "vt_goto Vw_process (?a\<lparr>vt_callback := Some 80\<rparr>)"
  have b: "vt_reachable ''HTTP'' ?b"
    by (rule vt_then(1) [OF vt_then(1) [OF s(1) vt_set_running [OF s(2)]] vt_start]) simp
  let ?c = "vt_goto (Vw_spawn 0) ?b"
  have "vt_works ''HTTP'' ?b ?c" using vt_process [of ?b "''HTTP''"] s by (simp add: v2_ioContext_def)
  from vt_then(1) [OF b this] have c: "vt_reachable ''HTTP'' ?c" .
  let ?obj = "(vt_obj ?c)\<lparr>v2_ioThreads := 1\<rparr>"
  have sp: "v2_spawn 1 None (vt_obj ?c) = (None, ?obj)" using s by (simp add: v2_spawn.simps)
  let ?d = "vt_goto Vw_io (?c\<lparr>vt_obj := ?obj, vt_io := (\<lambda>k. if k \<le> v2_ioThreads ?obj then Vi_run 0 else vt_io ?c k)\<rparr>)"
  have "vt_reachable ''HTTP'' ?d" by (rule vt_then(1) [OF c vt_spawns [OF _ sp]]) simp
  then show ?thesis using s by (intro exI [of _ ?d]) (simp add: setState_def cong: if_cong)
qed

text \<open>A stop of the running server, up to the tasks it posts.\<close>

lemma vx_stopping:
  "\<exists>s :: http_server_v2 vt_sys. vt_reachable ''HTTP'' s \<and> vt_worker s = Vw_io
     \<and> vt_io s = (\<lambda>k. if k \<le> 1 then Vi_run 0 else Vi_none) \<and> v2_io (vt_obj s) = Some 0
     \<and> asio_posted (vt_obj s) 0 = [Task_server_stop, Task_context_stop 0] \<and> \<not> asio_stopped (vt_obj s) 0
     \<and> stopRequested (v2_base (vt_obj s))"
proof -
  obtain s :: "http_server_v2 vt_sys" where s: "vt_reachable ''HTTP'' s" "vt_worker s = Vw_io"
      "vt_io s = (\<lambda>k. if k \<le> 1 then Vi_run 0 else Vi_none)" "vt_stoppers s = (\<lambda>j. Vs_over)"
      "v2_io (vt_obj s) = Some 0" "asio_posted (vt_obj s) = (\<lambda>d. [])" "asio_stopped (vt_obj s) = (\<lambda>d. False)"
      "m_state (v2_base (vt_obj s)) = St_Running"
    using vx_serving by blast
  let ?b = "snd (requestStop (v2_base (vt_obj s)))"
  have r: "requestStop (v2_base (vt_obj s)) = (True, ?b)" using s(8) by (simp add: requestStop_def Let_def)
  have f: "stopRequested ?b" by (simp add: requestStop_def stopRequested_def Let_def)
  let ?at = "\<lambda>st t. t\<lparr>vt_stoppers := (vt_stoppers t)(0 := st)\<rparr> :: http_server_v2 vt_sys"
  let ?s1 = "?at Vs_context s" and ?post = "\<lambda>x t. vt_map (asio_post 0 x) t"
  let ?s2 = "vt_base ?b (?at Vs_context s)"
  have 2: "vt_reachable ''HTTP'' ?s2"
    using vt_then(3) [OF s(1) vt_requestStop [where j = 0, OF _ r]] s(4) by simp
  let ?s3 = "?at (Vs_post_server 0) ?s2"
  have 3: "vt_reachable ''HTTP'' ?s3"
    using vt_then(3) [OF 2 vt_stopper [where j = 0, OF refl]] s(5) by (simp add: v2_ioContext_def)
  let ?s4 = "?at (Vs_post_stop 0) (?post Task_server_stop ?s3)"
  have 4: "vt_reachable ''HTTP'' ?s4"
    using vt_then(3) [OF 3 vt_stopper [where j = 0, OF refl]] by simp
  let ?s5 = "?at Vs_resolve (?post (Task_context_stop 0) ?s4)"
  have "vt_reachable ''HTTP'' ?s5"
    using vt_then(3) [OF 4 vt_stopper [where j = 0, OF refl]] by simp
  then show ?thesis using s f by (intro exI [of _ ?s5]) simp
qed

theorem v2_stop_reaches_context_witness:
  "\<exists>s :: http_server_v2 vt_sys. vt_reachable ''HTTP'' s \<and> vt_io s 1 = Vi_run 0 \<and> \<not> asio_stopped (vt_obj s) 0
     \<and> (\<exists>t. vt_runs ''HTTP'' 1 s t \<and> asio_stopped (vt_obj t) 0)"
proof -
  obtain s :: "http_server_v2 vt_sys" where s: "vt_reachable ''HTTP'' s" "vt_worker s = Vw_io" "v2_io (vt_obj s) = Some 0"
      "vt_io s = (\<lambda>k. if k \<le> 1 then Vi_run 0 else Vi_none)" "\<not> asio_stopped (vt_obj s) 0"
      "asio_posted (vt_obj s) 0 = [Task_server_stop, Task_context_stop 0]" "stopRequested (v2_base (vt_obj s))"
    using vx_stopping by blast
  have "vt_serving (vt_worker s)" using s(2) by simp
  from v2_stop_reaches_context [OF s(1,7) this] have "\<exists>t. vt_runs ''HTTP'' 1 s t \<and> asio_stopped (vt_obj t) 0"
    using s(3-6) by (fastforce simp: v2_ioContext_def)
  then show ?thesis using s by (intro exI [of _ s]) simp
qed

theorem v2_stopped_run_ends_witness:
  "\<exists>s :: http_server_v2 vt_sys. vt_reachable ''HTTP'' s \<and> vt_left s = 8
     \<and> (\<forall>t. vt_works ''HTTP'' s t \<or> (\<exists>k. vt_runs ''HTTP'' k s t) \<longrightarrow> vt_left t < 8)
     \<and> (\<exists>t. vt_works ''HTTP'' s t \<or> (\<exists>k. vt_runs ''HTTP'' k s t))"
proof -
  obtain s :: "http_server_v2 vt_sys" where s: "vt_reachable ''HTTP'' s" "vt_worker s = Vw_io" "v2_io (vt_obj s) = Some 0"
      "vt_io s = (\<lambda>k. if k \<le> 1 then Vi_run 0 else Vi_none)" "\<not> asio_stopped (vt_obj s) 0"
      "asio_posted (vt_obj s) 0 = [Task_server_stop, Task_context_stop 0]"
    using vx_stopping by blast
  let ?t = "vt_map (\<lambda>x. (case Task_context_stop 0 of Task_server_stop \<Rightarrow> id | Task_context_stop d \<Rightarrow> asio_stop d)
      (x\<lparr>asio_posted := (asio_posted x)(0 := remove1 (Task_context_stop 0) (asio_posted x 0))\<rparr>)) s"
  have "vt_reachable ''HTTP'' ?t" by (rule vt_then(2) [OF s(1) vi_task [where k = 1]]) (simp_all add: s)
  moreover have "v2_ioContext (vt_obj ?t) = Some 0" using s(3) by (simp add: v2_ioContext_def)
  moreover have "asio_stopped (vt_obj ?t) 0" by simp
  moreover have "vt_waits (vt_worker ?t)" using s(2) by simp
  moreover have "{k. vt_io ?t k \<notin> {Vi_none, Vi_done}} = {0, 1}" using s(4) by auto
  then have "vt_left ?t = 8" using s(2,4) by (simp add: vt_left_def vt_active_threads_def)
  ultimately show ?thesis using v2_stopped_run_ends [of "''HTTP''" ?t 0] by (intro exI [of _ ?t]) simp
qed

text \<open>A stop that comes before \<open>preRun\<close> has made the context: everybody is done, and the thread in
  \<open>startThread\<close> sleeps with no notification on the way.\<close>

lemma vx_unanswered:
  "\<exists>s :: http_server_v2 vt_sys. vt_reachable ''HTTP'' s \<and> vt_worker s = Vw_exited False
     \<and> vt_stoppers s = (\<lambda>j. Vs_over) \<and> vt_io s = (\<lambda>k. Vi_none) \<and> vt_starter s = Vr_asleep \<and> vt_notify s = 0
     \<and> \<not> v2_startResolved (vt_obj s)"
proof -
  obtain s :: "http_server_v2 vt_sys" where s: "vt_reachable ''HTTP'' s" "vt_worker s = Vw_preRun" "vt_io s = (\<lambda>k. Vi_none)"
      "vt_stoppers s = (\<lambda>j. Vs_over)" "vt_starter s = Vr_test" "vt_notify s = 0" "v2_io (vt_obj s) = None"
      "m_state (v2_base (vt_obj s)) = St_Starting" "\<not> v2_startResolved (vt_obj s)"
    using vx_started by blast
  let ?b = "snd (requestStop (v2_base (vt_obj s)))"
  have r: "requestStop (v2_base (vt_obj s)) = (True, ?b)" using s(8) by (simp add: requestStop_def Let_def)
  have f: "m_stopRequested ?b" by (simp add: requestStop_def Let_def)
  let ?at = "\<lambda>st t. t\<lparr>vt_stoppers := (vt_stoppers t)(0 := st)\<rparr> :: http_server_v2 vt_sys"
  let ?s1 = "s\<lparr>vt_starter := Vr_asleep\<rparr>"
  have 1: "vt_reachable ''HTTP'' ?s1" by (rule vt_then(3) [OF s(1) vt_sleeps]) (simp_all add: s)
  let ?s2 = "vt_base ?b (?at Vs_context ?s1)"
  have 2: "vt_reachable ''HTTP'' ?s2"
    using vt_then(3) [OF 1 vt_requestStop [where j = 0 and trigger = True and b = ?b]] s(4) r by simp
  let ?s3 = "?at Vs_direct ?s2"
  have 3: "vt_reachable ''HTTP'' ?s3"
    using vt_then(3) [OF 2 vt_stopper [where j = 0, OF refl]] s(7) by (simp add: v2_ioContext_def)
  let ?s4 = "?at Vs_over ?s3"
  have 4: "vt_reachable ''HTTP'' ?s4" using vt_then(3) [OF 3 vt_stopper [where j = 0, OF refl]] by simp
  obtain obj where o: "v2_preRun ''HTTP'' None (vt_obj ?s4) = (True, obj)" "m_stopRequested (v2_base obj)"
      "\<not> v2_startResolved obj"
    using f s(9) by (simp add: v2_preRun_def Let_def)
  let ?s5 = "vt_goto Vw_check (?s4\<lparr>vt_obj := obj\<rparr>)"
  have 5: "vt_reachable ''HTTP'' ?s5" by (rule vt_then(1) [OF 4 vt_preRun_ok [OF _ o(1)]]) (simp add: s)
  let ?s6 = "vt_goto (Vw_setStopped False) ?s5"
  have 6: "vt_reachable ''HTTP'' ?s6"
    by (rule vt_then(1) [OF 5 vt_check_stop]) (simp_all add: o stopRequested_def)
  let ?s7 = "vt_goto (Vw_exited False) (vt_base (setState St_Stopped (v2_base (vt_obj ?s6))) ?s6)"
  have "vt_reachable ''HTTP'' ?s7" by (rule vt_then(1) [OF 6 vt_set_stopped]) simp
  moreover have "(vt_stoppers s)(0 := Vs_over) = (\<lambda>j. Vs_over)" using s(4) by auto
  then have "vt_stoppers ?s7 = (\<lambda>j. Vs_over)" by simp
  ultimately show ?thesis using s(3,5,6) o(3) by (intro exI [of _ ?s7]) (simp del: fun_upd_apply)
qed

theorem v2_start_ends_witness:
  "\<exists>s :: http_server_v2 vt_sys. vt_reachable ''HTTP'' s \<and> vt_worker s = Vw_exited False
     \<and> vt_stoppers s = (\<lambda>j. Vs_over) \<and> vt_starter s = Vr_asleep \<and> vt_notify s = 0
     \<and> \<not> v2_startResolved (vt_obj s) \<and> stopRequested (v2_base (vt_obj s))"
proof -
  obtain s :: "http_server_v2 vt_sys" where s: "vt_reachable ''HTTP'' s" "vt_worker s = Vw_exited False"
      "vt_stoppers s = (\<lambda>j. Vs_over)" "vt_starter s = Vr_asleep" "vt_notify s = 0" "\<not> v2_startResolved (vt_obj s)"
    using vx_unanswered by blast
  with v2_start_ends [OF s(1), of False] show ?thesis by blast
qed

end
