(* ===== verification/ExampleMains.thy ===== *)
theory ExampleMains
  imports HttpExamples HttpsServerV2 TcpSyncClient
begin

text \<open>
  Four of the example programs: \<open>clientTest_V2.cpp\<close>, \<open>httpServerTest_V2.cpp\<close>, \<open>httpsServerTest_V2.cpp\<close> and
  \<open>tcpSyncClientExample_V2.cpp\<close> of \<open>examples/\<close>. Standard input is the list of the lines typed, and what the
  threads of the worker do beside \<open>main\<close> is an argument; messages on the console are left out but for
  those of the last program.
\<close>

section \<open>The TCP client\<close>

definition text_bytes :: "string \<Rightarrow> byte list" where
  "text_bytes = map of_char"

definition bytes_text :: "byte list \<Rightarrow> string" where
  "bytes_text = map (\<lambda>b. char_of (unat b))"

lemma bytes_text_inverse [simp]: "bytes_text (text_bytes s) = s"
proof -
  have "char_of (unat (of_char c :: byte)) = c" for c
  proof -
    have "unat (of_nat (of_char c) :: byte) = of_char c" by (simp add: unat_of_nat nat_of_char_less_256)
    then show ?thesis by (simp add: of_nat_of_char)
  qed
  then show ?thesis by (induction s) (simp_all add: bytes_text_def text_bytes_def)
qed

text \<open>The typed lines, each with what the other threads do before it is read: \<open>exit\<close> ends the loop, and so does
  a message that \<open>send\<close> refuses.\<close>

fun cx_send_loop ::
  "((tcp_client \<times> 'w \<Rightarrow> tcp_client \<times> 'w) \<times> string) list \<Rightarrow> tcp_client \<times> 'w \<Rightarrow> tcp_client \<times> 'w" where
  "cx_send_loop [] s = s"
| "cx_send_loop ((others, message) # lines) s =
     (case others s of
        (c, w) \<Rightarrow>
          if message = ''exit'' then (c, w)
          else (case tc_send_text (text_bytes message) c of
                  (False, c') \<Rightarrow> (c', w)
                | (True, c') \<Rightarrow> cx_send_loop lines (c', w)))"

definition cx_main ::
  "'w kernel \<Rightarrow> nat option \<Rightarrow> int \<Rightarrow> (tcp_client \<times> 'w) wake list
     \<Rightarrow> ((tcp_client \<times> 'w \<Rightarrow> tcp_client \<times> 'w) \<times> string) list \<Rightarrow> (tcp_client \<times> 'w) wake list
     \<Rightarrow> (tcp_client \<times> 'w) wake list \<Rightarrow> 'w \<Rightarrow> (int \<times> tcp_client \<times> 'w) option" where
  "cx_main K created now startWakes lines stopWakes destroyWakes w =
     server_main
       (startThread_of (\<lambda>(c, w). tc_base c) (\<lambda>f (c, w). (tc_base_update f c, w)) created now 5000 startWakes)
       (cx_send_loop lines) (tc_stopThread K 5000 stopWakes) (tc_destroy K destroyWakes)
       (tc_new ''TestTCPClient_V2'' ''127.0.0.1'' 8080 now, w)"

text \<open>With a client that goes on running and no writer in between, what was typed before \<open>exit\<close> is queued line
  by line. An empty line ends the program's loop too: \<open>send\<close> refuses it, and the program reports that the
  client is no longer running.\<close>

lemma cx_send_loop_queues:
  "isRunning (tc_base c) \<Longrightarrow> list_all (\<lambda>m. m \<noteq> [] \<and> m \<noteq> ''exit'') messages \<Longrightarrow>
   cx_send_loop (map (Pair id) messages @ [(id, ''exit'')]) (c, w)
     = (c\<lparr>tc_outboundQueue := tc_outboundQueue c @ map text_bytes messages\<rparr>, w)"
proof (induction messages arbitrary: c)
  case (Cons m ms)
  have "tc_send_text (text_bytes m) c = (True, tc_push (text_bytes m) c)"
    using Cons.prems by (simp add: tc_send_text_def tc_send_raw_def tc_send_def tc_send_guard_def text_bytes_def)
  moreover have "isRunning (tc_base (tc_push (text_bytes m) c))" using Cons.prems by (simp add: tc_push_def)
  ultimately show ?case using Cons by (simp add: tc_push_def)
qed simp

theorem cx_empty_line_ends:
  "cx_send_loop ((id, []) # lines) (c, w) = (c, w)"
  by (simp add: tc_send_text_def tc_send_raw_def text_bytes_def)

section \<open>The servers of the second generation\<close>

text \<open>What a handler writes through the library: status, body and headers.\<close>

type_synonym v2_route = "lib_request \<Rightarrow> u16 \<times> string \<times> td_Fields"

definition v2x_resource :: "string \<Rightarrow> string \<Rightarrow> v2_route option" where
  "v2x_resource path method =
     (if path = ''^/health$'' \<and> method = ''GET'' then Some (\<lambda>request. (200, ''ok-v2'' @ [LF], text_plain))
      else if path = ''^/echo$'' \<and> method = ''POST'' then Some (\<lambda>request. (200, lr_content request, text_plain))
      else None)"

definition v2x_default_resource :: "string \<Rightarrow> v2_route option" where
  "v2x_default_resource method =
     (if method = ''GET'' then Some (\<lambda>request. (404, ''Route not found'' @ [LF], text_plain)) else None)"

definition w2x_resource :: "string \<Rightarrow> string \<Rightarrow> v2_route option" where
  "w2x_resource path method =
     (if path = ''^/health$'' \<and> method = ''GET'' then Some (\<lambda>request. (200, ''secure-ok-v2'' @ [LF], text_plain))
      else if path = ''^/echo$'' \<and> method = ''POST'' then Some (\<lambda>request. (200, lr_content request, text_plain))
      else None)"

definition w2x_default_resource :: "string \<Rightarrow> v2_route option" where
  "w2x_default_resource method =
     (if method = ''GET'' then Some (\<lambda>request. (404, ''Secure route not found'' @ [LF], text_plain)) else None)"

text \<open>The echo and the default of both generations answer the same.\<close>

lemma echo_of_both_generations:
  "map_option (\<lambda>route. route rq) (v2x_resource ''^/echo$'' ''POST'')
     = Some (handler_answer \<lparr>in_handler = ex_echo, in_errorHandler = None, in_default = False\<rparr>
         (makeRequestSnapshot (Some rq)))"
  "map_option (\<lambda>route. route rq) (v2x_default_resource ''GET'')
     = Some (handler_answer \<lparr>in_handler = ex_not_found, in_errorHandler = None, in_default = True\<rparr>
         (makeRequestSnapshot (Some rq)))"
  by (simp_all add: v2x_resource_def v2x_default_resource_def handler_answer_def ex_echo_def ex_not_found_def
      makeRequestSnapshot_def)

text \<open>The lambda on \<open>on_error\<close> prints and throws nothing.\<close>

definition v2x_on_error :: v2_handler where
  "v2x_on_error request value' message = None"

definition v2x_server :: "int \<Rightarrow> http_server_v2" where
  "v2x_server now = (v2_new ''TestHTTPServer_V2'' 8081 2 now)\<lparr>v2_on_error := OE_user v2x_on_error\<rparr>"

definition v2x_main ::
  "nat option \<Rightarrow> int \<Rightarrow> http_server_v2 wake list \<Rightarrow> (http_server_v2 \<Rightarrow> http_server_v2) \<Rightarrow> http_server_v2 wake list
     \<Rightarrow> http_server_v2 wake list \<Rightarrow> (int \<times> http_server_v2) option" where
  "v2x_main created now startWakes meanwhile stopWakes destroyWakes =
     server_main (v2_startThread_ms created now 5000 startWakes) meanwhile (v2_stopThread 5000 stopWakes)
       (v2_destroy destroyWakes) (v2x_server now)"

text \<open>The constructor of the HTTPS server can throw, which nothing catches: \<open>Inl\<close>.\<close>

definition w2x_main ::
  "cpp_exn option \<Rightarrow> string \<Rightarrow> string \<Rightarrow> nat option \<Rightarrow> int \<Rightarrow> https_server_v2 wake list
     \<Rightarrow> (https_server_v2 \<Rightarrow> https_server_v2) \<Rightarrow> https_server_v2 wake list \<Rightarrow> https_server_v2 wake list
     \<Rightarrow> cpp_exn + (int \<times> https_server_v2) option" where
  "w2x_main thrown certificateFile privateKeyFile created now startWakes meanwhile stopWakes destroyWakes =
     (case w2_new thrown ''TestHTTPSServer_V2'' 8444 certificateFile privateKeyFile [] 2 now of
        Inl e \<Rightarrow> Inl e
      | Inr server \<Rightarrow>
          Inr (server_main (w2_startThread_ms created now 5000 startWakes) meanwhile (w2_stopThread 5000 stopWakes)
            (w2_destroy destroyWakes) (server\<lparr>v2_on_error := OE_user v2x_on_error\<rparr>)))"

lemma v2_family_exit:
  assumes "stop = stopThread_of (v2_requestStop proto) v2_base v2_base_update"
  shows "exit_answer v2_base created starting stopping dying
    (server_main (v2_startThread created now 5000 starting) f (stop 5000 stopping) (\<lambda>u. map_option snd (stop kDefaultWaitTimeout dying u)) s)"
proof (rule server_main_exit)
  fix u t
  show "v2_startThread created now 5000 starting u = None \<Longrightarrow> \<not> (\<exists>x \<in> set starting. is_timeout x)"
    using v2_start.start_contract [where created = created and now = now and t = 5000 and ws = starting and s = u] by simp
  show "v2_startThread created now 5000 starting u = Some (True, t) \<Longrightarrow> created \<noteq> None"
    using v2_start.start_contract [where created = created and now = now and t = 5000 and ws = starting and s = u]
    by (cases created) simp_all
  show "stop_answer v2_base stopping (stop 5000 stopping u)" unfolding assms by (rule v2_stop.stop_contract) simp
  show "destroyed v2_base dying (map_option snd (stop kDefaultWaitTimeout dying u))"
    unfolding assms by (intro stop_answer_destroyed v2_stop.stop_contract default_wait)
  show "map_option snd (stop kDefaultWaitTimeout dying u) = Some t \<Longrightarrow> stopped (v2_base u) \<Longrightarrow>
      stopped (v2_base t) \<and> m_thread (v2_base t) = None"
    unfolding assms by (rule v2_stop.destroy_stopped)
qed

text \<open>Stopping the client for good does not bring it back.\<close>

lemma tc_destroy_stopped:
  assumes "tc_destroy K wakes u = Some u'" and "stopped (tc_base (fst u))"
  shows "stopped (tc_base (fst u')) \<and> m_thread (tc_base (fst u')) = None"
proof -
  obtain ok c w where r: "tc_stopThread K kDefaultWaitTimeout wakes u = Some (ok, c, w)"
    using assms(1) by (auto simp: tc_destroy_def split: option.splits)
  then have "map_option snd (stopThread_of (\<lambda>(c, w). tc_requestStop K c w) (\<lambda>(c, w). tc_base c)
      (\<lambda>f (c, w). (tc_base_update f c, w)) kDefaultWaitTimeout wakes u) = Some (c, w)"
    by (simp add: tc_stopThread_def)
  then have "stopped ((\<lambda>(c, w). tc_base c) (c, w)) \<and> m_thread ((\<lambda>(c, w). tc_base c) (c, w)) = None"
    by (rule tc_stop.destroy_stopped) (use assms(2) in \<open>simp add: case_prod_beta\<close>)
  then show ?thesis
    using assms(1) r by (auto simp: tc_destroy_def tc_closeSocket_def clearOutboundQueue_def Let_def
      split: if_splits prod.splits)
qed

text \<open>The exit code of the three programs: they end as soon as their waits time out, and answer 0 only when a
  thread was made, has ended and was joined.\<close>

theorem v2_examples_exit:
  "exit_answer v2_base created ws1 ws2 ws3 (v2x_main created now ws1 f ws2 ws3)
   \<and> (case w2x_main thrown c k created now zs1 g zs2 zs3 of
        Inl e \<Rightarrow> thrown = Some e
      | Inr r \<Rightarrow> exit_answer v2_base created zs1 zs2 zs3 r)
   \<and> exit_answer (\<lambda>(c, w). tc_base c) created xs1 xs2 xs3 (cx_main K created now xs1 lines xs2 xs3 w)"
proof (intro conjI)
  show "exit_answer v2_base created ws1 ws2 ws3 (v2x_main created now ws1 f ws2 ws3)"
    using v2_family_exit [OF v2_stopThread_def, where created = created and now = now and starting = ws1 and f = f and stopping = ws2
        and dying = ws3 and s = "v2x_server now"]
    by (simp add: v2x_main_def v2_startThread_ms_def [abs_def] v2_destroy_def [abs_def])
  show "case w2x_main thrown c k created now zs1 g zs2 zs3 of
      Inl e \<Rightarrow> thrown = Some e | Inr r \<Rightarrow> exit_answer v2_base created zs1 zs2 zs3 r"
    using v2_family_exit [OF w2_stopThread_def, where created = created and now = now and starting = zs1 and f = g and stopping = zs2
        and dying = zs3]
    by (cases thrown) (simp_all add: w2x_main_def w2_new_def w2_startThread_ms_def [abs_def] w2_startThread_def
        w2_destroy_def [abs_def])
  show "exit_answer (\<lambda>(c, w). tc_base c) created xs1 xs2 xs3 (cx_main K created now xs1 lines xs2 xs3 w)"
    unfolding cx_main_def
  proof (rule server_main_exit)
    fix u t
    note start = tc_stop.start_of_answer [where created = created and now = now and t = 5000 and wakes = xs1 and s = u]
    let ?start = "startThread_of (\<lambda>(c, w). tc_base c) (\<lambda>f (c, w). (tc_base_update f c, w)) created now 5000 xs1 u"
    show "?start = None \<Longrightarrow> \<not> (\<exists>x \<in> set xs1. is_timeout x)" using start by simp
    show "?start = Some (True, t) \<Longrightarrow> created \<noteq> None" using start by simp
    show "stop_answer (\<lambda>(c, w). tc_base c) xs2 (tc_stopThread K 5000 xs2 u)"
      unfolding tc_stopThread_def by (rule tc_stop.stop_contract) simp
    show "destroyed (\<lambda>(c, w). tc_base c) xs3 (tc_destroy K xs3 u)" by (rule tc_destroy_destroyed)
    show "tc_destroy K xs3 u = Some t \<Longrightarrow> stopped ((\<lambda>(c, w). tc_base c) u) \<Longrightarrow>
        stopped ((\<lambda>(c, w). tc_base c) t) \<and> m_thread ((\<lambda>(c, w). tc_base c) t) = None"
      using tc_destroy_stopped [of K xs3 u t] by (simp add: case_prod_beta)
  qed
qed

section \<open>The synchronous client\<close>

fun sx_toText :: "enm_IOResult \<Rightarrow> string" where
  "sx_toText IO_Success = ''Success''"
| "sx_toText IO_Closed = ''Closed''"
| "sx_toText IO_Timeout = ''Timeout''"
| "sx_toText IO_NotConnected = ''NotConnected''"
| "sx_toText IO_InvalidArgument = ''InvalidArgument''"
| "sx_toText IO_Failed = ''Failed''"

text \<open>\<open>main\<close> on its three arguments: the exit code, the two outputs and the world. \<open>port\<close> is what \<open>std::stoi\<close>
  made of the second argument; the cast to \<open>std::uint16_t\<close> wraps.\<close>

definition sx_main ::
  "nat \<Rightarrow> 'w kernel \<Rightarrow> (int \<Rightarrow> string) \<Rightarrow> (int \<Rightarrow> string) \<Rightarrow> string \<Rightarrow> int \<Rightarrow> string \<Rightarrow> 'w
     \<Rightarrow> (int \<times> string \<times> string \<times> 'w) option" where
  "sx_main fuel K gai_strerror strerror host port request w =
     (let client = sy_new host (word_of_int port) in
      case sy_exchangeOnceUntilClosed fuel K (Some (text_bytes request)) (length request) kDefaultMaxPayloadSize client w of
        None \<Rightarrow> None
      | Some (result, response, c, w1) \<Rightarrow>
          (let out = ''Result: '' @ sx_toText result @ [LF]; w2 = snd (sy_close K c w1) in
           if result \<noteq> IO_Success
           then Some (1, out, ''Error: '' @ sy_lastErrorMessage gai_strerror strerror c @ [LF], w2)
           else Some (0, out @ ''Response: '' @ bytes_text response @ [LF], [], w2)))"

lemma sx_toText_inject: "sx_toText a = sx_toText b \<Longrightarrow> a = b"
  by (cases a; cases b) simp_all

text \<open>A port number that does not fit is not refused: 65616 is port 80.\<close>

theorem sx_port_wraps: "sy_port (sy_new host (word_of_int (65536 + p))) = sy_port (sy_new host (word_of_int p))"
  by (simp add: sy_new_def)

end
