(* ===== verification/LegacyExample.thy ===== *)
theory LegacyExample
  imports ExampleMains
begin

text \<open>
  \<open>examples/clientTest.cpp\<close>, the program on the first generation's \<open>TCPClient\<close>: the thread in
  \<open>userInputHandler\<close> and the sender thread of the client (\<open>sendDataToServer\<close> of \<open>cTCPClient.h\<close>), which calls
  \<open>onSendData\<close>, in all interleavings. A step is one critical section of \<open>queueMutex\<close>, one access to \<open>running\<close>
  outside it, one notification or one call; the moment in which the waiting thread has found its predicate false
  and still holds the mutex is a state of its own. What \<open>continueRunning()\<close> and \<open>write\<close> answer is left open. A
  \<open>getline\<close> at the end of the input leaves the message empty. The heap is the number of buffers that were made with
  \<open>new char[]\<close> and not freed.
\<close>

section \<open>State and steps\<close>

datatype ce_input =
    Ui_while | Ui_getline | Ui_made "byte list" | Ui_notify_one | Ui_exit | Ui_notify_all | Ui_returned

datatype ce_sender =
    Cs_test | Cs_call | Cs_holds | Cs_blocked | Cs_woken | Cs_null | Cs_got "byte list" | Cs_returned

record ce_sys =
  ce_running :: bool
  ce_queue :: "byte list list"
  ce_stdin :: "string list"
  ce_input :: ce_input
  ce_sender :: ce_sender
  ce_taken :: "byte list list"
  ce_wire :: "byte list list"
  ce_live :: nat
  ce_failed :: bool

definition ce_init :: "string list \<Rightarrow> ce_sys" where
  "ce_init lines =
     \<lparr>ce_running = True, ce_queue = [], ce_stdin = lines, ce_input = Ui_while, ce_sender = Cs_test, ce_taken = [],
      ce_wire = [], ce_live = 0, ce_failed = False\<rparr>"

text \<open>\<open>userInputHandler\<close>.\<close>

inductive ce_types :: "ce_sys \<Rightarrow> ce_sys \<Rightarrow> bool" where
  ce_while: "ce_input s = Ui_while \<Longrightarrow>
     ce_types s (s\<lparr>ce_input := (if ce_running s then Ui_getline else Ui_returned)\<rparr>)"
| ce_exit: "ce_input s = Ui_getline \<Longrightarrow> ce_stdin s = ''exit'' # lines \<Longrightarrow>
     ce_types s (s\<lparr>ce_stdin := lines, ce_input := Ui_exit\<rparr>)"
| ce_message: "ce_input s = Ui_getline \<Longrightarrow> ce_stdin s = message # lines \<Longrightarrow> message \<noteq> ''exit'' \<Longrightarrow>
     ce_types s (s\<lparr>ce_stdin := lines, ce_input := Ui_made (text_bytes message), ce_live := Suc (ce_live s)\<rparr>)"
| ce_eof: "ce_input s = Ui_getline \<Longrightarrow> ce_stdin s = [] \<Longrightarrow>
     ce_types s (s\<lparr>ce_input := Ui_made [], ce_live := Suc (ce_live s)\<rparr>)"
| ce_push: "ce_input s = Ui_made data \<Longrightarrow> ce_sender s \<noteq> Cs_holds \<Longrightarrow>
     ce_types s (s\<lparr>ce_queue := ce_queue s @ [data], ce_input := Ui_notify_one\<rparr>)"
| ce_notify_one: "ce_input s = Ui_notify_one \<Longrightarrow>
     ce_types s (s\<lparr>ce_input := Ui_while, ce_sender := (if ce_sender s = Cs_blocked then Cs_woken else ce_sender s)\<rparr>)"
| ce_clears: "ce_input s = Ui_exit \<Longrightarrow> ce_types s (s\<lparr>ce_running := False, ce_input := Ui_notify_all\<rparr>)"
| ce_notify_all: "ce_input s = Ui_notify_all \<Longrightarrow>
     ce_types s (s\<lparr>ce_input := Ui_returned, ce_sender := (if ce_sender s = Cs_blocked then Cs_woken else ce_sender s)\<rparr>)"

text \<open>\<open>onSendData\<close>, whose \<open>wait\<close> looks at its predicate, blocks and looks again.\<close>

inductive ce_onSendData :: "ce_sys \<Rightarrow> ce_sys \<Rightarrow> bool" where
  ce_front: "ce_sender s = Cs_call \<or> ce_sender s = Cs_woken \<Longrightarrow> ce_queue s = sendData # rest \<Longrightarrow>
     ce_onSendData s (s\<lparr>ce_queue := rest, ce_taken := ce_taken s @ [sendData], ce_sender := Cs_got sendData\<rparr>)"
| ce_nullptr: "ce_sender s = Cs_call \<or> ce_sender s = Cs_woken \<Longrightarrow> ce_queue s = [] \<Longrightarrow> \<not> ce_running s \<Longrightarrow>
     ce_onSendData s (s\<lparr>ce_sender := Cs_null\<rparr>)"
| ce_waits: "ce_sender s = Cs_call \<or> ce_sender s = Cs_woken \<Longrightarrow> ce_queue s = [] \<Longrightarrow> ce_running s \<Longrightarrow>
     ce_onSendData s (s\<lparr>ce_sender := Cs_holds\<rparr>)"
| ce_blocks: "ce_sender s = Cs_holds \<Longrightarrow> ce_onSendData s (s\<lparr>ce_sender := Cs_blocked\<rparr>)"

text \<open>A wake-up that nobody asked for.\<close>

inductive ce_spurious :: "ce_sys \<Rightarrow> ce_sys \<Rightarrow> bool" where
  ce_wakes: "ce_sender s = Cs_blocked \<Longrightarrow> ce_spurious s (s\<lparr>ce_sender := Cs_woken\<rparr>)"

text \<open>The rest of \<open>sendDataToServer\<close>: \<open>write\<close> takes the first \<open>n\<close> bytes, or fails.\<close>

inductive ce_sends :: "ce_sys \<Rightarrow> ce_sys \<Rightarrow> bool" where
  ce_continue: "ce_sender s = Cs_test \<Longrightarrow> ce_sends s (s\<lparr>ce_sender := Cs_call\<rparr>)"
| ce_stops: "ce_sender s = Cs_test \<Longrightarrow> ce_sends s (s\<lparr>ce_sender := Cs_returned\<rparr>)"
| ce_nothing: "ce_sender s = Cs_null \<or> ce_sender s = Cs_got [] \<Longrightarrow> ce_sends s (s\<lparr>ce_sender := Cs_test\<rparr>)"
| ce_write: "ce_sender s = Cs_got buffer \<Longrightarrow> 0 < n \<Longrightarrow> n \<le> length buffer \<Longrightarrow>
     ce_sends s (s\<lparr>ce_wire := ce_wire s @ [take n buffer], ce_live := ce_live s - 1, ce_sender := Cs_test\<rparr>)"
| ce_write_fails: "ce_sender s = Cs_got buffer \<Longrightarrow> buffer \<noteq> [] \<Longrightarrow>
     ce_sends s (s\<lparr>ce_failed := True, ce_sender := Cs_returned\<rparr>)"

inductive ce_step :: "ce_sys \<Rightarrow> ce_sys \<Rightarrow> bool" where
  ce_by_input: "ce_types s t \<Longrightarrow> ce_step s t"
| ce_by_callback: "ce_onSendData s t \<Longrightarrow> ce_step s t"
| ce_by_sender: "ce_sends s t \<Longrightarrow> ce_step s t"
| ce_by_chance: "ce_spurious s t \<Longrightarrow> ce_step s t"

inductive ce_reachable :: "string list \<Rightarrow> ce_sys \<Rightarrow> bool" for lines where
  ce_start: "ce_reachable lines (ce_init lines)"
| ce_next: "ce_reachable lines s \<Longrightarrow> ce_step s t \<Longrightarrow> ce_reachable lines t"

section \<open>The invariants\<close>

text \<open>The buffer that a thread has in its hands.\<close>

fun ce_made :: "ce_input \<Rightarrow> byte list list" where
  "ce_made (Ui_made data) = [data]"
| "ce_made _ = []"

fun ce_got :: "ce_sender \<Rightarrow> byte list list" where
  "ce_got (Cs_got data) = [data]"
| "ce_got _ = []"

definition ce_order_inv :: "string list \<Rightarrow> ce_sys \<Rightarrow> bool" where
  "ce_order_inv lines s \<longleftrightarrow>
     (\<exists>typed n. lines = typed @ ce_stdin s \<and>
        (if ce_running s \<and> ce_input s \<noteq> Ui_exit
         then ce_taken s @ ce_queue s @ ce_made (ce_input s) = map text_bytes typed @ replicate n []
              \<and> ''exit'' \<notin> set typed \<and> (0 < n \<longrightarrow> ce_stdin s = [])
         else \<exists>before. typed = before @ [''exit''] \<and> ''exit'' \<notin> set before
              \<and> ce_taken s @ ce_queue s = map text_bytes before))
     \<and> (ce_running s \<longrightarrow> ce_input s \<noteq> Ui_notify_all \<and> ce_input s \<noteq> Ui_returned)
     \<and> (\<not> ce_running s \<longrightarrow> ce_input s = Ui_notify_all \<or> ce_input s = Ui_returned)"

definition ce_wire_inv :: "ce_sys \<Rightarrow> bool" where
  "ce_wire_inv s \<longleftrightarrow>
     (\<exists>given lost. ce_taken s = given @ ce_got (ce_sender s) @ lost \<and> length lost = (if ce_failed s then 1 else 0)
        \<and> list_all2 (\<lambda>w m. \<exists>n>0. w = take n m) (ce_wire s) (filter (\<lambda>m. m \<noteq> []) given)
        \<and> ce_live s = length (ce_queue s) + length (ce_made (ce_input s)) + length (ce_got (ce_sender s))
             + length lost + length (filter (\<lambda>m. m = []) given))
     \<and> (ce_failed s \<longrightarrow> ce_sender s = Cs_returned)"

definition ce_sleep_inv :: "ce_sys \<Rightarrow> bool" where
  "ce_sleep_inv s \<longleftrightarrow>
     (ce_sender s = Cs_holds \<longrightarrow> ce_queue s = [])
     \<and> (ce_sender s = Cs_blocked \<and> ce_queue s \<noteq> [] \<longrightarrow> ce_input s = Ui_notify_one)"

lemma ce_sleep_step: "ce_step s t \<Longrightarrow> ce_sleep_inv s \<Longrightarrow> ce_sleep_inv t"
  by (erule ce_step.cases; erule ce_types.cases ce_onSendData.cases ce_sends.cases ce_spurious.cases)
    (auto simp: ce_sleep_inv_def)

lemma ce_order_step:
  assumes "ce_step s t" and "ce_order_inv lines s"
  shows "ce_order_inv lines t"
proof -
  from assms(2) obtain typed n where typed: "lines = typed @ ce_stdin s"
      "if ce_running s \<and> ce_input s \<noteq> Ui_exit
         then ce_taken s @ ce_queue s @ ce_made (ce_input s) = map text_bytes typed @ replicate n []
              \<and> ''exit'' \<notin> set typed \<and> (0 < n \<longrightarrow> ce_stdin s = [])
         else \<exists>before. typed = before @ [''exit''] \<and> ''exit'' \<notin> set before
              \<and> ce_taken s @ ce_queue s = map text_bytes before"
    and run: "ce_running s \<longrightarrow> ce_input s \<noteq> Ui_notify_all \<and> ce_input s \<noteq> Ui_returned"
      "\<not> ce_running s \<longrightarrow> ce_input s = Ui_notify_all \<or> ce_input s = Ui_returned"
    unfolding ce_order_inv_def by blast
  show ?thesis using assms(1)
  proof cases
    case ce_by_input
    then show ?thesis
    proof cases
      case (ce_exit more)
      then have "ce_running s" "ce_input s \<noteq> Ui_exit" "ce_made (ce_input s) = []" using run by auto
      then have "n = 0 \<and> ce_taken s @ ce_queue s = map text_bytes typed \<and> ''exit'' \<notin> set typed"
        using typed ce_exit by (cases n) auto
      then show ?thesis using ce_exit typed(1) \<open>ce_running s\<close> unfolding ce_order_inv_def
        by (intro conjI exI [of _ "typed @ [''exit'']"] exI [of _ 0]) auto
    next
      case (ce_message message more)
      then have "ce_running s" "ce_input s \<noteq> Ui_exit" "ce_made (ce_input s) = []" using run by auto
      then have "n = 0 \<and> ce_taken s @ ce_queue s = map text_bytes typed \<and> ''exit'' \<notin> set typed"
        using typed ce_message by (cases n) auto
      then show ?thesis using ce_message typed(1) \<open>ce_running s\<close> unfolding ce_order_inv_def
        by (intro conjI exI [of _ "typed @ [message]"] exI [of _ 0]) auto
    next
      case ce_eof
      then have "ce_running s" "ce_input s \<noteq> Ui_exit" "ce_made (ce_input s) = []" using run by auto
      then have e: "ce_taken s @ ce_queue s = map text_bytes typed @ replicate n []" and "''exit'' \<notin> set typed"
        using typed by auto
      then have "(ce_taken s @ ce_queue s) @ [[]] = map text_bytes typed @ replicate (Suc n) [] \<and> ''exit'' \<notin> set typed"
        unfolding e by (simp add: replicate_append_same)
      then show ?thesis using ce_eof typed(1) \<open>ce_running s\<close> unfolding ce_order_inv_def
        by (intro conjI exI [of _ typed] exI [of _ "Suc n"]) auto
    qed (use typed run in \<open>auto simp: ce_order_inv_def\<close>)
  next
    case ce_by_callback
    then show ?thesis by cases (use typed run in \<open>auto simp: ce_order_inv_def\<close>)
  next
    case ce_by_sender
    then show ?thesis by cases (use typed run in \<open>auto simp: ce_order_inv_def\<close>)
  next
    case ce_by_chance
    then show ?thesis by cases (use typed run in \<open>auto simp: ce_order_inv_def\<close>)
  qed
qed

lemma ce_wire_step:
  assumes "ce_step s t" and "ce_wire_inv s"
  shows "ce_wire_inv t"
proof -
  from assms(2) obtain given lost where i: "ce_taken s = given @ ce_got (ce_sender s) @ lost"
      "length lost = (if ce_failed s then 1 else 0)"
      "list_all2 (\<lambda>w m. \<exists>n>0. w = take n m) (ce_wire s) (filter (\<lambda>m. m \<noteq> []) given)"
      "ce_live s = length (ce_queue s) + length (ce_made (ce_input s)) + length (ce_got (ce_sender s))
             + length lost + length (filter (\<lambda>m. m = []) given)"
    and f: "ce_failed s \<longrightarrow> ce_sender s = Cs_returned"
    unfolding ce_wire_inv_def by blast
  note keep = exI [of _ given, OF exI [of _ lost]]
  show ?thesis using assms(1)
  proof cases
    case ce_by_input
    then show ?thesis unfolding ce_wire_inv_def by cases (intro conjI keep; use i f in \<open>auto split: if_splits\<close>)+
  next
    case ce_by_callback
    then show ?thesis unfolding ce_wire_inv_def by cases (intro conjI keep; use i f in \<open>auto split: if_splits\<close>)+
  next
    case ce_by_chance
    then show ?thesis unfolding ce_wire_inv_def by cases (intro conjI keep; use i f in \<open>auto split: if_splits\<close>)+
  next
    case ce_by_sender
    then show ?thesis
    proof cases
      case ce_nothing
      then show ?thesis unfolding ce_wire_inv_def
        by (intro conjI exI [of _ "given @ ce_got (ce_sender s)"] exI [of _ lost]) (use i f in auto)
    next
      case (ce_write buffer n)
      moreover have "list_all2 (\<lambda>w m. \<exists>n>0. w = take n m) (ce_wire s @ [take n buffer]) (filter (\<lambda>m. m \<noteq> []) given @ [buffer])"
        using i(3) ce_write(3) by (intro list_all2_appendI) auto
      ultimately show ?thesis unfolding ce_wire_inv_def
        by (intro conjI exI [of _ "given @ [buffer]"] exI [of _ lost]) (use i f in auto)
    next
      case (ce_write_fails buffer)
      then show ?thesis unfolding ce_wire_inv_def
        by (intro conjI exI [of _ given] exI [of _ "[buffer]"]) (use i f in auto)
    qed (unfold ce_wire_inv_def, intro conjI keep; use i f in \<open>auto split: if_splits\<close>)+
  qed
qed

lemma ce_reachable_inv: "ce_reachable lines s \<Longrightarrow> ce_order_inv lines s \<and> ce_wire_inv s \<and> ce_sleep_inv s"
proof (induction rule: ce_reachable.induct)
  case ce_start
  have "ce_order_inv lines (ce_init lines)" unfolding ce_order_inv_def
    by (intro conjI exI [of _ "[]"] exI [of _ 0]) (simp_all add: ce_init_def)
  then show ?case by (simp add: ce_wire_inv_def ce_sleep_inv_def) (simp add: ce_init_def)
qed (blast intro: ce_order_step ce_wire_step ce_sleep_step)

section \<open>The properties\<close>

text \<open>The messages go through in the order they were typed, up to the first \<open>exit\<close>, each at most once; what is
  written to the socket of each non-empty one is a non-empty beginning of it. At the end of the input, and only
  then, empty messages follow. The sender does not sleep past a message in the queue: when it sleeps the
  notification is on its way. Without an \<open>exit\<close> the input thread does not return.\<close>

theorem client_example_delivers:
  assumes "ce_reachable lines s"
  shows "(\<exists>k n. ce_taken s @ ce_queue s @ ce_made (ce_input s)
            = map text_bytes (take k (takeWhile (\<lambda>m. m \<noteq> ''exit'') lines)) @ replicate n []
          \<and> (''exit'' \<in> set lines \<longrightarrow> n = 0))
     \<and> (\<exists>j. list_all2 (\<lambda>w m. \<exists>n>0. w = take n m) (ce_wire s) (filter (\<lambda>m. m \<noteq> []) (take j (ce_taken s))))
     \<and> (ce_sender s = Cs_blocked \<and> ce_queue s \<noteq> [] \<longrightarrow> ce_input s = Ui_notify_one)
     \<and> (''exit'' \<notin> set lines \<longrightarrow> ce_running s \<and> ce_input s \<noteq> Ui_returned)"
proof (intro conjI)
  have inv: "ce_order_inv lines s" "ce_wire_inv s" "ce_sleep_inv s" using ce_reachable_inv [OF assms] by simp_all
  from inv(1) obtain typed n where l: "lines = typed @ ce_stdin s" and
      c: "if ce_running s \<and> ce_input s \<noteq> Ui_exit
         then ce_taken s @ ce_queue s @ ce_made (ce_input s) = map text_bytes typed @ replicate n []
              \<and> ''exit'' \<notin> set typed \<and> (0 < n \<longrightarrow> ce_stdin s = [])
         else \<exists>before. typed = before @ [''exit''] \<and> ''exit'' \<notin> set before
              \<and> ce_taken s @ ce_queue s = map text_bytes before"
    and run: "ce_running s \<longrightarrow> ce_input s \<noteq> Ui_notify_all \<and> ce_input s \<noteq> Ui_returned"
      "\<not> ce_running s \<longrightarrow> ce_input s = Ui_notify_all \<or> ce_input s = Ui_returned"
    unfolding ce_order_inv_def by blast
  have to_exit: "takeWhile (\<lambda>m. m \<noteq> ''exit'') (xs @ ys) = xs @ takeWhile (\<lambda>m. m \<noteq> ''exit'') ys"
    if "''exit'' \<notin> set xs" for xs ys :: "string list"
    using that by (intro takeWhile_append2) auto
  show "\<exists>k n. ce_taken s @ ce_queue s @ ce_made (ce_input s)
            = map text_bytes (take k (takeWhile (\<lambda>m. m \<noteq> ''exit'') lines)) @ replicate n []
          \<and> (''exit'' \<in> set lines \<longrightarrow> n = 0)"
  proof (cases "ce_running s \<and> ce_input s \<noteq> Ui_exit")
    case True
    then show ?thesis using c l to_exit [of typed "ce_stdin s"]
      by (intro exI [of _ "length typed"] exI [of _ n]) auto
  next
    case False
    then obtain before where b: "typed = before @ [''exit'']" "''exit'' \<notin> set before"
        "ce_taken s @ ce_queue s = map text_bytes before" using c by (metis (no_types, lifting))
    have "ce_made (ce_input s) = []" using False run by auto
    moreover have "takeWhile (\<lambda>m. m \<noteq> ''exit'') lines = before" using to_exit [OF b(2)] b(1) l by simp
    ultimately show ?thesis using b(3) by (intro exI [of _ "length before"] exI [of _ 0]) simp
  qed
  from inv(2) obtain given rest where "ce_taken s = given @ rest"
      "list_all2 (\<lambda>w m. \<exists>n>0. w = take n m) (ce_wire s) (filter (\<lambda>m. m \<noteq> []) given)"
    unfolding ce_wire_inv_def by blast
  then show "\<exists>j. list_all2 (\<lambda>w m. \<exists>n>0. w = take n m) (ce_wire s) (filter (\<lambda>m. m \<noteq> []) (take j (ce_taken s)))"
    by (intro exI [of _ "length given"]) simp
  show "ce_sender s = Cs_blocked \<and> ce_queue s \<noteq> [] \<longrightarrow> ce_input s = Ui_notify_one"
    using inv(3) by (simp add: ce_sleep_inv_def)
  show "''exit'' \<notin> set lines \<longrightarrow> ce_running s \<and> ce_input s \<noteq> Ui_returned"
    using c l run(1) by (auto split: if_splits)
qed

text \<open>\<open>exit\<close> clears \<open>running\<close> and notifies without the mutex. When that falls between the sender's look at its
  predicate and its sleep, the notification is lost: \<open>main\<close> goes on to stop the client, and nothing but a
  spurious wake-up ends the sender, which the client's \<open>run\<close> joins.\<close>

lemma ce_then:
  assumes "ce_reachable lines s"
  shows "ce_types s t \<Longrightarrow> ce_reachable lines t" and "ce_onSendData s t \<Longrightarrow> ce_reachable lines t"
    and "ce_sends s t \<Longrightarrow> ce_reachable lines t"
  using assms ce_next ce_step.intros by blast+

theorem client_example_stop_hangs:
  "\<exists>s. ce_reachable [''exit''] s \<and> ce_input s = Ui_returned \<and> \<not> ce_running s \<and> ce_sender s = Cs_blocked
     \<and> ce_queue s = [] \<and> (\<forall>t. ce_step s t \<longrightarrow> ce_spurious s t)"
proof -
  let ?s0 = "ce_init [''exit'']"
  let ?s1 = "?s0\<lparr>ce_sender := Cs_call\<rparr>"
  let ?s2 = "?s1\<lparr>ce_sender := Cs_holds\<rparr>"
  let ?s3 = "?s2\<lparr>ce_input := Ui_getline\<rparr>"
  let ?s4 = "?s3\<lparr>ce_stdin := [], ce_input := Ui_exit\<rparr>"
  let ?s5 = "?s4\<lparr>ce_running := False, ce_input := Ui_notify_all\<rparr>"
  let ?s6 = "?s5\<lparr>ce_input := Ui_returned\<rparr>"
  let ?s7 = "?s6\<lparr>ce_sender := Cs_blocked\<rparr>"
  have 1: "ce_reachable [''exit''] ?s1" by (rule ce_then(3) [OF ce_start ce_continue]) (simp add: ce_init_def)
  have 2: "ce_reachable [''exit''] ?s2" by (rule ce_then(2) [OF 1 ce_waits]) (simp_all add: ce_init_def)
  have 3: "ce_reachable [''exit''] ?s3" using ce_then(1) [OF 2 ce_while] by (simp add: ce_init_def)
  have 4: "ce_reachable [''exit''] ?s4" by (rule ce_then(1) [OF 3 ce_exit]) (simp_all add: ce_init_def)
  have 5: "ce_reachable [''exit''] ?s5" by (rule ce_then(1) [OF 4 ce_clears]) simp
  have 6: "ce_reachable [''exit''] ?s6" using ce_then(1) [OF 5 ce_notify_all] by (simp add: ce_init_def)
  have "ce_reachable [''exit''] ?s7" by (rule ce_then(2) [OF 6 ce_blocks]) simp
  moreover have "ce_spurious ?s7 t" if "ce_step ?s7 t" for t
    using that by cases (auto elim!: ce_types.cases ce_onSendData.cases ce_sends.cases)
  ultimately show ?thesis by (intro exI [of _ ?s7]) (simp add: ce_init_def)
qed

text \<open>At the end of the input the thread queues empty messages without end: any number of them, each with its
  buffer on the heap.\<close>

theorem client_example_eof:
  "\<exists>s. ce_reachable [] s \<and> ce_input s = Ui_while \<and> ce_queue s = replicate n [] \<and> ce_live s = n \<and> ce_running s
     \<and> ce_stdin s = [] \<and> ce_sender s = Cs_test"
proof (induction n)
  case 0
  show ?case by (intro exI [of _ "ce_init []"]) (simp add: ce_start, simp add: ce_init_def)
next
  case (Suc n)
  then obtain s where s: "ce_reachable [] s" "ce_input s = Ui_while" "ce_queue s = replicate n []" "ce_live s = n"
      "ce_running s" "ce_stdin s = []" "ce_sender s = Cs_test" by blast
  let ?s1 = "s\<lparr>ce_input := Ui_getline\<rparr>"
  let ?s2 = "?s1\<lparr>ce_input := Ui_made [], ce_live := Suc n\<rparr>"
  let ?s3 = "?s2\<lparr>ce_queue := replicate (Suc n) [], ce_input := Ui_notify_one\<rparr>"
  let ?s4 = "?s3\<lparr>ce_input := Ui_while, ce_sender := Cs_test\<rparr>"
  have 1: "ce_reachable [] ?s1" using ce_then(1) [OF s(1) ce_while] s by simp
  have 2: "ce_reachable [] ?s2" using ce_then(1) [OF 1 ce_eof] s by simp
  have 3: "ce_reachable [] ?s3" using ce_then(1) [OF 2 ce_push [where data = "[]"]] s by (simp add: replicate_append_same)
  have "ce_reachable [] ?s4" using ce_then(1) [OF 3 ce_notify_one] s by simp
  then show ?case using s by (intro exI [of _ ?s4]) simp
qed

text \<open>A message that is empty, which is what pressing ENTER makes, is never freed, nor is one whose \<open>write\<close>
  failed.\<close>

theorem client_example_leaks:
  assumes "ce_reachable lines s" and "ce_queue s = []" and "ce_made (ce_input s) = []" and "ce_got (ce_sender s) = []"
  shows "ce_live s = length (filter (\<lambda>m. m = []) (ce_taken s)) + (if ce_failed s \<and> last (ce_taken s) \<noteq> [] then 1 else 0)"
proof -
  have "ce_wire_inv s" using ce_reachable_inv [OF assms(1)] by simp
  then obtain given lost where "ce_taken s = given @ lost" "length lost = (if ce_failed s then 1 else 0)"
      "ce_live s = length lost + length (filter (\<lambda>m. m = []) given)"
    using assms(2-4) unfolding ce_wire_inv_def by auto
  then show ?thesis by (cases lost) (auto split: if_splits)
qed

end
