(* ===== verification/SmallMains.thy ===== *)
theory SmallMains
  imports ExampleMains HttpClientProofs GrpcExamples
begin

text \<open>
  The example programs that are left: \<open>baseWorkerExample_V2.cpp\<close>, \<open>serverTest_V2.cpp\<close>, \<open>serverTest.cpp\<close> and
  \<open>httpClientExample.cpp\<close> of \<open>examples/\<close>, and \<open>main\<close> of \<open>examples/gRPC/gRPCServerExample1.cpp\<close>. What the threads of
  a worker do beside \<open>main\<close> is an argument.
\<close>

section \<open>The plain worker\<close>

text \<open>\<open>m_heartbeatCount\<close> is an atomic \<open>int\<close>, whose increment wraps. The console is the list of its lines.\<close>

record example_worker =
  ew_base :: base_worker
  ew_heartbeatCount :: "32 word"
  ew_console :: "string list"

definition ew_new :: "int \<Rightarrow> example_worker" where
  "ew_new now = \<lparr>ew_base = bw_new ''ExampleWorker'' now, ew_heartbeatCount = 0, ew_console = []\<rparr>"

definition ew_print :: "string \<Rightarrow> example_worker \<Rightarrow> example_worker" where
  "ew_print line s = s\<lparr>ew_console := ew_console s @ [line]\<rparr>"

definition int_text :: "int \<Rightarrow> string" where
  "int_text i = (if i < 0 then CHR ''-'' # to_string (nat (- i)) else to_string (nat i))"

definition ew_heartbeat_line :: "32 word \<Rightarrow> string" where
  "ew_heartbeat_line n = ''Heartbeat #'' @ int_text (sint n)"

definition ew_preRun :: "example_worker \<Rightarrow> bool \<times> example_worker" where
  "ew_preRun s = (True, ew_print ''Worker preRun()'' s)"

text \<open>\<open>run\<close>, turn by turn: what the other threads do before the turn's look at the stop flag, and the time of the
  heartbeat. \<open>None\<close> when it has not returned after the turns given.\<close>

fun ew_run :: "((example_worker \<Rightarrow> example_worker) \<times> int) list \<Rightarrow> example_worker \<Rightarrow> example_worker option" where
  "ew_run [] s = None"
| "ew_run ((others, now) # turns) s0 =
     (let s = others s0 in
      if \<not> continueRunning (ew_base s) then Some s
      else
        let s1 = s\<lparr>ew_heartbeatCount := ew_heartbeatCount s + 1, ew_base := updateHeartbeat 1000000 now (ew_base s)\<rparr>
        in ew_run turns (ew_print (ew_heartbeat_line (ew_heartbeatCount s1)) s1))"

definition ew_stopTriggered :: "example_worker \<Rightarrow> example_worker" where
  "ew_stopTriggered s = ew_print ''Stop requested'' s"

definition ew_requestStop :: "example_worker \<Rightarrow> example_worker" where
  "ew_requestStop s =
     (case requestStop (ew_base s) of
        (shouldTriggerStop, b) \<Rightarrow>
          (if shouldTriggerStop then ew_stopTriggered (s\<lparr>ew_base := b\<rparr>) else s\<lparr>ew_base := b\<rparr>))"

interpretation ew_stop: stoppable ew_requestStop ew_base ew_base_update
  by unfold_locales (auto simp: ew_requestStop_def ew_stopTriggered_def ew_print_def split: prod.splits)

text \<open>The class has no destructor of its own: its members go first, and then the base class stops and joins,
  when the hook is the base class's, which does nothing.\<close>

definition ew_destroy :: "base_worker wake list \<Rightarrow> example_worker \<Rightarrow> example_worker option" where
  "ew_destroy wakes s = map_option (\<lambda>b. s\<lparr>ew_base := b\<rparr>) (bw_destroy wakes (ew_base s))"

definition ew_summary :: "bool \<times> example_worker \<Rightarrow> bool \<times> example_worker" where
  "ew_summary r =
     (case r of
        (False, s) \<Rightarrow> (False, s)
      | (True, s) \<Rightarrow>
          (True, ew_print (''Worker stopped after '' @ int_text (sint (ew_heartbeatCount s)) @ '' heartbeats'') s))"

definition ew_main ::
  "nat option \<Rightarrow> int \<Rightarrow> example_worker wake list \<Rightarrow> (example_worker \<Rightarrow> example_worker) \<Rightarrow> example_worker wake list
     \<Rightarrow> base_worker wake list \<Rightarrow> (int \<times> example_worker) option" where
  "ew_main created now startWakes meanwhile stopWakes joinWakes =
     server_main (startThread_of ew_base ew_base_update created now 1000 startWakes) meanwhile
       (\<lambda>s. map_option ew_summary (stopThread_of ew_requestStop ew_base ew_base_update 2000 stopWakes s))
       (ew_destroy joinWakes) (ew_new now)"

text \<open>One turn, and some of them.\<close>

definition ew_beat :: "int \<Rightarrow> example_worker \<Rightarrow> example_worker" where
  "ew_beat now s = ew_print (ew_heartbeat_line (ew_heartbeatCount s + 1))
     (s\<lparr>ew_heartbeatCount := ew_heartbeatCount s + 1, ew_base := updateHeartbeat 1000000 now (ew_base s)\<rparr>)"

lemma ew_beat_fields [simp]:
  "ew_heartbeatCount (ew_beat now s) = ew_heartbeatCount s + 1"
  "ew_console (ew_beat now s) = ew_console s @ [ew_heartbeat_line (ew_heartbeatCount s + 1)]"
  "continueRunning (ew_base (ew_beat now s)) = continueRunning (ew_base s)"
  by (simp_all add: ew_beat_def ew_print_def continueRunning_def stopRequested_def updateHeartbeat_def)

lemma ew_beats_fields:
  "ew_heartbeatCount (fold ew_beat nows s) = ew_heartbeatCount s + of_nat (length nows)
   \<and> ew_console (fold ew_beat nows s)
       = ew_console s @ map (\<lambda>i. ew_heartbeat_line (ew_heartbeatCount s + of_nat i)) [1..<Suc (length nows)]"
proof (induction nows rule: rev_induct)
  case (snoc now nows)
  then show ?case by (simp add: add.assoc add.commute [of 1])
qed simp

text \<open>Undisturbed for some turns and then stopped, \<open>run\<close> prints one numbered line for each turn, in order, and
  returns.\<close>

theorem base_worker_example_prints:
  assumes "continueRunning (ew_base s)" and "\<not> continueRunning (ew_base (stop (fold ew_beat nows s)))"
  shows "ew_run (map (Pair id) nows @ (stop, now) # turns) s = Some (stop (fold ew_beat nows s))
     \<and> ew_console (fold ew_beat nows s)
         = ew_console s @ map (\<lambda>i. ew_heartbeat_line (ew_heartbeatCount s + of_nat i)) [1..<Suc (length nows)]"
proof
  show "ew_run (map (Pair id) nows @ (stop, now) # turns) s = Some (stop (fold ew_beat nows s))"
    using assms
  proof (induction nows arbitrary: s)
    case (Cons t ts)
    then show ?case by (simp add: Let_def flip: ew_beat_def)
  qed (simp add: Let_def)
qed (simp only: ew_beats_fields)

section \<open>Servers of both generations\<close>

text \<open>An exit code of 0 says that both calls were answered with true.\<close>

lemma server_main_code:
  "server_main start meanwhile stop destroy server = Some (0, s) \<Longrightarrow>
     \<exists>u v. start server = Some (True, u) \<and> stop (meanwhile u) = Some (True, v) \<and> destroy v = Some s"
  by (auto simp: server_main_def split: option.splits bool.splits)

text \<open>The line that the callback of \<open>serverTest_V2.cpp\<close> prints, and its \<open>main\<close>.\<close>

definition sv_received :: "byte list \<Rightarrow> client_info \<Rightarrow> string" where
  "sv_received data client =
     ''Received from '' @ ci_address client @ '':'' @ to_string (unat (ci_port client)) @ '' -> '' @ bytes_text data"

definition sv_main ::
  "'w ts_env \<Rightarrow> nat option \<Rightarrow> int \<Rightarrow> (tcp_server \<times> 'w) wake list \<Rightarrow> (tcp_server \<times> 'w \<Rightarrow> tcp_server \<times> 'w)
     \<Rightarrow> (tcp_server \<times> 'w) wake list \<Rightarrow> (tcp_server \<times> 'w) wake list \<Rightarrow> 'w \<Rightarrow> (int \<times> tcp_server \<times> 'w) option" where
  "sv_main E created now startWakes meanwhile stopWakes destroyWakes w =
     server_main
       (startThread_of (\<lambda>(s, w). ts_base s) (\<lambda>f (s, w). (ts_base_update f s, w)) created now 5000 startWakes)
       meanwhile (ts_stopThread (se_kernel E) 5000 stopWakes) (ts_destroy E destroyWakes)
       (ts_new ''TestTCPServer_V2'' 8080 5 now, w)"

text \<open>The two programs answer 0 only when the worker had been started, and had ended and was joined before the
  object was destroyed.\<close>

theorem worker_and_server_example_exit:
  "(ew_main created now ws1 f ws2 js = Some (0, s) \<longrightarrow>
      created \<noteq> None \<and> stopped (ew_base s) \<and> m_thread (ew_base s) = None)
   \<and> (sv_main E created now xs1 g xs2 xs3 w = Some (0, t) \<longrightarrow>
      created \<noteq> None \<and> (\<exists>u. stopped (ts_base (fst u)) \<and> m_thread (ts_base (fst u)) = None \<and> ts_destroy E xs3 u = Some t))"
proof (intro conjI impI)
  assume "ew_main created now ws1 f ws2 js = Some (0, s)"
  from server_main_code [OF this [unfolded ew_main_def]] obtain u v where
    u: "startThread_of ew_base ew_base_update created now 1000 ws1 (ew_new now) = Some (True, u)"
    and v: "map_option ew_summary (stopThread_of ew_requestStop ew_base ew_base_update 2000 ws2 (f u)) = Some (True, v)"
    and s: "ew_destroy js v = Some s" by blast
  show "created \<noteq> None" using u ew_stop.start_of_answer [where created = created and now = now and t = 1000 and wakes = ws1 and s = "ew_new now"] by simp
  obtain v0 where "stopThread_of ew_requestStop ew_base ew_base_update 2000 ws2 (f u) = Some (True, v0)"
      and "ew_base v = ew_base v0"
    using v by (auto simp: ew_summary_def ew_print_def split: bool.splits)
  then have "stopped (ew_base v) \<and> m_thread (ew_base v) = None"
    using ew_stop.stop_contract [where t = 2000 and wakes = ws2 and s = "f u"] by (simp add: stop_answer_def)
  then show "stopped (ew_base s)" "m_thread (ew_base s) = None"
    using s by (auto simp: ew_destroy_def bw_destroy_def joinThread_def takeThread_def requestStop_def stopped_def
        getState_def Let_def)
next
  assume "sv_main E created now xs1 g xs2 xs3 w = Some (0, t)"
  from server_main_code [OF this [unfolded sv_main_def]] obtain u v where
    u: "startThread_of (\<lambda>(s, w). ts_base s) (\<lambda>f (s, w). (ts_base_update f s, w)) created now 5000 xs1
        (ts_new ''TestTCPServer_V2'' 8080 5 now, w) = Some (True, u)"
    and v: "ts_stopThread (se_kernel E) 5000 xs2 (g u) = Some (True, v)" and t: "ts_destroy E xs3 v = Some t" by blast
  show "created \<noteq> None"
    using u ts_stop.start_of_answer [where created = created and now = now and t = 5000 and wakes = xs1
        and s = "(ts_new ''TestTCPServer_V2'' 8080 5 now, w)"] by simp
  have "stop_answer (\<lambda>(s, w). ts_base s) xs2 (ts_stopThread (se_kernel E) 5000 xs2 (g u))"
    unfolding ts_stopThread_def by (rule ts_stop.stop_contract) simp
  then show "\<exists>u. stopped (ts_base (fst u)) \<and> m_thread (ts_base (fst u)) = None \<and> ts_destroy E xs3 u = Some t"
    using v t by (intro exI [of _ v]) (simp add: stop_answer_def case_prod_beta)
qed

text \<open>\<open>serverTest.cpp\<close>, the first generation: \<open>startThread\<close> and \<open>stopThread\<close> are of the base class that is not in
  the repository. A stop that fails is reported, and the program answers 0 all the same.\<close>

definition lx_main :: "('s \<Rightarrow> bool \<times> 's) \<Rightarrow> ('s \<Rightarrow> 's) \<Rightarrow> ('s \<Rightarrow> bool \<times> 's) \<Rightarrow> ('s \<Rightarrow> 's) \<Rightarrow> 's \<Rightarrow> int \<times> 's \<times> string list" where
  "lx_main start meanwhile stop destroy server =
     (case start server of
        (False, s) \<Rightarrow> (1, destroy s, [''Failed to start server''])
      | (True, s) \<Rightarrow>
          (case stop (meanwhile s) of
             (ok, s1) \<Rightarrow> (0, destroy s1, [''Server started successfully'',
                if ok then ''Server stopped successfully'' else ''Failed to stop server''])))"

theorem first_generation_exit_ignores_stop:
  assumes "start server = (True, s)" and "stop (meanwhile s) = (False, s1)"
  shows "fst (lx_main start meanwhile stop destroy server) = 0"
  using assms by (simp add: lx_main_def)

section \<open>The HTTP client\<close>

text \<open>\<open>main\<close> on its arguments, the program's name first: the exit code, the lines on the two outputs.\<close>

definition hx_request :: "string list \<Rightarrow> hc_Request" where
  "hx_request argv = hc_request
     \<lparr>hq_url := (if 1 < length argv then argv ! 1 else ''https://example.com/''), hq_accept := ''*/*'',
      hq_userAgent := ''HotBits/ThreadComponent/httpClientExample''\<rparr>"

definition hx_main :: "curl \<Rightarrow> string list \<Rightarrow> curl_global \<Rightarrow> (int \<times> string list \<times> string list) \<times> curl_global" where
  "hx_main cu argv g =
     (case perform cu (hx_request argv) g of
        (response, g') \<Rightarrow>
          (let out = [''URL: '' @ hq_url (hx_request argv), ''HTTP status: '' @ int_text (hp_statusCode response),
                ''curl code: '' @ int_text (hp_curlCode response), ''Elapsed (ms): '' @ int_text (hp_elapsed response)]
           in if \<not> hc_ok response then ((1, out, [''Request failed: '' @ hp_errorMessage response]), g')
              else ((0, out @ [''Body preview:'', take (min (length (hp_body response)) 300) (hp_body response)], []), g')))"

text \<open>The exit code says whether the request went through; an empty argument is refused before anything is sent.\<close>

theorem http_client_example_exit:
  "fst (fst (hx_main cu argv g)) = (if hc_ok (fst (perform cu (hx_request argv) g)) then 0 else 1)"
  "hx_main cu [name, []] g
     = ((1, [''URL: '', ''HTTP status: 0'', ''curl code: 3'', ''Elapsed (ms): 0''],
         [''Request failed: Request URL is empty'']), g)"
proof -
  show "fst (fst (hx_main cu argv g)) = (if hc_ok (fst (perform cu (hx_request argv) g)) then 0 else 1)"
    by (simp add: hx_main_def Let_def split: prod.splits)
  have "to_string 0 = ''0''" "to_string 3 = ''3''" by code_simp+
  then show "hx_main cu [name, []] g
     = ((1, [''URL: '', ''HTTP status: 0'', ''curl code: 3'', ''Elapsed (ms): 0''],
         [''Request failed: Request URL is empty'']), g)"
    by (simp add: hx_main_def hx_request_def hc_request_def perform_def hc_response_def hc_ok_def int_text_def
        CURLE_URL_MALFORMAT_def CURLE_OK_def)
qed

section \<open>The synchronous gRPC server\<close>

text \<open>\<open>main\<close> of \<open>gRPCServerExample1.cpp\<close> with the signal handler and the thread in \<open>Wait\<close>. Of gRPC: \<open>BuildAndStart\<close>
  gives a server or null, and \<open>Wait\<close> returns once \<open>Shutdown\<close> was called.\<close>

datatype sm_main = Sm_build | Sm_spawn | Sm_polling | Sm_shutdown | Sm_join | Sm_exited int

datatype sm_waiter = Sw_none | Sw_waits | Sw_over

record sync_main =
  sm_signal :: bool
  sm_main :: sm_main
  sm_waiter :: sm_waiter
  sm_shut :: bool

definition sm_init :: sync_main where
  "sm_init = \<lparr>sm_signal = False, sm_main = Sm_build, sm_waiter = Sw_none, sm_shut = False\<rparr>"

inductive sm_steps :: "sync_main \<Rightarrow> sync_main \<Rightarrow> bool" where
  sm_started: "sm_main s = Sm_build \<Longrightarrow> sm_steps s (s\<lparr>sm_main := Sm_spawn\<rparr>)"
| sm_bind_failed: "sm_main s = Sm_build \<Longrightarrow> sm_steps s (s\<lparr>sm_main := Sm_exited 1\<rparr>)"
| sm_spawns: "sm_main s = Sm_spawn \<Longrightarrow> sm_steps s (s\<lparr>sm_main := Sm_polling, sm_waiter := Sw_waits\<rparr>)"
| sm_sees: "sm_main s = Sm_polling \<Longrightarrow> sm_signal s \<Longrightarrow> sm_steps s (s\<lparr>sm_main := Sm_shutdown\<rparr>)"
| sm_Shutdown: "sm_main s = Sm_shutdown \<Longrightarrow> sm_steps s (s\<lparr>sm_main := Sm_join, sm_shut := True\<rparr>)"
| sm_Wait_returns: "sm_waiter s = Sw_waits \<Longrightarrow> sm_shut s \<Longrightarrow> sm_steps s (s\<lparr>sm_waiter := Sw_over\<rparr>)"
| sm_joined: "sm_main s = Sm_join \<Longrightarrow> sm_waiter s = Sw_over \<Longrightarrow> sm_steps s (s\<lparr>sm_main := Sm_exited 0\<rparr>)"

inductive sm_reachable :: "sync_main \<Rightarrow> bool" where
  sm_start: "sm_reachable sm_init"
| sm_next: "sm_reachable s \<Longrightarrow> sm_steps s t \<Longrightarrow> sm_reachable t"
| sm_SignalHandler: "sm_reachable s \<Longrightarrow> sm_reachable (s\<lparr>sm_signal := True\<rparr>)"

definition sm_inv :: "sync_main \<Rightarrow> bool" where
  "sm_inv s \<longleftrightarrow>
     (case sm_main s of
        Sm_build \<Rightarrow> sm_waiter s = Sw_none \<and> \<not> sm_shut s
      | Sm_spawn \<Rightarrow> sm_waiter s = Sw_none \<and> \<not> sm_shut s
      | Sm_polling \<Rightarrow> sm_waiter s = Sw_waits \<and> \<not> sm_shut s
      | Sm_shutdown \<Rightarrow> sm_waiter s = Sw_waits \<and> \<not> sm_shut s \<and> sm_signal s
      | Sm_join \<Rightarrow> sm_waiter s \<noteq> Sw_none \<and> sm_shut s \<and> sm_signal s
      | Sm_exited code \<Rightarrow>
          if code = 0 then sm_waiter s = Sw_over \<and> sm_signal s else code = 1 \<and> sm_waiter s = Sw_none)"

lemma sm_reachable_inv: "sm_reachable s \<Longrightarrow> sm_inv s"
proof (induction rule: sm_reachable.induct)
  case (sm_next s t)
  from sm_next(2,3) show ?case by cases (auto simp: sm_inv_def split: sm_main.splits if_splits)
qed (auto simp: sm_inv_def sm_init_def split: sm_main.splits)

fun sm_left :: "sync_main \<Rightarrow> nat" where
  "sm_left s =
     (case sm_main s of Sm_build \<Rightarrow> 5 | Sm_spawn \<Rightarrow> 4 | Sm_polling \<Rightarrow> 3 | Sm_shutdown \<Rightarrow> 2 | Sm_join \<Rightarrow> 1 | Sm_exited code \<Rightarrow> 0)
     + (if sm_waiter s = Sw_over then 0 else 1)"

text \<open>Whenever the signal comes, before the server is built included, \<open>main\<close> gets to its end: it is never stuck,
  each step brings it nearer, and it ends with 0 only after a signal, with the waiting thread joined, or with 1
  and no such thread. The hang of the asynchronous server is not here.\<close>

theorem sync_main_ends:
  assumes "sm_reachable s"
  shows "(sm_signal s \<and> (\<forall>code. sm_main s \<noteq> Sm_exited code) \<longrightarrow> (\<exists>t. sm_steps s t))
     \<and> (\<forall>t. sm_steps s t \<longrightarrow> sm_left t < sm_left s)
     \<and> (\<forall>code. sm_main s = Sm_exited code \<longrightarrow>
          (if code = 0 then sm_signal s \<and> sm_waiter s = Sw_over else code = 1 \<and> sm_waiter s = Sw_none))"
proof (intro conjI allI impI)
  have inv: "sm_inv s" by (rule sm_reachable_inv [OF assms])
  show "\<exists>t. sm_steps s t" if a: "sm_signal s \<and> (\<forall>code. sm_main s \<noteq> Sm_exited code)"
  proof (cases "sm_main s")
    case Sm_join
    then show ?thesis using inv by (cases "sm_waiter s") (auto simp: sm_inv_def intro: sm_steps.intros)
  qed (use a in \<open>auto intro: sm_steps.intros\<close>)
  show "sm_left t < sm_left s" if "sm_steps s t" for t using that inv by cases (auto simp: sm_inv_def)
  show "if code = 0 then sm_signal s \<and> sm_waiter s = Sw_over else code = 1 \<and> sm_waiter s = Sw_none"
    if "sm_main s = Sm_exited code" for code
    using inv that by (simp add: sm_inv_def split: if_splits)
qed

end
