(* ===== verification/Spec2Isabelle.thy ===== *)
theory Spec2Isabelle
  imports ThreadQueue SimpleContainer BaseWorkerThreads TcpSyncClientProofs TcpClientThreads
    TcpServerProofs HttpServerProofs HttpsServerProofs HttpExchange HttpServerV2Proofs HttpsServerV2
    SimpleContainerThreads ContainerTests AsyncServer LegacyTcpThreads
    Destruction TcpExchange HttpServerTypes HttpServerThreads HttpExamples ExamplePrograms
    GrpcWorkerThreads GrpcExamples TcpServerStops HttpServerV2Threads LegacyExample SmallMains
begin

text \<open>
  A model of ThreadComponent, a C++17 library of background workers, thread-safe containers, TCP and HTTP
  clients and servers, and a gRPC worker.

  \<^bold>\<open>The program.\<close> A worker derives from \<open>cBaseWorker_V2\<close>, which owns a thread, a lifecycle state, a stop
  flag and a heartbeat, and calls the virtual hooks \<open>preRun\<close>, \<open>run\<close> and \<open>stopTriggered\<close>. The TCP client and
  server, the HTTP servers and the gRPC worker are such workers; \<open>cTCPSyncClient_V2\<close> and
  \<open>cHTTPClient\<close> block their caller instead; \<open>cThreadQueue_V2\<close> and \<open>simple_container_V2\<close> pass items between
  threads.

  \<^bold>\<open>Theories and sources.\<close>
  \<^item> \<open>Prelude\<close>: word types, C locale character classes, \<open>std::to_string\<close>, list lemmas. \<open>CondVar\<close>:
    \<open>std::condition_variable::wait_for\<close>. \<open>Posix\<close>: the socket calls as a parameter, their documented laws,
    and a scripted kernel that has them, for the witnesses.
  \<^item> \<open>Contracts\<close>: the interfaces as locales. \<open>fifo\<close> (enqueue, dequeue) is interpreted by \<open>cThreadQueue_V2\<close>
    by \<open>simple_container_V2\<close> and by the outbound queue of \<open>TCPClient_V2\<close>; \<open>start_latch\<close> (reset, resolve)
    by the four HTTP servers. \<open>StartContract\<close>: \<open>latched_server\<close>, which extends it by the start of a
    worker that is waited for, interpreted by the four servers too.
  \<^item> \<open>ThreadQueue\<close>: \<open>cThreadQueue_V2.h\<close>. \<open>SimpleContainer\<close>, \<open>SimpleContainerThreads\<close>:
    \<open>simple_container_V2.h\<close>, sequentially and as interleaved steps (\<open>sct_step\<close>). \<open>ContainerTests\<close>: its tests,
    \<open>examples/cTestSimpleContainer_V2.cpp\<close>, run on the model.
  \<^item> \<open>BaseWorker\<close> and \<open>BaseWorkerThreads\<close>: \<open>cBaseWorker_V2.h\<close>, its methods one critical section at a time,
    and the same sections interleaved by any number of threads (\<open>bt_step\<close>).
  \<^item> \<open>TcpSyncClient\<close>, \<open>TcpSyncClientProofs\<close>: \<open>cTCPSyncClient_V2.h\<close> and \<open>scope_exit.h\<close>.
  \<^item> \<open>TcpClient\<close>, \<open>TcpClientThreads\<close>: \<open>cTCPClient_V2.h\<close>, sequentially and as interleaved steps
    (\<open>cl_step\<close>). \<open>TcpServer\<close>, \<open>TcpServerProofs\<close>: \<open>cTCPServer_V2.h\<close>; \<open>TcpServerThreads\<close>, \<open>TcpServerStops\<close>: its
    first run with its handler threads, stopping threads and the rest of the program beside it (\<open>tt_step\<close>).
    \<open>LegacyTcp\<close>, \<open>LegacyTcpThreads\<close>:
    \<open>cTCPClient.h\<close> and \<open>cTCPServer.h\<close>, the first generation, and the threads of its client (\<open>lr_step\<close>);
    \<open>LegacyExample\<close>: \<open>examples/clientTest.cpp\<close>, its input thread and its sender (\<open>ce_step\<close>).
    \<open>TcpExchange\<close>: the synchronous and the threaded client against a session of the server.
  \<^item> \<open>HttpText\<close>, \<open>HttpServer\<close>, \<open>HttpServerProofs\<close>: \<open>cHTTPServer.h\<close>, \<open>cHTTPServer.cpp\<close>.
    \<open>HttpServerTypes\<close>: what holds of the object between any two operations (\<open>http_server_wf\<close>).
    \<open>HttpServerThreads\<close>: one start with all the threads that can take part in it (\<open>hl_step\<close>). \<open>HttpsServer\<close>,
    \<open>HttpsServerProofs\<close>: \<open>cHTTPSServer.h\<close>, \<open>cHTTPSServer.cpp\<close>.
  \<^item> \<open>HttpServerV2\<close>, \<open>HttpServerV2Proofs\<close>: \<open>cHTTPServer_V2.h\<close>, \<open>cHTTPServer_V2.cpp\<close>; \<open>HttpServerV2Threads\<close>: one start
    with the worker, the threads of its context and everybody that stops it (\<open>vt_step\<close>). \<open>HttpsServerV2\<close>:
    \<open>cHTTPSServer_V2.h\<close>, \<open>cHTTPSServer_V2.cpp\<close>, as an extension of the record.
  \<^item> \<open>HttpClient\<close>, \<open>HttpClientProofs\<close>: \<open>cHTTPClient.h\<close>, \<open>cHTTPClient.cpp\<close>. \<open>HttpExchange\<close>: client and server
    together. \<open>HttpExamples\<close>: \<open>examples/httpServerTest.cpp\<close> and \<open>examples/httpsServerTest.cpp\<close>, their
    routes as the client sees them and their exit codes.
  \<^item> \<open>GrpcWorker\<close>, \<open>GrpcWorkerProofs\<close>: \<open>cGenericGrpcWorker.h\<close>, \<open>cGrpcServerWorker.h\<close>. \<open>GrpcWorkerThreads\<close>: the
    first run of the worker with stopping threads and gRPC beside it (\<open>gt_step\<close>). \<open>AsyncServer\<close>:
    \<open>examples/gRPC/gRPCAsyServerExample1.cpp\<close>, the same service without a worker, and its \<open>main\<close> (\<open>am_step\<close>).
    \<open>GrpcExamples\<close>: the other programs of \<open>examples/gRPC\<close>, from the sender to the worker and back.
  \<^item> \<open>ExamplePrograms\<close>: \<open>examples/threadQueueExample_V2.cpp\<close> (\<open>qe_step\<close>) and
    \<open>examples/simpleContainerExample_V2.cpp\<close>. \<open>ExampleMains\<close>: \<open>main\<close> of \<open>clientTest_V2.cpp\<close>,
    \<open>httpServerTest_V2.cpp\<close>, \<open>httpsServerTest_V2.cpp\<close> and \<open>tcpSyncClientExample_V2.cpp\<close>. \<open>SmallMains\<close>:
    \<open>baseWorkerExample_V2.cpp\<close> with its worker, \<open>serverTest_V2.cpp\<close>, \<open>serverTest.cpp\<close>, \<open>httpClientExample.cpp\<close>, and
    \<open>main\<close> of \<open>gRPCServerExample1.cpp\<close> (\<open>sm_steps\<close>).
  \<^item> \<open>Destruction\<close>: \<open>startThread\<close>, \<open>stopThread\<close> and \<open>stopThreadAndJoin\<close> on the derived workers, and the
    seven destructors; the contract of their answers is the locale \<open>stoppable\<close>, interpreted by each.

  A class is a record with its data members, a method a function on it with the source's name (with a
  prefix where several classes share one: \<open>tq_\<close>, \<open>sc_\<close>, \<open>bw_\<close>, \<open>sy_\<close>, \<open>tc_\<close>, \<open>ts_\<close>, \<open>tt_\<close>, \<open>ht_\<close>, \<open>hs_\<close>,
  \<open>hc_\<close>, \<open>v2_\<close>, \<open>vt_\<close>, \<open>w2_\<close>, \<open>gw_\<close>, \<open>gt_\<close>, \<open>as_\<close>, \<open>lc_\<close>, \<open>ls_\<close>). A C++ exception is a value of \<open>cpp_exn\<close>, an outcome a sum or an enumeration
  of the source. What a mutex protects is one function; what other threads do between two such
  functions is an explicit argument (wake-ups, rely conditions) or another step of a step relation.

  \<^bold>\<open>What is shown.\<close> Containers: first in, first out in every interleaving, exact lock-free sizes, no item
  lost or doubled by a selective grab, no waiter asleep past an item when items come one at a time, and
  the waiter that sleeps on when they come in a batch. Worker: one thread at a time, a stop request is never lost, the
  order of the states and its one exception, every run ends; what a destructor leaves behind. TCP: all bytes in order or an error,
  delimiters found, bounds, no descriptor leaked, no lost wake-up, and what one end sends is what the other end's
  callback is given; in every interleaving of the server's threads each descriptor has one owner and a stop
  comes to its end, and the three runs in which the reuse of a number or a stop that is too early break
  it. HTTP servers: an object that stays well-formed, framing, exactly one
  answer per request, and that answer as the client reads it, routes served, starts resolved in every
  interleaving; the HTTPS server is a
  simulation of the HTTP server that never serves without its certificate. HTTP client: the last head
  wins, options as asked, no failure reported as success; and an answer round-trips between server and
  client. Wrapper servers: the borrowed error handler is given back, and what happens when it is not; in every
  interleaving a stop gets to the context, a stopped run ends, and what the start leaves, with the one start that
  nobody answers.
  gRPC: no dead call is used, one answer per call, one listener, the drain after a stop; in every
  interleaving the queue is shut down only when no call is in progress, and a stop comes to its end
  unless the business logic asked for it; the three stops that go wrong; the engine
  refines the plain server of the examples, whose \<open>main\<close> can hang.

  \<^bold>\<open>Bounds and fuel.\<close> Loops that wait for the outside world take fuel and answer \<open>None\<close> when it is used up;
  the theorems on them say how much is enough (a turn per byte to come and per signal) and prove that
  the loop then returns. Loops of the code that count are structural or have a measure. The one call
  that can recurse for ever, the error handler of the wrapper servers, is a partial function. Sizes of
  things in memory are natural numbers; ports, bytes and the callback sizes of curl are words.

  \<^bold>\<open>Not modelled.\<close> The third-party libraries (Simple-Web-Server, asio, libcurl, gRPC, the kernel) are
  parameters, with documented laws where the code relies on them. Left out: memory exhaustion outside
  thread creation and curl's header list; weak memory orders (every access is sequentially consistent);
  the first generation's base class, which is not in the repository (what \<open>continueRunning\<close> answers is
  a parameter); \<open>examples/cTestSimpleContainer.cpp\<close>, which tests a first-generation container that is not in the
  repository; the generated protobuf code and the build files.
\<close>

section \<open>Starting any of the servers\<close>

text \<open>C31: The four HTTP servers agree on what the answer of \<open>startThread\<close> means. For each: it returns as soon
  as its timeout fires; a waiting call that answers true leaves the start reported as a success, and it
  never answers true when no thread was made; and called while the server runs it answers false, but
  not without effect: the worker goes on, and yet the port reads 0, the last error is gone and the
  latch is armed again.\<close>

theorem servers_startThread_answer:
  "(case ht_startThread created now timeout wakes s of
      None \<Rightarrow> \<not> (\<exists>x \<in> set wakes. is_timeout x)
    | Some (ok, s') \<Rightarrow>
        (if ok \<and> timeout \<noteq> 0 then hi_startResolved s' \<and> hi_startSucceeded s' else True)
        \<and> (if created = None then \<not> ok else True)
        \<and> (if isRunning (hb_base s)
           then \<not> ok \<and> hb_base s' = hb_base s \<and> \<not> hi_startResolved s' \<and> hi_listeningPort s' = 0 \<and> hi_lastError s' = []
           else True))
   \<and> (case hs_startThread created now timeout wakes_s t of
      None \<Rightarrow> \<not> (\<exists>x \<in> set wakes_s. is_timeout x)
    | Some (ok, t') \<Rightarrow>
        (if ok \<and> timeout \<noteq> 0 then hz_startResolved t' \<and> hz_startSucceeded t' else True)
        \<and> (if created = None then \<not> ok else True)
        \<and> (if isRunning (hz_base t)
           then \<not> ok \<and> hz_base t' = hz_base t \<and> \<not> hz_startResolved t' \<and> hz_listeningPort t' = 0 \<and> hz_lastError t' = []
           else True))
   \<and> (case v2_startThread created now timeout wakes_v (u :: http_server_v2) of
      None \<Rightarrow> \<not> (\<exists>x \<in> set wakes_v. is_timeout x)
    | Some (ok, u') \<Rightarrow>
        (if ok \<and> timeout \<noteq> 0 then v2_startResolved u' \<and> v2_startSucceeded u' else True)
        \<and> (if created = None then \<not> ok else True)
        \<and> (if isRunning (v2_base u)
           then \<not> ok \<and> v2_base u' = v2_base u \<and> \<not> v2_startResolved u' \<and> v2_listeningPort u' = 0 \<and> v2_lastError u' = []
           else True))
   \<and> (case w2_startThread created now timeout wakes_w w of
      None \<Rightarrow> \<not> (\<exists>x \<in> set wakes_w. is_timeout x)
    | Some (ok, w') \<Rightarrow>
        (if ok \<and> timeout \<noteq> 0 then v2_startResolved w' \<and> v2_startSucceeded w' else True)
        \<and> (if created = None then \<not> ok else True)
        \<and> (if isRunning (v2_base w)
           then \<not> ok \<and> v2_base w' = v2_base w \<and> \<not> v2_startResolved w' \<and> v2_listeningPort w' = 0 \<and> v2_lastError w' = []
           else True))"
  by (intro conjI ht_start.start_contract hs_start.start_contract v2_start.start_contract
      w2_start.start_contract)

end
